(* ===== verification/Edith_Prelude.thy ===== *)
theory Edith_Prelude
  imports Main "HOL-Library.List_Lexorder" "HOL-Library.Char_ord"
    "HOL-Library.Product_Lexorder" "HOL-Library.Sublist" "HOL-Library.Multiset"
begin

text \<open>
  Shared vocabulary of the development: the Python string operations the code uses on
  paths and names, the error monad every fallible operation returns in, association
  lists for insertion-ordered dictionaries, and traces of a transition relation.

  A Python string is a list of code points; \<open>string\<close> is a list of the code points 0 to
  255, so every statement is about Latin-1 text. \<open>sorted()\<close> on strings is the
  lexicographic order of code points (\<open>List_Lexorder\<close> over \<open>Char_ord\<close>), and Python's
  stable \<open>sorted(key=)\<close> is \<open>sort_key\<close>.
\<close>

named_theorems py_simps \<open>evaluation rules for the string operations\<close>
named_theorems res_simps \<open>rules for the error monad\<close>

section \<open>Errors as values\<close>

type_synonym ('e, 'a) res = "'e + 'a"

definition res_bind :: "('e, 'a) res \<Rightarrow> ('a \<Rightarrow> ('e, 'b) res) \<Rightarrow> ('e, 'b) res" where
  "res_bind r f = (case r of Inl e \<Rightarrow> Inl e | Inr x \<Rightarrow> f x)"

lemma res_bind_simps [simp, res_simps]:
  "res_bind (Inl e) f = Inl e"
  "res_bind (Inr x) f = f x"
  by (simp_all add: res_bind_def)

lemma res_bind_Inr_iff [res_simps]:
  "res_bind r f = Inr y \<longleftrightarrow> (\<exists>x. r = Inr x \<and> f x = Inr y)"
  by (cases r) simp_all

lemma res_bind_Inl_iff [res_simps]:
  "res_bind r f = Inl e \<longleftrightarrow> r = Inl e \<or> (\<exists>x. r = Inr x \<and> f x = Inl e)"
  by (cases r) simp_all

lemma res_bind_assoc [res_simps]:
  "res_bind (res_bind r f) g = res_bind r (\<lambda>x. res_bind (f x) g)"
  by (cases r) simp_all

definition is_ok :: "('e, 'a) res \<Rightarrow> bool" where
  "is_ok r = (case r of Inl _ \<Rightarrow> False | Inr _ \<Rightarrow> True)"

lemma is_ok_simps [simp]: "is_ok (Inl e) = False" "is_ok (Inr x) = True"
  by (simp_all add: is_ok_def)

lemma is_ok_iff: "is_ok r \<longleftrightarrow> (\<exists>x. r = Inr x)"
  by (cases r) simp_all

section \<open>Python strings\<close>

definition char_code :: "char \<Rightarrow> nat" where
  "char_code c = of_char c"

text \<open>\<open>str.lower\<close> on Latin-1: the two blocks of capital letters move up by 32.\<close>

definition lower_char :: "char \<Rightarrow> char" where
  "lower_char c =
     (let n = (of_char c :: nat) in
      if (65 \<le> n \<and> n \<le> 90) \<or> (192 \<le> n \<and> n \<le> 222 \<and> n \<noteq> 215)
      then char_of (n + 32) else c)"

definition py_lower :: "string \<Rightarrow> string" where
  "py_lower s = map lower_char s"

definition is_space :: "char \<Rightarrow> bool" where
  "is_space c =
     (let n = (of_char c :: nat) in
      (9 \<le> n \<and> n \<le> 13) \<or> (28 \<le> n \<and> n \<le> 32) \<or> n = 133 \<or> n = 160)"

definition py_lstrip :: "string \<Rightarrow> string" where
  "py_lstrip s = dropWhile is_space s"

definition py_rstrip :: "string \<Rightarrow> string" where
  "py_rstrip s = rev (dropWhile is_space (rev s))"

definition py_strip :: "string \<Rightarrow> string" where
  "py_strip s = py_rstrip (py_lstrip s)"

text \<open>\<open>s.lstrip(chars)\<close> and \<open>s.rstrip(chars)\<close> drop a \<^emph>\<open>set\<close> of characters.\<close>

definition lstrip_chars :: "string \<Rightarrow> string \<Rightarrow> string" where
  "lstrip_chars cs s = dropWhile (\<lambda>c. c \<in> set cs) s"

definition rstrip_chars :: "string \<Rightarrow> string \<Rightarrow> string" where
  "rstrip_chars cs s = rev (dropWhile (\<lambda>c. c \<in> set cs) (rev s))"

text \<open>\<open>s.replace("\\", "/")\<close>.\<close>

definition fwd_slashes :: "string \<Rightarrow> string" where
  "fwd_slashes s = map (\<lambda>c. if c = CHR 0x5C then CHR ''/'' else c) s"

definition starts_with :: "string \<Rightarrow> string \<Rightarrow> bool" where
  "starts_with s p = prefix p s"

definition ends_with :: "string \<Rightarrow> string \<Rightarrow> bool" where
  "ends_with s p = suffix p s"

text \<open>\<open>s[:-n]\<close> for \<open>n > 0\<close>: empty when the string is shorter.\<close>

definition drop_last :: "nat \<Rightarrow> string \<Rightarrow> string" where
  "drop_last n s = take (length s - n) s"

text \<open>A leading \<open>./\<close> removed as often as it occurs.\<close>

fun strip_dot_slash :: "string \<Rightarrow> string" where
  "strip_dot_slash (a # b # s) =
     (if a = CHR ''.'' \<and> b = CHR ''/'' then strip_dot_slash s else a # b # s)"
| "strip_dot_slash s = s"

text \<open>Word characters of regular expressions, on ASCII text.\<close>

definition word_start :: "char \<Rightarrow> bool" where
  "word_start c =
     (let n = (of_char c :: nat) in (65 \<le> n \<and> n \<le> 90) \<or> (97 \<le> n \<and> n \<le> 122) \<or> n = 95)"

definition word_char :: "char \<Rightarrow> bool" where
  "word_char c = (word_start c \<or> (let n = (of_char c :: nat) in 48 \<le> n \<and> n \<le> 57))"

text \<open>\<open>s.split(c)\<close> for a one-character separator: never empty.\<close>

fun split_on :: "char \<Rightarrow> string \<Rightarrow> string list" where
  "split_on c [] = [[]]"
| "split_on c (x # xs) =
     (if x = c then [] # split_on c xs
      else (case split_on c xs of [] \<Rightarrow> [[x]] | p # ps \<Rightarrow> (x # p) # ps))"

lemma split_on_nonempty [simp]: "split_on c s \<noteq> []"
  by (induction s) (auto split: list.splits)

lemma split_on_no_sep: "p \<in> set (split_on c s) \<Longrightarrow> c \<notin> set p"
  by (induction s arbitrary: p) (fastforce split: if_splits list.splits)+

lemma split_on_append: "split_on c (a @ c # b) = split_on c a @ split_on c b"
  by (induction a) (auto split: list.splits)

lemma split_on_no_occurrence: "c \<notin> set s \<Longrightarrow> split_on c s = [s]"
  by (induction s) auto

lemma lower_char_slash_iff: "lower_char c = CHR ''/'' \<longleftrightarrow> c = CHR ''/''"
proof -
  have shifted: "char_of (n + 32 :: nat) \<noteq> CHR ''/''" if "65 \<le> n" "n \<le> 222" for n :: nat
  proof
    assume "char_of (n + 32 :: nat) = CHR ''/''"
    then have "of_char (char_of (n + 32 :: nat)) = (of_char (CHR ''/'') :: nat)"
      by (rule arg_cong)
    with that show False by (simp add: of_char_mod_256)
  qed
  then show ?thesis
    by (auto simp: lower_char_def Let_def)
qed

text \<open>The same on the bits of the character, for evaluation.\<close>

lemma lower_char_bits [code]:
  "lower_char (Char b0 b1 b2 b3 b4 b5 b6 b7) =
     (if b6 \<and> \<not> b5 \<and>
         (if b7 then \<not> (b0 \<and> b1 \<and> b2 \<and> b3 \<and> b4) \<and> \<not> (b4 \<and> \<not> b3 \<and> b2 \<and> b1 \<and> b0)
          else (b0 \<or> b1 \<or> b2 \<or> b3 \<or> b4) \<and> \<not> (b4 \<and> b3 \<and> (b2 \<or> (b1 \<and> b0))))
      then Char b0 b1 b2 b3 b4 True b6 b7 else Char b0 b1 b2 b3 b4 b5 b6 b7)"
proof -
  show ?thesis
    by (cases b7; cases b6; cases b5; cases b4; cases b3; cases b2; cases b1; cases b0)
      (simp_all add: lower_char_def Let_def of_char_Char char_of_def drop_bit_Suc bit_0)
qed

lemma py_lower_Nil [simp]: "py_lower [] = []"
  by (simp add: py_lower_def)

lemma length_py_lower [simp]: "length (py_lower s) = length s"
  by (simp add: py_lower_def)

lemma py_lower_append [simp]: "py_lower (s @ t) = py_lower s @ py_lower t"
  by (simp add: py_lower_def)

lemma starts_with_self [simp]: "starts_with s s"
  by (simp add: starts_with_def)

lemma starts_with_append: "starts_with s p \<longleftrightarrow> (\<exists>t. s = p @ t)"
  by (auto simp: starts_with_def prefix_def)

lemma starts_with_trans: "starts_with s p \<Longrightarrow> starts_with p q \<Longrightarrow> starts_with s q"
  by (auto simp: starts_with_def intro: prefix_order.trans)

lemma drop_last_suffix: "ends_with s p \<Longrightarrow> s = drop_last (length p) s @ p"
  by (auto simp: ends_with_def drop_last_def suffix_def)

lemma drop_last_append [simp]: "drop_last (length p) (s @ p) = s"
  by (simp add: drop_last_def)

text \<open>Decimal printing of a natural number.\<close>

definition digit_char :: "nat \<Rightarrow> char" where
  "digit_char d = char_of (48 + d)"

fun show_nat :: "nat \<Rightarrow> string" where
  "show_nat n = (if n < 10 then [digit_char n] else show_nat (n div 10) @ [digit_char (n mod 10)])"

declare show_nat.simps [simp del]

text \<open>\<open>sep.join(parts)\<close>.\<close>

fun join :: "string \<Rightarrow> string list \<Rightarrow> string" where
  "join sep [] = []"
| "join sep [x] = x"
| "join sep (x # y # ys) = x @ sep @ join sep (y # ys)"

lemma length_join_newline:
  "xs \<noteq> [] \<Longrightarrow> Suc (length (join [c] xs)) = sum_list (map (\<lambda>x. Suc (length x)) xs)"
  by (induction "[c]" xs rule: join.induct) auto

lemma join_Cons: "join sep (x # xs) = (if xs = [] then x else x @ sep @ join sep xs)"
  by (cases xs) simp_all

lemma join_append:
  "xs \<noteq> [] \<Longrightarrow> ys \<noteq> [] \<Longrightarrow> join sep (xs @ ys) = join sep xs @ sep @ join sep ys"
  by (induction xs) (auto simp: join_Cons)

lemma join_split_on [simp]: "join [c] (split_on c s) = s"
proof (induction s)
  case (Cons x s)
  then show ?case by (cases "split_on c s") (auto simp: join_Cons)
qed simp

text \<open>A component of a path is all of it, or stands between separators.\<close>

lemma split_on_mem:
  assumes "p \<in> set (split_on c s)"
  shows "s = p \<or> (\<exists>b. s = p @ c # b) \<or> (\<exists>a. s = a @ c # p) \<or> (\<exists>a b. s = a @ c # p @ c # b)"
proof -
  from assms obtain xs ys where sp: "split_on c s = xs @ p # ys" by (metis split_list)
  then have s: "s = join [c] (xs @ p # ys)" by (metis join_split_on)
  show ?thesis
  proof (cases "xs = []")
    case True
    then show ?thesis using s by (auto simp: join_Cons)
  next
    case False
    then have "s = join [c] xs @ [c] @ join [c] (p # ys)" using s by (simp add: join_append)
    then show ?thesis by (auto simp: join_Cons)
  qed
qed

section \<open>Insertion-ordered dictionaries\<close>

text \<open>
  A Python dictionary iterates in insertion order and \<open>d[k] = v\<close> on an existing key keeps
  its place: an association list with \<open>alist_put\<close>.
\<close>

fun alist_put :: "'k \<Rightarrow> 'v \<Rightarrow> ('k \<times> 'v) list \<Rightarrow> ('k \<times> 'v) list" where
  "alist_put k v [] = [(k, v)]"
| "alist_put k v ((k', v') # kvs) =
     (if k = k' then (k, v) # kvs else (k', v') # alist_put k v kvs)"

definition alist_setdefault :: "'k \<Rightarrow> 'v \<Rightarrow> ('k \<times> 'v) list \<Rightarrow> ('k \<times> 'v) list" where
  "alist_setdefault k v kvs = (if map_of kvs k = None then kvs @ [(k, v)] else kvs)"

lemma map_of_alist_put [simp]: "map_of (alist_put k v kvs) = (map_of kvs)(k \<mapsto> v)"
  by (induction kvs) (auto simp: fun_eq_iff)

lemma keys_alist_put: "fst ` set (alist_put k v kvs) = insert k (fst ` set kvs)"
  by (induction k v kvs rule: alist_put.induct) auto

lemma distinct_alist_put:
  "distinct (map fst kvs) \<Longrightarrow> distinct (map fst (alist_put k v kvs))"
proof (induction kvs)
  case (Cons kv kvs)
  then show ?case by (cases kv) (auto simp: keys_alist_put)
qed simp

lemma map_of_alist_setdefault:
  "map_of (alist_setdefault k v kvs) = (if map_of kvs k = None then (map_of kvs)(k \<mapsto> v) else map_of kvs)"
  by (auto simp: alist_setdefault_def fun_eq_iff map_add_def split: option.splits)

lemma distinct_alist_setdefault:
  "distinct (map fst kvs) \<Longrightarrow> distinct (map fst (alist_setdefault k v kvs))"
  by (auto simp: alist_setdefault_def map_of_eq_None_iff)

lemma length_alist_setdefault: "length (alist_setdefault k v kvs) \<le> Suc (length kvs)"
  by (simp add: alist_setdefault_def)

section \<open>Traces of a transition relation\<close>

fun trace_ok :: "('s \<Rightarrow> 's \<Rightarrow> bool) \<Rightarrow> 's \<Rightarrow> 's list \<Rightarrow> bool" where
  "trace_ok step s [] = True"
| "trace_ok step s (t # ts) = (step s t \<and> trace_ok step t ts)"

lemma trace_ok_append:
  "trace_ok step s (xs @ ys) \<longleftrightarrow> trace_ok step s xs \<and> trace_ok step (last (s # xs)) ys"
  by (induction xs arbitrary: s) auto

section \<open>Small facts about lists\<close>

lemma sort_key_set [simp]: "set (sort_key f xs) = set xs"
  by simp

lemma length_filter_less_if:
  "x \<in> set xs \<Longrightarrow> P x \<Longrightarrow> \<not> Q x \<Longrightarrow> (\<And>y. Q y \<Longrightarrow> P y) \<Longrightarrow>
     length (filter Q xs) < length (filter P xs)"
proof (induction xs)
  case (Cons a xs)
  have le: "length (filter Q xs) \<le> length (filter P xs)"
    using Cons.prems(4) by (induction xs) auto
  from Cons le show ?case by (auto simp: less_Suc_eq_le)
qed simp

lemma subseq_mem: "subseq xs ys \<Longrightarrow> x \<in> set xs \<Longrightarrow> x \<in> set ys"
  by (induction rule: list_emb.induct) auto

lemma distinct_subseq_map: "subseq xs ys \<Longrightarrow> distinct (map f ys) \<Longrightarrow> distinct (map f xs)"
  by (induction rule: list_emb.induct) (auto dest: subseq_mem)

lemma sorted_subseq_map: "subseq xs ys \<Longrightarrow> sorted (map f ys) \<Longrightarrow> sorted (map f xs)"
  by (induction rule: list_emb.induct) (auto dest: subseq_mem)

section \<open>Paths\<close>

text \<open>\<open>s.rsplit("/", 1)[0] if "/" in s else ""\<close>.\<close>

definition parent_path :: "string \<Rightarrow> string" where
  "parent_path s =
     (if CHR ''/'' \<in> set s then rev (tl (dropWhile (\<lambda>c. c \<noteq> CHR ''/'') (rev s))) else [])"

definition remove_suffix :: "string \<Rightarrow> string \<Rightarrow> string" where
  "remove_suffix suf s = (if suf \<noteq> [] \<and> ends_with s suf then drop_last (length suf) s else s)"

text \<open>\<open>tuple(sorted(set))\<close>.\<close>

definition sorted_set :: "'a::linorder list \<Rightarrow> 'a list" where
  "sorted_set xs = sort (remdups xs)"

lemma set_sorted_set [simp]: "set (sorted_set xs) = set xs"
  by (simp add: sorted_set_def)

lemma distinct_sorted_set [simp]: "distinct (sorted_set xs)"
  by (simp add: sorted_set_def)

lemma sorted_sorted_set [simp]: "sorted (sorted_set xs)"
  by (simp add: sorted_set_def)

lemma sorted_set_Nil_iff [simp]: "sorted_set xs = [] \<longleftrightarrow> xs = []"
  by (metis set_empty set_sorted_set)

lemma parent_path_split:
  assumes "CHR ''/'' \<in> set s"
  obtains t where "s = parent_path s @ CHR ''/'' # t" "CHR ''/'' \<notin> set t"
proof -
  let ?d = "dropWhile (\<lambda>c. c \<noteq> CHR ''/'') (rev s)" and ?t = "takeWhile (\<lambda>c. c \<noteq> CHR ''/'') (rev s)"
  have "?d \<noteq> []" using assms by (auto simp: dropWhile_eq_Nil_conv)
  then have "hd ?d = CHR ''/''" using hd_dropWhile [of "\<lambda>c. c \<noteq> CHR ''/''" "rev s"] by simp
  with \<open>?d \<noteq> []\<close> have "?d = CHR ''/'' # tl ?d" by (metis list.collapse)
  then have "rev s = ?t @ CHR ''/'' # tl ?d" by (metis takeWhile_dropWhile_id)
  then have "s = rev (tl ?d) @ CHR ''/'' # rev ?t" by (metis append.assoc append_Cons append_Nil rev.simps(2) rev_append rev_rev_ident)
  moreover have "CHR ''/'' \<notin> set (rev ?t)" by (auto dest: set_takeWhileD)
  ultimately show ?thesis using that assms by (simp add: parent_path_def)
qed

text \<open>A path is at or below a directory.\<close>

definition under :: "string \<Rightarrow> string \<Rightarrow> bool" where
  "under d s \<longleftrightarrow> s = d \<or> starts_with s (d @ ''/'')"

lemma under_prefix: "under d s \<longleftrightarrow> prefix (d @ ''/'') (s @ ''/'')"
proof
  assume "prefix (d @ ''/'') (s @ ''/'')"
  then obtain t where t: "s @ ''/'' = d @ ''/'' @ t" by (auto simp: prefix_def)
  show "under d s"
  proof (cases t rule: rev_cases)
    case Nil
    with t show ?thesis by (simp add: under_def)
  next
    case (snoc t' c)
    with t have "s = d @ ''/'' @ t'" by (metis append.assoc butlast_snoc)
    then show ?thesis by (simp add: under_def starts_with_append)
  qed
qed (auto simp: under_def starts_with_append prefix_def)

lemma under_refl [simp]: "under d d"
  by (simp add: under_def)

lemma under_trans: "under a b \<Longrightarrow> under b c \<Longrightarrow> under a c"
  unfolding under_prefix by (rule prefix_order.trans)

lemma under_comparable: "under a s \<Longrightarrow> under b s \<Longrightarrow> under a b \<or> under b a"
  unfolding under_prefix by (rule prefix_same_cases)

lemma under_parent: "CHR ''/'' \<in> set s \<Longrightarrow> under (parent_path s) s"
  by (rule parent_path_split) (auto simp: under_def starts_with_append)

text \<open>What lies strictly below a directory has a parent at or below it.\<close>

lemma under_parent_of: "starts_with s (d @ ''/'') \<Longrightarrow> under d (parent_path s)"
proof -
  assume "starts_with s (d @ ''/'')"
  then obtain t where t: "s = d @ CHR ''/'' # t" by (auto simp: starts_with_append)
  then have "CHR ''/'' \<in> set s" by simp
  then obtain u where u: "s = parent_path s @ CHR ''/'' # u" "CHR ''/'' \<notin> set u"
    by (rule parent_path_split)
  from t u(1) have "d @ CHR ''/'' # t = parent_path s @ CHR ''/'' # u" by simp
  then consider v where "d = parent_path s @ v" "v @ CHR ''/'' # t = CHR ''/'' # u"
    | v where "d @ v = parent_path s" "CHR ''/'' # t = v @ CHR ''/'' # u"
    unfolding append_eq_append_conv2 by blast
  then show ?thesis
  proof cases
    case 1
    then have "v = []" using u(2) by (cases v) auto
    with 1 show ?thesis by simp
  next
    case 2
    show ?thesis
    proof (cases v)
      case Nil
      with 2 show ?thesis by simp
    next
      case (Cons a w)
      with 2 have "parent_path s = d @ ''/'' @ w" by simp
      then show ?thesis by (simp add: under_def starts_with_append)
    qed
  qed
qed

end
