(* ===== verification/Authority.thy ===== *)
theory Authority
  imports Edith_Prelude
begin

text \<open>
  \<open>edith/authority.py\<close>: the ordered authority of a statement. The rank table makes the
  levels a linear order (lower rank, stronger level), given to the library as an instance
  of \<open>linorder\<close> so that \<open>outranks\<close> is \<open><\<close>.
\<close>

datatype authority_level =
    USER_APPROVED_REQUIREMENT | PROJECT_POLICY | APPROVED_ARCHITECTURE_DECISION
  | TASK_ACCEPTANCE_CRITERIA | AGENT_RECOMMENDATION | REPOSITORY_CONTENT
  | UNTRUSTED_EXTERNAL_CONTENT

fun rank :: "authority_level \<Rightarrow> nat" where
  "rank USER_APPROVED_REQUIREMENT = 0"
| "rank PROJECT_POLICY = 1"
| "rank APPROVED_ARCHITECTURE_DECISION = 2"
| "rank TASK_ACCEPTANCE_CRITERIA = 3"
| "rank AGENT_RECOMMENDATION = 4"
| "rank REPOSITORY_CONTENT = 5"
| "rank UNTRUSTED_EXTERNAL_CONTENT = 6"

definition outranks :: "authority_level \<Rightarrow> authority_level \<Rightarrow> bool" where
  "outranks candidate incumbent \<longleftrightarrow> rank candidate < rank incumbent"

definition is_advisory :: "authority_level \<Rightarrow> bool" where
  "is_advisory level \<longleftrightarrow>
     level \<in> {AGENT_RECOMMENDATION, REPOSITORY_CONTENT, UNTRUSTED_EXTERNAL_CONTENT}"

definition may_override :: "authority_level \<Rightarrow> authority_level \<Rightarrow> bool" where
  "may_override candidate incumbent \<longleftrightarrow>
     (if is_advisory candidate then False else outranks candidate incumbent)"

text \<open>\<open>min(levels, key=rank)\<close> keeps the first of the minimal elements.\<close>

fun min_by_rank :: "authority_level \<Rightarrow> authority_level list \<Rightarrow> authority_level" where
  "min_by_rank best [] = best"
| "min_by_rank best (x # xs) = min_by_rank (if rank x < rank best then x else best) xs"

definition strongest :: "authority_level list \<Rightarrow> authority_level option" where
  "strongest levels = (case levels of [] \<Rightarrow> None | x # xs \<Rightarrow> Some (min_by_rank x xs))"

lemma rank_inject [simp]: "rank a = rank b \<longleftrightarrow> a = b"
  by (cases a; cases b) simp_all

instantiation authority_level :: linorder
begin

definition less_eq_authority_level :: "authority_level \<Rightarrow> authority_level \<Rightarrow> bool" where
  "a \<le> b \<longleftrightarrow> rank a \<le> rank b"

definition less_authority_level :: "authority_level \<Rightarrow> authority_level \<Rightarrow> bool" where
  "a < b \<longleftrightarrow> rank a < rank b"

instance
  by standard (auto simp: less_eq_authority_level_def less_authority_level_def)

end

lemma outranks_less: "outranks a b \<longleftrightarrow> a < b"
  by (simp add: outranks_def less_authority_level_def)

lemma advisory_iff_rank: "is_advisory a \<longleftrightarrow> rank AGENT_RECOMMENDATION \<le> rank a"
  by (cases a) (simp_all add: is_advisory_def)

lemma may_override_iff: "may_override a b \<longleftrightarrow> a < b \<and> a < AGENT_RECOMMENDATION"
  by (auto simp: may_override_def outranks_less advisory_iff_rank less_authority_level_def)

lemma min_by_rank_Min: "min_by_rank best xs = Min (insert best (set xs))"
proof (induction xs arbitrary: best)
  case (Cons x xs)
  have "(if rank x < rank best then x else best) = min x best"
    by (auto simp: min_def less_eq_authority_level_def)
  with Cons.IH show ?case
    by (cases "xs = []") (simp_all add: Min_insert2 insert_commute min.assoc min.commute min.left_commute)
qed simp

text \<open>
  Overriding is a strict partial order in which only decisions override: no level
  overrides itself, two levels never override each other, chains compose, an advisory
  level overrides nothing, nothing overrides a user-approved requirement, and every
  decision-making level overrides everything ranked below it. The strongest level of a
  non-empty collection is a member that no other member outranks.
\<close>

theorem authority_order:
  "\<not> may_override a a \<and> \<not> (may_override a b \<and> may_override b a) \<and>
   (may_override a b \<and> may_override b c \<longrightarrow> may_override a c) \<and>
   (is_advisory a \<longrightarrow> \<not> may_override a b) \<and> \<not> may_override a USER_APPROVED_REQUIREMENT \<and>
   (\<not> is_advisory a \<and> outranks a b \<longrightarrow> may_override a b) \<and>
   (levels \<noteq> [] \<longrightarrow>
      (\<exists>s. strongest levels = Some s \<and> s \<in> set levels \<and> (\<forall>l \<in> set levels. \<not> outranks l s)))"
proof -
  have "\<exists>s. strongest levels = Some s \<and> s \<in> set levels \<and> (\<forall>l \<in> set levels. \<not> outranks l s)"
    if ne: "levels \<noteq> []"
  proof -
    from ne have "strongest levels = Some (Min (set levels))"
      by (cases levels) (simp_all add: strongest_def min_by_rank_Min)
    with ne show ?thesis
      by (auto simp: outranks_less Min_gr_iff not_less)
  qed
  moreover have "\<not> may_override a USER_APPROVED_REQUIREMENT"
    by (simp add: may_override_iff less_authority_level_def)
  moreover have "is_advisory a \<Longrightarrow> \<not> may_override a b"
    by (simp add: may_override_def)
  moreover have "\<not> is_advisory a \<and> outranks a b \<longrightarrow> may_override a b"
    by (simp add: may_override_def)
  ultimately show ?thesis by (auto simp: may_override_iff)
qed

theorem authority_order_witness:
  "may_override PROJECT_POLICY TASK_ACCEPTANCE_CRITERIA \<and>
   \<not> may_override REPOSITORY_CONTENT UNTRUSTED_EXTERNAL_CONTENT \<and>
   strongest [REPOSITORY_CONTENT, PROJECT_POLICY, AGENT_RECOMMENDATION] = Some PROJECT_POLICY"
  using authority_order [of REPOSITORY_CONTENT UNTRUSTED_EXTERNAL_CONTENT _ "[PROJECT_POLICY]"]
  by (simp add: may_override_def is_advisory_def outranks_def strongest_def)

end
