(* ===== verification/Lifecycle.thy ===== *)
theory Lifecycle
  imports Edith_Prelude
begin

text \<open>
  The interface the three status machines of the program share (task status, project
  state, task-workspace state): a table of allowed moves and a set of terminal states. The
  client facts (a terminal state is final, it can only be the last of a run, a run can
  always be closed) are proved here once; each machine interprets the locale on the table
  of its own source file.
\<close>

locale lifecycle =
  fixes step :: "'s \<Rightarrow> 's \<Rightarrow> bool"
    and terminal :: "'s \<Rightarrow> bool"
  assumes terminal_stuck: "terminal s \<Longrightarrow> \<not> step s t"
    and live_moves: "\<not> terminal s \<Longrightarrow> \<exists>t. step s t"
begin

lemma stuck_iff_terminal: "(\<nexists>t. step s t) \<longleftrightarrow> terminal s"
  using terminal_stuck live_moves by blast

lemma trace_from_terminal: "terminal s \<Longrightarrow> trace_ok step s ts \<Longrightarrow> ts = []"
  by (cases ts) (auto dest: terminal_stuck)

lemma terminal_only_last:
  assumes "trace_ok step s (xs @ t # ys)" and "terminal t"
  shows "ys = []"
proof -
  from assms(1) have "trace_ok step t ys"
    by (simp add: trace_ok_append)
  with assms(2) show ?thesis by (rule trace_from_terminal)
qed

lemma live_before_last:
  assumes "trace_ok step s (xs @ t # y # ys)"
  shows "\<not> terminal t"
  using terminal_only_last [OF assms] by blast

end

locale abortable =
  fixes step :: "'s \<Rightarrow> 's \<Rightarrow> bool"
    and terminal :: "'s \<Rightarrow> bool"
    and abort :: 's
  assumes abort_stuck: "terminal s \<Longrightarrow> \<not> step s t"
    and abort_terminal: "terminal abort"
    and abort_always: "\<not> terminal s \<Longrightarrow> step s abort"

sublocale abortable \<subseteq> lifecycle step terminal
  using abort_stuck abort_always by unfold_locales blast+

context abortable
begin

lemma trace_can_close:
  assumes "trace_ok step s ts" and "\<not> terminal (last (s # ts))"
  shows "trace_ok step s (ts @ [abort]) \<and> terminal (last (s # ts @ [abort]))"
  using assms abort_always abort_terminal by (simp add: trace_ok_append)

end

end
