(* ===== verification/Project_State.thy ===== *)
theory Project_State
  imports Lifecycle Edith_Prelude
begin

text \<open>
  \<open>edith/state/schema.py\<close>: the project lifecycle and the transition check of
  \<open>Execution.transition_to\<close>. Timestamps are not modelled.
\<close>

datatype project_state =
    RECEIVED | ANALYZING | PLANNING | RESEARCHING | SPECIFICATION | ARCHITECTURE
  | IMPLEMENTATION | INTEGRATION | VERIFICATION | REVIEW | REPAIRING | RELEASE | PS_FAILED

definition project_terminal :: "project_state \<Rightarrow> bool" where
  "project_terminal s \<longleftrightarrow> s \<in> {RELEASE, PS_FAILED}"

fun project_transitions :: "project_state \<Rightarrow> project_state list" where
  "project_transitions RECEIVED = [ANALYZING, PLANNING]"
| "project_transitions ANALYZING = [PLANNING, RESEARCHING]"
| "project_transitions RESEARCHING = [PLANNING]"
| "project_transitions PLANNING = [SPECIFICATION, ARCHITECTURE, IMPLEMENTATION]"
| "project_transitions SPECIFICATION = [ARCHITECTURE, IMPLEMENTATION]"
| "project_transitions ARCHITECTURE = [IMPLEMENTATION]"
| "project_transitions IMPLEMENTATION = [INTEGRATION, VERIFICATION]"
| "project_transitions INTEGRATION = [VERIFICATION]"
| "project_transitions VERIFICATION = [REVIEW, REPAIRING, IMPLEMENTATION]"
| "project_transitions REVIEW = [RELEASE, REPAIRING, IMPLEMENTATION, VERIFICATION]"
| "project_transitions REPAIRING = [IMPLEMENTATION, VERIFICATION]"
| "project_transitions RELEASE = []"
| "project_transitions PS_FAILED = []"

definition project_can_transition :: "project_state \<Rightarrow> project_state \<Rightarrow> bool" where
  "project_can_transition current target \<longleftrightarrow>
     (if target = PS_FAILED \<and> \<not> project_terminal current then True
      else if target = current \<and> \<not> project_terminal current then True
      else target \<in> set (project_transitions current))"

datatype project_error = IllegalProjectTransition project_state project_state string

record execution =
  execution_id :: string
  ex_project_id :: string
  ex_request :: string
  ex_state :: project_state
  ex_result_summary :: string

definition execution_transition_to ::
    "execution \<Rightarrow> project_state \<Rightarrow> (project_error, execution) res" where
  "execution_transition_to x target =
     (if \<not> project_can_transition (ex_state x) target
      then Inl (IllegalProjectTransition (ex_state x) target (execution_id x))
      else Inr (x\<lparr>ex_state := target\<rparr>))"

interpretation project: abortable project_can_transition project_terminal PS_FAILED
proof
  fix s t
  assume "project_terminal s"
  then show "\<not> project_can_transition s t"
    by (auto simp: project_terminal_def project_can_transition_def)
next
  show "project_terminal PS_FAILED"
    by (simp add: project_terminal_def)
next
  fix s
  assume "\<not> project_terminal s"
  then show "project_can_transition s PS_FAILED"
    by (simp add: project_can_transition_def)
qed

text \<open>RELEASE is entered from REVIEW only, so nothing is released that was not reviewed.\<close>

lemma release_only_from_review: "project_can_transition s RELEASE \<longleftrightarrow> s = REVIEW"
  by (cases s) (auto simp: project_can_transition_def project_terminal_def)

lemma review_only_after_verification:
  "project_can_transition s REVIEW \<longleftrightarrow> s \<in> {VERIFICATION, REVIEW}"
  by (cases s) (auto simp: project_can_transition_def project_terminal_def)

lemma verification_sources:
  "project_can_transition s VERIFICATION \<longleftrightarrow>
     s \<in> {IMPLEMENTATION, INTEGRATION, REVIEW, REPAIRING, VERIFICATION}"
  by (cases s) (auto simp: project_can_transition_def project_terminal_def)

text \<open>Any run that reaches \<open>s \<notin> {VERIFICATION, REVIEW, RELEASE}\<close> first and ends in REVIEW
  passed through VERIFICATION.\<close>

lemma trace_to_review:
  "trace_ok project_can_transition s ts \<Longrightarrow> last (s # ts) \<in> {REVIEW, RELEASE} \<Longrightarrow>
     s \<notin> {VERIFICATION, REVIEW, RELEASE} \<Longrightarrow> VERIFICATION \<in> set ts"
proof (induction ts arbitrary: s)
  case (Cons t ts)
  show ?case
  proof (cases "t = VERIFICATION")
    case False
    with Cons.prems have "t \<notin> {VERIFICATION, REVIEW, RELEASE}"
      by (auto simp: review_only_after_verification release_only_from_review)
    with Cons show ?thesis by auto
  qed simp
qed simp

lemma trace_release_reviewed:
  assumes "trace_ok project_can_transition s (ts @ [RELEASE])"
  shows "last (s # ts) = REVIEW"
  using assms by (simp add: trace_ok_append release_only_from_review)

text \<open>
  The project lifecycle, over whole runs: from RECEIVED, every run of legal transitions
  that reaches RELEASE went through VERIFICATION and was in REVIEW immediately before; a
  terminal state is the last of its run; and a run that has not ended can always be closed
  by FAILED.
\<close>

theorem project_lifecycle:
  "(trace_ok project_can_transition RECEIVED (ts @ [RELEASE]) \<longrightarrow>
      VERIFICATION \<in> set ts \<and> last (RECEIVED # ts) = REVIEW) \<and>
   (trace_ok project_can_transition RECEIVED (xs @ t # ys) \<and> project_terminal t \<longrightarrow> ys = []) \<and>
   (trace_ok project_can_transition RECEIVED ts \<and> \<not> project_terminal (last (RECEIVED # ts)) \<longrightarrow>
      trace_ok project_can_transition RECEIVED (ts @ [PS_FAILED]))"
proof (intro conjI impI)
  assume tr: "trace_ok project_can_transition RECEIVED (ts @ [RELEASE])"
  then show rev: "last (RECEIVED # ts) = REVIEW"
    by (rule trace_release_reviewed)
  from tr have "trace_ok project_can_transition RECEIVED ts"
    by (simp add: trace_ok_append)
  then show "VERIFICATION \<in> set ts"
    by (rule trace_to_review) (use rev in simp_all)
next
  assume "trace_ok project_can_transition RECEIVED (xs @ t # ys) \<and> project_terminal t"
  then show "ys = []" by (blast intro: project.terminal_only_last)
next
  assume "trace_ok project_can_transition RECEIVED ts \<and> \<not> project_terminal (last (RECEIVED # ts))"
  then show "trace_ok project_can_transition RECEIVED (ts @ [PS_FAILED])"
    by (blast dest: project.trace_can_close)
qed

theorem project_lifecycle_witness:
  "VERIFICATION \<in> set [PLANNING, IMPLEMENTATION, VERIFICATION, REVIEW] \<and>
   trace_ok project_can_transition RECEIVED [PLANNING, PS_FAILED]"
proof -
  have "trace_ok project_can_transition RECEIVED
          ([PLANNING, IMPLEMENTATION, VERIFICATION, REVIEW] @ [RELEASE])"
    by (simp add: project_can_transition_def project_terminal_def)
  moreover have "trace_ok project_can_transition RECEIVED [PLANNING] \<and>
      \<not> project_terminal (last [RECEIVED, PLANNING])"
    by (simp add: project_can_transition_def project_terminal_def)
  ultimately show ?thesis
    using project_lifecycle [of "[PLANNING, IMPLEMENTATION, VERIFICATION, REVIEW]"]
      project_lifecycle [of "[PLANNING]"] by simp
qed

end
