(* ===== verification/Failure_Policy.thy ===== *)
theory Failure_Policy
  imports Edith_Prelude
begin

text \<open>
  \<open>edith/errors.py\<close> (the failure taxonomy) and \<open>edith/policy.py\<close> (what the orchestrator
  does about each failure). The policy table is a total function on the taxonomy, as the
  source's dictionary has an entry for every member.
\<close>

datatype failure_category =
    MODEL_ERROR | TOOL_ERROR | BUILD_ERROR | TEST_FAILURE | REQUIREMENT_FAILURE
  | ARCHITECTURE_FAILURE | SECURITY_FAILURE | ENVIRONMENT_FAILURE | DEPENDENCY_FAILURE
  | CODE_FAILURE | VALIDATION_FAILURE | CONFIGURATION_ERROR | TIMEOUT | UNKNOWN

datatype failure_action = RETRY | REPAIR | ESCALATE | ABORT

record failure_rule =
  fr_action :: failure_action
  fr_escalate_to_human :: bool
  fr_reason :: string

definition rule_retryable :: "failure_rule \<Rightarrow> bool" where
  "rule_retryable r \<longleftrightarrow> fr_action r = RETRY"

definition rule_repairable :: "failure_rule \<Rightarrow> bool" where
  "rule_repairable r \<longleftrightarrow> fr_action r = REPAIR"

definition mk_rule :: "failure_action \<Rightarrow> bool \<Rightarrow> string \<Rightarrow> failure_rule" where
  "mk_rule a h r = \<lparr>fr_action = a, fr_escalate_to_human = h, fr_reason = r\<rparr>"

fun failure_policy :: "failure_category \<Rightarrow> failure_rule" where
  "failure_policy MODEL_ERROR = mk_rule RETRY False
     ''Local inference can fail transiently; a second attempt is cheap.''"
| "failure_policy VALIDATION_FAILURE = mk_rule RETRY False
     ''A small model often produces malformed output once and valid output next.''"
| "failure_policy TIMEOUT = mk_rule RETRY False
     ''A timeout may reflect momentary resource pressure on a constrained machine.''"
| "failure_policy TEST_FAILURE = mk_rule REPAIR False
     (''Failing tests are the Debugger'' @ [CHR 0x27] @ ''s actual job, not a reason to give up.'')"
| "failure_policy BUILD_ERROR = mk_rule REPAIR False
     ''A broken build is a concrete, localizable defect.''"
| "failure_policy TOOL_ERROR = mk_rule REPAIR False
     (''A tool refusing a bad argument usually means the agent'' @ [CHR 0x27] @ ''s plan needs fixing.'')"
| "failure_policy REQUIREMENT_FAILURE = mk_rule ESCALATE True
     ''The request or plan is wrong; more attempts cannot discover the intent.''"
| "failure_policy ARCHITECTURE_FAILURE = mk_rule ESCALATE True
     ''An architectural conflict needs a human decision, not another attempt.''"
| "failure_policy SECURITY_FAILURE = mk_rule ABORT True
     (''A denied operation is a policy decision. Retrying is indistinguishable from '' @
      ''an agent probing the sandbox, so the execution stops and a human is told.'')"
| "failure_policy DEPENDENCY_FAILURE = mk_rule ESCALATE True
     (''A missing package is not a coding defect. Sending the Debugger after code '' @
      ''that never imported wastes the whole repair budget on a guess.'')"
| "failure_policy CODE_FAILURE = mk_rule REPAIR False
     (''A syntax or import error in the project'' @ [CHR 0x27] @ ''s own code is precisely repairable.'')"
| "failure_policy ENVIRONMENT_FAILURE = mk_rule ESCALATE True
     ''A missing model or unreachable runtime needs an operator, not a retry.''"
| "failure_policy CONFIGURATION_ERROR = mk_rule ESCALATE True
     ''Configuration cannot fix itself.''"
| "failure_policy UNKNOWN = mk_rule ESCALATE True
     ''An unclassified failure is reported rather than guessed at.''"

definition rule_for :: "failure_category option \<Rightarrow> failure_rule" where
  "rule_for c = (case c of None \<Rightarrow> failure_policy UNKNOWN | Some k \<Rightarrow> failure_policy k)"

definition decide :: "failure_category option \<Rightarrow> nat \<Rightarrow> nat \<Rightarrow> failure_action" where
  "decide c attempts max_attempts =
     (if fr_action (rule_for c) = ABORT then ABORT
      else if max_attempts \<le> attempts then ESCALATE
      else fr_action (rule_for c))"

definition is_security_failure :: "failure_category option \<Rightarrow> bool" where
  "is_security_failure c \<longleftrightarrow> c = Some SECURITY_FAILURE"

section \<open>The table\<close>

lemma fr_action_mk_rule [simp]: "fr_action (mk_rule a h r) = a"
  and fr_escalate_mk_rule [simp]: "fr_escalate_to_human (mk_rule a h r) = h"
  by (simp_all add: mk_rule_def)

lemma abort_only_security: "fr_action (failure_policy k) = ABORT \<longleftrightarrow> k = SECURITY_FAILURE"
  by (cases k) simp_all

lemma human_told_iff_not_automatic:
  "fr_escalate_to_human (failure_policy k) \<longleftrightarrow> fr_action (failure_policy k) \<in> {ESCALATE, ABORT}"
  by (cases k) simp_all

lemma rule_for_None [simp]: "fr_action (rule_for None) = ESCALATE"
  by (simp add: rule_for_def)

lemma rule_for_abort: "fr_action (rule_for c) = ABORT \<longleftrightarrow> is_security_failure c"
  by (cases c) (simp_all add: rule_for_def is_security_failure_def abort_only_security)

lemma decide_abort_iff: "decide c n m = ABORT \<longleftrightarrow> is_security_failure c"
  by (auto simp: decide_def rule_for_abort)

lemma decide_within_budget: "decide c n m \<in> {RETRY, REPAIR} \<Longrightarrow> n < m"
  by (auto simp: decide_def split: if_splits)

text \<open>The failure policy never loops and never softens a security failure: ABORT is chosen
  exactly for SECURITY\_FAILURE whatever the attempt budget says; an automatic further
  attempt (RETRY or REPAIR) is chosen only while attempts remain, only for a classified
  failure, and never for one a human must be told about; once the budget is spent every
  other failure escalates.
\<close>

theorem failure_policy_bounded_and_closed:
  "(decide c n m = ABORT \<longleftrightarrow> c = Some SECURITY_FAILURE) \<and>
   (decide c n m \<in> {RETRY, REPAIR} \<longrightarrow>
      n < m \<and> (\<exists>k. c = Some k \<and> \<not> fr_escalate_to_human (failure_policy k))) \<and>
   (m \<le> n \<longrightarrow> decide c n m = (if c = Some SECURITY_FAILURE then ABORT else ESCALATE))"
proof (cases c)
  case None
  then show ?thesis by (simp add: decide_def)
next
  case (Some k)
  then show ?thesis
    by (cases k) (simp_all add: decide_def rule_for_def)
qed

theorem failure_policy_bounded_and_closed_witness:
  "decide (Some TEST_FAILURE) 1 3 = REPAIR \<and> (1::nat) < 3 \<and>
   decide (Some TEST_FAILURE) 3 3 = ESCALATE \<and> decide (Some SECURITY_FAILURE) 9 3 = ABORT"
proof -
  have "decide (Some TEST_FAILURE) 1 3 = REPAIR"
    by (simp add: decide_def rule_for_def)
  with failure_policy_bounded_and_closed [of "Some TEST_FAILURE" 1 3]
    failure_policy_bounded_and_closed [of "Some TEST_FAILURE" 3 3]
    failure_policy_bounded_and_closed [of "Some SECURITY_FAILURE" 9 3]
  show ?thesis by simp
qed

end
