(* ===== verification/Task_Model.thy ===== *)
theory Task_Model
  imports Lifecycle Failure_Policy
begin

text \<open>
  \<open>edith/planning/task.py\<close>: the task record, its status machine and the validators that
  run when a task, a scope or a plan is built. Pydantic reports all field errors at once;
  the model returns the first. Timestamps (\<open>touch\<close>) are not modelled.
\<close>

datatype task_status =
    TS_PENDING | TS_READY | TS_RUNNING | TS_SUCCEEDED | TS_DEFERRED | TS_FAILED
  | TS_BLOCKED | TS_CANCELLED

definition task_terminal :: "task_status \<Rightarrow> bool" where
  "task_terminal s \<longleftrightarrow>
     s \<in> {TS_SUCCEEDED, TS_DEFERRED, TS_FAILED, TS_BLOCKED, TS_CANCELLED}"

fun task_transitions :: "task_status \<Rightarrow> task_status list" where
  "task_transitions TS_PENDING = [TS_READY, TS_BLOCKED, TS_CANCELLED]"
| "task_transitions TS_READY = [TS_RUNNING, TS_BLOCKED, TS_CANCELLED]"
| "task_transitions TS_RUNNING =
     [TS_SUCCEEDED, TS_DEFERRED, TS_FAILED, TS_READY, TS_CANCELLED]"
| "task_transitions TS_SUCCEEDED = []"
| "task_transitions TS_DEFERRED = []"
| "task_transitions TS_FAILED = []"
| "task_transitions TS_BLOCKED = []"
| "task_transitions TS_CANCELLED = []"

definition task_can_transition :: "task_status \<Rightarrow> task_status \<Rightarrow> bool" where
  "task_can_transition current target \<longleftrightarrow> target \<in> set (task_transitions current)"

record task_scope =
  sc_read_paths :: "string list"
  sc_write_paths :: "string list"

record verification_requirement =
  vr_kind :: string
  vr_selector :: "string option"
  vr_required :: bool

record task =
  t_id :: string
  t_title :: string
  t_description :: string
  t_agent :: string
  t_priority :: int
  t_deps :: "string list"
  t_inputs :: "(string \<times> string) list"
  t_outputs :: "string list"
  t_criteria :: "string list"
  t_verification :: "verification_requirement list"
  t_scope :: task_scope
  t_status :: task_status
  t_attempts :: int
  t_max_attempts :: int
  t_failure_reason :: "string option"
  t_failure_category :: "failure_category option"

datatype plan_error =
    IllegalTransition task_status task_status string
  | AbsolutePattern string
  | TraversalPattern string
  | InvalidField string
  | SelfDependency string
  | DuplicateDependencies string
  | DuplicateTaskId string
  | UnknownDependency string string
  | DependencyCycle "string list"
  | UnknownTask string
  | KeyError string

section \<open>Validators\<close>

definition scope_pattern_error :: "string \<Rightarrow> plan_error option" where
  "scope_pattern_error p =
     (if starts_with p ''/'' \<or> starts_with p [CHR 0x5C] \<or> (1 < length p \<and> p ! 1 = CHR '':'')
      then Some (AbsolutePattern p)
      else if ''..'' \<in> set (split_on (CHR ''/'') (fwd_slashes p))
      then Some (TraversalPattern p) else None)"

fun validate_patterns :: "string list \<Rightarrow> (plan_error, unit) res" where
  "validate_patterns [] = Inr ()"
| "validate_patterns (p # ps) =
     (case scope_pattern_error p of Some e \<Rightarrow> Inl e | None \<Rightarrow> validate_patterns ps)"

definition validate_scope :: "task_scope \<Rightarrow> (plan_error, task_scope) res" where
  "validate_scope sc =
     res_bind (validate_patterns (sc_read_paths sc)) (\<lambda>_.
     res_bind (validate_patterns (sc_write_paths sc)) (\<lambda>_. Inr sc))"

definition is_lower_letter :: "char \<Rightarrow> bool" where
  "is_lower_letter c \<longleftrightarrow> CHR ''a'' \<le> c \<and> c \<le> CHR ''z''"

definition is_digit :: "char \<Rightarrow> bool" where
  "is_digit c \<longleftrightarrow> CHR ''0'' \<le> c \<and> c \<le> CHR ''9''"

definition agent_name_ok :: "string \<Rightarrow> bool" where
  "agent_name_ok s =
     (case s of [] \<Rightarrow> False
      | c # cs \<Rightarrow> is_lower_letter c \<and>
          list_all (\<lambda>d. is_lower_letter d \<or> is_digit d \<or> d = CHR ''_'') cs)"

definition validate_requirement :: "verification_requirement \<Rightarrow> bool" where
  "validate_requirement r \<longleftrightarrow>
     vr_kind r \<in> {''tests'', ''lint'', ''typecheck'', ''build''} \<and>
     (case vr_selector r of None \<Rightarrow> True | Some s \<Rightarrow> length s \<le> 200)"

definition task_field_error :: "task \<Rightarrow> string option" where
  "task_field_error t =
     (if \<not> (1 \<le> length (t_title t) \<and> length (t_title t) \<le> 200) then Some ''title''
      else if \<not> (1 \<le> length (t_description t) \<and> length (t_description t) \<le> 4000)
        then Some ''description''
      else if \<not> agent_name_ok (t_agent t) then Some ''agent''
      else if \<not> (0 \<le> t_priority t \<and> t_priority t \<le> 1000) then Some ''priority''
      else if \<not> list_all validate_requirement (t_verification t) then Some ''verification''
      else if \<not> 0 \<le> t_attempts t then Some ''attempts''
      else if \<not> (1 \<le> t_max_attempts t \<and> t_max_attempts t \<le> 10) then Some ''max_attempts''
      else None)"

definition validate_task :: "task \<Rightarrow> (plan_error, task) res" where
  "validate_task t =
     (case task_field_error t of
        Some f \<Rightarrow> Inl (InvalidField f)
      | None \<Rightarrow>
          res_bind (validate_scope (t_scope t)) (\<lambda>_.
            if t_id t \<in> set (t_deps t) then Inl (SelfDependency (t_id t))
            else if \<not> distinct (t_deps t) then Inl (DuplicateDependencies (t_id t))
            else Inr t))"

section \<open>Operations\<close>

definition exhausted :: "task \<Rightarrow> bool" where
  "exhausted t \<longleftrightarrow> t_max_attempts t \<le> t_attempts t"

definition transition_to :: "task \<Rightarrow> task_status \<Rightarrow> (plan_error, task) res" where
  "transition_to t target =
     (if \<not> task_can_transition (t_status t) target
      then Inl (IllegalTransition (t_status t) target (t_id t))
      else Inr (t\<lparr>t_status := target\<rparr>))"

interpretation task: abortable task_can_transition task_terminal TS_CANCELLED
proof
  fix s t
  assume "task_terminal s"
  then show "\<not> task_can_transition s t"
    by (auto simp: task_terminal_def task_can_transition_def)
next
  show "task_terminal TS_CANCELLED" by (simp add: task_terminal_def)
next
  fix s
  assume "\<not> task_terminal s"
  then show "task_can_transition s TS_CANCELLED"
    by (cases s) (simp_all add: task_terminal_def task_can_transition_def)
qed

lemma task_can_transition_simps [simp]:
  "task_can_transition TS_PENDING t \<longleftrightarrow> t \<in> {TS_READY, TS_BLOCKED, TS_CANCELLED}"
  "task_can_transition TS_READY t \<longleftrightarrow> t \<in> {TS_RUNNING, TS_BLOCKED, TS_CANCELLED}"
  "task_can_transition TS_RUNNING t \<longleftrightarrow>
     t \<in> {TS_SUCCEEDED, TS_DEFERRED, TS_FAILED, TS_READY, TS_CANCELLED}"
  "task_can_transition TS_SUCCEEDED t = False" "task_can_transition TS_DEFERRED t = False"
  "task_can_transition TS_FAILED t = False" "task_can_transition TS_BLOCKED t = False"
  "task_can_transition TS_CANCELLED t = False"
  by (auto simp: task_can_transition_def)

lemma transition_to_Inr:
  "transition_to t s = Inr t' \<longleftrightarrow> task_can_transition (t_status t) s \<and> t' = t\<lparr>t_status := s\<rparr>"
  by (auto simp: transition_to_def)

lemma validate_patterns_ok:
  "validate_patterns ps = Inr () \<longleftrightarrow> (\<forall>p \<in> set ps. scope_pattern_error p = None)"
  by (induction ps) (auto split: option.splits)

lemma validate_task_Inr:
  "validate_task t = Inr u \<Longrightarrow> u = t \<and> t_id t \<notin> set (t_deps t) \<and> distinct (t_deps t)"
  by (auto simp: validate_task_def res_simps split: option.splits if_splits)

lemma validate_task_scope:
  assumes "validate_task t = Inr u" and "p \<in> set (sc_write_paths (t_scope t))"
  shows "\<not> starts_with p ''/'' \<and> ''..'' \<notin> set (split_on (CHR ''/'') (fwd_slashes p))"
proof -
  from assms(1) have "validate_patterns (sc_write_paths (t_scope t)) = Inr ()"
    by (auto simp: validate_task_def validate_scope_def res_simps split: option.splits)
  with assms(2) have "scope_pattern_error p = None"
    by (simp add: validate_patterns_ok)
  then show ?thesis by (simp add: scope_pattern_error_def split: if_splits)
qed

end
