(* ===== verification/Kahn.thy ===== *)
theory Kahn
  imports Edith_Prelude
begin

text \<open>
  Kahn's algorithm, which the program runs in three places (\<open>TaskGraph._assert_acyclic\<close>,
  \<open>TaskGraph.topological_order\<close>, the plan validator). The loops differ in the order in
  which they unlock dependents. The interface \<open>relaxation\<close> says what one loop body does to
  the indegree table; the invariant of the loop and its consequences are proved once for
  every body that meets it.
\<close>

definition dep_rel :: "'v list \<Rightarrow> ('v \<Rightarrow> 'v list) \<Rightarrow> ('v \<times> 'v) set" where
  "dep_rel ns deps = {(d, x). x \<in> set ns \<and> d \<in> set (deps x)}"

fun topo_ok :: "('v \<Rightarrow> 'v list) \<Rightarrow> 'v set \<Rightarrow> 'v list \<Rightarrow> bool" where
  "topo_ok deps seen [] = True"
| "topo_ok deps seen (x # xs) = (set (deps x) \<subseteq> seen \<and> topo_ok deps (insert x seen) xs)"

definition kahn_inv ::
    "'v list \<Rightarrow> ('v \<Rightarrow> 'v list) \<Rightarrow> ('v \<Rightarrow> int) \<Rightarrow> 'v list \<Rightarrow> 'v list \<Rightarrow> bool" where
  "kahn_inv ns deps ind queue visited \<longleftrightarrow>
     distinct (visited @ queue) \<and> set (visited @ queue) \<subseteq> set ns \<and>
     (\<forall>x \<in> set ns. ind x = int (length (filter (\<lambda>d. d \<notin> set visited) (deps x)))) \<and>
     (\<forall>x \<in> set ns. x \<in> set (visited @ queue) \<longleftrightarrow> ind x = 0) \<and>
     topo_ok deps {} visited"

lemma topo_ok_snoc:
  "topo_ok deps seen (xs @ [x]) \<longleftrightarrow> topo_ok deps seen xs \<and> set (deps x) \<subseteq> seen \<union> set xs"
  by (induction xs arbitrary: seen) auto

lemma topo_ok_split:
  "topo_ok deps seen (xs @ x # ys) \<Longrightarrow> set (deps x) \<subseteq> seen \<union> set xs"
  by (induction xs arbitrary: seen) auto

lemma topo_ok_acyclic:
  assumes "topo_ok deps {} xs" and "distinct xs"
  shows "acyclic (dep_rel xs deps)"
proof -
  let ?pos = "\<lambda>x. length (takeWhile (\<lambda>y. y \<noteq> x) xs)"
  have "?pos d < ?pos x" if "(d, x) \<in> dep_rel xs deps" for d x
  proof -
    from that have "x \<in> set xs" and d: "d \<in> set (deps x)"
      by (auto simp: dep_rel_def)
    then obtain us vs where xs: "xs = us @ x # vs" "x \<notin> set us"
      by (meson split_list_first)
    with assms(1) d have "d \<in> set us" using topo_ok_split by fastforce
    then have "takeWhile (\<lambda>y. y \<noteq> d) xs = takeWhile (\<lambda>y. y \<noteq> d) us"
      unfolding xs by (simp add: takeWhile_append1)
    moreover have "length (takeWhile (\<lambda>y. y \<noteq> d) us) < length us"
      using \<open>d \<in> set us\<close> by (induction us) auto
    moreover have "?pos x = length us"
      unfolding xs using xs(2) by (subst takeWhile_append2) auto
    ultimately show ?thesis by simp
  qed
  then have "dep_rel xs deps \<subseteq> measure ?pos" by auto
  then show ?thesis
    by (meson acyclic_subset wf_acyclic wf_measure)
qed

lemma closed_under_deps_all:
  assumes acyc: "acyclic (dep_rel ns deps)" and closed: "\<And>x. x \<in> set ns \<Longrightarrow> set (deps x) \<subseteq> set ns"
    and step: "\<And>x. x \<in> set ns \<Longrightarrow> set (deps x) \<subseteq> S \<Longrightarrow> x \<in> S"
  shows "set ns \<subseteq> S"
proof -
  have "dep_rel ns deps \<subseteq> set ns \<times> set ns"
    using closed by (auto simp: dep_rel_def)
  then have "finite (dep_rel ns deps)"
    by (rule finite_subset) simp
  with acyc have "wf (dep_rel ns deps)"
    by (simp add: finite_acyclic_wf)
  then have "x \<in> set ns \<longrightarrow> x \<in> S" for x
  proof (induction x rule: wf_induct_rule)
    case (less x)
    have "d \<in> S" if "x \<in> set ns" "d \<in> set (deps x)" for d
      using less that closed by (auto simp: dep_rel_def)
    with step show ?case by blast
  qed
  then show ?thesis by blast
qed

lemma kahn_inv_init:
  assumes "distinct q" and "set q = {x \<in> set ns. deps x = []}"
    and "\<And>x. x \<in> set ns \<Longrightarrow> ind x = int (length (deps x))"
  shows "kahn_inv ns deps ind q []"
  using assms by (auto simp: kahn_inv_def)

lemma kahn_inv_finished:
  assumes "kahn_inv ns deps ind [] visited" and "x \<in> set ns"
  shows "x \<in> set visited \<longleftrightarrow> set (deps x) \<subseteq> set visited"
  using assms by (auto simp: kahn_inv_def filter_empty_conv)

lemma kahn_inv_visited_all:
  assumes inv: "kahn_inv ns deps ind [] visited" and acyc: "acyclic (dep_rel ns deps)"
    and closed: "\<And>x. x \<in> set ns \<Longrightarrow> set (deps x) \<subseteq> set ns"
  shows "set visited = set ns"
proof
  show "set visited \<subseteq> set ns" using inv by (simp add: kahn_inv_def)
  show "set ns \<subseteq> set visited"
    using acyc closed by (rule closed_under_deps_all) (simp_all add: kahn_inv_finished [OF inv])
qed

lemma kahn_inv_acyclic:
  assumes inv: "kahn_inv ns deps ind [] visited" and all: "set visited = set ns"
  shows "acyclic (dep_rel ns deps)"
proof -
  from inv have "topo_ok deps {} visited" "distinct visited"
    by (simp_all add: kahn_inv_def)
  then have "acyclic (dep_rel visited deps)" by (rule topo_ok_acyclic)
  with all show ?thesis by (simp add: dep_rel_def)
qed

lemma filter_not_in_snoc:
  "c \<notin> set vs \<Longrightarrow>
     int (length (filter (\<lambda>d. d \<notin> set (vs @ [c])) ds)) =
     int (length (filter (\<lambda>d. d \<notin> set vs) ds)) - int (count_list ds c)"
  by (induction ds) auto

lemma count_le_filter:
  "c \<notin> set vs \<Longrightarrow> count_list ds c \<le> length (filter (\<lambda>d. d \<notin> set vs) ds)"
  by (induction ds) auto

locale relaxation =
  fixes nodes :: "'g \<Rightarrow> 'v list"
    and deps :: "'g \<Rightarrow> 'v \<Rightarrow> 'v list"
    and wf_graph :: "'g \<Rightarrow> bool"
    and relax :: "'g \<Rightarrow> 'v \<Rightarrow> ('v \<Rightarrow> int) \<Rightarrow> ('v \<Rightarrow> int) \<times> 'v list"
  assumes relax_ind: "wf_graph g \<Longrightarrow> x \<in> set (nodes g) \<Longrightarrow>
      fst (relax g c ind) x = ind x - int (count_list (deps g x) c)"
    and relax_new: "wf_graph g \<Longrightarrow>
      (\<And>x. x \<in> set (nodes g) \<Longrightarrow> int (count_list (deps g x) c) \<le> ind x) \<Longrightarrow>
      distinct (snd (relax g c ind)) \<and>
      set (snd (relax g c ind)) =
        {x \<in> set (nodes g). 0 < ind x \<and> ind x = int (count_list (deps g x) c)}"
begin

lemma kahn_inv_step:
  assumes wf: "wf_graph g"
    and inv: "kahn_inv (nodes g) (deps g) ind (c # q) visited"
    and step: "relax g c ind = (ind', new)"
  shows "kahn_inv (nodes g) (deps g) ind' (q @ new) (visited @ [c])"
proof -
  let ?ns = "nodes g" and ?open = "\<lambda>vs x. length (filter (\<lambda>d. d \<notin> set vs) (deps g x))"
  from inv have dist: "distinct (visited @ c # q)" and sub: "set (visited @ c # q) \<subseteq> set ?ns"
    and ind: "\<And>x. x \<in> set ?ns \<Longrightarrow> ind x = int (?open visited x)"
    and zero: "\<And>x. x \<in> set ?ns \<Longrightarrow> x \<in> set (visited @ c # q) \<longleftrightarrow> ind x = 0"
    and topo: "topo_ok (deps g) {} visited"
    by (auto simp: kahn_inv_def)
  have c: "c \<notin> set visited" "c \<in> set ?ns" using dist sub by auto
  have ind': "ind' x = ind x - int (count_list (deps g x) c)" if "x \<in> set ?ns" for x
    using relax_ind [OF wf that, of c ind] step by simp
  have le: "int (count_list (deps g x) c) \<le> ind x" if "x \<in> set ?ns" for x
    using ind [OF that] count_le_filter [OF c(1), of "deps g x"] by simp
  have new: "distinct new" "set new = {x \<in> set ?ns. 0 < ind x \<and> ind' x = 0}"
    using relax_new [OF wf, of c ind] le step ind' by auto
  have "ind x = 0" if "x \<in> set (visited @ c # q)" for x
    using zero [of x] sub that by blast
  then have "set new \<inter> set (visited @ c # q) = {}"
    using new(2) by fastforce
  then have "distinct ((visited @ [c]) @ q @ new)" using dist new(1) by auto
  moreover have "ind' x = int (?open (visited @ [c]) x)" if "x \<in> set ?ns" for x
    using ind' [OF that] ind [OF that] filter_not_in_snoc [OF c(1), of "deps g x"] by simp
  moreover have "x \<in> set ((visited @ [c]) @ q @ new) \<longleftrightarrow> ind' x = 0" if "x \<in> set ?ns" for x
  proof -
    have "x \<in> set ((visited @ [c]) @ q @ new) \<longleftrightarrow> x \<in> set (visited @ c # q) \<or> x \<in> set new"
      by auto
    also have "\<dots> \<longleftrightarrow> ind x = 0 \<or> (0 < ind x \<and> ind' x = 0)"
      using zero [OF that] new(2) that by simp
    also have "\<dots> \<longleftrightarrow> ind' x = 0"
      using ind' [OF that] le [OF that] by linarith
    finally show ?thesis .
  qed
  moreover have "topo_ok (deps g) {} (visited @ [c])"
    using topo zero [OF c(2)] ind [OF c(2)] by (auto simp: topo_ok_snoc filter_empty_conv)
  ultimately show ?thesis using sub new(2) by (auto simp: kahn_inv_def)
qed

end

end
