(* ===== verification/Task_Graph.thy ===== *)
theory Task_Graph
  imports Task_Model Kahn
begin

text \<open>
  \<open>edith/planning/dag.py\<close>: \<open>TaskGraph\<close>. The dictionary \<open>_tasks\<close> is the list of its values
  in insertion order; \<open>self._tasks[k]\<close> is \<open>find_task\<close>, with the KeyError of a missing key
  as an error value. The two Kahn loops are the source's loops over an indegree table,
  a queue and a counter (or the order built so far).
\<close>

type_synonym graph = "task list"

definition ids :: "graph \<Rightarrow> string list" where
  "ids g = map t_id g"

fun find_task :: "graph \<Rightarrow> string \<Rightarrow> task option" where
  "find_task [] x = None"
| "find_task (t # g) x = (if t_id t = x then Some t else find_task g x)"

text \<open>Writing back the (mutated) task object: the first entry with its id.\<close>

fun put_task :: "graph \<Rightarrow> task \<Rightarrow> graph" where
  "put_task [] u = []"
| "put_task (t # g) u = (if t_id t = t_id u then u # g else t # put_task g u)"

section \<open>Construction\<close>

fun register :: "graph \<Rightarrow> task list \<Rightarrow> (plan_error, graph) res" where
  "register acc [] = Inr acc"
| "register acc (t # ts) =
     (if t_id t \<in> set (ids acc) then Inl (DuplicateTaskId (t_id t))
      else register (acc @ [t]) ts)"

fun check_known :: "graph \<Rightarrow> string \<Rightarrow> string list \<Rightarrow> (plan_error, unit) res" where
  "check_known g x [] = Inr ()"
| "check_known g x (d # ds) =
     (if d \<notin> set (ids g) then Inl (UnknownDependency x d) else check_known g x ds)"

fun validate_dependencies_from :: "graph \<Rightarrow> task list \<Rightarrow> (plan_error, unit) res" where
  "validate_dependencies_from g [] = Inr ()"
| "validate_dependencies_from g (t # ts) =
     res_bind (check_known g (t_id t) (t_deps t)) (\<lambda>_. validate_dependencies_from g ts)"

definition validate_dependencies :: "graph \<Rightarrow> (plan_error, unit) res" where
  "validate_dependencies g = validate_dependencies_from g g"

text \<open>\<open>_dependents()[d]\<close>: the ids of the tasks that name \<open>d\<close>, once per occurrence.\<close>

definition dependents :: "graph \<Rightarrow> string \<Rightarrow> string list" where
  "dependents g d =
     concat (map (\<lambda>t. map (\<lambda>_. t_id t) (filter (\<lambda>e. e = d) (t_deps t))) g)"

definition deps_of :: "graph \<Rightarrow> string \<Rightarrow> string list" where
  "deps_of g x = (case find_task g x of None \<Rightarrow> [] | Some t \<Rightarrow> t_deps t)"

definition indegree :: "graph \<Rightarrow> string \<Rightarrow> int" where
  "indegree g x = int (length (deps_of g x))"

text \<open>The inner loop: decrement each dependent, collect the ones that reach zero.\<close>

fun decrement_all ::
    "string list \<Rightarrow> (string \<Rightarrow> int) \<Rightarrow> string list \<Rightarrow> (string \<Rightarrow> int) \<times> string list" where
  "decrement_all [] ind freed = (ind, freed)"
| "decrement_all (d # ds) ind freed =
     (let ind' = ind(d := ind d - 1)
      in decrement_all ds ind' (if ind' d = 0 then freed @ [d] else freed))"

definition positive_nodes :: "graph \<Rightarrow> (string \<Rightarrow> int) \<Rightarrow> nat" where
  "positive_nodes g ind = card {x \<in> set (ids g). 0 < ind x}"

lemma decrement_all_measure:
  "set ds \<subseteq> set (ids g) \<Longrightarrow> decrement_all ds ind freed = (ind', freed') \<Longrightarrow>
     length freed' + positive_nodes g ind' \<le> length freed + positive_nodes g ind"
proof (induction ds arbitrary: ind freed)
  case (Cons d ds)
  let ?ind = "ind(d := ind d - 1)"
  have d: "d \<in> set (ids g)" using Cons.prems(1) by simp
  have sub: "{x \<in> set (ids g). 0 < ?ind x} \<subseteq> {x \<in> set (ids g). 0 < ind x}" by auto
  have drop: "(if ?ind d = 0 then 1 else 0) + positive_nodes g ?ind \<le> positive_nodes g ind"
  proof (cases "?ind d = 0")
    case True
    then have "d \<in> {x \<in> set (ids g). 0 < ind x} - {x \<in> set (ids g). 0 < ?ind x}"
      using d by simp
    then have "{x \<in> set (ids g). 0 < ?ind x} \<subset> {x \<in> set (ids g). 0 < ind x}"
      using sub by blast
    then have "positive_nodes g ?ind < positive_nodes g ind"
      unfolding positive_nodes_def by (intro psubset_card_mono) simp_all
    with True show ?thesis by simp
  next
    case False
    then show ?thesis
      using sub unfolding positive_nodes_def by (simp add: card_mono)
  qed
  have run: "decrement_all ds ?ind (if ?ind d = 0 then freed @ [d] else freed) = (ind', freed')"
    using Cons.prems(2) by (simp only: decrement_all.simps Let_def)
  have "set ds \<subseteq> set (ids g)" using Cons.prems(1) by simp
  then have "length freed' + positive_nodes g ind' \<le>
      length (if ?ind d = 0 then freed @ [d] else freed) + positive_nodes g ?ind"
    using run by (rule Cons.IH)
  with drop show ?case by (cases "?ind d = 0") (simp_all del: fun_upd_apply)
qed simp

lemma set_dependents: "set (dependents g d) = {t_id t | t. t \<in> set g \<and> d \<in> set (t_deps t)}"
  by (auto simp: dependents_def)

lemma dependents_in_ids: "set (dependents g d) \<subseteq> set (ids g)"
  by (auto simp: set_dependents ids_def)

definition relax_sorted ::
    "graph \<Rightarrow> string \<Rightarrow> (string \<Rightarrow> int) \<Rightarrow> (string \<Rightarrow> int) \<times> string list" where
  "relax_sorted g c ind = decrement_all (sort (dependents g c)) ind []"

definition prio_key :: "graph \<Rightarrow> string \<Rightarrow> int \<times> string" where
  "prio_key g x = ((case find_task g x of None \<Rightarrow> 0 | Some t \<Rightarrow> t_priority t), x)"

definition relax_priority ::
    "graph \<Rightarrow> string \<Rightarrow> (string \<Rightarrow> int) \<Rightarrow> (string \<Rightarrow> int) \<times> string list" where
  "relax_priority g c ind =
     (let (ind', unlocked) = decrement_all (dependents g c) ind []
      in (ind', sort_key (prio_key g) unlocked))"

lemma relax_sorted_measure:
  "relax_sorted g c ind = (ind', new) \<Longrightarrow> length new + positive_nodes g ind' \<le> positive_nodes g ind"
  using decrement_all_measure [of "sort (dependents g c)" g ind "[]"]
  by (simp add: relax_sorted_def dependents_in_ids)

lemma relax_priority_measure:
  "relax_priority g c ind = (ind', new) \<Longrightarrow> length new + positive_nodes g ind' \<le> positive_nodes g ind"
  using decrement_all_measure [of "dependents g c" g ind "[]"]
  by (auto simp: relax_priority_def dependents_in_ids split: prod.splits)

text \<open>The \<open>while queue\<close> loop of \<open>_assert_acyclic\<close>: it returns the table and the count.\<close>

function kahn_count ::
    "graph \<Rightarrow> (string \<Rightarrow> int) \<Rightarrow> string list \<Rightarrow> nat \<Rightarrow> (string \<Rightarrow> int) \<times> nat" where
  "kahn_count g ind [] visited = (ind, visited)"
| "kahn_count g ind (current # queue) visited =
     (let (ind', new) = relax_sorted g current ind
      in kahn_count g ind' (queue @ new) (Suc visited))"
  by pat_completeness auto
termination
  by (relation "measure (\<lambda>(g, ind, q, v). length q + positive_nodes g ind)")
    (auto dest!: sym [of "(_, _)" "relax_sorted _ _ _"] relax_sorted_measure)

definition assert_acyclic :: "graph \<Rightarrow> (plan_error, unit) res" where
  "assert_acyclic g =
     (let (ind, visited) =
        kahn_count g (indegree g) (sort (filter (\<lambda>x. indegree g x = 0) (ids g))) 0
      in if visited \<noteq> length g
         then Inl (DependencyCycle (sort (filter (\<lambda>x. 0 < ind x) (ids g))))
         else Inr ())"

definition task_graph :: "task list \<Rightarrow> (plan_error, graph) res" where
  "task_graph ts =
     res_bind (register [] ts) (\<lambda>g.
     res_bind (validate_dependencies g) (\<lambda>_.
     res_bind (assert_acyclic g) (\<lambda>_. Inr g)))"

text \<open>The loop of \<open>topological_order\<close>.\<close>

function topo_loop :: "graph \<Rightarrow> (string \<Rightarrow> int) \<Rightarrow> string list \<Rightarrow> string list \<Rightarrow> string list" where
  "topo_loop g ind [] ordered = ordered"
| "topo_loop g ind (current # queue) ordered =
     (let (ind', new) = relax_priority g current ind
      in topo_loop g ind' (queue @ new) (ordered @ [current]))"
  by pat_completeness auto
termination
  by (relation "measure (\<lambda>(g, ind, q, v). length q + positive_nodes g ind)")
    (auto dest!: sym [of "(_, _)" "relax_priority _ _ _"] relax_priority_measure)

definition topological_order :: "graph \<Rightarrow> string list" where
  "topological_order g =
     topo_loop g (indegree g)
       (sort_key (prio_key g) (filter (\<lambda>x. indegree g x = 0) (ids g))) []"

text \<open>\<open>get\<close> turns the KeyError into a plan error.\<close>

definition get_task :: "graph \<Rightarrow> string \<Rightarrow> (plan_error, task) res" where
  "get_task g x = (case find_task g x of None \<Rightarrow> Inl (UnknownTask x) | Some t \<Rightarrow> Inr t)"

definition tasks_in_order :: "graph \<Rightarrow> task list" where
  "tasks_in_order g = sort_key (\<lambda>t. (t_priority t, t_id t)) g"

section \<open>Scheduling\<close>

definition unlocking :: "task_status \<Rightarrow> bool" where
  "unlocking s \<longleftrightarrow> s \<in> {TS_SUCCEEDED, TS_DEFERRED}"

definition failing :: "task_status \<Rightarrow> bool" where
  "failing s \<longleftrightarrow> s \<in> {TS_FAILED, TS_BLOCKED, TS_CANCELLED}"

text \<open>\<open>all(...)\<close> and \<open>any(...)\<close> over \<open>self._tasks[d]\<close> stop at the first decisive element;
  a missing key raises.\<close>

fun dependencies_satisfied :: "graph \<Rightarrow> string list \<Rightarrow> (plan_error, bool) res" where
  "dependencies_satisfied g [] = Inr True"
| "dependencies_satisfied g (d # ds) =
     (case find_task g d of
        None \<Rightarrow> Inl (KeyError d)
      | Some u \<Rightarrow> if unlocking (t_status u) then dependencies_satisfied g ds else Inr False)"

fun has_failed_dependency :: "graph \<Rightarrow> string list \<Rightarrow> (plan_error, bool) res" where
  "has_failed_dependency g [] = Inr False"
| "has_failed_dependency g (d # ds) =
     (case find_task g d of
        None \<Rightarrow> Inl (KeyError d)
      | Some u \<Rightarrow> if failing (t_status u) then Inr True else has_failed_dependency g ds)"

definition refresh_visit :: "graph \<Rightarrow> string \<Rightarrow> (plan_error, graph \<times> bool) res" where
  "refresh_visit g x =
     res_bind (get_task g x) (\<lambda>t.
       if t_status t \<in> {TS_PENDING, TS_READY} then
         res_bind (has_failed_dependency g (t_deps t)) (\<lambda>failed.
           if failed then
             res_bind (transition_to t TS_BLOCKED) (\<lambda>t'. Inr (put_task g t', True))
           else if t_status t = TS_PENDING then
             res_bind (dependencies_satisfied g (t_deps t)) (\<lambda>sat.
               if sat then
                 res_bind (transition_to t TS_READY) (\<lambda>t'. Inr (put_task g t', True))
               else Inr (g, False))
           else Inr (g, False))
       else Inr (g, False))"

fun refresh_pass :: "graph \<Rightarrow> string list \<Rightarrow> bool \<Rightarrow> (plan_error, graph \<times> bool) res" where
  "refresh_pass g [] changed = Inr (g, changed)"
| "refresh_pass g (x # xs) changed =
     res_bind (refresh_visit g x) (\<lambda>(g', ch). refresh_pass g' xs (changed \<or> ch))"

fun status_weight :: "task_status \<Rightarrow> nat" where
  "status_weight TS_PENDING = 2"
| "status_weight TS_READY = 1"
| "status_weight _ = 0"

definition weight :: "graph \<Rightarrow> nat" where
  "weight g = sum_list (map (\<lambda>t. status_weight (t_status t)) g)"

lemma find_task_Some: "find_task g x = Some t \<Longrightarrow> t \<in> set g \<and> t_id t = x"
  by (induction g) (auto split: if_splits)

lemma find_task_None: "find_task g x = None \<longleftrightarrow> x \<notin> set (ids g)"
  by (induction g) (auto simp: ids_def)

lemma weight_put_task:
  "find_task g (t_id u) = Some t \<Longrightarrow>
     weight (put_task g u) + status_weight (t_status t) = weight g + status_weight (t_status u)"
  by (induction g) (auto simp: weight_def split: if_splits)

lemma get_task_Inr: "get_task g x = Inr t \<longleftrightarrow> find_task g x = Some t"
  by (auto simp: get_task_def split: option.splits)

lemma refresh_visit_cases:
  assumes "refresh_visit g x = Inr (g', ch)"
  obtains (same) "g' = g" "\<not> ch"
  | (blocked) t where "find_task g x = Some t" "t_status t \<in> {TS_PENDING, TS_READY}"
      "has_failed_dependency g (t_deps t) = Inr True"
      "g' = put_task g (t\<lparr>t_status := TS_BLOCKED\<rparr>)" "ch"
  | (ready) t where "find_task g x = Some t" "t_status t = TS_PENDING"
      "has_failed_dependency g (t_deps t) = Inr False"
      "dependencies_satisfied g (t_deps t) = Inr True"
      "g' = put_task g (t\<lparr>t_status := TS_READY\<rparr>)" "ch"
  using assms
  by (auto simp: refresh_visit_def res_bind_Inr_iff get_task_Inr transition_to_Inr split: if_splits)

lemma refresh_visit_weight:
  assumes "refresh_visit g x = Inr (g', ch)"
  shows "if ch then weight g' < weight g else g' = g"
  using assms
proof (cases rule: refresh_visit_cases)
  case (blocked t)
  then show ?thesis
    using weight_put_task [of g "t\<lparr>t_status := TS_BLOCKED\<rparr>" t] find_task_Some [of g x t]
    by (auto split: if_splits)
next
  case (ready t)
  then show ?thesis
    using weight_put_task [of g "t\<lparr>t_status := TS_READY\<rparr>" t] find_task_Some [of g x t] by auto
qed simp

lemma refresh_pass_weight:
  "refresh_pass g xs b = Inr (g', ch) \<Longrightarrow>
     weight g' \<le> weight g \<and> (ch \<and> \<not> b \<longrightarrow> weight g' < weight g) \<and> (\<not> ch \<longrightarrow> g' = g \<and> \<not> b)"
proof (induction xs arbitrary: g b)
  case (Cons x xs)
  from Cons.prems obtain h c where h: "refresh_visit g x = Inr (h, c)"
    and rest: "refresh_pass h xs (b \<or> c) = Inr (g', ch)"
    by (auto simp: res_bind_Inr_iff)
  from refresh_visit_weight [OF h] Cons.IH [OF rest] show ?case
    by (auto split: if_splits)
qed auto

text \<open>\<open>refresh\<close>: passes over \<open>tasks()\<close> until one changes nothing.\<close>

function refresh :: "graph \<Rightarrow> (plan_error, graph) res" where
  "refresh g =
     (case refresh_pass g (map t_id (tasks_in_order g)) False of
        Inl e \<Rightarrow> Inl e
      | Inr (g', changed) \<Rightarrow> if changed then refresh g' else Inr g')"
  by pat_completeness auto
termination
  by (relation "measure weight") (auto dest: refresh_pass_weight)

declare refresh.simps [simp del]

definition ready_tasks :: "graph \<Rightarrow> (plan_error, graph \<times> task list) res" where
  "ready_tasks g =
     res_bind (refresh g) (\<lambda>g'.
       Inr (g', filter (\<lambda>t. t_status t = TS_READY) (tasks_in_order g')))"

definition next_task :: "graph \<Rightarrow> (plan_error, graph \<times> task option) res" where
  "next_task g =
     res_bind (ready_tasks g) (\<lambda>(g', ready).
       Inr (g', case ready of [] \<Rightarrow> None | t # _ \<Rightarrow> Some t))"

section \<open>Outcomes\<close>

definition mark_succeeded :: "graph \<Rightarrow> string \<Rightarrow> (plan_error, graph) res" where
  "mark_succeeded g x =
     res_bind (get_task g x) (\<lambda>t.
     res_bind (transition_to t TS_SUCCEEDED) (\<lambda>t'. refresh (put_task g t')))"

definition mark_deferred :: "graph \<Rightarrow> string \<Rightarrow> string \<Rightarrow> (plan_error, graph) res" where
  "mark_deferred g x reason =
     res_bind (get_task g x) (\<lambda>t.
     res_bind (transition_to t TS_DEFERRED) (\<lambda>t'.
       refresh (put_task g (t'\<lparr>t_failure_reason := Some reason\<rparr>))))"

definition mark_failed ::
    "graph \<Rightarrow> string \<Rightarrow> string \<Rightarrow> failure_category option \<Rightarrow> (plan_error, graph) res" where
  "mark_failed g x reason category =
     res_bind (get_task g x) (\<lambda>t.
     res_bind (transition_to t TS_FAILED) (\<lambda>t'.
       refresh (put_task g (t'\<lparr>t_failure_reason := Some reason, t_failure_category := category\<rparr>))))"

definition requeue :: "graph \<Rightarrow> string \<Rightarrow> (plan_error, graph \<times> bool) res" where
  "requeue g x =
     res_bind (get_task g x) (\<lambda>t.
       if exhausted t then Inr (g, False)
       else res_bind (transition_to t TS_READY) (\<lambda>t'. Inr (put_task g t', True)))"

text \<open>The orchestrator starts the task the graph handed it: \<open>task.transition_to(RUNNING)\<close>.\<close>

definition start_task :: "graph \<Rightarrow> string \<Rightarrow> (plan_error, graph) res" where
  "start_task g x =
     res_bind (get_task g x) (\<lambda>t.
     res_bind (transition_to t TS_RUNNING) (\<lambda>t'. Inr (put_task g t')))"

section \<open>Aggregate state\<close>

definition is_complete :: "graph \<Rightarrow> (plan_error, graph \<times> bool) res" where
  "is_complete g =
     res_bind (refresh g) (\<lambda>g'. Inr (g', list_all (\<lambda>t. task_terminal (t_status t)) g'))"

definition all_succeeded :: "graph \<Rightarrow> bool" where
  "all_succeeded g = list_all (\<lambda>t. t_status t = TS_SUCCEEDED) g"

definition settled_without_failure :: "graph \<Rightarrow> bool" where
  "settled_without_failure g = list_all (\<lambda>t. unlocking (t_status t)) g"

fun summary_from :: "(task_status \<times> nat) list \<Rightarrow> graph \<Rightarrow> (task_status \<times> nat) list" where
  "summary_from counts [] = counts"
| "summary_from counts (t # g) =
     summary_from
       (alist_put (t_status t)
          (Suc (case map_of counts (t_status t) of None \<Rightarrow> 0 | Some n \<Rightarrow> n)) counts) g"

definition summary :: "graph \<Rightarrow> (task_status \<times> nat) list" where
  "summary g = summary_from [] g"

end
