(* ===== verification/Task_Graph_Correct.thy ===== *)
theory Task_Graph_Correct
  imports Task_Graph
begin

text \<open>
  What the constructor of \<open>TaskGraph\<close> accepts, and the order \<open>topological_order\<close> returns.
  Both loops of the source meet the interface \<open>relaxation\<close> of \<open>Kahn\<close>; the invariant of
  Kahn's algorithm is inherited from there.
\<close>

definition wf_graph :: "graph \<Rightarrow> bool" where
  "wf_graph g \<longleftrightarrow> distinct (ids g) \<and> (\<forall>t \<in> set g. set (t_deps t) \<subseteq> set (ids g))"

definition task_dep_rel :: "task list \<Rightarrow> (string \<times> string) set" where
  "task_dep_rel ts = {(d, t_id t) | d t. t \<in> set ts \<and> d \<in> set (t_deps t)}"

section \<open>Lookup\<close>

lemma find_task_mem: "distinct (ids g) \<Longrightarrow> t \<in> set g \<Longrightarrow> find_task g (t_id t) = Some t"
  by (induction g) (force simp: ids_def)+

lemma deps_of_mem: "distinct (ids g) \<Longrightarrow> t \<in> set g \<Longrightarrow> deps_of g (t_id t) = t_deps t"
  by (simp add: deps_of_def find_task_mem)

lemma ids_memE:
  assumes "x \<in> set (ids g)"
  obtains t where "t \<in> set g" "t_id t = x"
  using assms by (auto simp: ids_def)

lemma wf_graph_closed: "wf_graph g \<Longrightarrow> x \<in> set (ids g) \<Longrightarrow> set (deps_of g x) \<subseteq> set (ids g)"
proof -
  assume wf: "wf_graph g" and "x \<in> set (ids g)"
  then obtain t where "t \<in> set g" "t_id t = x" by (elim ids_memE)
  with wf have "deps_of g x = t_deps t" "set (t_deps t) \<subseteq> set (ids g)"
    by (auto simp: wf_graph_def deps_of_mem)
  then show ?thesis by simp
qed

lemma dep_rel_tasks: "distinct (ids g) \<Longrightarrow> dep_rel (ids g) (deps_of g) = task_dep_rel g"
  by (force simp: dep_rel_def task_dep_rel_def deps_of_mem ids_def)

section \<open>One loop body\<close>

lemma count_list_map_const: "count_list (map (\<lambda>_. y) xs) x = (if x = y then length xs else 0)"
  by (induction xs) auto

lemma length_filter_eq_count: "length (filter (\<lambda>e. e = c) xs) = count_list xs c"
  by (induction xs) auto

lemma count_dependents_notin: "x \<notin> set (ids g) \<Longrightarrow> count_list (dependents g c) x = 0"
  using dependents_in_ids [of g c] by (auto simp: count_list_0_iff)

lemma count_dependents:
  "distinct (ids g) \<Longrightarrow> x \<in> set (ids g) \<Longrightarrow> count_list (dependents g c) x = count_list (deps_of g x) c"
proof (induction g)
  case (Cons t g)
  have dep_cons: "dependents (t # g) c = map (\<lambda>_. t_id t) (filter (\<lambda>e. e = c) (t_deps t)) @ dependents g c"
    by (simp add: dependents_def)
  show ?case
  proof (cases "x = t_id t")
    case True
    then have "x \<notin> set (ids g)" using Cons.prems by (simp add: ids_def)
    with True show ?thesis
      by (simp add: dep_cons count_list_map_const count_dependents_notin deps_of_def length_filter_eq_count)
  next
    case False
    with Cons have "count_list (dependents g c) x = count_list (deps_of g x) c"
      by (simp add: ids_def)
    moreover have "deps_of (t # g) x = deps_of g x" using False by (simp add: deps_of_def)
    ultimately show ?thesis
      using False by (simp only: dep_cons count_list_append count_list_map_const if_False add_0)
  qed
qed (simp add: ids_def)

lemma decrement_all_ind: "fst (decrement_all ds ind freed) x = ind x - int (count_list ds x)"
proof (induction ds arbitrary: ind freed)
  case (Cons d ds)
  have "fst (decrement_all (d # ds) ind freed) x = (ind(d := ind d - 1)) x - int (count_list ds x)"
    by (simp only: decrement_all.simps Let_def Cons.IH)
  then show ?case by simp
qed simp

lemma decrement_all_freed:
  "(\<And>x. x \<in> set ds \<Longrightarrow> int (count_list ds x) \<le> ind x) \<Longrightarrow>
     \<exists>new. snd (decrement_all ds ind freed) = freed @ new \<and> distinct new \<and>
       set new = {x \<in> set ds. ind x = int (count_list ds x)}"
proof (induction ds arbitrary: ind freed)
  case (Cons d ds)
  let ?ind = "ind(d := ind d - 1)" and ?freed = "if ind d = 1 then freed @ [d] else freed"
  have step: "decrement_all (d # ds) ind freed = decrement_all ds ?ind ?freed"
    by (simp add: Let_def)
  have le: "int (count_list ds x) \<le> ?ind x" if "x \<in> set ds" for x
    using Cons.prems [of x] that by (auto split: if_splits)
  obtain new where new: "snd (decrement_all ds ?ind ?freed) = ?freed @ new" "distinct new"
      "set new = {x \<in> set ds. ?ind x = int (count_list ds x)}"
    using Cons.IH [of ?ind ?freed, OF le] by blast
  have d_le: "int (count_list ds d) + 1 \<le> ind d" using Cons.prems [of d] by simp
  show ?case
  proof (cases "ind d = 1")
    case True
    then have "d \<notin> set ds" using d_le by (simp flip: count_list_0_iff)
    then have "set (d # new) = {x \<in> set (d # ds). ind x = int (count_list (d # ds) x)}"
      using True new(3) by (auto simp: count_list_0_iff)
    moreover have "distinct (d # new)" using \<open>d \<notin> set ds\<close> new by auto
    ultimately show ?thesis using True new(1) unfolding step by (intro exI [of _ "d # new"]) simp
  next
    case False
    then have "ind d = int (count_list ds d) + 1 \<Longrightarrow> d \<in> set ds"
      using count_notin by fastforce
    then have "set new = {x \<in> set (d # ds). ind x = int (count_list (d # ds) x)}"
      using new(3) by auto
    then show ?thesis using False new unfolding step by (intro exI [of _ new]) simp
  qed
qed simp

lemma decrement_dependents:
  assumes wf: "wf_graph g" and perm: "mset ds = mset (dependents g c)"
    and le: "\<And>x. x \<in> set (ids g) \<Longrightarrow> int (count_list (deps_of g x) c) \<le> ind x"
  shows "distinct (snd (decrement_all ds ind [])) \<and>
    set (snd (decrement_all ds ind [])) =
      {x \<in> set (ids g). 0 < ind x \<and> ind x = int (count_list (deps_of g x) c)}"
proof -
  have dist: "distinct (ids g)" using wf by (simp add: wf_graph_def)
  have set_ds: "set ds = set (dependents g c)" using perm by (rule mset_eq_setD)
  have count: "count_list ds x = count_list (deps_of g x) c" if "x \<in> set (ids g)" for x
    using count_dependents [OF dist that] perm by (metis count_mset)
  have sub: "set ds \<subseteq> set (ids g)" using set_ds dependents_in_ids by simp
  obtain new where new: "snd (decrement_all ds ind []) = [] @ new" "distinct new"
      "set new = {x \<in> set ds. ind x = int (count_list ds x)}"
    using decrement_all_freed [of ds ind "[]"] le count sub by (metis subsetD)
  moreover have "{x \<in> set ds. ind x = int (count_list ds x)} =
      {x \<in> set (ids g). 0 < ind x \<and> ind x = int (count_list (deps_of g x) c)}"
    (is "?L = ?R")
  proof (intro set_eqI iffI)
    fix x assume "x \<in> ?L"
    then have "x \<in> set (ids g)" "count_list ds x \<noteq> 0" "ind x = int (count_list ds x)"
      using sub by (auto simp: count_list_0_iff)
    then show "x \<in> ?R" using count [of x] by simp
  next
    fix x assume "x \<in> ?R"
    then have "count_list ds x \<noteq> 0" "ind x = int (count_list ds x)" using count [of x] by auto
    then show "x \<in> ?L" by (metis (mono_tags, lifting) count_notin mem_Collect_eq)
  qed
  ultimately show ?thesis by simp
qed

lemma relax_sorted_ind:
  "wf_graph g \<Longrightarrow> x \<in> set (ids g) \<Longrightarrow>
     fst (relax_sorted g c ind) x = ind x - int (count_list (deps_of g x) c)"
proof -
  assume "wf_graph g" and x: "x \<in> set (ids g)"
  then have "count_list (sort (dependents g c)) x = count_list (deps_of g x) c"
    by (metis count_dependents wf_graph_def count_mset mset_sort)
  then show ?thesis by (simp add: relax_sorted_def decrement_all_ind)
qed

lemma relax_priority_ind:
  "wf_graph g \<Longrightarrow> x \<in> set (ids g) \<Longrightarrow>
     fst (relax_priority g c ind) x = ind x - int (count_list (deps_of g x) c)"
  using decrement_all_ind [of "dependents g c" ind "[]" x]
  by (simp add: relax_priority_def case_prod_beta count_dependents wf_graph_def)

interpretation sorted_relax: relaxation ids deps_of wf_graph relax_sorted
  by unfold_locales
    (rule relax_sorted_ind, assumption+, unfold relax_sorted_def, rule decrement_dependents, simp_all)

interpretation priority_relax: relaxation ids deps_of wf_graph relax_priority
proof
  fix g c and ind :: "string \<Rightarrow> int"
  assume "wf_graph g" and "\<And>x. x \<in> set (ids g) \<Longrightarrow> int (count_list (deps_of g x) c) \<le> ind x"
  then have "distinct (snd (decrement_all (dependents g c) ind [])) \<and>
      set (snd (decrement_all (dependents g c) ind [])) =
        {x \<in> set (ids g). 0 < ind x \<and> ind x = int (count_list (deps_of g x) c)}"
    by (intro decrement_dependents) simp_all
  then show "distinct (snd (relax_priority g c ind)) \<and>
      set (snd (relax_priority g c ind)) =
        {x \<in> set (ids g). 0 < ind x \<and> ind x = int (count_list (deps_of g x) c)}"
    by (simp add: relax_priority_def case_prod_beta)
qed (rule relax_priority_ind)

section \<open>The loops\<close>

lemma kahn_count_inv:
  "wf_graph g \<Longrightarrow> kahn_inv (ids g) (deps_of g) ind q vs \<Longrightarrow>
     \<exists>ind' vs'. kahn_count g ind q (length vs) = (ind', length vs') \<and>
       kahn_inv (ids g) (deps_of g) ind' [] vs'"
proof (induction g ind q "length vs" arbitrary: vs rule: kahn_count.induct)
  case (2 g ind c q)
  obtain ind' new where step: "relax_sorted g c ind = (ind', new)" by fastforce
  have "kahn_inv (ids g) (deps_of g) ind' (q @ new) (vs @ [c])"
    using "2.prems" step by (rule sorted_relax.kahn_inv_step)
  then show ?case using "2.hyps" [OF step [symmetric] refl, of "vs @ [c]"] "2.prems" step by simp
qed auto

lemma topo_loop_inv:
  "wf_graph g \<Longrightarrow> kahn_inv (ids g) (deps_of g) ind q vs \<Longrightarrow>
     \<exists>ind'. kahn_inv (ids g) (deps_of g) ind' [] (topo_loop g ind q vs)"
proof (induction g ind q vs rule: topo_loop.induct)
  case (2 g ind c q vs)
  obtain ind' new where step: "relax_priority g c ind = (ind', new)" by fastforce
  have "kahn_inv (ids g) (deps_of g) ind' (q @ new) (vs @ [c])"
    using "2.prems" step by (rule priority_relax.kahn_inv_step)
  then show ?case using "2.IH" [OF step [symmetric] refl] "2.prems" step by simp
qed auto

lemma kahn_start:
  "distinct (ids g) \<Longrightarrow> mset q = mset (filter (\<lambda>x. indegree g x = 0) (ids g)) \<Longrightarrow>
     kahn_inv (ids g) (deps_of g) (indegree g) q []"
proof (rule kahn_inv_init)
  assume "distinct (ids g)" and q: "mset q = mset (filter (\<lambda>x. indegree g x = 0) (ids g))"
  then show "distinct q" by (metis distinct_filter mset_eq_imp_distinct_iff)
  show "set q = {x \<in> set (ids g). deps_of g x = []}"
    using mset_eq_setD [OF q] by (auto simp: indegree_def)
qed (simp add: indegree_def)

lemma length_ids [simp]: "length (ids g) = length g"
  by (simp add: ids_def)

lemma assert_acyclic_iff:
  assumes wf: "wf_graph g"
  shows "assert_acyclic g = Inr () \<longleftrightarrow> acyclic (task_dep_rel g)"
proof -
  let ?q = "sort (filter (\<lambda>x. indegree g x = 0) (ids g))"
  have dist: "distinct (ids g)" using wf by (simp add: wf_graph_def)
  obtain ind vs where run: "kahn_count g (indegree g) ?q 0 = (ind, length vs)"
    and inv: "kahn_inv (ids g) (deps_of g) ind [] vs"
    using kahn_count_inv [OF wf kahn_start [OF dist], of ?q] by auto
  have vs: "distinct vs" "set vs \<subseteq> set (ids g)" using inv by (simp_all add: kahn_inv_def)
  have "length vs = length g \<longleftrightarrow> set vs = set (ids g)"
    using vs dist by (metis card_subset_eq distinct_card length_ids List.finite_set)
  also have "\<dots> \<longleftrightarrow> acyclic (dep_rel (ids g) (deps_of g))"
    using kahn_inv_visited_all [OF inv] kahn_inv_acyclic [OF inv] wf_graph_closed [OF wf] by blast
  finally show ?thesis by (simp add: assert_acyclic_def run dep_rel_tasks [OF dist])
qed

lemma register_Inr:
  "distinct (ids acc) \<Longrightarrow> register acc ts = Inr g \<longleftrightarrow> g = acc @ ts \<and> distinct (ids (acc @ ts))"
proof (induction ts arbitrary: acc)
  case (Cons t ts)
  then show ?case using Cons.IH [of "acc @ [t]"] by (auto simp: ids_def)
qed auto

lemma check_known_ok: "check_known g x ds = Inr () \<longleftrightarrow> set ds \<subseteq> set (ids g)"
  by (induction ds) auto

lemma validate_dependencies_ok:
  "validate_dependencies g = Inr () \<longleftrightarrow> (\<forall>t \<in> set g. set (t_deps t) \<subseteq> set (ids g))"
proof -
  have "validate_dependencies_from g ts = Inr () \<longleftrightarrow> (\<forall>t \<in> set ts. set (t_deps t) \<subseteq> set (ids g))"
    for ts by (induction ts) (auto simp: res_bind_Inr_iff check_known_ok)
  then show ?thesis by (simp add: validate_dependencies_def)
qed

lemma task_graph_Inr:
  "task_graph ts = Inr g \<longleftrightarrow> g = ts \<and> wf_graph ts \<and> acyclic (task_dep_rel ts)"
proof -
  have "task_graph ts = Inr g \<longleftrightarrow>
      g = ts \<and> distinct (ids ts) \<and> validate_dependencies ts = Inr () \<and> assert_acyclic ts = Inr ()"
    by (auto simp: task_graph_def res_bind_Inr_iff register_Inr ids_def [of "[]"])
  also have "\<dots> \<longleftrightarrow> g = ts \<and> wf_graph ts \<and> assert_acyclic ts = Inr ()"
    by (auto simp: validate_dependencies_ok wf_graph_def)
  finally show ?thesis using assert_acyclic_iff by blast
qed

section \<open>What the constructor accepts\<close>

lemma cycle_not_visited:
  assumes topo: "topo_ok deps {} vs" and dist: "distinct vs" and sub: "set vs \<subseteq> set ns"
    and cyc: "(x, x) \<in> (dep_rel ns deps)\<^sup>+"
  shows "x \<notin> set vs"
proof
  assume x: "x \<in> set vs"
  have closed: "d \<in> set vs" if "y \<in> set vs" "d \<in> set (deps y)" for d y
  proof -
    obtain us ws where "vs = us @ y # ws" using \<open>y \<in> set vs\<close> by (meson split_list)
    with topo_ok_split [of deps "{}" us y ws] topo that show ?thesis by auto
  qed
  have "y \<in> set vs \<Longrightarrow> (d, y) \<in> (dep_rel vs deps)\<^sup>+ \<and> d \<in> set vs"
    if "(d, y) \<in> (dep_rel ns deps)\<^sup>+" for d y
    using that
  proof (induction rule: converse_trancl_induct)
    case (base d)
    then show ?case using closed by (auto simp: dep_rel_def)
  next
    case (step d e)
    then have "(e, y) \<in> (dep_rel vs deps)\<^sup>+" "e \<in> set vs" "d \<in> set (deps e)"
      by (auto simp: dep_rel_def)
    then show ?case using closed by (auto simp: dep_rel_def intro: trancl_into_trancl2)
  qed
  with cyc x have "(x, x) \<in> (dep_rel vs deps)\<^sup>+" by blast
  with topo_ok_acyclic [OF topo dist] show False by (auto simp: acyclic_def)
qed

lemma assert_acyclic_cycle:
  assumes wf: "wf_graph g" and err: "assert_acyclic g = Inl (DependencyCycle xs)"
    and cyc: "(x, x) \<in> (task_dep_rel g)\<^sup>+"
  shows "x \<in> set xs"
proof -
  let ?q = "sort (filter (\<lambda>x. indegree g x = 0) (ids g))"
  have dist: "distinct (ids g)" using wf by (simp add: wf_graph_def)
  obtain ind vs where run: "kahn_count g (indegree g) ?q 0 = (ind, length vs)"
    and inv: "kahn_inv (ids g) (deps_of g) ind [] vs"
    using kahn_count_inv [OF wf kahn_start [OF dist], of ?q] by auto
  have "x \<notin> set vs"
    using inv cyc by (intro cycle_not_visited [of "deps_of g" vs "ids g"])
      (simp_all add: kahn_inv_def dep_rel_tasks [OF dist])
  moreover have x: "x \<in> set (ids g)"
    using tranclD2 [OF cyc] by (auto simp: task_dep_rel_def ids_def)
  ultimately have "0 < ind x" using inv by (force simp: kahn_inv_def)
  moreover have "xs = sort (filter (\<lambda>x. 0 < ind x) (ids g))"
    using err by (simp add: assert_acyclic_def run split: if_splits)
  ultimately show ?thesis using x by simp
qed

lemma validate_not_cycle: "validate_dependencies_from g ts \<noteq> Inl (DependencyCycle xs)"
proof -
  have "check_known g x ds \<noteq> Inl (DependencyCycle xs)" for x ds by (induction ds) auto
  then show ?thesis by (induction ts) (auto simp: res_bind_Inl_iff)
qed

lemma register_not_cycle: "register acc ts \<noteq> Inl (DependencyCycle xs)"
  by (induction ts arbitrary: acc) auto

lemma task_graph_cycle:
  assumes "task_graph ts = Inl (DependencyCycle xs)"
  shows "wf_graph ts \<and> assert_acyclic ts = Inl (DependencyCycle xs)"
  using assms validate_not_cycle [of ts ts xs] register_not_cycle [of "[]" ts xs]
  by (auto simp: task_graph_def res_bind_Inl_iff register_Inr ids_def [of "[]"] wf_graph_def
      validate_dependencies_ok) (auto simp: validate_dependencies_def)

text \<open>C9. Building a \<open>TaskGraph\<close> succeeds exactly for the plans that are DAGs: it returns the
  tasks themselves when the ids are pairwise different, every dependency names a task and
  the dependency relation is acyclic, and raises otherwise (Kahn's count finds every cycle
  and rejects nothing else). A cycle error names at least every task that lies on a cycle.
\<close>

theorem task_graph_accepts_exactly_dags:
  "(task_graph ts = Inr g \<longleftrightarrow>
      g = ts \<and> distinct (ids ts) \<and> (\<forall>t \<in> set ts. set (t_deps t) \<subseteq> set (ids ts)) \<and>
      acyclic (task_dep_rel ts)) \<and>
   (task_graph ts = Inl (DependencyCycle xs) \<longrightarrow> {x. (x, x) \<in> (task_dep_rel ts)\<^sup>+} \<subseteq> set xs)"
proof (intro conjI impI)
  show "task_graph ts = Inr g \<longleftrightarrow>
      g = ts \<and> distinct (ids ts) \<and> (\<forall>t \<in> set ts. set (t_deps t) \<subseteq> set (ids ts)) \<and>
      acyclic (task_dep_rel ts)"
    by (simp add: task_graph_Inr wf_graph_def)
  assume "task_graph ts = Inl (DependencyCycle xs)"
  then show "{x. (x, x) \<in> (task_dep_rel ts)\<^sup>+} \<subseteq> set xs"
    using task_graph_cycle assert_acyclic_cycle by blast
qed

definition sample_task :: "string \<Rightarrow> int \<Rightarrow> string list \<Rightarrow> task" where
  "sample_task x p ds = \<lparr>t_id = x, t_title = ''t'', t_description = ''d'', t_agent = ''coder'',
     t_priority = p, t_deps = ds, t_inputs = [], t_outputs = [], t_criteria = [],
     t_verification = [], t_scope = \<lparr>sc_read_paths = [''**''], sc_write_paths = []\<rparr>,
     t_status = TS_PENDING, t_attempts = 0, t_max_attempts = 3, t_failure_reason = None,
     t_failure_category = None\<rparr>"

lemmas sample_simps = sample_task_def ids_def indegree_def deps_of_def dependents_def
  relax_sorted_def relax_priority_def prio_key_def

theorem task_graph_accepts_exactly_dags_witness:
  "is_ok (task_graph [sample_task ''b'' 1 [''a''], sample_task ''a'' 2 []]) \<and>
   \<not> is_ok (task_graph [sample_task ''b'' 1 [''a''], sample_task ''a'' 2 [''b'']])"
proof -
  let ?ok = "[sample_task ''b'' 1 [''a''], sample_task ''a'' 2 []]"
  let ?cyc = "[sample_task ''b'' 1 [''a''], sample_task ''a'' 2 [''b'']]"
  have "task_dep_rel ?ok \<subseteq> measure (\<lambda>x. if x = ''a'' then 0 else 1)"
    by (auto simp: task_dep_rel_def sample_task_def)
  then have "acyclic (task_dep_rel ?ok)" by (meson acyclic_subset wf_acyclic wf_measure)
  then have "task_graph ?ok = Inr ?ok"
    using task_graph_accepts_exactly_dags [of ?ok ?ok] by (simp add: sample_task_def ids_def)
  moreover have "(t_id t, t_id u) \<in> task_dep_rel ?cyc"
    if "u \<in> set ?cyc" "t_id t \<in> set (t_deps u)" for t u
    using that unfolding task_dep_rel_def by blast
  from this [of "?cyc ! 0" "?cyc ! 1"] this [of "?cyc ! 1" "?cyc ! 0"]
  have "(''a'', ''b'') \<in> task_dep_rel ?cyc" "(''b'', ''a'') \<in> task_dep_rel ?cyc"
    by (simp_all add: sample_task_def)
  then have "(''a'', ''a'') \<in> (task_dep_rel ?cyc)\<^sup>+" by (meson trancl.simps)
  then have "\<not> acyclic (task_dep_rel ?cyc)" by (auto simp: acyclic_def)
  then have "task_graph ?cyc \<noteq> Inr g" for g
    using task_graph_accepts_exactly_dags [of ?cyc g] by simp
  ultimately show ?thesis by (metis is_ok_iff)
qed

text \<open>C32. On an accepted plan \<open>topological_order\<close> lists every task id exactly once, and every
  task after all the tasks it depends on.
\<close>

theorem topological_order_correct:
  assumes "task_graph ts = Inr g"
  shows "distinct (topological_order g) \<and> set (topological_order g) = set (ids g) \<and>
    (\<forall>xs x ys. topological_order g = xs @ x # ys \<longrightarrow>
       (\<forall>t \<in> set g. t_id t = x \<longrightarrow> set (t_deps t) \<subseteq> set xs))"
proof -
  from assms have wf: "wf_graph g" and acyc: "acyclic (task_dep_rel g)"
    by (simp_all add: task_graph_Inr)
  have dist: "distinct (ids g)" using wf by (simp add: wf_graph_def)
  obtain ind where inv: "kahn_inv (ids g) (deps_of g) ind [] (topological_order g)"
    using topo_loop_inv [OF wf kahn_start [OF dist], of
        "sort_key (prio_key g) (filter (\<lambda>x. indegree g x = 0) (ids g))"]
    unfolding topological_order_def by (metis mset_sort)
  have "set (topological_order g) = set (ids g)"
    using acyc wf_graph_closed [OF wf]
    by (intro kahn_inv_visited_all [OF inv]) (simp_all add: dep_rel_tasks [OF dist])
  moreover have "topo_ok (deps_of g) {} (topological_order g)" "distinct (topological_order g)"
    using inv by (simp_all add: kahn_inv_def)
  ultimately show ?thesis
    using topo_ok_split [of "deps_of g" "{}"] deps_of_mem [OF dist] by fastforce
qed

theorem topological_order_correct_witness:
  "set (topological_order [sample_task ''b'' 1 [''a''], sample_task ''a'' 2 []]) = {''a'', ''b''}"
proof -
  let ?g = "[sample_task ''b'' 1 [''a''], sample_task ''a'' 2 []]"
  have "task_dep_rel ?g \<subseteq> measure (\<lambda>x. if x = ''a'' then 0 else 1)"
    by (auto simp: task_dep_rel_def sample_task_def)
  then have "acyclic (task_dep_rel ?g)" by (meson acyclic_subset wf_acyclic wf_measure)
  then have "task_graph ?g = Inr ?g"
    by (simp add: task_graph_Inr wf_graph_def ids_def sample_task_def)
  from topological_order_correct [OF this] show ?thesis
    by (auto simp: ids_def sample_task_def)
qed

end
