(* ===== verification/Task_Schedule.thy ===== *)
theory Task_Schedule
  imports Task_Graph_Correct
begin

text \<open>
  Scheduling: what \<open>refresh\<close> computes, that it never raises and never gets stuck, and the
  invariant of every graph the orchestrator can reach. \<open>refresh\<close> is refined to a step
  relation with one rule per status change; a reachable graph is one obtained from a
  freshly built graph by the operations of the class.
\<close>

named_theorems graph_simps \<open>lookup and status rules of task graphs\<close>

definition status_in :: "graph \<Rightarrow> string \<Rightarrow> (task_status \<Rightarrow> bool) \<Rightarrow> bool" where
  "status_in g x P = (case find_task g x of None \<Rightarrow> False | Some t \<Rightarrow> P (t_status t))"

inductive refresh_step :: "graph \<Rightarrow> graph \<Rightarrow> bool" where
  block: "find_task g x = Some t \<Longrightarrow> t_status t \<in> {TS_PENDING, TS_READY} \<Longrightarrow>
     d \<in> set (t_deps t) \<Longrightarrow> status_in g d failing \<Longrightarrow>
     refresh_step g (put_task g (t\<lparr>t_status := TS_BLOCKED\<rparr>))"
| promote: "find_task g x = Some t \<Longrightarrow> t_status t = TS_PENDING \<Longrightarrow>
     (\<And>d. d \<in> set (t_deps t) \<Longrightarrow> status_in g d unlocking) \<Longrightarrow>
     refresh_step g (put_task g (t\<lparr>t_status := TS_READY\<rparr>))"

definition stable :: "graph \<Rightarrow> bool" where
  "stable g \<longleftrightarrow> (\<forall>t \<in> set g.
     (t_status t \<in> {TS_PENDING, TS_READY} \<longrightarrow> (\<forall>d \<in> set (t_deps t). \<not> status_in g d failing)) \<and>
     (t_status t = TS_PENDING \<longrightarrow> (\<exists>d \<in> set (t_deps t). \<not> status_in g d unlocking)))"

section \<open>Lookup after an update\<close>

lemma ids_put_task [simp, graph_simps]: "ids (put_task g u) = ids g"
  by (induction g) (auto simp: ids_def)

lemma find_put_task [graph_simps]:
  "t_id u \<in> set (ids g) \<Longrightarrow>
     find_task (put_task g u) x = (if x = t_id u then Some u else find_task g x)"
  by (induction g) (auto simp: ids_def)

lemma find_task_ids: "find_task g x = Some t \<Longrightarrow> x \<in> set (ids g) \<and> t_id t = x"
  by (metis find_task_None find_task_Some option.distinct(1))

lemma status_in_put [graph_simps]:
  "t_id u \<in> set (ids g) \<Longrightarrow>
     status_in (put_task g u) x P = (if x = t_id u then P (t_status u) else status_in g x P)"
  by (simp add: status_in_def find_put_task)

lemma set_put_task_subset: "set (put_task g u) \<subseteq> insert u (set g)"
  by (induction g) auto

definition same_plan :: "graph \<Rightarrow> graph \<Rightarrow> bool" where
  "same_plan g h \<longleftrightarrow>
     map (\<lambda>t. (t_id t, t_deps t, t_priority t)) g = map (\<lambda>t. (t_id t, t_deps t, t_priority t)) h"

lemma same_plan_refl [simp]: "same_plan g g"
  and same_plan_trans: "same_plan g h \<Longrightarrow> same_plan h k \<Longrightarrow> same_plan g k"
  and same_plan_sym: "same_plan g h \<Longrightarrow> same_plan h g"
  by (simp_all add: same_plan_def)

lemma same_plan_put:
  "find_task g (t_id u) = Some t \<Longrightarrow> t_deps u = t_deps t \<Longrightarrow> t_priority u = t_priority t \<Longrightarrow>
     same_plan g (put_task g u)"
  by (induction g) (auto simp: same_plan_def split: if_splits)

lemma same_plan_status:
  "find_task g x = Some t \<Longrightarrow> same_plan g (put_task g (t\<lparr>t_status := s\<rparr>))"
  by (rule same_plan_put [of g _ t]) (auto dest: find_task_Some)

lemma same_plan_ids: "same_plan g h \<Longrightarrow> ids g = ids h"
  unfolding same_plan_def ids_def by (drule arg_cong [of _ _ "map fst"]) (simp add: comp_def)

lemma same_plan_rel: "same_plan g h \<Longrightarrow> task_dep_rel g = task_dep_rel h"
proof -
  have "task_dep_rel k = (\<Union>(x, ds, p) \<in> set (map (\<lambda>t. (t_id t, t_deps t, t_priority t)) k). (\<lambda>d. (d, x)) ` set ds)"
    for k by (auto simp: task_dep_rel_def)
  then show "same_plan g h \<Longrightarrow> task_dep_rel g = task_dep_rel h"
    by (simp only: same_plan_def)
qed

lemma same_plan_wf: "same_plan g h \<Longrightarrow> wf_graph g \<longleftrightarrow> wf_graph h"
proof -
  assume sp: "same_plan g h"
  have "wf_graph k \<longleftrightarrow> distinct (ids k) \<and> (\<forall>(d, x) \<in> task_dep_rel k. d \<in> set (ids k))" for k
    by (auto simp: wf_graph_def task_dep_rel_def)
  then show ?thesis by (simp only: same_plan_ids [OF sp] same_plan_rel [OF sp])
qed

section \<open>The pass refines the step relation and never raises\<close>

lemma has_failed_dependency_eq:
  "set ds \<subseteq> set (ids g) \<Longrightarrow> has_failed_dependency g ds = Inr (\<exists>d \<in> set ds. status_in g d failing)"
  by (induction ds) (auto simp: status_in_def find_task_None split: option.splits)

lemma dependencies_satisfied_eq:
  "set ds \<subseteq> set (ids g) \<Longrightarrow> dependencies_satisfied g ds = Inr (\<forall>d \<in> set ds. status_in g d unlocking)"
  by (induction ds) (auto simp: status_in_def find_task_None split: option.splits)

lemma wf_graph_deps: "wf_graph g \<Longrightarrow> find_task g x = Some t \<Longrightarrow> set (t_deps t) \<subseteq> set (ids g)"
  using find_task_Some by (auto simp: wf_graph_def)

lemma refresh_visit_wf:
  assumes wf: "wf_graph g" and x: "find_task g x = Some t"
  shows "refresh_visit g x =
    (if t_status t \<in> {TS_PENDING, TS_READY} \<and> (\<exists>d \<in> set (t_deps t). status_in g d failing)
     then Inr (put_task g (t\<lparr>t_status := TS_BLOCKED\<rparr>), True)
     else if t_status t = TS_PENDING \<and> (\<forall>d \<in> set (t_deps t). status_in g d unlocking)
     then Inr (put_task g (t\<lparr>t_status := TS_READY\<rparr>), True) else Inr (g, False))"
  using wf_graph_deps [OF assms] x
  by (auto simp: refresh_visit_def get_task_def has_failed_dependency_eq
      dependencies_satisfied_eq transition_to_def)

lemma refresh_visit_step:
  assumes "wf_graph g" and "refresh_visit g x = Inr (g', ch)"
  shows "refresh_step\<^sup>*\<^sup>* g g'"
  using assms(2)
proof (cases rule: refresh_visit_cases)
  case (blocked t)
  with wf_graph_deps [OF assms(1)] obtain d where "d \<in> set (t_deps t)" "status_in g d failing"
    by (auto simp: has_failed_dependency_eq)
  with blocked show ?thesis by (blast intro: refresh_step.block r_into_rtranclp)
next
  case (ready t)
  with wf_graph_deps [OF assms(1)] have "\<And>d. d \<in> set (t_deps t) \<Longrightarrow> status_in g d unlocking"
    by (auto simp: dependencies_satisfied_eq)
  with ready show ?thesis by (blast intro: refresh_step.promote r_into_rtranclp)
qed simp

lemma refresh_step_same_plan: "refresh_step g h \<Longrightarrow> same_plan g h"
  by (induction rule: refresh_step.induct) (simp_all add: same_plan_status)

lemma refresh_steps_same_plan: "refresh_step\<^sup>*\<^sup>* g h \<Longrightarrow> same_plan g h"
  by (induction rule: rtranclp_induct) (auto intro: same_plan_trans refresh_step_same_plan)

lemma refresh_pass_total:
  "wf_graph g \<Longrightarrow> set xs \<subseteq> set (ids g) \<Longrightarrow>
     \<exists>g' ch. refresh_pass g xs b = Inr (g', ch) \<and> refresh_step\<^sup>*\<^sup>* g g'"
proof (induction xs arbitrary: g b)
  case (Cons x xs)
  from Cons.prems obtain t where "find_task g x = Some t"
    by (metis find_task_None insert_subset list.simps(15) option.exhaust)
  with refresh_visit_wf [OF Cons.prems(1)] obtain h c where h: "refresh_visit g x = Inr (h, c)"
    by (metis (no_types, lifting))
  then have st: "refresh_step\<^sup>*\<^sup>* g h" by (rule refresh_visit_step [OF Cons.prems(1)])
  then have "same_plan g h" by (rule refresh_steps_same_plan)
  then have "wf_graph h" "set xs \<subseteq> set (ids h)"
    using Cons.prems same_plan_wf same_plan_ids by auto
  from Cons.IH [OF this, of "b \<or> c"] st h show ?case by (auto intro: rtranclp_trans)
qed auto

lemma ids_in_order: "set (map t_id (tasks_in_order g)) = set (ids g)"
  by (simp add: tasks_in_order_def ids_def)

lemma refresh_total:
  "wf_graph g \<Longrightarrow> \<exists>g'. refresh g = Inr g' \<and> refresh_step\<^sup>*\<^sup>* g g' \<and>
     refresh_pass g' (map t_id (tasks_in_order g')) False = Inr (g', False)"
proof (induction g rule: refresh.induct)
  case (1 g)
  let ?xs = "map t_id (tasks_in_order g)"
  obtain h ch where h: "refresh_pass g ?xs False = Inr (h, ch)" "refresh_step\<^sup>*\<^sup>* g h"
    using refresh_pass_total [OF "1.prems", of ?xs False] ids_in_order [of g] by auto
  show ?case
  proof (cases ch)
    case True
    have "wf_graph h"
      using "1.prems" same_plan_wf [OF refresh_steps_same_plan [OF h(2)]] by simp
    from "1.IH" [OF h(1) refl True this] h True show ?thesis
      by (subst refresh.simps) (auto intro: rtranclp_trans)
  next
    case False
    with h refresh_pass_weight [OF h(1)] show ?thesis by (subst refresh.simps) auto
  qed
qed

lemma refresh_pass_unchanged:
  "refresh_pass g xs b = Inr (g', False) \<Longrightarrow> x \<in> set xs \<Longrightarrow> refresh_visit g x = Inr (g, False)"
proof (induction xs arbitrary: g b)
  case (Cons y ys)
  from Cons.prems(1) obtain h c where h: "refresh_visit g y = Inr (h, c)"
    and rest: "refresh_pass h ys (b \<or> c) = Inr (g', False)"
    by (auto simp: res_bind_Inr_iff)
  from refresh_pass_weight [OF rest] have "\<not> c" by simp
  with refresh_visit_weight [OF h] have "h = g" by simp
  with Cons h rest \<open>\<not> c\<close> show ?case by auto
qed simp

lemma refresh_stable:
  assumes wf: "wf_graph g" and r: "refresh g = Inr g'"
  shows "stable g'"
proof -
  have wf': "wf_graph g'"
    using refresh_total [OF wf] r same_plan_wf [OF refresh_steps_same_plan] wf by auto
  have "(t_status t \<in> {TS_PENDING, TS_READY} \<longrightarrow> (\<forall>d \<in> set (t_deps t). \<not> status_in g' d failing)) \<and>
      (t_status t = TS_PENDING \<longrightarrow> (\<exists>d \<in> set (t_deps t). \<not> status_in g' d unlocking))"
    if t: "t \<in> set g'" for t
  proof -
    have "t_id t \<in> set (map t_id (tasks_in_order g'))" using t ids_in_order [of g'] by (auto simp: ids_def)
    then have v: "refresh_visit g' (t_id t) = Inr (g', False)"
      using refresh_total [OF wf] r refresh_pass_unchanged by (metis sum.inject(2))
    have "find_task g' (t_id t) = Some t"
      using wf' t by (simp add: wf_graph_def find_task_mem)
    from v [unfolded refresh_visit_wf [OF wf' this]] show ?thesis by (auto split: if_splits)
  qed
  then show ?thesis by (simp add: stable_def)
qed

lemma refresh_steps: "wf_graph g \<Longrightarrow> refresh g = Inr g' \<Longrightarrow> refresh_step\<^sup>*\<^sup>* g g'"
  using refresh_total by fastforce

lemma refresh_same_plan: "wf_graph g \<Longrightarrow> refresh g = Inr g' \<Longrightarrow> same_plan g g'"
  by (blast intro: refresh_steps_same_plan refresh_steps)

section \<open>What refresh computes\<close>

lemma status_in_mono: "status_in g x P \<Longrightarrow> (\<And>s. P s \<Longrightarrow> Q s) \<Longrightarrow> status_in g x Q"
  by (auto simp: status_in_def split: option.splits)

lemma refresh_step_settled:
  assumes "refresh_step g h" and "\<And>s. P s \<Longrightarrow> s \<notin> {TS_PENDING, TS_READY}" and "status_in g x P"
  shows "status_in h x P"
  using assms(1,3)
proof (induction rule: refresh_step.induct)
  case (block g y t d)
  then show ?case
    using assms(2) find_task_ids [of g y t] by (auto simp: graph_simps) (auto simp: status_in_def)
next
  case (promote g y t)
  then show ?case
    using assms(2) find_task_ids [of g y t] by (auto simp: graph_simps) (auto simp: status_in_def)
qed

lemma not_open_failing: "failing s \<Longrightarrow> s \<notin> {TS_PENDING, TS_READY}"
  and not_open_unlocking: "unlocking s \<Longrightarrow> s \<notin> {TS_PENDING, TS_READY}"
  by (auto simp: failing_def unlocking_def)

text \<open>How far one task has moved from \<open>g\<close> to \<open>h\<close>.\<close>

definition moved :: "graph \<Rightarrow> task \<Rightarrow> task_status \<Rightarrow> bool" where
  "moved h t s \<longleftrightarrow>
     s = t_status t \<or>
     t_status t \<in> {TS_PENDING, TS_READY} \<and> s = TS_BLOCKED \<and> (\<exists>d \<in> set (t_deps t). status_in h d failing) \<or>
     t_status t = TS_PENDING \<and> s = TS_READY \<and> (\<forall>d \<in> set (t_deps t). status_in h d unlocking)"

lemma moved_step: "refresh_step h k \<Longrightarrow> moved h t s \<Longrightarrow> moved k t s"
  using refresh_step_settled [OF _ not_open_failing] refresh_step_settled [OF _ not_open_unlocking]
  unfolding moved_def by blast

lemma refresh_steps_moved:
  assumes "refresh_step\<^sup>*\<^sup>* g h" and "find_task g x = Some t"
  shows "\<exists>s. find_task h x = Some (t\<lparr>t_status := s\<rparr>) \<and> moved h t s"
  using assms(1)
proof (induction rule: rtranclp_induct)
  case base
  have "t\<lparr>t_status := t_status t\<rparr> = t" by simp
  then show ?case using assms(2) by (metis moved_def)
next
  case (step h k)
  then obtain s where s: "find_task h x = Some (t\<lparr>t_status := s\<rparr>)" "moved h t s" by blast
  from step.hyps(2) show ?case
  proof (cases rule: refresh_step.cases)
    case (block y u d)
    then have y: "y \<in> set (ids h)" "t_id u = y" using find_task_ids by auto
    show ?thesis
    proof (cases "x = y")
      case True
      with block s have u: "u = t\<lparr>t_status := s\<rparr>" by simp
      have "moved k t TS_BLOCKED"
        using block u s(2) step.hyps(2) refresh_step_settled [OF step.hyps(2) not_open_failing]
        by (auto simp: moved_def)
      with block u y True show ?thesis by (auto simp: find_put_task)
    next
      case False
      with block y s moved_step [OF step.hyps(2) s(2)] show ?thesis by (auto simp: find_put_task)
    qed
  next
    case (promote y u)
    then have y: "y \<in> set (ids h)" "t_id u = y" using find_task_ids by auto
    show ?thesis
    proof (cases "x = y")
      case True
      with promote s have u: "u = t\<lparr>t_status := s\<rparr>" by simp
      have "moved k t TS_READY"
        using promote u s(2) refresh_step_settled [OF step.hyps(2) not_open_unlocking]
        by (auto simp: moved_def)
      with promote u y True show ?thesis by (auto simp: find_put_task)
    next
      case False
      with promote y s moved_step [OF step.hyps(2) s(2)] show ?thesis by (auto simp: find_put_task)
    qed
  qed
qed

lemma stableD:
  "stable g \<Longrightarrow> find_task g x = Some t \<Longrightarrow>
     (t_status t \<in> {TS_PENDING, TS_READY} \<longrightarrow> (\<forall>d \<in> set (t_deps t). \<not> status_in g d failing)) \<and>
     (t_status t = TS_PENDING \<longrightarrow> (\<exists>d \<in> set (t_deps t). \<not> status_in g d unlocking))"
  using find_task_Some by (auto simp: stable_def)

text \<open>C31. \<open>refresh\<close> on a well-formed graph never raises and its loop ends. Afterwards a task that
  was neither PENDING nor READY is untouched; any other task is BLOCKED if one of its
  dependencies is (now) failed, blocked or cancelled, otherwise READY if it was READY or all
  its dependencies are finished, otherwise PENDING. Nothing but the status changes, and
  refreshing again changes nothing.
\<close>

theorem refresh_spec:
  assumes "wf_graph g"
  shows "\<exists>g'. refresh g = Inr g' \<and> refresh g' = Inr g' \<and> ids g' = ids g \<and>
    (\<forall>x t. find_task g x = Some t \<longrightarrow>
       find_task g' x = Some (t\<lparr>t_status :=
         (if t_status t \<notin> {TS_PENDING, TS_READY} then t_status t
          else if \<exists>d \<in> set (t_deps t). status_in g' d failing then TS_BLOCKED
          else if t_status t = TS_READY \<or> (\<forall>d \<in> set (t_deps t). status_in g' d unlocking)
          then TS_READY else TS_PENDING)\<rparr>))"
proof -
  obtain g' where r: "refresh g = Inr g'" and steps: "refresh_step\<^sup>*\<^sup>* g g'"
    and fixed: "refresh_pass g' (map t_id (tasks_in_order g')) False = Inr (g', False)"
    using refresh_total [OF assms] by blast
  have "refresh g' = Inr g'" by (subst refresh.simps) (simp add: fixed)
  moreover have "ids g' = ids g" using same_plan_ids [OF refresh_steps_same_plan [OF steps]] by simp
  moreover have "find_task g' x = Some (t\<lparr>t_status :=
         (if t_status t \<notin> {TS_PENDING, TS_READY} then t_status t
          else if \<exists>d \<in> set (t_deps t). status_in g' d failing then TS_BLOCKED
          else if t_status t = TS_READY \<or> (\<forall>d \<in> set (t_deps t). status_in g' d unlocking)
          then TS_READY else TS_PENDING)\<rparr>)" (is "_ = Some (t\<lparr>t_status := ?s\<rparr>)")
    if t: "find_task g x = Some t" for x t
  proof -
    obtain s where s: "find_task g' x = Some (t\<lparr>t_status := s\<rparr>)" "moved g' t s"
      using refresh_steps_moved [OF steps t] by blast
    have "s = ?s"
      using s(2) stableD [OF refresh_stable [OF assms r] s(1)]
      by (cases "t_status t") (auto simp: moved_def)
    with s(1) show ?thesis by simp
  qed
  ultimately show ?thesis using r by blast
qed

theorem refresh_spec_witness:
  "\<exists>g'. refresh [sample_task ''b'' 1 [''a''], sample_task ''a'' 2 []] = Inr g' \<and>
     refresh g' = Inr g'"
  using refresh_spec [of "[sample_task ''b'' 1 [''a''], sample_task ''a'' 2 []]"]
  by (auto simp: wf_graph_def ids_def sample_task_def)

section \<open>No deadlock\<close>

lemma stable_no_open_terminal:
  assumes wf: "wf_graph g" and acyc: "acyclic (task_dep_rel g)" and st: "stable g"
    and none: "\<And>t. t \<in> set g \<Longrightarrow> t_status t \<notin> {TS_READY, TS_RUNNING}"
  shows "\<forall>t \<in> set g. task_terminal (t_status t)"
proof -
  have dist: "distinct (ids g)" using wf by (simp add: wf_graph_def)
  have "set (ids g) \<subseteq> {x. status_in g x task_terminal}"
  proof (rule closed_under_deps_all)
    show "acyclic (dep_rel (ids g) (deps_of g))" using acyc by (simp add: dep_rel_tasks [OF dist])
    fix x assume "x \<in> set (ids g)" and deps: "set (deps_of g x) \<subseteq> {x. status_in g x task_terminal}"
    then obtain t where t: "find_task g x = Some t" by (metis find_task_None option.exhaust)
    have "t_status t \<noteq> TS_PENDING"
    proof
      assume p: "t_status t = TS_PENDING"
      with stableD [OF st t] obtain d where d: "d \<in> set (t_deps t)" "\<not> status_in g d failing"
          "\<not> status_in g d unlocking" by auto
      have "status_in g d task_terminal" using deps d(1) t by (auto simp: deps_of_def)
      with d show False
        by (auto simp: status_in_def task_terminal_def failing_def unlocking_def split: option.splits)
    qed
    moreover have "t_status t \<notin> {TS_READY, TS_RUNNING}" using none find_task_Some [OF t] by blast
    ultimately have "task_terminal (t_status t)"
      by (cases "t_status t") (simp_all add: task_terminal_def)
    then show "x \<in> {x. status_in g x task_terminal}" by (simp add: status_in_def t)
  qed (rule wf_graph_closed [OF wf])
  then show ?thesis
    by (auto simp: ids_def status_in_def find_task_mem [OF dist] dest: find_task_mem [OF dist])
qed

text \<open>C30. The scheduler does not strand work: on an accepted plan, when \<open>next_task\<close> has nothing
  to offer and no task is running, every task has reached a terminal status (so
  \<open>is_complete\<close> answers True). A task that \<open>next_task\<close> does offer is READY and comes first
  in (priority, id) order among the READY tasks.
\<close>

theorem scheduler_no_deadlock:
  assumes "wf_graph g" and "acyclic (task_dep_rel g)"
  shows "\<exists>g' offer. next_task g = Inr (g', offer) \<and> same_plan g g' \<and>
    (offer = None \<and> (\<forall>t \<in> set g. t_status t \<noteq> TS_RUNNING) \<longrightarrow>
       (\<forall>t \<in> set g'. task_terminal (t_status t)) \<and> is_complete g = Inr (g', True)) \<and>
    (\<forall>t. offer = Some t \<longrightarrow> t \<in> set g' \<and> t_status t = TS_READY \<and>
       (\<forall>u \<in> set g'. t_status u = TS_READY \<longrightarrow> (t_priority t, t_id t) \<le> (t_priority u, t_id u)))"
proof -
  obtain g' where r: "refresh g = Inr g'" using refresh_total [OF assms(1)] by blast
  let ?ready = "filter (\<lambda>t. t_status t = TS_READY) (tasks_in_order g')"
  let ?offer = "case ?ready of [] \<Rightarrow> None | t # _ \<Rightarrow> Some t"
  have sp: "same_plan g g'" using assms(1) r by (rule refresh_same_plan)
  have offered: "next_task g = Inr (g', ?offer)" by (simp add: next_task_def ready_tasks_def r)
  have set: "set ?ready = {t \<in> set g'. t_status t = TS_READY}" by (auto simp: tasks_in_order_def)
  have srt: "sorted (map (\<lambda>t. (t_priority t, t_id t)) ?ready)"
    by (simp add: tasks_in_order_def sorted_filter)
  have idle: "(\<forall>t \<in> set g'. task_terminal (t_status t)) \<and> is_complete g = Inr (g', True)"
    if "?offer = None" and run: "\<forall>t \<in> set g. t_status t \<noteq> TS_RUNNING"
  proof -
    from that(1) have "?ready = []" by (cases ?ready) auto
    then have ready: "t_status t \<noteq> TS_READY" if "t \<in> set g'" for t using set that by auto
    have "t_status t \<noteq> TS_RUNNING" if t: "t \<in> set g'" for t
    proof
      assume running: "t_status t = TS_RUNNING"
      have "t_id t \<in> set (ids g)" using t same_plan_ids [OF sp] by (auto simp: ids_def)
      then obtain u where u: "find_task g (t_id t) = Some u" by (metis find_task_None option.exhaust)
      have "find_task g' (t_id t) = Some t"
        using t same_plan_wf [OF sp] assms(1) by (simp add: wf_graph_def find_task_mem)
      with refresh_steps_moved [OF refresh_steps [OF assms(1) r] u] running
      have "t_status u = TS_RUNNING" by (auto simp: moved_def)
      with run find_task_Some [OF u] show False by blast
    qed
    with ready have "\<forall>t \<in> set g'. task_terminal (t_status t)"
      using assms sp r same_plan_wf same_plan_rel
      by (intro stable_no_open_terminal refresh_stable [of g]) auto
    then show ?thesis by (simp add: is_complete_def r list_all_iff)
  qed
  have first: "t \<in> set g' \<and> t_status t = TS_READY \<and>
       (\<forall>u \<in> set g'. t_status u = TS_READY \<longrightarrow> (t_priority t, t_id t) \<le> (t_priority u, t_id u))"
    if "?offer = Some t" for t
  proof -
    from that obtain rest where rd: "?ready = t # rest" by (cases ?ready) auto
    then have "t \<in> set ?ready" by simp
    moreover have "(t_priority t, t_id t) \<le> (t_priority u, t_id u)" if "u \<in> set ?ready" for u
      using srt that rd by auto
    ultimately show ?thesis using set by blast
  qed
  show ?thesis
  proof (intro exI conjI)
    show "next_task g = Inr (g', ?offer)" by (rule offered)
    show "same_plan g g'" by (rule sp)
    show "?offer = None \<and> (\<forall>t \<in> set g. t_status t \<noteq> TS_RUNNING) \<longrightarrow>
       (\<forall>t \<in> set g'. task_terminal (t_status t)) \<and> is_complete g = Inr (g', True)"
      using idle by blast
    show "\<forall>t. ?offer = Some t \<longrightarrow> t \<in> set g' \<and> t_status t = TS_READY \<and>
       (\<forall>u \<in> set g'. t_status u = TS_READY \<longrightarrow> (t_priority t, t_id t) \<le> (t_priority u, t_id u))"
      using first by blast
  qed
qed

theorem scheduler_no_deadlock_witness:
  "\<exists>g' offer. next_task [sample_task ''a'' 2 []] = Inr (g', offer) \<and>
     same_plan [sample_task ''a'' 2 []] g'"
proof -
  have "acyclic (task_dep_rel [sample_task ''a'' 2 []])"
    by (simp add: task_dep_rel_def sample_task_def acyclic_def)
  moreover have "wf_graph [sample_task ''a'' 2 []]"
    by (simp add: wf_graph_def ids_def sample_task_def)
  ultimately show ?thesis using scheduler_no_deadlock by blast
qed

section \<open>Every reachable graph\<close>

text \<open>
  The operations a client applies to a graph, as a step relation. \<open>requeue\<close> is taken as its
  documentation says, on a RUNNING task: the code does not check that (see
  \<open>requeue_skips_dependencies\<close>).
\<close>

inductive graph_op :: "graph \<Rightarrow> graph \<Rightarrow> bool" where
  op_refresh: "refresh g = Inr h \<Longrightarrow> graph_op g h"
| op_start: "start_task g x = Inr h \<Longrightarrow> graph_op g h"
| op_succeed: "mark_succeeded g x = Inr h \<Longrightarrow> graph_op g h"
| op_defer: "mark_deferred g x reason = Inr h \<Longrightarrow> graph_op g h"
| op_fail: "mark_failed g x reason category = Inr h \<Longrightarrow> graph_op g h"
| op_requeue: "status_in g x (\<lambda>s. s = TS_RUNNING) \<Longrightarrow> requeue g x = Inr (h, ok) \<Longrightarrow> graph_op g h"

inductive reachable_graph :: "graph \<Rightarrow> bool" where
  built: "task_graph ts = Inr g \<Longrightarrow> (\<And>t. t \<in> set ts \<Longrightarrow> t_status t = TS_PENDING) \<Longrightarrow> reachable_graph g"
| op: "reachable_graph g \<Longrightarrow> graph_op g h \<Longrightarrow> reachable_graph h"

text \<open>The invariant: the graph is a DAG, and a task that left PENDING other than by being
  blocked has only finished dependencies.\<close>

definition sched_inv :: "graph \<Rightarrow> bool" where
  "sched_inv g \<longleftrightarrow> wf_graph g \<and> acyclic (task_dep_rel g) \<and>
     (\<forall>t \<in> set g. t_status t \<notin> {TS_PENDING, TS_BLOCKED} \<longrightarrow>
        (\<forall>d \<in> set (t_deps t). status_in g d unlocking))"

lemma sched_inv_put:
  assumes inv: "sched_inv g" and t: "find_task g (t_id u) = Some t" and deps: "t_deps u = t_deps t"
    and prio: "t_priority u = t_priority t" and legal: "task_can_transition (t_status t) (t_status u)"
    and ok: "t_status u \<in> {TS_PENDING, TS_BLOCKED} \<or> t_status t \<noteq> TS_PENDING \<or>
      (\<forall>d \<in> set (t_deps t). status_in g d unlocking)"
  shows "sched_inv (put_task g u)"
proof -
  have sp: "same_plan g (put_task g u)" using t deps prio by (rule same_plan_put)
  have dom: "t_id u \<in> set (ids g)" using t find_task_ids by blast
  have grow: "status_in (put_task g u) d unlocking" if "status_in g d unlocking" for d
  proof (cases "d = t_id u")
    case True
    then have "unlocking (t_status t)" using that t by (simp add: status_in_def)
    with legal show ?thesis by (auto simp: unlocking_def)
  qed (use that dom in \<open>simp add: status_in_put\<close>)
  have live: "t_status t \<noteq> TS_BLOCKED" using legal by auto
  have "\<forall>d \<in> set (t_deps v). status_in (put_task g u) d unlocking"
    if v: "v \<in> set (put_task g u)" and st: "t_status v \<notin> {TS_PENDING, TS_BLOCKED}" for v
  proof (cases "v = u")
    case True
    with inv t ok st live deps find_task_Some [OF t] grow show ?thesis
      by (auto simp: sched_inv_def)
  next
    case False
    then have "v \<in> set g" using v set_put_task_subset by fastforce
    with inv st grow show ?thesis by (auto simp: sched_inv_def)
  qed
  then show ?thesis
    using inv same_plan_wf [OF sp] same_plan_rel [OF sp] by (auto simp: sched_inv_def)
qed

lemma sched_inv_refresh_step: "refresh_step g h \<Longrightarrow> sched_inv g \<Longrightarrow> sched_inv h"
proof (induction rule: refresh_step.induct)
  case (block g x t d)
  then show ?case using find_task_ids [of g x t]
    by (intro sched_inv_put [of g _ t]) auto
next
  case (promote g x t)
  then show ?case using find_task_ids [of g x t]
    by (intro sched_inv_put [of g _ t]) auto
qed

lemma sched_inv_refresh:
  assumes "sched_inv g" and "refresh g = Inr h"
  shows "sched_inv h"
proof -
  have "refresh_step\<^sup>*\<^sup>* g h" using assms by (simp add: sched_inv_def refresh_steps)
  then show ?thesis using assms(1)
    by (induction rule: rtranclp_induct) (auto intro: sched_inv_refresh_step)
qed

lemma sched_inv_move:
  assumes "sched_inv g" and "get_task g x = Inr t" and "transition_to t s = Inr u"
    and "t_status t \<noteq> TS_PENDING" and "t_id v = t_id u" "t_deps v = t_deps u"
    and "t_priority v = t_priority u" "t_status v = t_status u"
  shows "sched_inv (put_task g v)"
  using assms find_task_ids [of g x t]
  by (intro sched_inv_put [of g v t]) (auto simp: get_task_Inr transition_to_Inr)

lemma sched_inv_op: "graph_op g h \<Longrightarrow> sched_inv g \<Longrightarrow> sched_inv h"
proof (induction rule: graph_op.induct)
  case (op_refresh g h)
  then show ?case by (blast intro: sched_inv_refresh)
next
  case (op_start g x h)
  then obtain t u where t: "get_task g x = Inr t" "transition_to t TS_RUNNING = Inr u" "h = put_task g u"
    by (auto simp: start_task_def res_simps)
  then have "t_status t \<noteq> TS_PENDING" by (auto simp: transition_to_Inr)
  with op_start t show ?case by (auto intro: sched_inv_move)
next
  case (op_succeed g x h)
  then obtain t u where t: "get_task g x = Inr t" "transition_to t TS_SUCCEEDED = Inr u"
    and r: "refresh (put_task g u) = Inr h" by (auto simp: mark_succeeded_def res_simps)
  then have "t_status t \<noteq> TS_PENDING" by (auto simp: transition_to_Inr)
  with op_succeed t have "sched_inv (put_task g u)" by (auto intro: sched_inv_move)
  then show ?case using r by (rule sched_inv_refresh)
next
  case (op_defer g x reason h)
  then obtain t u where t: "get_task g x = Inr t" "transition_to t TS_DEFERRED = Inr u"
    and r: "refresh (put_task g (u\<lparr>t_failure_reason := Some reason\<rparr>)) = Inr h"
    by (auto simp: mark_deferred_def res_simps)
  then have "t_status t \<noteq> TS_PENDING" by (auto simp: transition_to_Inr)
  with op_defer t have "sched_inv (put_task g (u\<lparr>t_failure_reason := Some reason\<rparr>))"
    by (auto intro: sched_inv_move)
  then show ?case using r by (rule sched_inv_refresh)
next
  case (op_fail g x reason category h)
  then obtain t u where t: "get_task g x = Inr t" "transition_to t TS_FAILED = Inr u"
    and r: "refresh (put_task g (u\<lparr>t_failure_reason := Some reason,
        t_failure_category := category\<rparr>)) = Inr h"
    by (auto simp: mark_failed_def res_simps)
  then have "t_status t \<noteq> TS_PENDING" by (auto simp: transition_to_Inr)
  with op_fail t have "sched_inv (put_task g (u\<lparr>t_failure_reason := Some reason,
      t_failure_category := category\<rparr>))"
    by (auto intro: sched_inv_move)
  then show ?case using r by (rule sched_inv_refresh)
next
  case (op_requeue g x h ok)
  then obtain t where t: "get_task g x = Inr t" "t_status t = TS_RUNNING"
    by (auto simp: requeue_def res_simps get_task_Inr status_in_def)
  show ?case
  proof (cases "exhausted t")
    case True
    with op_requeue t show ?thesis by (auto simp: requeue_def)
  next
    case False
    with op_requeue t obtain u where "transition_to t TS_READY = Inr u" "h = put_task g u"
      by (auto simp: requeue_def res_simps)
    with op_requeue t show ?thesis by (auto intro: sched_inv_move)
  qed
qed

lemma reachable_sched_inv: "reachable_graph g \<Longrightarrow> sched_inv g"
proof (induction rule: reachable_graph.induct)
  case (built ts g)
  then show ?case by (auto simp: task_graph_Inr sched_inv_def)
next
  case (op g h)
  then show ?case by (blast intro: sched_inv_op)
qed


text \<open>A run used by the witness: the two-task plan, its first task done, the second ready.\<close>

definition two_tasks :: "task list" where
  "two_tasks = [sample_task ''b'' 1 [''a''], sample_task ''a'' 2 []]"

definition two_tasks_at :: "task_status \<Rightarrow> task_status \<Rightarrow> graph" where
  "two_tasks_at sb sa =
     [(sample_task ''b'' 1 [''a''])\<lparr>t_status := sb\<rparr>, (sample_task ''a'' 2 [])\<lparr>t_status := sa\<rparr>]"

lemma two_tasks_steps:
  "refresh two_tasks = Inr (two_tasks_at TS_PENDING TS_READY)"
  "start_task (two_tasks_at TS_PENDING TS_READY) ''a'' = Inr (two_tasks_at TS_PENDING TS_RUNNING)"
  "mark_succeeded (two_tasks_at TS_PENDING TS_RUNNING) ''a'' =
     Inr (two_tasks_at TS_READY TS_SUCCEEDED)"
  by code_simp+

lemma two_tasks_reachable: "reachable_graph (two_tasks_at TS_READY TS_SUCCEEDED)"
proof -
  have "task_dep_rel two_tasks \<subseteq> measure (\<lambda>x. if x = ''a'' then 0 else 1)"
    by (auto simp: two_tasks_def task_dep_rel_def sample_task_def)
  then have "acyclic (task_dep_rel two_tasks)" by (meson acyclic_subset wf_acyclic wf_measure)
  then have "task_graph two_tasks = Inr two_tasks"
    by (simp add: task_graph_Inr wf_graph_def ids_def two_tasks_def sample_task_def)
  then have "reachable_graph two_tasks"
    by (rule reachable_graph.built) (auto simp: two_tasks_def sample_task_def)
  then show ?thesis
    by (meson two_tasks_steps reachable_graph.op op_refresh op_start op_succeed)
qed


text \<open>
  \<open>requeue\<close> on a task that never ran: the code promotes it although its dependency is
  unfinished, which its documentation ("Return a RUNNING task to READY") excludes.
\<close>

lemma requeue_skips_dependencies:
  "requeue (two_tasks_at TS_PENDING TS_READY) ''b'' = Inr (two_tasks_at TS_READY TS_READY, True)"
  by code_simp

section \<open>Aggregates\<close>

lemma map_of_summary_from:
  "map_of (summary_from counts g) s =
     (let n = (case map_of counts s of None \<Rightarrow> 0 | Some n \<Rightarrow> n) + count_list (map t_status g) s
      in if map_of counts s = None \<and> s \<notin> set (map t_status g) then None else Some n)"
  by (induction g arbitrary: counts) (auto simp: Let_def split: option.splits)

lemma map_of_summary:
  "map_of (summary g) s =
     (if s \<in> set (map t_status g) then Some (count_list (map t_status g) s) else None)"
  by (simp add: summary_def map_of_summary_from)

end
