(* ===== verification/Memory_Model.thy ===== *)
theory Memory_Model
  imports Edith_Prelude Complex_Main
begin

text \<open>
  \<open>edith/memory/schema.py\<close> and \<open>edith/memory/strategy.py\<close>: memory records with their
  scoping validators, and the table saying where in the loop a strategy retrieves. Floats
  are rationals (they are compared, rounded to two decimals and printed, never accumulated
  here); timestamps are natural numbers read from a clock argument.
\<close>

datatype memory_type = MT_PROJECT | MT_ENGINEERING | MT_FAILURE | MT_DECISION | MT_TASK

datatype memory_scope = SCOPE_PROJECT | SCOPE_GLOBAL

datatype memory_source =
    SRC_USER | SRC_PROJECT_ARTIFACT | SRC_TOOL_OBSERVATION | SRC_TEST_RESULT
  | SRC_AGENT_INFERENCE | SRC_MODEL_SUGGESTION | SRC_EXTERNAL_RESEARCH

datatype memory_status = MS_ACTIVE | MS_SUPERSEDED | MS_ARCHIVED | MS_REJECTED

fun str_memory_type :: "memory_type \<Rightarrow> string" where
  "str_memory_type MT_PROJECT = ''PROJECT''"
| "str_memory_type MT_ENGINEERING = ''ENGINEERING''"
| "str_memory_type MT_FAILURE = ''FAILURE''"
| "str_memory_type MT_DECISION = ''DECISION''"
| "str_memory_type MT_TASK = ''TASK''"

fun str_memory_source :: "memory_source \<Rightarrow> string" where
  "str_memory_source SRC_USER = ''USER''"
| "str_memory_source SRC_PROJECT_ARTIFACT = ''PROJECT_ARTIFACT''"
| "str_memory_source SRC_TOOL_OBSERVATION = ''TOOL_OBSERVATION''"
| "str_memory_source SRC_TEST_RESULT = ''TEST_RESULT''"
| "str_memory_source SRC_AGENT_INFERENCE = ''AGENT_INFERENCE''"
| "str_memory_source SRC_MODEL_SUGGESTION = ''MODEL_SUGGESTION''"
| "str_memory_source SRC_EXTERNAL_RESEARCH = ''EXTERNAL_RESEARCH''"

record memory_record =
  m_id :: string
  m_type :: memory_type
  m_scope :: memory_scope
  m_project_id :: "string option"
  m_title :: string
  m_content :: string
  m_tags :: "string list"
  m_source :: memory_source
  m_source_reference :: string
  m_confidence :: rat
  m_importance :: int
  m_status :: memory_status
  m_supersedes :: "string option"
  m_superseded_by :: "string option"
  m_access_count :: nat
  m_recurrence_count :: nat
  m_metadata :: "(string \<times> string) list"
  m_last_accessed_at :: "nat option"
  m_created_at :: nat
  m_updated_at :: nat

text \<open>\<open>round(x, 2)\<close> and the format \<open>.2f\<close>: to the nearest hundredth, ties to even.\<close>

definition round_half_even :: "rat \<Rightarrow> int" where
  "round_half_even x =
     (let f = \<lfloor>x\<rfloor>; d = x - of_int f in
      if d < 1/2 then f else if d > 1/2 then f + 1 else if even f then f else f + 1)"

definition round2 :: "rat \<Rightarrow> rat" where
  "round2 x = of_int (round_half_even (100 * x)) / 100"

definition show_confidence :: "rat \<Rightarrow> string" where
  "show_confidence c =
     (let n = nat (round_half_even (100 * c))
      in show_nat (n div 100) @ ''.'' @ [digit_char (n div 10 mod 10), digit_char (n mod 10)])"

definition provenance :: "memory_record \<Rightarrow> string" where
  "provenance r =
     str_memory_source (m_source r) @ '' ('' @ m_source_reference r @ ''), confidence '' @
     show_confidence (m_confidence r)"

datatype scoping_error = ProjectWithoutId | GlobalWithProject | GlobalNotReusable

text \<open>An empty project id is falsy in Python, like \<open>None\<close>.\<close>

definition truthy_opt :: "string option \<Rightarrow> bool" where
  "truthy_opt x = (case x of None \<Rightarrow> False | Some s \<Rightarrow> s \<noteq> [])"

definition enforce_scoping :: "memory_record \<Rightarrow> (scoping_error, memory_record) res" where
  "enforce_scoping r =
     (if m_scope r = SCOPE_PROJECT \<and> \<not> truthy_opt (m_project_id r) then Inl ProjectWithoutId
      else if m_scope r = SCOPE_GLOBAL \<and> truthy_opt (m_project_id r) then Inl GlobalWithProject
      else if m_scope r = SCOPE_GLOBAL \<and> m_type r \<in> {MT_PROJECT, MT_TASK} then Inl GlobalNotReusable
      else Inr r)"

definition is_active :: "memory_record \<Rightarrow> bool" where
  "is_active r \<longleftrightarrow> m_status r = MS_ACTIVE"

definition touch_access :: "nat \<Rightarrow> memory_record \<Rightarrow> memory_record" where
  "touch_access now r =
     r\<lparr>m_access_count := m_access_count r + 1, m_last_accessed_at := Some now\<rparr>"

record scored_memory =
  s_memory :: memory_record
  s_score :: rat
  s_reasons :: "string list"

section \<open>Strategies\<close>

datatype retrieval_point = CODER_INITIAL | CODER_REPAIR | DEBUGGER

fun str_point :: "retrieval_point \<Rightarrow> string" where
  "str_point CODER_INITIAL = ''coder_initial''"
| "str_point CODER_REPAIR = ''coder_repair''"
| "str_point DEBUGGER = ''debugger''"

datatype memory_strategy =
    MS_NONE | MS_ALWAYS | MS_FAILURE_TRIGGERED | MS_DEBUGGER_ONLY | MS_HIGH_RELEVANCE

record strategy_policy =
  sp_strategy :: memory_strategy
  sp_points :: "retrieval_point list"
  sp_min_score :: rat
  sp_max_memories :: "nat option"

definition all_points :: "retrieval_point list" where
  "all_points = [CODER_INITIAL, CODER_REPAIR, DEBUGGER]"

definition after_failure :: "retrieval_point list" where
  "after_failure = [CODER_REPAIR, DEBUGGER]"

fun policy_for :: "memory_strategy \<Rightarrow> strategy_policy" where
  "policy_for MS_NONE =
     \<lparr>sp_strategy = MS_NONE, sp_points = [], sp_min_score = 0, sp_max_memories = None\<rparr>"
| "policy_for MS_ALWAYS =
     \<lparr>sp_strategy = MS_ALWAYS, sp_points = all_points, sp_min_score = 0, sp_max_memories = None\<rparr>"
| "policy_for MS_FAILURE_TRIGGERED =
     \<lparr>sp_strategy = MS_FAILURE_TRIGGERED, sp_points = after_failure, sp_min_score = 0,
      sp_max_memories = None\<rparr>"
| "policy_for MS_DEBUGGER_ONLY =
     \<lparr>sp_strategy = MS_DEBUGGER_ONLY, sp_points = [DEBUGGER], sp_min_score = 0,
      sp_max_memories = None\<rparr>"
| "policy_for MS_HIGH_RELEVANCE =
     \<lparr>sp_strategy = MS_HIGH_RELEVANCE, sp_points = all_points, sp_min_score = 14,
      sp_max_memories = Some 2\<rparr>"

definition applies_at :: "strategy_policy \<Rightarrow> retrieval_point \<Rightarrow> bool" where
  "applies_at p pt \<longleftrightarrow> pt \<in> set (sp_points p)"

definition retrieves_anything :: "strategy_policy \<Rightarrow> bool" where
  "retrieves_anything p \<longleftrightarrow> sp_points p \<noteq> []"

lemma coder_initial_only_always:
  "applies_at (policy_for s) CODER_INITIAL \<longleftrightarrow> s \<in> {MS_ALWAYS, MS_HIGH_RELEVANCE}"
  by (cases s) (simp_all add: applies_at_def all_points_def after_failure_def)

lemma policy_for_none: "\<not> applies_at (policy_for MS_NONE) pt"
  by (simp add: applies_at_def)

lemma enforce_scoping_Inr:
  "enforce_scoping r = Inr r' \<Longrightarrow>
     r' = r \<and> (m_scope r = SCOPE_GLOBAL \<longleftrightarrow> \<not> truthy_opt (m_project_id r))"
  by (cases "m_scope r") (auto simp: enforce_scoping_def split: if_splits)

lemma is_ok_scoping:
  "is_ok (enforce_scoping r) \<longleftrightarrow>
     (m_scope r = SCOPE_PROJECT \<longrightarrow> truthy_opt (m_project_id r)) \<and>
     (m_scope r = SCOPE_GLOBAL \<longrightarrow> \<not> truthy_opt (m_project_id r) \<and> m_type r \<notin> {MT_PROJECT, MT_TASK})"
  by (auto simp: enforce_scoping_def is_ok_def)

end
