(* ===== verification/Memory_Store.thy ===== *)
theory Memory_Store
  imports Memory_Model
begin

text \<open>
  \<open>edith/memory/store.py\<close>: the table \<open>memories\<close> as a list of rows in insertion order. A row
  keeps the columns the queries filter on beside the payload (the JSON of the record, here
  the record itself): an update of an existing row leaves some columns alone, which is why
  the two are kept apart. Ties of ORDER BY keep row order. SQLite itself, its transactions
  and the decoding of damaged payloads are not modelled.
\<close>

record memory_row =
  r_id :: string
  r_type :: memory_type
  r_scope :: memory_scope
  r_project_id :: "string option"
  r_importance :: int
  r_status :: memory_status
  r_created_at :: nat
  r_updated_at :: nat
  r_payload :: memory_record

type_synonym memory_store = "memory_row list"

definition row_of :: "memory_record \<Rightarrow> memory_row" where
  "row_of r = \<lparr>r_id = m_id r, r_type = m_type r, r_scope = m_scope r,
     r_project_id = m_project_id r, r_importance = m_importance r, r_status = m_status r,
     r_created_at = m_created_at r, r_updated_at = m_updated_at r, r_payload = r\<rparr>"

text \<open>\<open>ON CONFLICT(memory_id) DO UPDATE\<close> keeps type, scope, project and creation time.\<close>

definition merge_row :: "memory_row \<Rightarrow> memory_record \<Rightarrow> memory_row" where
  "merge_row old r = old\<lparr>r_importance := m_importance r, r_status := m_status r,
     r_updated_at := m_updated_at r, r_payload := r\<rparr>"

fun upsert :: "memory_record \<Rightarrow> memory_store \<Rightarrow> memory_store" where
  "upsert r [] = [row_of r]"
| "upsert r (x # xs) = (if r_id x = m_id r then merge_row x r # xs else x # upsert r xs)"

fun get_row :: "memory_store \<Rightarrow> string \<Rightarrow> memory_row option" where
  "get_row [] i = None"
| "get_row (x # xs) i = (if r_id x = i then Some x else get_row xs i)"

definition get_memory :: "memory_store \<Rightarrow> string \<Rightarrow> memory_record option" where
  "get_memory st i = map_option r_payload (get_row st i)"

fun update_row :: "(memory_row \<Rightarrow> memory_row) \<Rightarrow> string \<Rightarrow> memory_store \<Rightarrow> memory_store" where
  "update_row f i [] = []"
| "update_row f i (x # xs) = (if r_id x = i then f x # xs else x # update_row f i xs)"

definition mark_superseded :: "nat \<Rightarrow> memory_store \<Rightarrow> string \<Rightarrow> string \<Rightarrow> memory_store" where
  "mark_superseded now st old_id new_id =
     (case get_memory st old_id of
        None \<Rightarrow> st
      | Some p \<Rightarrow>
          let p' = p\<lparr>m_status := MS_SUPERSEDED, m_superseded_by := Some new_id, m_updated_at := now\<rparr>
          in update_row (\<lambda>x. x\<lparr>r_status := MS_SUPERSEDED, r_updated_at := now, r_payload := p'\<rparr>)
               old_id st)"

definition save_memory :: "nat \<Rightarrow> memory_store \<Rightarrow> memory_record \<Rightarrow> memory_store" where
  "save_memory now st r =
     (let st' = upsert r st
      in if truthy_opt (m_supersedes r) \<and> is_active r
         then mark_superseded now st' (the (m_supersedes r)) (m_id r) else st')"

definition archive_memory :: "nat \<Rightarrow> memory_store \<Rightarrow> string \<Rightarrow> memory_store \<times> bool" where
  "archive_memory now st i =
     (case get_memory st i of
        None \<Rightarrow> (st, False)
      | Some r \<Rightarrow> (save_memory now st (r\<lparr>m_status := MS_ARCHIVED, m_updated_at := now\<rparr>), True))"

definition record_access :: "nat \<Rightarrow> memory_store \<Rightarrow> memory_record \<Rightarrow> memory_store" where
  "record_access now st r =
     (let r' = touch_access now r in update_row (\<lambda>x. x\<lparr>r_payload := r'\<rparr>) (m_id r) st)"

definition bump_recurrence ::
    "nat \<Rightarrow> memory_store \<Rightarrow> string \<Rightarrow> memory_store \<times> memory_record option" where
  "bump_recurrence now st i =
     (case get_memory st i of
        None \<Rightarrow> (st, None)
      | Some r \<Rightarrow>
          let r' = r\<lparr>m_recurrence_count := m_recurrence_count r + 1, m_updated_at := now\<rparr>
          in (save_memory now st r', Some r'))"

definition row_visible ::
    "string option \<Rightarrow> memory_type list \<Rightarrow> memory_status option \<Rightarrow> bool \<Rightarrow> memory_row \<Rightarrow> bool" where
  "row_visible project_id types status include_global x \<longleftrightarrow>
     (case project_id of
        None \<Rightarrow> r_scope x = SCOPE_GLOBAL
      | Some p \<Rightarrow> if include_global then r_project_id x = Some p \<or> r_scope x = SCOPE_GLOBAL
                  else r_project_id x = Some p) \<and>
     (case status of None \<Rightarrow> True | Some s \<Rightarrow> r_status x = s) \<and>
     (types = [] \<or> r_type x \<in> set types)"

definition visible_to ::
    "memory_store \<Rightarrow> string option \<Rightarrow> memory_type list \<Rightarrow> memory_status option \<Rightarrow> bool \<Rightarrow> nat \<Rightarrow>
     memory_record list" where
  "visible_to st project_id types status include_global limit =
     map r_payload (take limit
       (sort_key (\<lambda>x. (- r_importance x, - int (r_updated_at x)))
          (filter (row_visible project_id types status include_global) st)))"

text \<open>\<open>history\<close> and \<open>current_belief\<close> follow the supersession links; the set of ids seen so
  far ends a cycle.\<close>

definition unseen :: "memory_store \<Rightarrow> string list \<Rightarrow> nat" where
  "unseen st seen = card (set (map (\<lambda>x. m_id (r_payload x)) st) - set seen)"

lemma get_memory_id: "get_memory st i = Some r \<Longrightarrow> m_id r \<in> set (map (\<lambda>x. m_id (r_payload x)) st)"
  by (induction st) (auto simp: get_memory_def split: if_splits)

lemma unseen_less:
  "m_id r \<notin> set seen \<Longrightarrow> m_id r \<in> set (map (\<lambda>x. m_id (r_payload x)) st) \<Longrightarrow>
     unseen st (seen @ [m_id r]) < unseen st seen"
  unfolding unseen_def by (intro psubset_card_mono) auto

function history_loop ::
    "memory_store \<Rightarrow> memory_record option \<Rightarrow> string list \<Rightarrow> memory_record list \<Rightarrow> memory_record list" where
  "history_loop st None seen chain = chain"
| "history_loop st (Some r) seen chain =
     (if m_id r \<in> set seen then chain
      else history_loop st
             (if truthy_opt (m_supersedes r) then get_memory st (the (m_supersedes r)) else None)
             (seen @ [m_id r]) (chain @ [r]))"
  by pat_completeness auto
termination
  by (relation "measures [\<lambda>(st, c, seen, chain). card (set (map (\<lambda>x. m_id (r_payload x)) st)
        \<union> (case c of None \<Rightarrow> {} | Some r \<Rightarrow> {m_id r}) - set seen),
      \<lambda>(st, c, seen, chain). case c of None \<Rightarrow> 0 | Some _ \<Rightarrow> 1]")
    (auto intro!: psubset_card_mono dest: get_memory_id split: option.splits)

definition history :: "memory_store \<Rightarrow> string \<Rightarrow> memory_record list" where
  "history st i = history_loop st (get_memory st i) [] []"

function belief_loop :: "memory_store \<Rightarrow> memory_record \<Rightarrow> string list \<Rightarrow> memory_record" where
  "belief_loop st r seen =
     (if \<not> truthy_opt (m_superseded_by r) \<or> m_id r \<in> set seen then r
      else (case get_memory st (the (m_superseded_by r)) of
              None \<Rightarrow> r
            | Some s \<Rightarrow> belief_loop st s (seen @ [m_id r])))"
  by pat_completeness auto
termination
  by (relation "measure (\<lambda>(st, r, seen). card (set (map (\<lambda>x. m_id (r_payload x)) st)
        \<union> {m_id r} - set seen))")
    (auto intro!: psubset_card_mono dest: get_memory_id)

declare belief_loop.simps [simp del]

definition current_belief :: "memory_store \<Rightarrow> string \<Rightarrow> memory_record option" where
  "current_belief st i = map_option (\<lambda>r. belief_loop st r []) (get_memory st i)"

definition memory_count :: "memory_store \<Rightarrow> string option \<Rightarrow> nat" where
  "memory_count st project_id =
     length (visible_to st project_id [] (Some MS_ACTIVE) True 100000)"

definition all_records :: "memory_store \<Rightarrow> nat \<Rightarrow> memory_record list" where
  "all_records st limit =
     map r_payload (take limit (sort_key (\<lambda>x. - int (r_created_at x)) st))"

definition delete_memory :: "memory_store \<Rightarrow> string \<Rightarrow> memory_store \<times> bool" where
  "delete_memory st i =
     (let st' = filter (\<lambda>x. r_id x \<noteq> i) st in (st', length st' < length st))"

definition purge_project :: "memory_store \<Rightarrow> string \<Rightarrow> memory_store \<times> nat" where
  "purge_project st p =
     (let st' = filter (\<lambda>x. r_project_id x \<noteq> Some p) st in (st', length st - length st'))"

section \<open>The columns agree with the payload\<close>

definition row_ok :: "memory_row \<Rightarrow> bool" where
  "row_ok x \<longleftrightarrow> r_id x = m_id (r_payload x) \<and> r_type x = m_type (r_payload x) \<and>
     r_scope x = m_scope (r_payload x) \<and> r_project_id x = m_project_id (r_payload x) \<and>
     r_status x = m_status (r_payload x) \<and> is_ok (enforce_scoping (r_payload x))"

definition store_ok :: "memory_store \<Rightarrow> bool" where
  "store_ok st \<longleftrightarrow> distinct (map r_id st) \<and> list_all row_ok st"

text \<open>A record may be saved when it is validly scoped and, if its id is stored already, keeps
  the type, scope and project of the stored row.\<close>

definition saveable :: "memory_store \<Rightarrow> memory_record \<Rightarrow> bool" where
  "saveable st r \<longleftrightarrow> is_ok (enforce_scoping r) \<and>
     (case get_row st (m_id r) of None \<Rightarrow> True
      | Some x \<Rightarrow> r_type x = m_type r \<and> r_scope x = m_scope r \<and> r_project_id x = m_project_id r)"

lemma ids_upsert: "r_id ` set (upsert r st) = insert (m_id r) (r_id ` set st)"
  by (induction st) (auto simp: row_of_def merge_row_def)

lemma ids_update_row: "(\<And>x. r_id (f x) = r_id x) \<Longrightarrow> map r_id (update_row f i st) = map r_id st"
  by (induction st) auto

lemma distinct_upsert: "distinct (map r_id st) \<Longrightarrow> distinct (map r_id (upsert r st))"
  by (induction st) (auto simp: ids_upsert merge_row_def)

lemma row_ok_row_of: "is_ok (enforce_scoping r) \<Longrightarrow> row_ok (row_of r)"
  unfolding row_ok_def row_of_def by simp

lemma row_ok_merge:
  "row_ok x \<Longrightarrow> is_ok (enforce_scoping r) \<Longrightarrow> r_id x = m_id r \<Longrightarrow> r_type x = m_type r \<Longrightarrow>
     r_scope x = m_scope r \<Longrightarrow> r_project_id x = m_project_id r \<Longrightarrow> row_ok (merge_row x r)"
  by (simp add: row_ok_def merge_row_def)

lemma upsert_row_ok: "saveable st r \<Longrightarrow> list_all row_ok st \<Longrightarrow> list_all row_ok (upsert r st)"
  by (induction st) (auto simp: row_ok_row_of saveable_def intro: row_ok_merge)

lemma store_ok_upsert: "store_ok st \<Longrightarrow> saveable st r \<Longrightarrow> store_ok (upsert r st)"
  by (simp add: store_ok_def distinct_upsert upsert_row_ok)

lemma get_row_mem: "get_row st i = Some x \<Longrightarrow> x \<in> set st \<and> r_id x = i"
  by (induction st) (auto split: if_splits)

lemma get_row_unique: "distinct (map r_id st) \<Longrightarrow> x \<in> set st \<Longrightarrow> get_row st (r_id x) = Some x"
  by (induction st) force+

lemma get_row_ok: "store_ok st \<Longrightarrow> get_row st i = Some x \<Longrightarrow> row_ok x"
  using get_row_mem by (auto simp: store_ok_def list_all_iff)

lemma get_row_update:
  "(\<And>x. r_id (f x) = r_id x) \<Longrightarrow>
     get_row (update_row f i st) j = (if i = j then map_option f (get_row st j) else get_row st j)"
  by (induction st) auto

lemma get_row_upsert:
  "get_row (upsert r st) j =
     (if j = m_id r then Some (case get_row st j of None \<Rightarrow> row_of r | Some x \<Rightarrow> merge_row x r)
      else get_row st j)"
  by (induction st) (auto simp: row_of_def merge_row_def)

lemma list_all_update_row:
  "distinct (map r_id st) \<Longrightarrow> list_all P st \<Longrightarrow> (\<And>x. get_row st i = Some x \<Longrightarrow> P (f x)) \<Longrightarrow>
     list_all P (update_row f i st)"
  by (induction st) auto

lemma store_ok_mark_superseded:
  assumes ok: "store_ok st"
  shows "store_ok (mark_superseded now st old new)"
proof (cases "get_row st old")
  case None
  then show ?thesis using ok by (simp add: mark_superseded_def get_memory_def)
next
  case (Some x)
  let ?p = "(r_payload x)\<lparr>m_status := MS_SUPERSEDED, m_superseded_by := Some new, m_updated_at := now\<rparr>"
  let ?f = "\<lambda>y. y\<lparr>r_status := MS_SUPERSEDED, r_updated_at := now, r_payload := ?p\<rparr>"
  have "row_ok (?f x)"
    using get_row_ok [OF ok Some] by (simp add: row_ok_def is_ok_scoping)
  then have "list_all row_ok (update_row ?f old st)"
    using ok Some by (intro list_all_update_row) (auto simp: store_ok_def)
  then show ?thesis
    using ok Some by (simp add: mark_superseded_def get_memory_def store_ok_def ids_update_row)
qed

lemma store_ok_save: "store_ok st \<Longrightarrow> saveable st r \<Longrightarrow> store_ok (save_memory now st r)"
  by (simp add: save_memory_def Let_def store_ok_upsert store_ok_mark_superseded)

lemma saveable_same_key:
  assumes "store_ok st" and "get_memory st i = Some r" and "m_id r' = m_id r" "m_type r' = m_type r"
    "m_scope r' = m_scope r" "m_project_id r' = m_project_id r"
  shows "saveable st r'"
proof -
  from assms(2) obtain x where x: "get_row st i = Some x" "r = r_payload x"
    by (auto simp: get_memory_def)
  from get_row_ok [OF assms(1) x(1)] get_row_mem [OF x(1)] x assms(3-6) show ?thesis
    by (auto simp: saveable_def row_ok_def is_ok_scoping)
qed

lemma store_ok_archive: "store_ok st \<Longrightarrow> store_ok (fst (archive_memory now st i))"
  by (auto simp: archive_memory_def split: option.splits intro!: store_ok_save saveable_same_key)

lemma store_ok_bump: "store_ok st \<Longrightarrow> store_ok (fst (bump_recurrence now st i))"
  by (auto simp: bump_recurrence_def Let_def split: option.splits intro!: store_ok_save saveable_same_key)

lemma store_ok_delete: "store_ok st \<Longrightarrow> store_ok (fst (delete_memory st i))"
  by (auto simp: store_ok_def delete_memory_def Let_def list_all_iff distinct_map_filter)

lemma store_ok_purge: "store_ok st \<Longrightarrow> store_ok (fst (purge_project st p))"
  by (auto simp: store_ok_def purge_project_def Let_def list_all_iff distinct_map_filter)

text \<open>\<open>record_access\<close> writes back the caller's copy: safe for a copy that agrees with the row.\<close>

lemma store_ok_record_access:
  assumes ok: "store_ok st"
    and r: "\<And>x. get_row st (m_id r) = Some x \<Longrightarrow> m_type (r_payload x) = m_type r \<and>
      m_scope (r_payload x) = m_scope r \<and> m_project_id (r_payload x) = m_project_id r \<and>
      m_status (r_payload x) = m_status r"
  shows "store_ok (record_access now st r)"
proof -
  have "row_ok (x\<lparr>r_payload := touch_access now r\<rparr>)" if "get_row st (m_id r) = Some x" for x
    using get_row_ok [OF ok that] get_row_mem [OF that] r [OF that]
    by (auto simp: row_ok_def touch_access_def is_ok_scoping)
  then show ?thesis
    using ok by (auto simp: record_access_def Let_def store_ok_def ids_update_row
        intro!: list_all_update_row)
qed

section \<open>Isolation\<close>

definition may_see :: "string option \<Rightarrow> memory_record \<Rightarrow> bool" where
  "may_see project_id r \<longleftrightarrow>
     m_scope r = SCOPE_GLOBAL \<or> (\<exists>p. project_id = Some p \<and> m_project_id r = Some p)"

lemma visible_row:
  "r \<in> set (visible_to st pid types status glob limit) \<Longrightarrow>
     \<exists>x \<in> set st. r = r_payload x \<and> row_visible pid types status glob x"
  by (auto simp: visible_to_def dest!: in_set_takeD)

lemma visible_may_see:
  assumes "store_ok st" and "r \<in> set (visible_to st pid types (Some MS_ACTIVE) glob limit)"
  shows "may_see pid r \<and> is_active r \<and> (types = [] \<or> m_type r \<in> set types)"
proof -
  from visible_row [OF assms(2)] obtain x where x: "x \<in> set st" "r = r_payload x"
      "row_visible pid types (Some MS_ACTIVE) glob x" by blast
  with assms(1) have "row_ok x" by (auto simp: store_ok_def list_all_iff)
  with x show ?thesis
    by (auto simp: row_visible_def row_ok_def may_see_def is_active_def split: option.splits if_splits)
qed

lemma visible_distinct:
  assumes "store_ok st"
  shows "distinct (map m_id (visible_to st pid types status glob limit))"
proof -
  let ?sel = "take limit (sort_key (\<lambda>x. (- r_importance x, - int (r_updated_at x)))
      (filter (row_visible pid types status glob) st))"
  have "mset (map r_id (sort_key (\<lambda>x. (- r_importance x, - int (r_updated_at x)))
      (filter (row_visible pid types status glob) st))) =
      mset (map r_id (filter (row_visible pid types status glob) st))" by simp
  then have "distinct (map r_id (sort_key (\<lambda>x. (- r_importance x, - int (r_updated_at x)))
      (filter (row_visible pid types status glob) st)))"
    using assms by (metis distinct_map_filter mset_eq_imp_distinct_iff store_ok_def)
  then have "distinct (map r_id ?sel)" by (simp add: take_map [symmetric] distinct_take)
  moreover have "map m_id (map r_payload ?sel) = map r_id ?sel"
    using assms by (auto simp: store_ok_def list_all_iff row_ok_def dest!: in_set_takeD)
  ultimately show ?thesis by (simp only: visible_to_def)
qed

text \<open>Project isolation of the store: in a well-formed store a project sees only its own
  active memories and active GLOBAL ones (only GLOBAL ones without a project), each once,
  of the requested types; purging a project removes every memory bound to it and changes
  what no other project sees.
\<close>

theorem store_isolation:
  assumes "store_ok st"
  shows "distinct (map m_id (visible_to st pid types (Some MS_ACTIVE) glob limit)) \<and>
    (\<forall>r \<in> set (visible_to st pid types (Some MS_ACTIVE) glob limit).
       is_active r \<and> (types = [] \<or> m_type r \<in> set types) \<and>
       (m_scope r = SCOPE_GLOBAL \<or> (\<exists>p. pid = Some p \<and> m_project_id r = Some p))) \<and>
    (\<forall>x \<in> set (fst (purge_project st q)). m_project_id (r_payload x) \<noteq> Some q) \<and>
    (p \<noteq> q \<longrightarrow> row_visible (Some p) types status False x \<longrightarrow>
       x \<in> set st \<longrightarrow> x \<in> set (fst (purge_project st q)))"
proof (intro conjI ballI impI)
  show "distinct (map m_id (visible_to st pid types (Some MS_ACTIVE) glob limit))"
    by (rule visible_distinct [OF assms])
next
  fix r assume "r \<in> set (visible_to st pid types (Some MS_ACTIVE) glob limit)"
  from visible_may_see [OF assms this]
  show "is_active r" "types = [] \<or> m_type r \<in> set types"
    "m_scope r = SCOPE_GLOBAL \<or> (\<exists>p. pid = Some p \<and> m_project_id r = Some p)"
    by (simp_all add: may_see_def)
next
  fix x assume "x \<in> set (fst (purge_project st q))"
  then show "m_project_id (r_payload x) \<noteq> Some q"
    using assms by (auto simp: purge_project_def Let_def store_ok_def list_all_iff row_ok_def)
next
  assume "p \<noteq> q" "row_visible (Some p) types status False x" "x \<in> set st"
  then show "x \<in> set (fst (purge_project st q))"
    by (auto simp: purge_project_def Let_def row_visible_def)
qed

definition sample_memory :: "string \<Rightarrow> string \<Rightarrow> memory_record" where
  "sample_memory i p = \<lparr>m_id = i, m_type = MT_FAILURE, m_scope = SCOPE_PROJECT,
     m_project_id = Some p, m_title = ''title'', m_content = ''content'', m_tags = [],
     m_source = SRC_TEST_RESULT, m_source_reference = ''ref'', m_confidence = 19/20,
     m_importance = 50, m_status = MS_ACTIVE, m_supersedes = None, m_superseded_by = None,
     m_access_count = 0, m_recurrence_count = 1, m_metadata = [], m_last_accessed_at = None,
     m_created_at = 0, m_updated_at = 0\<rparr>"

lemma saveable_sample: "p \<noteq> [] \<Longrightarrow> get_row st i = None \<Longrightarrow> saveable st (sample_memory i p)"
  by (simp add: saveable_def sample_memory_def is_ok_scoping truthy_opt_def)

lemma save_sample: "save_memory now st (sample_memory i p) = upsert (sample_memory i p) st"
  by (simp add: save_memory_def sample_memory_def truthy_opt_def)

lemma sample_store_ok:
  "store_ok (save_memory 0 (save_memory 0 [] (sample_memory ''m1'' ''p'')) (sample_memory ''m2'' ''q''))"
proof -
  have id: "m_id (sample_memory i p) = i" for i p by (simp add: sample_memory_def)
  have one: "store_ok (upsert (sample_memory ''m1'' ''p'') [])"
    by (rule store_ok_upsert) (simp add: store_ok_def, rule saveable_sample, simp_all)
  show ?thesis
    unfolding save_sample
    by (rule store_ok_upsert [OF one], rule saveable_sample) (simp_all add: row_of_def id)
qed

theorem store_isolation_witness:
  "let seen = visible_to (save_memory 0 (save_memory 0 [] (sample_memory ''m1'' ''p''))
       (sample_memory ''m2'' ''q'')) (Some ''p'') [MT_FAILURE] (Some MS_ACTIVE) True 500 in
   ''m1'' \<in> m_id ` set seen \<and>
   list_all (\<lambda>r. is_active r \<and> m_type r = MT_FAILURE \<and> (m_scope r = SCOPE_GLOBAL \<or> m_project_id r = Some ''p'')) seen"
proof -
  let ?seen = "visible_to (save_memory 0 (save_memory 0 [] (sample_memory ''m1'' ''p''))
       (sample_memory ''m2'' ''q'')) (Some ''p'') [MT_FAILURE] (Some MS_ACTIVE) True 500"
  have "''m1'' \<in> m_id ` set ?seen" by code_simp
  moreover have "list_all (\<lambda>r. is_active r \<and> m_type r = MT_FAILURE \<and>
      (m_scope r = SCOPE_GLOBAL \<or> m_project_id r = Some ''p'')) ?seen"
    using store_isolation [OF sample_store_ok, THEN conjunct2, THEN conjunct1]
    unfolding list_all_iff by fastforce
  ultimately show ?thesis unfolding Let_def by blast
qed

section \<open>Supersession\<close>

text \<open>
  Saving an active record that supersedes a stored one retires the old one and makes the
  new one current: the old record becomes SUPERSEDED, points to the new one, leaves every
  retrieval, and \<open>current_belief\<close> of the old id is the new record; \<open>archive\<close>,
  \<open>bump_recurrence\<close>, \<open>delete\<close> and \<open>save\<close> keep the store well-formed.
\<close>

theorem supersession:
  assumes ok: "store_ok st" and new: "get_row st (m_id r) = None" and valid: "is_ok (enforce_scoping r)"
    and act: "is_active r" and sup: "m_supersedes r = Some old" "old \<noteq> []" "old \<noteq> m_id r"
    and stored: "get_memory st old = Some p" and fresh: "m_superseded_by r = None"
  shows "store_ok (save_memory now st r) \<and>
    get_memory (save_memory now st r) old =
      Some (p\<lparr>m_status := MS_SUPERSEDED, m_superseded_by := Some (m_id r), m_updated_at := now\<rparr>) \<and>
    get_memory (save_memory now st r) (m_id r) = Some r \<and>
    (m_id r \<noteq> [] \<longrightarrow> current_belief (save_memory now st r) old = Some r) \<and>
    old \<notin> m_id ` set (visible_to (save_memory now st r) pid types (Some MS_ACTIVE) glob limit)"
proof -
  let ?st = "save_memory now st r"
  have ok': "store_ok ?st"
    using ok new valid by (intro store_ok_save) (simp_all add: saveable_def)
  from stored obtain x where x: "get_row st old = Some x" "p = r_payload x"
    by (auto simp: get_memory_def)
  have up: "get_row (upsert r st) old = Some x" "get_row (upsert r st) (m_id r) = Some (row_of r)"
    using sup new x by (simp_all add: get_row_upsert)
  let ?p = "p\<lparr>m_status := MS_SUPERSEDED, m_superseded_by := Some (m_id r), m_updated_at := now\<rparr>"
  have st: "?st = update_row (\<lambda>y. y\<lparr>r_status := MS_SUPERSEDED, r_updated_at := now, r_payload := ?p\<rparr>)
      old (upsert r st)"
    using act sup up x by (simp add: save_memory_def Let_def truthy_opt_def mark_superseded_def get_memory_def)
  have old: "get_memory ?st old = Some ?p"
    unfolding st using up x by (simp add: get_memory_def get_row_update)
  have self: "get_memory ?st (m_id r) = Some r"
    unfolding st using up sup by (simp add: get_memory_def get_row_update row_of_def)
  have pid: "m_id p = old" using get_row_ok [OF ok x(1)] get_row_mem [OF x(1)] x by (simp add: row_ok_def)
  have "current_belief ?st old = Some r" if "m_id r \<noteq> []"
  proof -
    have "belief_loop ?st r [old] = r" by (subst belief_loop.simps) (simp add: fresh truthy_opt_def)
    then have "belief_loop ?st ?p [] = r"
      using that self pid by (subst belief_loop.simps) (simp add: truthy_opt_def)
    then show ?thesis by (simp add: current_belief_def old)
  qed
  moreover have "old \<notin> m_id ` set (visible_to ?st pid types (Some MS_ACTIVE) glob limit)"
  proof
    assume "old \<in> m_id ` set (visible_to ?st pid types (Some MS_ACTIVE) glob limit)"
    then obtain v where v: "v \<in> set (visible_to ?st pid types (Some MS_ACTIVE) glob limit)" "m_id v = old"
      by blast
    from visible_row [OF v(1)] obtain y where y: "y \<in> set ?st" "v = r_payload y" by blast
    have "row_ok y" using ok' y by (auto simp: store_ok_def list_all_iff)
    then have "r_id y = old" using y v(2) by (simp add: row_ok_def)
    then have "get_row ?st old = Some y"
      using ok' y(1) by (simp add: store_ok_def) (metis get_row_unique)
    with old y(2) have "v = ?p" by (simp add: get_memory_def)
    with visible_may_see [OF ok' v(1)] show False by (simp add: is_active_def)
  qed
  ultimately show ?thesis using ok' old self by blast
qed

theorem supersession_witness:
  "let st = save_memory 0 [] (sample_memory ''m1'' ''p'');
       r = (sample_memory ''m2'' ''p'')\<lparr>m_supersedes := Some ''m1''\<rparr>
   in current_belief (save_memory 7 st r) ''m1'' = Some r \<and>
      ''m1'' \<notin> m_id ` set (visible_to (save_memory 7 st r) (Some ''p'') [] (Some MS_ACTIVE) True 500)"
proof -
  let ?a = "sample_memory ''m1'' ''p''" and ?r = "(sample_memory ''m2'' ''p'')\<lparr>m_supersedes := Some ''m1''\<rparr>"
  have id: "m_id (sample_memory i p) = i" for i p by (simp add: sample_memory_def)
  have one: "store_ok (upsert ?a [])"
    by (rule store_ok_upsert) (simp add: store_ok_def, rule saveable_sample, simp_all)
  have "get_row (upsert ?a []) (m_id ?r) = None" by (simp add: row_of_def sample_memory_def)
  moreover have "is_ok (enforce_scoping ?r)"
    by (simp add: is_ok_scoping sample_memory_def truthy_opt_def)
  moreover have "is_active ?r" by (simp add: is_active_def sample_memory_def)
  moreover have "get_memory (upsert ?a []) ''m1'' = Some ?a"
    by (simp add: get_memory_def row_of_def sample_memory_def)
  moreover have "m_superseded_by ?r = None" by (simp add: sample_memory_def)
  ultimately show ?thesis
    using supersession [OF one, of ?r "''m1''" ?a 7 "Some ''p''" "[]" True 500]
    by (simp add: save_sample id)
qed

end
