(* ===== verification/Memory_Retrieval.thy ===== *)
theory Memory_Retrieval
  imports Memory_Store
begin

text \<open>
  \<open>edith/memory/retrieval.py\<close> and the bundle of \<open>edith/memory/schema.py\<close>: the lexical
  ranker and the selection under a count and a character limit. The ranker is an argument
  of \<open>retrieve\<close>, as it is of the constructor; scores are rationals (floating-point rounding
  is not modelled) and times are seconds.
\<close>

section \<open>Terms\<close>

text \<open>\<open>findall\<close> of a letter or underscore followed by at least two word characters.\<close>

function find_words :: "string \<Rightarrow> string list" where
  "find_words [] = []"
| "find_words (c # cs) =
     (if word_start c \<and> 2 \<le> length (takeWhile word_char cs)
      then (c # takeWhile word_char cs) # find_words (dropWhile word_char cs)
      else find_words cs)"
  by pat_completeness auto
termination
  by (relation "measure length") (auto simp: le_imp_less_Suc length_dropWhile_le)

definition stopwords :: "string list" where
  "stopwords =
     [''the'', ''and'', ''for'', ''with'', ''that'', ''this'', ''from'', ''into'', ''when'', ''then'',
      ''should'', ''must'', ''will'', ''would'', ''could'', ''have'', ''has'', ''had'', ''was'', ''were'',
      ''are'', ''not'', ''but'', ''all'', ''any'', ''can'', ''its'', ''use'', ''using'', ''add'', ''make'',
      ''fix'', ''test'', ''tests'', ''code'', ''file'', ''files'', ''function'', ''functions'']"

text \<open>A set of terms is a list without repetitions.\<close>

definition tokenize :: "string \<Rightarrow> string list" where
  "tokenize s =
     remdups (filter (\<lambda>w. w \<notin> set stopwords) (map py_lower (find_words s)))"

definition common :: "string list \<Rightarrow> string list \<Rightarrow> string list" where
  "common xs ys = remdups (filter (\<lambda>x. x \<in> set ys) xs)"

text \<open>\<open>needle in haystack\<close> on strings.\<close>

definition contains :: "string \<Rightarrow> string \<Rightarrow> bool" where
  "contains hay needle \<longleftrightarrow> list_ex (\<lambda>s. starts_with s needle) (suffixes hay)"

record retrieval_request =
  q_query :: string
  q_project_id :: "string option"
  q_types :: "memory_type list"
  q_tags :: "string list"
  q_max_memories :: nat
  q_max_chars :: nat
  q_min_confidence :: rat
  q_include_global :: bool
  q_error_text :: string
  q_paths :: "string list"
  q_min_score :: rat

section \<open>The lexical ranker\<close>

text \<open>\<open>path.rsplit("/", 1)[-1].rsplit(".", 1)[0]\<close>: the part after the last slash, without
  what follows its last dot.\<close>

definition before_last_dot :: "string \<Rightarrow> string" where
  "before_last_dot s =
     (case split_on (CHR ''.'') s of
        [x] \<Rightarrow> x | ps \<Rightarrow> join ''.'' (butlast ps))"

definition stem_of :: "string \<Rightarrow> string" where
  "stem_of path = py_lower (before_last_dot (last (split_on (CHR ''/'') (fwd_slashes path))))"

fun path_relevance :: "string \<Rightarrow> string list \<Rightarrow> rat \<times> string list" where
  "path_relevance hay [] = (0, [])"
| "path_relevance hay (p # ps) =
     (if stem_of p \<noteq> [] \<and> contains hay (stem_of p)
      then (5, [''mentions the component being changed ('' @ stem_of p @ '')''])
      else path_relevance hay ps)"

definition text_of :: "memory_record \<Rightarrow> string" where
  "text_of r = m_title r @ '' '' @ m_content r"

definition capped :: "nat \<Rightarrow> rat \<Rightarrow> rat \<Rightarrow> rat" where
  "capped n weight cap = min (of_nat n * weight) cap"

definition failure_relevance :: "memory_record \<Rightarrow> retrieval_request \<Rightarrow> rat \<times> string list" where
  "failure_relevance r q =
     (let overlap = length (common (tokenize (q_error_text q)) (tokenize (text_of r)));
          matched = (if q_error_text q \<noteq> [] \<and> overlap \<noteq> 0
                     then (capped overlap (5/2) 15,
                           [''matches '' @ show_nat overlap @ '' term(s) in the observed failure''])
                     else (0, []));
          hay = py_lower (text_of r @ '' '' @ join '' '' (m_tags r));
          mentioned = path_relevance hay (q_paths q)
      in (fst matched + fst mentioned, snd matched @ snd mentioned))"

definition title_match :: "memory_record \<Rightarrow> retrieval_request \<Rightarrow> bool" where
  "title_match r q \<longleftrightarrow>
     contains (py_lower (q_query q)) (py_lower (m_title r)) \<or>
     contains (py_lower (m_title r)) (py_lower (q_query q))"

definition relevance :: "memory_record \<Rightarrow> retrieval_request \<Rightarrow> rat \<times> string list" where
  "relevance r q =
     (let failure = failure_relevance r q;
          query_terms = tokenize (q_query q);
          title_overlap = length (common query_terms (tokenize (m_title r)));
          content_overlap = length (common query_terms (tokenize (m_content r)));
          tag_overlap = common (map py_lower (q_tags q)) (map py_lower (m_tags r));
          tag_query = common query_terms (map py_lower (m_tags r))
      in (fst failure
            + (if title_match r q then 12 else 0)
            + capped title_overlap 3 12
            + capped content_overlap (3/2) 9
            + capped (length tag_overlap) 4 12
            + (if tag_query \<noteq> [] then 2 else 0),
          snd failure
            @ (if title_match r q then [''title matches the query directly''] else [])
            @ (if title_overlap \<noteq> 0
               then [''title shares '' @ show_nat title_overlap @ '' term(s) with the query''] else [])
            @ (if content_overlap \<noteq> 0
               then [''content shares '' @ show_nat content_overlap @ '' term(s)''] else [])
            @ (if tag_overlap \<noteq> [] then [''tagged '' @ join '', '' (sort tag_overlap)] else [])
            @ (if tag_query \<noteq> [] then [''a tag appears in the query''] else [])))"

definition metadata_bonus :: "nat \<Rightarrow> memory_record \<Rightarrow> rat \<times> string list" where
  "metadata_bonus now r =
     (let age_days = (of_nat now - of_nat (m_updated_at r)) / 86400
      in (of_int (m_importance r) / 25
            + (if m_recurrence_count r > 1 then capped (m_recurrence_count r) (4/5) 4 else 0)
            + m_confidence r * 3
            + (if age_days < 30 then (1 - age_days / 30) * 2 else 0)
            + (if m_access_count r \<noteq> 0 then capped (m_access_count r) (1/5) 2 else 0),
          (if m_importance r \<ge> 75 then [''marked high importance''] else [])
            @ (if m_recurrence_count r > 1
               then [''observed '' @ show_nat (m_recurrence_count r) @ '' times''] else [])))"

definition lexical_score :: "nat \<Rightarrow> memory_record \<Rightarrow> retrieval_request \<Rightarrow> rat \<times> string list" where
  "lexical_score now r q =
     (let rel = relevance r q
      in if fst rel \<le> 0 then (0, [])
         else (let bonus = metadata_bonus now r in (fst rel + fst bonus, snd rel @ snd bonus)))"

section \<open>Selection\<close>

type_synonym ranker = "memory_record \<Rightarrow> retrieval_request \<Rightarrow> rat \<times> string list"

record memory_bundle =
  b_query :: string
  b_memories :: "scored_memory list"
  b_rationale :: "string list"
  b_estimated_context_chars :: nat
  b_considered :: nat
  b_truncated :: bool

definition is_empty_bundle :: "memory_bundle \<Rightarrow> bool" where
  "is_empty_bundle b \<longleftrightarrow> b_memories b = []"

definition render_memory :: "memory_record \<Rightarrow> string" where
  "render_memory r =
     ''- ['' @ str_memory_type (m_type r) @ ''] '' @ m_title r @ [CHR 0x0A] @
     ''  '' @ m_content r @ [CHR 0x0A] @
     ''  (source: '' @ provenance r @ '')''"

definition render_bundle :: "memory_bundle \<Rightarrow> string" where
  "render_bundle b =
     (if is_empty_bundle b then ''(no relevant prior knowledge)''
      else join [CHR 0x0A] (map (\<lambda>e. render_memory (s_memory e)) (b_memories b)))"

text \<open>\<open>str\<close> of a non-negative float that was rounded to two decimals.\<close>

definition show_score :: "rat \<Rightarrow> string" where
  "show_score x =
     (let n = nat (round_half_even (100 * x)) in
      show_nat (n div 100) @ ''.'' @ [digit_char (n div 10 mod 10)] @
      (if n mod 10 = 0 then [] else [digit_char (n mod 10)]))"

definition reason_text :: "string list \<Rightarrow> string" where
  "reason_text rs =
     (let t = join ''; '' (take 2 rs) in if t = [] then ''general relevance'' else t)"

definition score_candidate :: "ranker \<Rightarrow> retrieval_request \<Rightarrow> memory_record \<Rightarrow> scored_memory list" where
  "score_candidate rank q r =
     (if m_confidence r < q_min_confidence q then []
      else (let (score, reasons) = rank r q
            in if score \<le> 0 \<or> score < q_min_score q then []
               else [\<lparr>s_memory = r, s_score = round2 score, s_reasons = reasons\<rparr>]))"

definition entry_cost :: "scored_memory \<Rightarrow> nat" where
  "entry_cost e = length (m_title (s_memory e)) + length (m_content (s_memory e)) + 60"

fun select_loop ::
    "retrieval_request \<Rightarrow> scored_memory list \<Rightarrow> scored_memory list \<Rightarrow> nat \<Rightarrow> bool \<Rightarrow>
     scored_memory list \<times> nat \<times> bool" where
  "select_loop q [] selected used truncated = (selected, used, truncated)"
| "select_loop q (e # es) selected used truncated =
     (if length selected \<ge> q_max_memories q then (selected, used, True)
      else if used + entry_cost e > q_max_chars q then select_loop q es selected used True
      else select_loop q es (selected @ [e]) (used + entry_cost e) truncated)"

definition rank_order :: "scored_memory list \<Rightarrow> scored_memory list" where
  "rank_order = sort_key (\<lambda>e. (- s_score e, m_id (s_memory e)))"

definition touch_entry :: "nat \<Rightarrow> scored_memory \<Rightarrow> scored_memory" where
  "touch_entry now e = e\<lparr>s_memory := touch_access now (s_memory e)\<rparr>"

definition retrieve ::
    "nat \<Rightarrow> ranker \<Rightarrow> memory_store \<Rightarrow> retrieval_request \<Rightarrow> memory_store \<times> memory_bundle" where
  "retrieve now rank st q =
     (let candidates = visible_to st (q_project_id q) (q_types q) (Some MS_ACTIVE)
                         (q_include_global q) 500;
          scored = rank_order (concat (map (score_candidate rank q) candidates));
          (selected, used, truncated) = select_loop q scored [] 0 False
      in (foldl (\<lambda>s e. record_access now s (s_memory e)) st selected,
          \<lparr>b_query = q_query q, b_memories = map (touch_entry now) selected,
           b_rationale = map (\<lambda>e. m_title (s_memory e) @ '' (score '' @ show_score (s_score e) @
              ''): '' @ reason_text (s_reasons e)) selected,
           b_estimated_context_chars = used, b_considered = length candidates,
           b_truncated = truncated\<rparr>))"

section \<open>What a retrieval returns\<close>

lemma select_loop_spec:
  assumes "select_loop q es selected used tr = (sel, u, tr')" "length selected \<le> q_max_memories q"
    "used = sum_list (map entry_cost selected)" "used \<le> q_max_chars q"
  shows "length sel \<le> q_max_memories q \<and> u = sum_list (map entry_cost sel) \<and> u \<le> q_max_chars q \<and>
    (\<exists>new. sel = selected @ new \<and> subseq new es)"
  using assms
proof (induction q es selected used tr rule: select_loop.induct)
  case (2 q e es selected used tr)
  show ?case
  proof (cases "length selected \<ge> q_max_memories q")
    case True
    then show ?thesis using "2.prems" by (auto intro: exI [of _ "[]"])
  next
    case False
    show ?thesis
    proof (cases "used + entry_cost e > q_max_chars q")
      case True
      with False 2(1) [OF False True] "2.prems" show ?thesis by auto
    next
      case fits: False
      from 2(2) [OF False fits] "2.prems" False fits
      have "length sel \<le> q_max_memories q \<and> u = sum_list (map entry_cost sel) \<and> u \<le> q_max_chars q \<and>
        (\<exists>new. sel = (selected @ [e]) @ new \<and> subseq new es)" by simp
      then show ?thesis by auto
    qed
  qed
qed auto

definition retrieval_ok :: "ranker \<Rightarrow> retrieval_request \<Rightarrow> memory_record \<Rightarrow> rat \<Rightarrow> bool" where
  "retrieval_ok rank q r sc \<longleftrightarrow>
     is_active r \<and> may_see (q_project_id q) r \<and> (q_types q = [] \<or> m_type r \<in> set (q_types q)) \<and>
     m_confidence r \<ge> q_min_confidence q \<and>
     fst (rank r q) > 0 \<and> fst (rank r q) \<ge> q_min_score q \<and> sc = round2 (fst (rank r q))"

lemma score_candidate_ok:
  "e \<in> set (score_candidate rank q r) \<Longrightarrow>
     s_memory e = r \<and> m_confidence r \<ge> q_min_confidence q \<and> fst (rank r q) > 0 \<and>
     fst (rank r q) \<ge> q_min_score q \<and> s_score e = round2 (fst (rank r q))"
  by (cases "rank r q") (auto simp: score_candidate_def split: if_splits)

lemma score_candidate_ids:
  "map (\<lambda>e. m_id (s_memory e)) (concat (map (score_candidate rank q) rs)) =
   map m_id (filter (\<lambda>r. score_candidate rank q r \<noteq> []) rs)"
  by (induction rs) (auto simp: score_candidate_def Let_def split: prod.splits)

lemma store_ok_record_list:
  assumes "store_ok st"
    and "\<And>e. e \<in> set es \<Longrightarrow> \<exists>x \<in> set st. r_payload x = s_memory e"
    and "distinct (map (\<lambda>e. m_id (s_memory e)) es)"
  shows "store_ok (foldl (\<lambda>s e. record_access now s (s_memory e)) st es)"
  using assms
proof (induction es arbitrary: st)
  case (Cons e es)
  let ?st = "record_access now st (s_memory e)"
  from Cons.prems(2) obtain x where x: "x \<in> set st" "r_payload x = s_memory e" by auto
  have row: "get_row st (m_id (s_memory e)) = Some x"
    using get_row_unique Cons.prems(1) x
    by (metis list_all_iff row_ok_def store_ok_def)
  have ok: "store_ok ?st"
    by (rule store_ok_record_access [OF Cons.prems(1)]) (use row x in auto)
  have keep: "\<exists>y \<in> set ?st. r_payload y = s_memory e'" if "e' \<in> set es" for e'
  proof -
    from Cons.prems(2) that obtain y where y: "y \<in> set st" "r_payload y = s_memory e'" by auto
    have "m_id (s_memory e') \<noteq> m_id (s_memory e)" using Cons.prems(3) that by (force simp: image_iff)
    moreover have "get_row st (m_id (s_memory e')) = Some y"
      using get_row_unique Cons.prems(1) y by (metis list_all_iff row_ok_def store_ok_def)
    ultimately have "get_row ?st (m_id (s_memory e')) = Some y"
      by (simp add: record_access_def Let_def get_row_update)
    with get_row_mem y show ?thesis by blast
  qed
  show ?case using Cons.IH [OF ok keep] Cons.prems(3) by simp
qed simp

text \<open>What retrieval returns, for any ranker: at most \<open>max_memories\<close> memories, each once, whose
  estimated size is what is reported and at most \<open>max_chars\<close>, best score first; every one is
  active, visible to the project (its own or GLOBAL), of a requested type, at least as
  confident as asked, and scored positive and at or above the floor; and the store stays
  well-formed.
\<close>

theorem retrieve_sound:
  assumes ok: "store_ok st" and ret: "retrieve now rank st q = (st', b)"
  shows "length (b_memories b) \<le> q_max_memories q \<and>
    b_estimated_context_chars b = sum_list (map entry_cost (b_memories b)) \<and>
    b_estimated_context_chars b \<le> q_max_chars q \<and>
    distinct (map (\<lambda>e. m_id (s_memory e)) (b_memories b)) \<and>
    sorted (map (\<lambda>e. - s_score e) (b_memories b)) \<and>
    (\<forall>e \<in> set (b_memories b). \<exists>r. s_memory e = touch_access now r \<and>
       retrieval_ok rank q r (s_score e)) \<and>
    store_ok st'"
proof -
  let ?cand = "visible_to st (q_project_id q) (q_types q) (Some MS_ACTIVE) (q_include_global q) 500"
  let ?raw = "concat (map (score_candidate rank q) ?cand)"
  obtain sel used tr where loop: "select_loop q (rank_order ?raw) [] 0 False = (sel, used, tr)"
    by (cases "select_loop q (rank_order ?raw) [] 0 False") auto
  have b: "b_memories b = map (touch_entry now) sel" "b_estimated_context_chars b = used"
    "st' = foldl (\<lambda>s e. record_access now s (s_memory e)) st sel"
    using ret by (auto simp: retrieve_def Let_def loop)
  from select_loop_spec [OF loop] have
    len: "length sel \<le> q_max_memories q" and used: "used = sum_list (map entry_cost sel)"
    "used \<le> q_max_chars q" and sub: "subseq sel (rank_order ?raw)" by auto
  have cost: "map entry_cost (map (touch_entry now) sel) = map entry_cost sel"
    and ids: "map (\<lambda>e. m_id (s_memory e)) (map (touch_entry now) sel) = map (\<lambda>e. m_id (s_memory e)) sel"
    and scores: "map (\<lambda>e. - s_score e) (map (touch_entry now) sel) = map (\<lambda>e. - s_score e) sel"
    by (simp_all add: entry_cost_def touch_entry_def touch_access_def)
  have "distinct (map (\<lambda>e. m_id (s_memory e)) ?raw)"
    unfolding score_candidate_ids using visible_distinct [OF ok] by (simp add: distinct_map_filter)
  moreover have "mset (map (\<lambda>e. m_id (s_memory e)) (rank_order ?raw)) =
      mset (map (\<lambda>e. m_id (s_memory e)) ?raw)"
    by (simp only: rank_order_def mset_map mset_sort)
  ultimately have "distinct (map (\<lambda>e. m_id (s_memory e)) (rank_order ?raw))"
    using mset_eq_imp_distinct_iff by blast
  then have dist: "distinct (map (\<lambda>e. m_id (s_memory e)) sel)" by (rule distinct_subseq_map [OF sub])
  have "sorted (map (\<lambda>e. (- s_score e, m_id (s_memory e))) (rank_order ?raw))"
    unfolding rank_order_def by (rule sorted_sort_key)
  then have "sorted (map (\<lambda>e. (- s_score e, m_id (s_memory e))) sel)" by (rule sorted_subseq_map [OF sub])
  then have sorted: "sorted (map (\<lambda>e. - s_score e) sel)"
    by (auto simp: sorted_map elim!: sorted_wrt_mono_rel [rotated])
  have mem: "s_memory e \<in> set ?cand \<and> retrieval_ok rank q (s_memory e) (s_score e)" if "e \<in> set sel" for e
  proof -
    from subseq_mem [OF sub that] have "e \<in> set ?raw" by (simp add: rank_order_def)
    then obtain r where "r \<in> set ?cand" "e \<in> set (score_candidate rank q r)" by auto
    with score_candidate_ok [OF this(2)] visible_may_see [OF ok this(1)] show ?thesis
      by (simp add: retrieval_ok_def)
  qed
  have "\<exists>x \<in> set st. r_payload x = s_memory e" if "e \<in> set sel" for e
    using mem [OF that] visible_row by metis
  with ok dist have "store_ok st'" unfolding b by (intro store_ok_record_list) auto
  moreover have "\<forall>e \<in> set (b_memories b). \<exists>r. s_memory e = touch_access now r \<and>
       retrieval_ok rank q r (s_score e)"
    using mem by (auto simp: b touch_entry_def)
  ultimately show ?thesis using len used dist sorted unfolding b cost ids scores by simp
qed

text \<open>A store with one active memory of project \<open>p\<close>, asked by that project.\<close>

definition sample_request :: retrieval_request where
  "sample_request = \<lparr>q_query = ''the title of it'', q_project_id = Some ''p'', q_types = [],
     q_tags = [], q_max_memories = 3, q_max_chars = 600, q_min_confidence = 7/20,
     q_include_global = True, q_error_text = [], q_paths = [''src/content.py''], q_min_score = 14\<rparr>"

theorem retrieve_sound_witness:
  "let st = save_memory 0 (save_memory 0 [] (sample_memory ''m1'' ''p'')) (sample_memory ''m2'' ''q'');
       (st', b) = retrieve 5 (lexical_score 5) st sample_request
   in length (b_memories b) \<le> 3 \<and> b_estimated_context_chars b \<le> 600 \<and> store_ok st'"
proof -
  obtain st' b where "retrieve 5 (lexical_score 5)
      (save_memory 0 (save_memory 0 [] (sample_memory ''m1'' ''p'')) (sample_memory ''m2'' ''q''))
      sample_request = (st', b)" by fastforce
  from retrieve_sound [OF sample_store_ok this] this show ?thesis
    by (simp add: sample_request_def)
qed

section \<open>The lexical ranker's gate\<close>

lemma capped_bounds: "0 \<le> w \<Longrightarrow> 0 \<le> c \<Longrightarrow> 0 \<le> capped n w c \<and> capped n w c \<le> c"
  by (simp add: capped_def)

lemma path_relevance_bounds: "0 \<le> fst (path_relevance h ps) \<and> fst (path_relevance h ps) \<le> 5"
  by (induction h ps rule: path_relevance.induct) auto

lemma failure_relevance_bounds:
  "0 \<le> fst (failure_relevance r q) \<and> fst (failure_relevance r q) \<le> 20"
proof -
  let ?m = "fst (path_relevance (py_lower (text_of r @ '' '' @ join '' '' (m_tags r))) (q_paths q))"
  let ?n = "length (common (tokenize (q_error_text q)) (tokenize (text_of r)))"
  have "fst (failure_relevance r q) = (if q_error_text q \<noteq> [] \<and> ?n \<noteq> 0 then capped ?n (5/2) 15 else 0) + ?m"
    by (simp add: failure_relevance_def Let_def)
  moreover have "0 \<le> ?m" "?m \<le> 5" using path_relevance_bounds by auto
  moreover have "0 \<le> capped ?n (5/2) 15" "capped ?n (5/2) 15 \<le> 15" using capped_bounds [of "5/2" 15 ?n] by auto
  ultimately show ?thesis by (cases "q_error_text q \<noteq> [] \<and> ?n \<noteq> 0") auto
qed

lemma relevance_bounds: "0 \<le> fst (relevance r q) \<and> fst (relevance r q) \<le> 67"
proof -
  note c = capped_bounds [of 3 12 "length (common (tokenize (q_query q)) (tokenize (m_title r)))"]
    capped_bounds [of "3/2" 9 "length (common (tokenize (q_query q)) (tokenize (m_content r)))"]
    capped_bounds [of 4 12 "length (common (map py_lower (q_tags q)) (map py_lower (m_tags r)))"]
  show ?thesis
    using failure_relevance_bounds [of r q] c by (simp add: relevance_def Let_def)
qed

lemma relevance_bare:
  assumes "q_error_text q = []" "q_paths q = []" "\<not> title_match r q"
    "set (tokenize (q_query q)) \<inter> set (tokenize (m_title r) @ tokenize (m_content r) @ map py_lower (m_tags r)) = {}"
    "set (map py_lower (q_tags q)) \<inter> set (map py_lower (m_tags r)) = {}"
  shows "fst (relevance r q) = 0"
proof -
  have empty: "common xs ys = []" if "set xs \<inter> set ys = {}" for xs ys
    using that by (auto simp: common_def filter_empty_conv)
  have "common (tokenize (q_query q)) (tokenize (m_title r)) = []"
    "common (tokenize (q_query q)) (tokenize (m_content r)) = []"
    "common (tokenize (q_query q)) (map py_lower (m_tags r)) = []"
    "common (map py_lower (q_tags q)) (map py_lower (m_tags r)) = []"
    using assms(4,5) by (intro empty; auto)+
  then show ?thesis
    using assms(1-3) by (simp add: relevance_def failure_relevance_def Let_def capped_def)
qed

lemma bonus_bounds:
  assumes "0 \<le> m_importance r" "m_importance r \<le> 100" "0 \<le> m_confidence r" "m_confidence r \<le> 1"
    "m_updated_at r \<le> now"
  shows "0 \<le> fst (metadata_bonus now r) \<and> fst (metadata_bonus now r) \<le> 15"
proof -
  define age :: rat where "age = (of_nat now - of_nat (m_updated_at r)) / 86400"
  define fresh where "fresh = (if age < 30 then (1 - age / 30) * 2 else 0)"
  have "0 \<le> age" using assms(5) by (simp add: age_def)
  then have f: "0 \<le> fresh" "fresh \<le> 2" by (auto simp: fresh_def field_simps)
  have i: "0 \<le> of_int (m_importance r) / (25::rat)" "of_int (m_importance r) / (25::rat) \<le> 4"
    using assms(1,2) by (simp_all add: field_simps)
  note c = capped_bounds [of "4/5" 4 "m_recurrence_count r"] capped_bounds [of "1/5" 2 "m_access_count r"]
  have "fst (metadata_bonus now r) = of_int (m_importance r) / 25 +
      (if m_recurrence_count r > 1 then capped (m_recurrence_count r) (4/5) 4 else 0) +
      m_confidence r * 3 + fresh + (if m_access_count r \<noteq> 0 then capped (m_access_count r) (1/5) 2 else 0)"
    by (simp add: metadata_bonus_def Let_def fresh_def age_def)
  with f i c assms(3,4) show ?thesis by (auto split: if_splits)
qed

text \<open>
  The lexical ranker's gate: a memory that shares no term, tag or title with the query,
  when there is no failure text and no path, scores 0 whatever its importance, age or use
  (so retrieval never returns it); otherwise metadata only adds to a relevance of at most
  67, and adds at most 15.
\<close>

theorem lexical_gate:
  assumes "0 \<le> m_importance r" "m_importance r \<le> 100" "0 \<le> m_confidence r" "m_confidence r \<le> 1"
    "m_updated_at r \<le> now"
  shows "(q_error_text q = [] \<and> q_paths q = [] \<and> \<not> title_match r q \<and>
      set (tokenize (q_query q)) \<inter>
        set (tokenize (m_title r) @ tokenize (m_content r) @ map py_lower (m_tags r)) = {} \<and>
      set (map py_lower (q_tags q)) \<inter> set (map py_lower (m_tags r)) = {} \<longrightarrow>
        lexical_score now r q = (0, [])) \<and>
    (lexical_score now r q \<noteq> (0, []) \<longrightarrow>
      0 < fst (relevance r q) \<and> fst (relevance r q) \<le> fst (lexical_score now r q) \<and>
      fst (lexical_score now r q) \<le> 82)"
  using relevance_bare [of q r] relevance_bounds [of r q] bonus_bounds [OF assms]
  by (auto simp: lexical_score_def Let_def)

theorem lexical_gate_witness:
  "lexical_score 5 (sample_memory ''m1'' ''p'') sample_request \<noteq> (0, []) \<and>
   fst (lexical_score 5 (sample_memory ''m1'' ''p'') sample_request) \<le> 82"
proof -
  have "lexical_score 5 (sample_memory ''m1'' ''p'') sample_request \<noteq> (0, [])" by code_simp
  then show ?thesis
    using lexical_gate [of "sample_memory ''m1'' ''p''" 5 sample_request] by (simp add: sample_memory_def)
qed

end
