(* ===== verification/Allowance.thy ===== *)
theory Allowance
  imports Edith_Prelude
begin

text \<open>
  The contract of a bounded counter: steps of a state never lower it, never change its cap
  and never take it above the cap. The memory governor's three budgets and the attempt and
  repair counters of the loop are interpretations.
\<close>

locale allowance =
  fixes step :: "'b \<Rightarrow> 'b \<Rightarrow> bool"
    and used :: "'b \<Rightarrow> nat"
    and cap :: "'b \<Rightarrow> nat"
  assumes cap_kept: "step b b' \<Longrightarrow> cap b' = cap b"
    and used_mono: "step b b' \<Longrightarrow> used b \<le> used b'"
    and within_step: "step b b' \<Longrightarrow> used b \<le> cap b \<Longrightarrow> used b' \<le> cap b'"
begin

lemma within_trace:
  "trace_ok step b bs \<Longrightarrow> used b \<le> cap b \<Longrightarrow> c \<in> set (b # bs) \<Longrightarrow> used c \<le> cap b"
proof (induction bs arbitrary: b)
  case (Cons a bs)
  then have "used a \<le> cap a" "cap a = cap b" using within_step cap_kept by auto
  with Cons.IH [of a] Cons.prems show ?case by (cases "c = b") auto
qed simp

lemma mono_trace:
  "trace_ok step b bs \<Longrightarrow> c \<in> set (b # bs) \<Longrightarrow> used b \<le> used c"
proof (induction bs arbitrary: b)
  case (Cons a bs)
  then have "used b \<le> used a" using used_mono by auto
  with Cons show ?case by (cases "c = b") (auto intro: le_trans)
qed simp

lemma spent_trace:
  assumes "trace_ok step b bs" "used b = cap b" "c \<in> set (b # bs)"
  shows "used c = cap b"
  using within_trace [OF assms(1) _ assms(3)] mono_trace [OF assms(1,3)] assms(2) by simp

end

end
