(* ===== verification/Memory_Governor.thy ===== *)
theory Memory_Governor
  imports Memory_Retrieval Allowance
begin

text \<open>
  \<open>edith/memory/governor.py\<close>: the execution's memory budget and the governor, the only entry
  point of the autonomous loop to stored memories. The governor's mutable state is the
  budget and the store behind the retriever; a request returns both with its grant. Log
  calls are left out.
\<close>

definition loop_memory_types :: "memory_type list" where
  "loop_memory_types = [MT_ENGINEERING, MT_FAILURE, MT_PROJECT]"

definition memory_template_chars :: nat where
  "memory_template_chars =
     length (''- [] '' @ [CHR 0x0A] @ ''  '' @ [CHR 0x0A] @ ''  (source: )'') + 1"

definition reference_template_chars :: nat where
  "reference_template_chars = length ''- (already provided earlier in this run at : [])'' + 1"

datatype grant_outcome =
    GRANTED | NOT_APPLICABLE | DISABLED | NOTHING_RELEVANT | DUPLICATE_SUPPRESSED | BUDGET_EXHAUSTED

record memory_budget_limits =
  l_max_total_chars :: nat
  l_max_retrievals :: nat
  l_max_total_memories :: nat
  l_max_chars_per_retrieval :: nat
  l_max_memories_per_retrieval :: nat

definition medium_limits :: memory_budget_limits where
  "medium_limits = \<lparr>l_max_total_chars = 2400, l_max_retrievals = 3, l_max_total_memories = 4,
     l_max_chars_per_retrieval = 1200, l_max_memories_per_retrieval = 2\<rparr>"

definition small_limits :: memory_budget_limits where
  "small_limits = \<lparr>l_max_total_chars = 800, l_max_retrievals = 1, l_max_total_memories = 1,
     l_max_chars_per_retrieval = 800, l_max_memories_per_retrieval = 1\<rparr>"

definition large_limits :: memory_budget_limits where
  "large_limits = \<lparr>l_max_total_chars = 4800, l_max_retrievals = 6, l_max_total_memories = 8,
     l_max_chars_per_retrieval = 1600, l_max_memories_per_retrieval = 3\<rparr>"

definition scale_one :: "rat \<Rightarrow> nat \<Rightarrow> nat" where
  "scale_one f n = max (nat \<lfloor>of_nat n * f\<rfloor>) 1"

definition scaled :: "memory_budget_limits \<Rightarrow> rat \<Rightarrow> memory_budget_limits" where
  "scaled l f = \<lparr>l_max_total_chars = scale_one f (l_max_total_chars l),
     l_max_retrievals = scale_one f (l_max_retrievals l),
     l_max_total_memories = scale_one f (l_max_total_memories l),
     l_max_chars_per_retrieval = scale_one f (l_max_chars_per_retrieval l),
     l_max_memories_per_retrieval = scale_one f (l_max_memories_per_retrieval l)\<rparr>"

record injection_record =
  i_memory_id :: string
  i_title :: string
  i_point :: retrieval_point
  i_agent :: string
  i_score :: rat
  i_reason :: string
  i_chars :: nat

record execution_memory_budget =
  eb_execution_id :: string
  eb_limits :: memory_budget_limits
  eb_consumed_chars :: nat
  eb_retrieval_count :: nat
  eb_injected :: "(string \<times> injection_record) list"
  eb_exhaustions :: nat

definition new_budget ::
    "string \<Rightarrow> memory_budget_limits option \<Rightarrow> nat \<Rightarrow> nat \<Rightarrow> injection_record list \<Rightarrow>
     execution_memory_budget" where
  "new_budget i l chars retrievals injected =
     \<lparr>eb_execution_id = i, eb_limits = (case l of None \<Rightarrow> medium_limits | Some x \<Rightarrow> x),
      eb_consumed_chars = chars, eb_retrieval_count = retrievals,
      eb_injected = foldl (\<lambda>d r. alist_put (i_memory_id r) r d) [] injected,
      eb_exhaustions = 0\<rparr>"

definition injected_memory_ids :: "execution_memory_budget \<Rightarrow> string set" where
  "injected_memory_ids b = fst ` set (eb_injected b)"

definition injections :: "execution_memory_budget \<Rightarrow> injection_record list" where
  "injections b = map snd (eb_injected b)"

definition remaining_chars :: "execution_memory_budget \<Rightarrow> nat" where
  "remaining_chars b = l_max_total_chars (eb_limits b) - eb_consumed_chars b"

definition remaining_retrievals :: "execution_memory_budget \<Rightarrow> nat" where
  "remaining_retrievals b = l_max_retrievals (eb_limits b) - eb_retrieval_count b"

definition remaining_memories :: "execution_memory_budget \<Rightarrow> nat" where
  "remaining_memories b = l_max_total_memories (eb_limits b) - length (eb_injected b)"

definition budget_exhausted :: "execution_memory_budget \<Rightarrow> bool" where
  "budget_exhausted b \<longleftrightarrow>
     remaining_chars b = 0 \<or> remaining_retrievals b = 0 \<or> remaining_memories b = 0"

definition already_injected :: "execution_memory_budget \<Rightarrow> string \<Rightarrow> injection_record option" where
  "already_injected b i = map_of (eb_injected b) i"

definition chars_allowed_now :: "execution_memory_budget \<Rightarrow> nat" where
  "chars_allowed_now b = min (l_max_chars_per_retrieval (eb_limits b)) (remaining_chars b)"

definition memories_allowed_now :: "execution_memory_budget \<Rightarrow> nat" where
  "memories_allowed_now b = min (l_max_memories_per_retrieval (eb_limits b)) (remaining_memories b)"

definition record_injection ::
    "execution_memory_budget \<Rightarrow> nat \<Rightarrow> injection_record list \<Rightarrow> execution_memory_budget" where
  "record_injection b chars records =
     b\<lparr>eb_consumed_chars := eb_consumed_chars b + chars,
       eb_retrieval_count := eb_retrieval_count b + 1,
       eb_injected := foldl (\<lambda>d r. alist_setdefault (i_memory_id r) r d) (eb_injected b) records\<rparr>"

definition record_exhaustion :: "execution_memory_budget \<Rightarrow> execution_memory_budget" where
  "record_exhaustion b = b\<lparr>eb_exhaustions := eb_exhaustions b + 1\<rparr>"

definition snapshot :: "execution_memory_budget \<Rightarrow> (string \<times> nat) list" where
  "snapshot b =
     [(''consumed_chars'', eb_consumed_chars b), (''remaining_chars'', remaining_chars b),
      (''retrievals'', eb_retrieval_count b), (''remaining_retrievals'', remaining_retrievals b),
      (''memories'', length (eb_injected b)), (''remaining_memories'', remaining_memories b),
      (''exhaustions'', eb_exhaustions b)]"

record memory_grant =
  g_outcome :: grant_outcome
  g_text :: string
  g_memory_ids :: "string list"
  g_scores :: "rat list"
  g_chars :: nat
  g_suppressed_ids :: "string list"
  g_reason :: string
  g_remaining_chars :: nat
  g_remaining_retrievals :: nat

definition granted :: "memory_grant \<Rightarrow> bool" where
  "granted g \<longleftrightarrow> g_outcome g = GRANTED \<and> g_text g \<noteq> []"

definition grant_exhausted :: "memory_grant \<Rightarrow> bool" where
  "grant_exhausted g \<longleftrightarrow> g_outcome g = BUDGET_EXHAUSTED"

record governor_settings =
  gs_strategy :: memory_strategy
  gs_project_id :: "string option"
  gs_min_confidence :: rat
  gs_include_global :: bool
  gs_min_score :: rat
  gs_types :: "memory_type list"

section \<open>Costs and rendering\<close>

definition type_rank :: "memory_type \<Rightarrow> nat" where
  "type_rank t = (case t of MT_FAILURE \<Rightarrow> 0 | MT_ENGINEERING \<Rightarrow> 1 | MT_PROJECT \<Rightarrow> 2 | _ \<Rightarrow> 3)"

definition priority_key :: "scored_memory \<Rightarrow> rat \<times> rat \<times> nat \<times> string" where
  "priority_key e =
     (- s_score e, - m_confidence (s_memory e), type_rank (m_type (s_memory e)), m_id (s_memory e))"

definition render_cost :: "scored_memory \<Rightarrow> nat" where
  "render_cost e =
     (let r = s_memory e in
      length (str_memory_type (m_type r)) + length (m_title r) + length (m_content r) +
      length (provenance r) + memory_template_chars)"

definition reference_cost :: "injection_record \<Rightarrow> nat" where
  "reference_cost p =
     length (i_memory_id p) + length (i_title p) + length (str_point (i_point p)) +
     reference_template_chars"

definition reference_line :: "string \<Rightarrow> injection_record \<Rightarrow> string" where
  "reference_line i p =
     ''- (already provided earlier in this run at '' @ str_point (i_point p) @ '': '' @
     i_title p @ '' ['' @ i @ ''])''"

definition render_lines ::
    "scored_memory list \<Rightarrow> string list \<Rightarrow> execution_memory_budget \<Rightarrow> string list" where
  "render_lines selected refs b =
     map (\<lambda>e. render_memory (s_memory e)) selected @
     concat (map (\<lambda>i. case already_injected b i of None \<Rightarrow> [] | Some p \<Rightarrow> [reference_line i p]) refs)"

definition render_grant ::
    "scored_memory list \<Rightarrow> string list \<Rightarrow> execution_memory_budget \<Rightarrow> string" where
  "render_grant selected refs b = join [CHR 0x0A] (render_lines selected refs b)"

definition refuse ::
    "execution_memory_budget \<Rightarrow> grant_outcome \<Rightarrow> string \<Rightarrow> string list \<Rightarrow> memory_grant" where
  "refuse b oc reason suppressed =
     \<lparr>g_outcome = oc, g_text = [], g_memory_ids = [], g_scores = [], g_chars = 0,
      g_suppressed_ids = suppressed, g_reason = reason, g_remaining_chars = remaining_chars b,
      g_remaining_retrievals = remaining_retrievals b\<rparr>"

section \<open>Admission\<close>

fun admit_fresh ::
    "nat \<Rightarrow> nat \<Rightarrow> scored_memory list \<Rightarrow> scored_memory list \<Rightarrow> nat \<Rightarrow> scored_memory list \<times> nat" where
  "admit_fresh mem_cap char_cap [] selected spent = (selected, spent)"
| "admit_fresh mem_cap char_cap (e # es) selected spent =
     (if length selected \<ge> mem_cap then (selected, spent)
      else if spent + render_cost e > char_cap then admit_fresh mem_cap char_cap es selected spent
      else admit_fresh mem_cap char_cap es (selected @ [e]) (spent + render_cost e))"

fun admit_refs ::
    "execution_memory_budget \<Rightarrow> nat \<Rightarrow> string list \<Rightarrow> string list \<Rightarrow> nat \<Rightarrow> string list \<times> nat" where
  "admit_refs b char_cap [] refs spent = (refs, spent)"
| "admit_refs b char_cap (i # is) refs spent =
     (case already_injected b i of
        None \<Rightarrow> admit_refs b char_cap is refs spent
      | Some p \<Rightarrow>
          if spent + reference_cost p > char_cap then (refs, spent)
          else admit_refs b char_cap is (refs @ [i]) (spent + reference_cost p))"

definition injection_of :: "retrieval_point \<Rightarrow> string \<Rightarrow> scored_memory \<Rightarrow> injection_record" where
  "injection_of purpose agent e =
     \<lparr>i_memory_id = m_id (s_memory e), i_title = m_title (s_memory e), i_point = purpose,
      i_agent = agent, i_score = s_score e, i_reason = reason_text (s_reasons e),
      i_chars = render_cost e\<rparr>"

definition suppressed_of :: "execution_memory_budget \<Rightarrow> scored_memory list \<Rightarrow> string list" where
  "suppressed_of b ordered =
     map (\<lambda>e. m_id (s_memory e)) (filter (\<lambda>e. already_injected b (m_id (s_memory e)) \<noteq> None) ordered)"

definition fresh_of :: "execution_memory_budget \<Rightarrow> scored_memory list \<Rightarrow> scored_memory list" where
  "fresh_of b ordered = filter (\<lambda>e. already_injected b (m_id (s_memory e)) = None) ordered"

definition admit ::
    "execution_memory_budget \<Rightarrow> scored_memory list \<Rightarrow> retrieval_point \<Rightarrow> string \<Rightarrow>
     execution_memory_budget \<times> memory_grant" where
  "admit b candidates purpose agent =
     (let ordered = sort_key priority_key candidates;
          suppressed = suppressed_of b ordered;
          fresh = fresh_of b ordered;
          char_cap = chars_allowed_now b;
          (selected, spent) = admit_fresh (memories_allowed_now b) char_cap fresh [] 0;
          (refs, spent') = admit_refs b char_cap suppressed [] spent
      in if selected = [] \<and> refs = []
         then (b, refuse b
                (if suppressed \<noteq> [] then DUPLICATE_SUPPRESSED else NOTHING_RELEVANT)
                (if suppressed \<noteq> []
                 then ''everything relevant has already been injected in this execution''
                 else ''nothing fitted the remaining budget'') suppressed)
         else (let records = map (injection_of purpose agent) selected;
                   text = render_grant selected refs b;
                   b' = record_injection b (length text) records
               in (b', \<lparr>g_outcome = GRANTED, g_text = text, g_memory_ids = map (\<lambda>e. m_id (s_memory e)) selected,
                   g_scores = map s_score selected, g_chars = length text,
                   g_suppressed_ids = suppressed,
                   g_reason = join ''; '' (take 2 (map i_reason records)),
                   g_remaining_chars = remaining_chars b',
                   g_remaining_retrievals = remaining_retrievals b'\<rparr>)))"

section \<open>Requests\<close>

record governor_request =
  gr_execution_id :: string
  gr_query :: string
  gr_purpose :: retrieval_point
  gr_error_text :: string
  gr_paths :: "string list"
  gr_agent :: string

fun str_strategy :: "memory_strategy \<Rightarrow> string" where
  "str_strategy MS_NONE = ''none''"
| "str_strategy MS_ALWAYS = ''always''"
| "str_strategy MS_FAILURE_TRIGGERED = ''failure_triggered''"
| "str_strategy MS_DEBUGGER_ONLY = ''debugger_only''"
| "str_strategy MS_HIGH_RELEVANCE = ''high_relevance''"

definition retrieval_of ::
    "execution_memory_budget \<Rightarrow> governor_settings \<Rightarrow> governor_request \<Rightarrow> retrieval_request" where
  "retrieval_of b s g =
     \<lparr>q_query = gr_query g, q_project_id = gs_project_id s, q_types = gs_types s, q_tags = [],
      q_max_memories = memories_allowed_now b + 1, q_max_chars = chars_allowed_now b,
      q_min_confidence = gs_min_confidence s, q_include_global = gs_include_global s,
      q_error_text = gr_error_text g, q_paths = gr_paths g,
      q_min_score = max (sp_min_score (policy_for (gs_strategy s))) (gs_min_score s)\<rparr>"

text \<open>\<open>retr\<close> is the retriever's ranker, None when no memory store is attached.\<close>

definition governor_request_memory ::
    "nat \<Rightarrow> ranker option \<Rightarrow> governor_settings \<Rightarrow> memory_store \<Rightarrow> execution_memory_budget \<Rightarrow>
     governor_request \<Rightarrow> memory_store \<times> execution_memory_budget \<times> memory_grant" where
  "governor_request_memory now retr s st b g =
     (if gr_execution_id g \<noteq> eb_execution_id b
      then (st, b, refuse b DISABLED
             (''budget belongs to '' @ eb_execution_id b @ '', not '' @ gr_execution_id g) [])
      else if \<not> applies_at (policy_for (gs_strategy s)) (gr_purpose g)
      then (st, b, refuse b NOT_APPLICABLE
             (''strategy '' @ str_strategy (gs_strategy s) @ '' does not retrieve at '' @
              str_point (gr_purpose g)) [])
      else case retr of
        None \<Rightarrow> (st, b, refuse b DISABLED ''no memory store is attached'' [])
      | Some rank \<Rightarrow>
          if budget_exhausted b
          then (let b' = record_exhaustion b
                in (st, b', refuse b' BUDGET_EXHAUSTED
                     ''the execution's memory budget is spent; continuing without memory'' []))
          else (let (st', bundle) = retrieve now rank st (retrieval_of b s g)
                in if is_empty_bundle bundle
                   then (st', b, refuse b NOTHING_RELEVANT ''nothing cleared the relevance gate'' [])
                   else (let (b', grant) = admit b (b_memories bundle) (gr_purpose g) (gr_agent g)
                         in (st', b', grant))))"

section \<open>Estimates against rendered text\<close>

text \<open>The ledger's keys are the ids of its records, each once.\<close>

definition budget_ok :: "execution_memory_budget \<Rightarrow> bool" where
  "budget_ok b \<longleftrightarrow> distinct (map fst (eb_injected b)) \<and>
     (\<forall>(i, r) \<in> set (eb_injected b). i_memory_id r = i)"

lemma length_render_memory: "Suc (length (render_memory (s_memory e))) = render_cost e"
  by (simp add: render_memory_def render_cost_def memory_template_chars_def Let_def)

text \<open>The estimate of a reference line leaves out one of its spaces: it is the length of the line
  without the newline that joins it.\<close>

lemma length_reference_line: "i_memory_id p = i \<Longrightarrow> length (reference_line i p) = reference_cost p"
  by (auto simp: reference_line_def reference_cost_def reference_template_chars_def)

lemma already_injected_id: "budget_ok b \<Longrightarrow> already_injected b i = Some p \<Longrightarrow> i_memory_id p = i"
  by (auto simp: budget_ok_def already_injected_def dest!: map_of_SomeD)

definition ref_cost_of :: "execution_memory_budget \<Rightarrow> string \<Rightarrow> nat" where
  "ref_cost_of b i = (case already_injected b i of None \<Rightarrow> 0 | Some p \<Rightarrow> reference_cost p)"

lemma admit_fresh_spec:
  assumes "admit_fresh mc cc es selected spent = (sel, sp)" "length selected \<le> mc" "spent \<le> cc"
  shows "\<exists>new. sel = selected @ new \<and> subseq new es \<and> length sel \<le> mc \<and> sp \<le> cc \<and>
    sp = spent + sum_list (map render_cost new)"
  using assms
proof (induction mc cc es selected spent rule: admit_fresh.induct)
  case (2 mc cc e es selected spent)
  show ?case
  proof (cases "length selected \<ge> mc")
    case True
    with "2.prems" show ?thesis by (intro exI [of _ "[]"]) auto
  next
    case room: False
    show ?thesis
    proof (cases "spent + render_cost e > cc")
      case True
      with room 2(1) [OF room True] "2.prems" show ?thesis by auto
    next
      case False
      with room 2(2) [OF room False] "2.prems" have "\<exists>new. sel = (selected @ [e]) @ new \<and> subseq new es \<and>
          length sel \<le> mc \<and> sp \<le> cc \<and> sp = spent + render_cost e + sum_list (map render_cost new)" by simp
      then obtain new where "sel = selected @ e # new" "subseq new es" "length sel \<le> mc" "sp \<le> cc"
          "sp = spent + sum_list (map render_cost (e # new))" by auto
      then show ?thesis by (intro exI [of _ "e # new"]) simp
    qed
  qed
qed auto

lemma admit_refs_spec:
  assumes "admit_refs b cc is refs spent = (rs, sp)" "spent \<le> cc"
  shows "\<exists>new. rs = refs @ new \<and> subseq new is \<and> sp \<le> cc \<and>
    (\<forall>i \<in> set new. already_injected b i \<noteq> None) \<and> sp = spent + sum_list (map (ref_cost_of b) new)"
  using assms
proof (induction b cc "is" refs spent rule: admit_refs.induct)
  case (2 b cc i "is" refs spent)
  show ?case
  proof (cases "already_injected b i")
    case None
    with 2(1) [OF None] "2.prems" show ?thesis by auto
  next
    case (Some p)
    show ?thesis
    proof (cases "spent + reference_cost p > cc")
      case True
      with Some "2.prems" show ?thesis by (intro exI [of _ "[]"]) auto
    next
      case False
      from 2(2) [OF Some False] "2.prems" Some False
      have "\<exists>new. rs = (refs @ [i]) @ new \<and> subseq new is \<and> sp \<le> cc \<and>
         (\<forall>i \<in> set new. already_injected b i \<noteq> None) \<and>
         sp = spent + reference_cost p + sum_list (map (ref_cost_of b) new)" by simp
      then obtain new where new: "rs = refs @ i # new" "subseq new is" "sp \<le> cc"
         "\<forall>i \<in> set new. already_injected b i \<noteq> None"
         "sp = spent + reference_cost p + sum_list (map (ref_cost_of b) new)" by auto
      then show ?thesis
        using Some by (intro exI [of _ "i # new"]) (simp add: ref_cost_of_def [of b i])
    qed
  qed
qed auto

lemma length_render_grant:
  assumes "budget_ok b" "\<forall>i \<in> set refs. already_injected b i \<noteq> None" "selected \<noteq> [] \<or> refs \<noteq> []"
  shows "Suc (length (render_grant selected refs b)) =
    sum_list (map render_cost selected) + sum_list (map (ref_cost_of b) refs) + length refs"
proof -
  let ?ref = "\<lambda>i. case already_injected b i of None \<Rightarrow> [] | Some p \<Rightarrow> [reference_line i p]"
  have refs: "sum_list (map (\<lambda>x. Suc (length x)) (concat (map ?ref is))) = sum_list (map (ref_cost_of b) is) + length is"
    if "\<forall>i \<in> set is. already_injected b i \<noteq> None" for "is"
    using that
  proof (induction "is")
    case (Cons i "is")
    then obtain p where p: "already_injected b i = Some p" by auto
    with Cons length_reference_line [OF already_injected_id [OF assms(1) p]]
    show ?case by (simp add: ref_cost_of_def)
  qed simp
  have "render_lines selected refs b \<noteq> []"
    using assms(2,3) by (cases refs) (auto simp: render_lines_def split: option.splits)
  then have "Suc (length (render_grant selected refs b)) =
      sum_list (map (\<lambda>x. Suc (length x)) (render_lines selected refs b))"
    unfolding render_grant_def by (rule length_join_newline)
  also have "\<dots> = sum_list (map render_cost selected) + sum_list (map (ref_cost_of b) refs) + length refs"
    using refs [OF assms(2)] by (simp add: render_lines_def length_render_memory o_def)
  finally show ?thesis .
qed

lemma foldl_setdefault_length:
  "length (foldl (\<lambda>d r. alist_setdefault (k r) r d) kvs rs) \<le> length kvs + length rs"
proof (induction rs arbitrary: kvs)
  case (Cons r rs)
  from Cons.IH [of "alist_setdefault (k r) r kvs"] length_alist_setdefault [of "k r" r kvs]
  show ?case by simp
qed simp

lemma foldl_setdefault_keys:
  "fst ` set (foldl (\<lambda>d r. alist_setdefault (k r) r d) kvs rs) = fst ` set kvs \<union> k ` set rs"
proof (induction rs arbitrary: kvs)
  case (Cons r rs)
  have "fst ` set (alist_setdefault (k r) r kvs) = insert (k r) (fst ` set kvs)"
    by (auto simp: alist_setdefault_def map_of_eq_None_iff insert_absorb image_iff
        dest: map_of_SomeD split: if_splits)
  with Cons show ?case by simp
qed simp

lemma foldl_setdefault_ok:
  "distinct (map fst kvs) \<Longrightarrow> (\<forall>(i, r) \<in> set kvs. k r = i) \<Longrightarrow>
     distinct (map fst (foldl (\<lambda>d r. alist_setdefault (k r) r d) kvs rs)) \<and>
     (\<forall>(i, r) \<in> set (foldl (\<lambda>d r. alist_setdefault (k r) r d) kvs rs). k r = i)"
proof (induction rs arbitrary: kvs)
  case (Cons r rs)
  have "distinct (map fst (alist_setdefault (k r) r kvs))"
    by (rule distinct_alist_setdefault [OF Cons.prems(1)])
  moreover have "\<forall>(i, s) \<in> set (alist_setdefault (k r) r kvs). k s = i"
    using Cons.prems(2) by (auto simp: alist_setdefault_def)
  ultimately show ?case using Cons.IH by simp
qed simp


section \<open>One request\<close>

text \<open>What a grant may be, relative to the budget it was asked of.\<close>

definition grant_ok :: "execution_memory_budget \<Rightarrow> execution_memory_budget \<Rightarrow> memory_grant \<Rightarrow> bool" where
  "grant_ok b b' g \<longleftrightarrow>
     \<not> budget_exhausted b \<and> g_outcome g = GRANTED \<and> g_chars g = length (g_text g) \<and>
     length (g_text g) \<le> chars_allowed_now b + memories_allowed_now b \<and>
     (g_suppressed_ids g = [] \<longrightarrow> length (g_text g) < chars_allowed_now b) \<and>
     length (g_memory_ids g) \<le> memories_allowed_now b \<and>
     set (g_memory_ids g) \<inter> injected_memory_ids b = {} \<and>
     injected_memory_ids b' = injected_memory_ids b \<union> set (g_memory_ids g) \<and>
     length (eb_injected b') \<le> length (eb_injected b) + length (g_memory_ids g) \<and>
     eb_consumed_chars b' = eb_consumed_chars b + length (g_text g) \<and>
     eb_retrieval_count b' = eb_retrieval_count b + 1 \<and>
     eb_exhaustions b' = eb_exhaustions b"

definition refused :: "memory_grant \<Rightarrow> bool" where
  "refused g \<longleftrightarrow> g_outcome g \<noteq> GRANTED \<and> g_text g = [] \<and> g_memory_ids g = [] \<and> g_chars g = 0"

lemma refused_refuse [simp]: "oc \<noteq> GRANTED \<Longrightarrow> refused (refuse b oc why ids)"
  by (simp add: refused_def refuse_def)

lemma record_injection_ok: "budget_ok b \<Longrightarrow> budget_ok (record_injection b n rs)"
  using foldl_setdefault_ok [of "eb_injected b" i_memory_id rs]
  by (simp add: budget_ok_def record_injection_def)

lemma record_injection_ids:
  "injected_memory_ids (record_injection b n rs) = injected_memory_ids b \<union> i_memory_id ` set rs"
  using foldl_setdefault_keys [of i_memory_id "eb_injected b" rs]
  by (simp add: injected_memory_ids_def record_injection_def)

lemma record_injection_length:
  "length (eb_injected (record_injection b n rs)) \<le> length (eb_injected b) + length rs"
  using foldl_setdefault_length [of i_memory_id "eb_injected b" rs]
  by (simp add: record_injection_def)

lemma admit_spec:
  assumes ok: "budget_ok b" and live: "\<not> budget_exhausted b"
    and few: "length cand \<le> memories_allowed_now b + 1"
    and adm: "admit b cand purpose agent = (b', g)"
  shows "(refused g \<and> b' = b) \<or> (grant_ok b b' g \<and> eb_limits b' = eb_limits b \<and>
      eb_execution_id b' = eb_execution_id b \<and> budget_ok b' \<and>
      set (g_memory_ids g) \<subseteq> (\<lambda>e. m_id (s_memory e)) ` set cand \<and>
      (distinct (map (\<lambda>e. m_id (s_memory e)) cand) \<longrightarrow> distinct (g_memory_ids g)))"
proof -
  let ?id = "\<lambda>e. m_id (s_memory e)"
  let ?ord = "sort_key priority_key cand"
  let ?sup = "suppressed_of b ?ord"
  let ?fresh = "fresh_of b ?ord"
  obtain sel sp where fresh: "admit_fresh (memories_allowed_now b) (chars_allowed_now b) ?fresh [] 0 = (sel, sp)"
    by fastforce
  obtain refs sp' where refs: "admit_refs b (chars_allowed_now b) ?sup [] sp = (refs, sp')"
    by fastforce
  from admit_fresh_spec [OF fresh] have sel: "subseq sel ?fresh" "length sel \<le> memories_allowed_now b"
    "sp \<le> chars_allowed_now b" "sp = sum_list (map render_cost sel)" by auto
  from admit_refs_spec [OF refs sel(3)] have r: "subseq refs ?sup" "sp' \<le> chars_allowed_now b"
    "\<forall>i \<in> set refs. already_injected b i \<noteq> None" "sp' = sp + sum_list (map (ref_cost_of b) refs)" by auto
  have selected: "already_injected b (?id e) = None" "e \<in> set cand" if "e \<in> set sel" for e
    using subseq_mem [OF sel(1) that] by (auto simp: fresh_of_def)
  show ?thesis
  proof (cases "sel = [] \<and> refs = []")
    case True
    then show ?thesis using adm by (auto simp: admit_def Let_def fresh refs)
  next
    case False
    let ?recs = "map (injection_of purpose agent) sel"
    let ?text = "render_grant sel refs b"
    have b': "b' = record_injection b (length ?text) ?recs" and g: "g_outcome g = GRANTED"
      "g_text g = ?text" "g_memory_ids g = map ?id sel" "g_chars g = length ?text" "g_suppressed_ids g = ?sup"
      using adm False by (auto simp: admit_def Let_def fresh refs)
    have len: "Suc (length ?text) = sp' + length refs"
      using length_render_grant [OF ok r(3)] False sel(4) r(4) by simp
    have "length refs \<le> length ?sup" using r(1) by (rule list_emb_length)
    also have "\<dots> \<le> length cand" by (simp add: suppressed_of_def le_trans [OF length_filter_le])
    finally have nrefs: "length refs \<le> memories_allowed_now b + 1" using few by simp
    have cap: "length ?text \<le> chars_allowed_now b + memories_allowed_now b"
      using len nrefs r(2) by simp
    have norefs: "length ?text < chars_allowed_now b" if "?sup = []"
      using len r(1,2) that by (cases refs) auto
    have ids: "i_memory_id ` set ?recs = ?id ` set sel" by (auto simp: injection_of_def image_iff)
    have "set (map ?id sel) \<inter> injected_memory_ids b = {}"
      using selected by (auto simp: injected_memory_ids_def already_injected_def map_of_eq_None_iff)
    moreover have "distinct (map ?id sel)" if "distinct (map ?id cand)"
    proof -
      have "mset (map ?id ?ord) = mset (map ?id cand)" by (simp only: mset_map mset_sort)
      then have "distinct (map ?id ?ord)" using that mset_eq_imp_distinct_iff by blast
      then show ?thesis by (intro distinct_subseq_map [OF sel(1)]) (simp add: fresh_of_def distinct_map_filter)
    qed
    ultimately have "grant_ok b b' g"
      using cap norefs live sel(2) record_injection_length [of b "length ?text" ?recs] ids
      by (simp add: grant_ok_def g b' record_injection_ids)
         (simp add: record_injection_def)
    moreover have "set (g_memory_ids g) \<subseteq> ?id ` set cand" using selected by (auto simp: g)
    ultimately show ?thesis
      using \<open>distinct (map ?id cand) \<Longrightarrow> distinct (map ?id sel)\<close>
      by (simp add: g b' record_injection_ok ok) (simp add: record_injection_def)
  qed
qed

lemma request_spec:
  assumes ok: "budget_ok b" and st: "store_ok st"
    and req: "governor_request_memory now retr s st b g = (st', b', gr)"
  shows "store_ok st' \<and> eb_limits b' = eb_limits b \<and> eb_execution_id b' = eb_execution_id b \<and> budget_ok b' \<and>
    ((refused gr \<and> (b' = b \<or> budget_exhausted b \<and> b' = record_exhaustion b)) \<or>
     (grant_ok b b' gr \<and> distinct (g_memory_ids gr) \<and>
      gr_execution_id g = eb_execution_id b \<and> applies_at (policy_for (gs_strategy s)) (gr_purpose g) \<and>
      (\<exists>rank. retr = Some rank \<and> (\<forall>i \<in> set (g_memory_ids gr). \<exists>r sc. m_id r = i \<and>
         retrieval_ok rank (retrieval_of b s g) r sc))))"
proof (cases "gr_execution_id g \<noteq> eb_execution_id b \<or> \<not> applies_at (policy_for (gs_strategy s)) (gr_purpose g) \<or>
    retr = None \<or> budget_exhausted b")
  case True
  then show ?thesis
    using req ok st
    by (auto simp: governor_request_memory_def Let_def budget_ok_def record_exhaustion_def
        split: if_splits option.splits)
next
  case False
  then obtain rank where retr: "retr = Some rank" by auto
  obtain s1 bun where ret: "retrieve now rank st (retrieval_of b s g) = (s1, bun)" by fastforce
  from retrieve_sound [OF st ret] have
    bun: "length (b_memories bun) \<le> memories_allowed_now b + 1"
      "distinct (map (\<lambda>e. m_id (s_memory e)) (b_memories bun))"
      "\<forall>e \<in> set (b_memories bun). \<exists>r. s_memory e = touch_access now r \<and>
         retrieval_ok rank (retrieval_of b s g) r (s_score e)" "store_ok s1"
    by (simp_all add: retrieval_of_def)
  show ?thesis
  proof (cases "is_empty_bundle bun")
    case True
    then show ?thesis
      using req False ok bun(4) by (auto simp: governor_request_memory_def Let_def retr ret)
  next
    case nonempty: False
    obtain b1 g1 where adm: "admit b (b_memories bun) (gr_purpose g) (gr_agent g) = (b1, g1)" by fastforce
    have eq: "st' = s1" "b' = b1" "gr = g1"
      using req False nonempty by (auto simp: governor_request_memory_def Let_def retr ret adm)
    have live: "\<not> budget_exhausted b" using False by simp
    have from_bundle: "\<exists>r sc. m_id r = i \<and> retrieval_ok rank (retrieval_of b s g) r sc"
      if i: "i \<in> (\<lambda>e. m_id (s_memory e)) ` set (b_memories bun)" for i
    proof -
      from i obtain e where e: "e \<in> set (b_memories bun)" "i = m_id (s_memory e)" by blast
      from bun(3) e(1) obtain r where "s_memory e = touch_access now r"
        "retrieval_ok rank (retrieval_of b s g) r (s_score e)" by blast
      then show ?thesis using e(2) by (auto simp: touch_access_def)
    qed
    from admit_spec [OF ok live bun(1) adm] show ?thesis
    proof (elim disjE conjE)
      assume "refused g1" "b1 = b"
      then show ?thesis using ok bun(4) by (simp add: eq)
    next
      assume "grant_ok b b1 g1" "eb_limits b1 = eb_limits b" "eb_execution_id b1 = eb_execution_id b"
        "budget_ok b1" "set (g_memory_ids g1) \<subseteq> (\<lambda>e. m_id (s_memory e)) ` set (b_memories bun)"
        "distinct (map (\<lambda>e. m_id (s_memory e)) (b_memories bun)) \<longrightarrow> distinct (g_memory_ids g1)"
      then show ?thesis
        using bun(2,4) from_bundle False retr by (intro conjI disjI2) (auto simp: eq)
    qed
  qed
qed

section \<open>Sequences of requests\<close>

text \<open>One execution: requests in order, each at its own time and against the store as it is
  then (other writers may change it in between).\<close>

fun run_requests ::
    "ranker option \<Rightarrow> governor_settings \<Rightarrow> (nat \<times> memory_store \<times> governor_request) list \<Rightarrow>
     execution_memory_budget \<Rightarrow> execution_memory_budget \<times> memory_grant list" where
  "run_requests retr s [] b = (b, [])"
| "run_requests retr s ((now, st, g) # rs) b =
     (let (st', b', gr) = governor_request_memory now retr s st b g;
          (b'', grs) = run_requests retr s rs b'
      in (b'', gr # grs))"

definition governor_step :: "execution_memory_budget \<Rightarrow> execution_memory_budget \<Rightarrow> bool" where
  "governor_step b b' \<longleftrightarrow> budget_ok b \<and>
     (\<exists>now retr s st g st' gr. store_ok st \<and>
        governor_request_memory now retr s st b g = (st', b', gr))"

lemma grant_ok_counts:
  assumes "grant_ok b b' gr" "eb_limits b' = eb_limits b"
  shows "eb_consumed_chars b' \<le> l_max_total_chars (eb_limits b) + l_max_memories_per_retrieval (eb_limits b)"
    "eb_retrieval_count b' \<le> l_max_retrievals (eb_limits b)"
    "length (eb_injected b') \<le> l_max_total_memories (eb_limits b)"
  using assms
  by (auto simp: grant_ok_def budget_exhausted_def remaining_chars_def remaining_retrievals_def
      remaining_memories_def chars_allowed_now_def memories_allowed_now_def)

lemma step_cases:
  assumes "governor_step b b'"
  shows "eb_limits b' = eb_limits b \<and> budget_ok b' \<and>
    (b' = b \<or> b' = record_exhaustion b \<or> (\<exists>gr. grant_ok b b' gr))"
proof -
  from assms obtain now retr s st g st' gr where ok: "budget_ok b" "store_ok st"
    and req: "governor_request_memory now retr s st b g = (st', b', gr)"
    by (auto simp: governor_step_def)
  from request_spec [OF ok req] show ?thesis by blast
qed

lemma grant_injected_mono: "grant_ok b b' gr \<Longrightarrow> budget_ok b \<Longrightarrow> budget_ok b' \<Longrightarrow>
    length (eb_injected b) \<le> length (eb_injected b')"
proof -
  assume "grant_ok b b' gr" "budget_ok b" "budget_ok b'"
  then have "fst ` set (eb_injected b) \<subseteq> fst ` set (eb_injected b')"
    "distinct (map fst (eb_injected b))" "distinct (map fst (eb_injected b'))"
    by (auto simp: grant_ok_def budget_ok_def injected_memory_ids_def)
  then show ?thesis
    by (metis card_mono distinct_card finite_set length_map list.set_map)
qed

lemma grant_ok_mono:
  "grant_ok b b' gr \<Longrightarrow> eb_consumed_chars b \<le> eb_consumed_chars b' \<and> eb_retrieval_count b \<le> eb_retrieval_count b'"
  by (simp add: grant_ok_def)

lemma exhaustion_keeps [simp]:
  "eb_limits (record_exhaustion b) = eb_limits b"
  "eb_consumed_chars (record_exhaustion b) = eb_consumed_chars b"
  "eb_retrieval_count (record_exhaustion b) = eb_retrieval_count b"
  "eb_injected (record_exhaustion b) = eb_injected b"
  by (simp_all add: record_exhaustion_def)

lemma step_counts:
  assumes s: "governor_step b b'"
  shows "eb_limits b' = eb_limits b"
    "eb_consumed_chars b \<le> eb_consumed_chars b'"
    "eb_retrieval_count b \<le> eb_retrieval_count b'"
    "length (eb_injected b) \<le> length (eb_injected b')"
    "eb_consumed_chars b' \<le> max (eb_consumed_chars b)
       (l_max_total_chars (eb_limits b) + l_max_memories_per_retrieval (eb_limits b))"
    "eb_retrieval_count b' \<le> max (eb_retrieval_count b) (l_max_retrievals (eb_limits b))"
    "length (eb_injected b') \<le> max (length (eb_injected b)) (l_max_total_memories (eb_limits b))"
proof -
  have ok: "budget_ok b" using s by (auto simp: governor_step_def)
  note c = step_cases [OF s]
  show l: "eb_limits b' = eb_limits b" using c by blast
  from c have "b' = b \<or> b' = record_exhaustion b \<or> (\<exists>gr. grant_ok b b' gr)" by blast
  then show "eb_consumed_chars b \<le> eb_consumed_chars b'" "eb_retrieval_count b \<le> eb_retrieval_count b'"
    using grant_ok_mono by (elim disjE exE; fastforce)+
  from c show "length (eb_injected b) \<le> length (eb_injected b')"
    using grant_injected_mono [OF _ ok] by (elim conjE disjE exE) simp_all
  from c show "eb_consumed_chars b' \<le> max (eb_consumed_chars b)
       (l_max_total_chars (eb_limits b) + l_max_memories_per_retrieval (eb_limits b))"
    using grant_ok_counts(1) [OF _ l] by (elim conjE disjE exE) (simp_all add: le_max_iff_disj)
  from c show "eb_retrieval_count b' \<le> max (eb_retrieval_count b) (l_max_retrievals (eb_limits b))"
    using grant_ok_counts(2) [OF _ l] by (elim conjE disjE exE) (simp_all add: le_max_iff_disj)
  from c show "length (eb_injected b') \<le> max (length (eb_injected b)) (l_max_total_memories (eb_limits b))"
    using grant_ok_counts(3) [OF _ l] by (elim conjE disjE exE) (simp_all add: le_max_iff_disj)
qed

interpretation chars_allowance: allowance governor_step eb_consumed_chars
  "\<lambda>b. l_max_total_chars (eb_limits b) + l_max_memories_per_retrieval (eb_limits b)"
  by unfold_locales (use step_counts(1,2,5) in \<open>force simp: max_def split: if_splits\<close>)+

interpretation retrievals_allowance: allowance governor_step eb_retrieval_count
  "\<lambda>b. l_max_retrievals (eb_limits b)"
  by unfold_locales (use step_counts(1,3,6) in \<open>force simp: max_def split: if_splits\<close>)+

interpretation memories_allowance: allowance governor_step "\<lambda>b. length (eb_injected b)"
  "\<lambda>b. l_max_total_memories (eb_limits b)"
  by unfold_locales (use step_counts(1,4,7) in \<open>force simp: max_def split: if_splits\<close>)+

definition request_stores_ok :: "(nat \<times> memory_store \<times> governor_request) list \<Rightarrow> bool" where
  "request_stores_ok rs \<longleftrightarrow> list_all (\<lambda>(now, st, g). store_ok st) rs"

lemma run_trace:
  assumes "run_requests retr s rs b = (b', grs)" "budget_ok b" "request_stores_ok rs"
  shows "\<exists>bs. trace_ok governor_step b bs \<and> last (b # bs) = b' \<and> budget_ok b'"
  using assms
proof (induction retr s rs b arbitrary: grs rule: run_requests.induct)
  case (1 retr s b)
  then show ?case by (intro exI [of _ "[]"]) simp
next
  case (2 retr s now st g rs b)
  obtain st1 b1 g1 where one: "governor_request_memory now retr s st b g = (st1, b1, g1)"
    using prod_cases3 by blast
  obtain grs' where rest: "run_requests retr s rs b1 = (b', grs')"
    using "2.prems"(1) one by (auto simp: Let_def split: prod.splits)
  have st: "store_ok st" "request_stores_ok rs" using "2.prems"(3) by (auto simp: request_stores_ok_def)
  have step: "governor_step b b1" using "2.prems"(2) one st(1) by (simp add: governor_step_def) blast
  have "budget_ok b1" using step_cases [OF step] by blast
  from "2.IH" [OF one [symmetric] refl refl rest this st(2)]
  obtain bs where "trace_ok governor_step b1 bs" "last (b1 # bs) = b'" "budget_ok b'" by blast
  with step show ?case by (intro exI [of _ "b1 # bs"]) simp
qed

lemma run_grants:
  assumes "run_requests retr s rs b = (b', grs)" "budget_ok b" "request_stores_ok rs"
  shows "eb_consumed_chars b' = eb_consumed_chars b + sum_list (map (\<lambda>g. length (g_text g)) grs) \<and>
    eb_retrieval_count b' = eb_retrieval_count b + length (filter (\<lambda>g. g_outcome g = GRANTED) grs) \<and>
    distinct (concat (map g_memory_ids grs)) \<and>
    set (concat (map g_memory_ids grs)) \<inter> injected_memory_ids b = {} \<and>
    injected_memory_ids b' = injected_memory_ids b \<union> set (concat (map g_memory_ids grs)) \<and>
    eb_limits b' = eb_limits b"
  using assms
proof (induction retr s rs b arbitrary: grs rule: run_requests.induct)
  case (1 retr s b)
  then show ?case by simp
next
  case (2 retr s now st g rs b)
  obtain st1 b1 g1 where one: "governor_request_memory now retr s st b g = (st1, b1, g1)"
    using prod_cases3 by blast
  obtain grs' where rest: "run_requests retr s rs b1 = (b', grs')" and grs: "grs = g1 # grs'"
    using "2.prems"(1) one by (auto simp: Let_def split: prod.splits)
  have st: "store_ok st" "request_stores_ok rs" using "2.prems"(3) by (auto simp: request_stores_ok_def)
  note spec = request_spec [OF "2.prems"(2) st(1) one]
  then have ok1: "budget_ok b1" and lim: "eb_limits b1 = eb_limits b" by blast+
  note IH = "2.IH" [OF one [symmetric] refl refl rest ok1 st(2)]
  from spec have "(refused g1 \<and> (b1 = b \<or> b1 = record_exhaustion b)) \<or> (grant_ok b b1 g1 \<and> distinct (g_memory_ids g1))"
    by blast
  then show ?case
  proof (elim disjE conjE)
    assume "refused g1" "b1 = b"
    with IH lim show ?thesis by (simp add: grs refused_def)
  next
    assume "refused g1" "b1 = record_exhaustion b"
    with IH lim show ?thesis by (simp add: grs refused_def injected_memory_ids_def)
  next
    assume g: "grant_ok b b1 g1" "distinct (g_memory_ids g1)"
    then have ids: "injected_memory_ids b1 = injected_memory_ids b \<union> set (g_memory_ids g1)"
      "set (g_memory_ids g1) \<inter> injected_memory_ids b = {}" "g_outcome g1 = GRANTED"
      "eb_consumed_chars b1 = eb_consumed_chars b + length (g_text g1)"
      "eb_retrieval_count b1 = eb_retrieval_count b + 1" by (simp_all add: grant_ok_def)
    show ?thesis
      using IH ids g(2) lim by (auto simp: grs)
  qed
qed

lemma run_without_repeats:
  assumes "run_requests retr s rs b = (b', grs)" "budget_ok b" "request_stores_ok rs"
    and "\<forall>g \<in> set grs. g_suppressed_ids g = []"
    and "eb_consumed_chars b < l_max_total_chars (eb_limits b)"
  shows "eb_consumed_chars b' < l_max_total_chars (eb_limits b)"
  using assms
proof (induction retr s rs b arbitrary: grs rule: run_requests.induct)
  case (1 retr s b)
  then show ?case by simp
next
  case (2 retr s now st g rs b)
  obtain st1 b1 g1 where one: "governor_request_memory now retr s st b g = (st1, b1, g1)"
    using prod_cases3 by blast
  obtain grs' where rest: "run_requests retr s rs b1 = (b', grs')" and grs: "grs = g1 # grs'"
    using "2.prems"(1) one by (auto simp: Let_def split: prod.splits)
  have st: "store_ok st" "request_stores_ok rs" using "2.prems"(3) by (auto simp: request_stores_ok_def)
  note spec = request_spec [OF "2.prems"(2) st(1) one]
  then have ok1: "budget_ok b1" and lim: "eb_limits b1 = eb_limits b" by blast+
  from spec have "b1 = b \<or> b1 = record_exhaustion b \<or> grant_ok b b1 g1" by blast
  then have "eb_consumed_chars b1 < l_max_total_chars (eb_limits b)"
  proof (elim disjE)
    assume "grant_ok b b1 g1"
    then have "eb_consumed_chars b1 = eb_consumed_chars b + length (g_text g1)"
      "length (g_text g1) < chars_allowed_now b"
      using "2.prems"(4) by (simp_all add: grant_ok_def grs)
    then show ?thesis by (auto simp: chars_allowed_now_def remaining_chars_def)
  qed (use "2.prems"(5) in simp_all)
  with "2.IH" [OF one [symmetric] refl refl rest ok1 st(2)] "2.prems"(4) lim grs
  show ?case by simp
qed

lemma new_budget_ok: "budget_ok (new_budget i l 0 0 [])"
  by (simp add: budget_ok_def new_budget_def)

text \<open>C8. The memory budget of one execution holds over any sequence of requests, whatever the
  ranker, the settings, the time and the contents of the store at each: the retrievals and
  the distinct memories stay within their totals, the characters charged are exactly those
  of the text handed out, every grant was charged as one retrieval, and no memory is ever
  injected twice. The character total can be passed only by less than one retrieval's
  memory count, and never (not even reached) when no request meets an already injected memory.
\<close>

theorem memory_budget_bounded:
  assumes "run_requests retr s rs (new_budget i l 0 0 []) = (b, grs)" "request_stores_ok rs"
  shows "eb_retrieval_count b \<le> l_max_retrievals (eb_limits b) \<and>
    length (eb_injected b) \<le> l_max_total_memories (eb_limits b) \<and>
    eb_consumed_chars b \<le> l_max_total_chars (eb_limits b) + l_max_memories_per_retrieval (eb_limits b) \<and>
    eb_consumed_chars b = sum_list (map (\<lambda>g. length (g_text g)) grs) \<and>
    eb_retrieval_count b = length (filter (\<lambda>g. g_outcome g = GRANTED) grs) \<and>
    distinct (concat (map g_memory_ids grs)) \<and>
    injected_memory_ids b = set (concat (map g_memory_ids grs)) \<and>
    eb_limits b = (case l of None \<Rightarrow> medium_limits | Some x \<Rightarrow> x) \<and>
    ((\<forall>g \<in> set grs. g_suppressed_ids g = []) \<and> 0 < l_max_total_chars (eb_limits b) \<longrightarrow>
       eb_consumed_chars b < l_max_total_chars (eb_limits b))"
proof -
  let ?b0 = "new_budget i l 0 0 []"
  from run_trace [OF assms(1) new_budget_ok assms(2)] obtain bs where
    tr: "trace_ok governor_step ?b0 bs" "last (?b0 # bs) = b" by blast
  have mem: "b \<in> set (?b0 # bs)" using tr(2) by (metis last_in_set list.discI)
  note g = run_grants [OF assms(1) new_budget_ok assms(2)]
  have lim: "eb_limits b = eb_limits ?b0" using g by blast
  have zero: "eb_consumed_chars ?b0 = 0" "eb_retrieval_count ?b0 = 0" "eb_injected ?b0 = []"
    "injected_memory_ids ?b0 = {}"
    by (simp_all add: new_budget_def injected_memory_ids_def)
  show ?thesis
    using chars_allowance.within_trace [OF tr(1) _ mem] retrievals_allowance.within_trace [OF tr(1) _ mem]
      memories_allowance.within_trace [OF tr(1) _ mem] g lim zero
      run_without_repeats [OF assms(1) new_budget_ok assms(2)]
    by (simp add: new_budget_def)
qed

definition sample_settings :: governor_settings where
  "sample_settings = \<lparr>gs_strategy = MS_ALWAYS, gs_project_id = Some ''p'', gs_min_confidence = 7/20,
     gs_include_global = True, gs_min_score = 0, gs_types = loop_memory_types\<rparr>"

definition sample_governor_request :: governor_request where
  "sample_governor_request = \<lparr>gr_execution_id = ''e'', gr_query = ''q'', gr_purpose = CODER_REPAIR,
     gr_error_text = [], gr_paths = [], gr_agent = ''coder''\<rparr>"

definition any_ranker :: ranker where
  "any_ranker r q = (1, [])"

theorem memory_budget_bounded_witness:
  "let st = save_memory 0 (save_memory 0 [] (sample_memory ''m1'' ''p'')) (sample_memory ''m2'' ''q'');
       (b, grs) = run_requests (Some any_ranker) sample_settings
         [(1, st, sample_governor_request), (2, st, sample_governor_request)]
         (new_budget ''e'' None 0 0 [])
   in eb_retrieval_count b \<le> 3 \<and> distinct (concat (map g_memory_ids grs))"
proof -
  let ?st = "save_memory 0 (save_memory 0 [] (sample_memory ''m1'' ''p'')) (sample_memory ''m2'' ''q'')"
  obtain b grs where run: "run_requests (Some any_ranker) sample_settings
      [(1, ?st, sample_governor_request), (2, ?st, sample_governor_request)]
      (new_budget ''e'' None 0 0 []) = (b, grs)" by fastforce
  have "request_stores_ok [(1, ?st, sample_governor_request), (2, ?st, sample_governor_request)]"
    by (simp add: request_stores_ok_def sample_store_ok)
  note m = memory_budget_bounded [OF run this]
  have "eb_retrieval_count b \<le> l_max_retrievals (eb_limits b)" using m by (elim conjE)
  moreover have "eb_limits b = medium_limits" using m by (simp only: option.case)
  moreover have "distinct (concat (map g_memory_ids grs))" using m by (elim conjE)
  ultimately show ?thesis by (simp only: run Let_def prod.case) (simp add: medium_limits_def)
qed

text \<open>C22. Isolation end to end, and failing closed: memory is handed out only to the budget's own
  execution, at a point its strategy retrieves at, from an attached store, while the budget
  is not exhausted; every id handed out is that of an active memory the project may see, of
  a configured type, confident enough and scored at or above both floors. A request that is
  refused hands out nothing and charges nothing, and once the budget is exhausted every
  later request is refused.
\<close>

theorem grants_are_entitled:
  assumes "budget_ok b" "store_ok st" "governor_request_memory now retr s st b g = (st', b', gr)"
  shows "(g_outcome gr = GRANTED \<longrightarrow>
      gr_execution_id g = eb_execution_id b \<and> gr_purpose g \<in> set (sp_points (policy_for (gs_strategy s))) \<and>
      \<not> budget_exhausted b \<and>
      (\<exists>rank. retr = Some rank \<and> (\<forall>i \<in> set (g_memory_ids gr). \<exists>r. m_id r = i \<and> is_active r \<and>
         (m_scope r = SCOPE_GLOBAL \<or> (\<exists>p. gs_project_id s = Some p \<and> m_project_id r = Some p)) \<and>
         (gs_types s = [] \<or> m_type r \<in> set (gs_types s)) \<and> m_confidence r \<ge> gs_min_confidence s \<and>
         fst (rank r (retrieval_of b s g)) \<ge> gs_min_score s \<and>
         fst (rank r (retrieval_of b s g)) \<ge> sp_min_score (policy_for (gs_strategy s))))) \<and>
    (g_outcome gr \<noteq> GRANTED \<longrightarrow> g_text gr = [] \<and> g_memory_ids gr = [] \<and>
      eb_consumed_chars b' = eb_consumed_chars b \<and> eb_retrieval_count b' = eb_retrieval_count b \<and>
      eb_injected b' = eb_injected b) \<and>
    (budget_exhausted b \<longrightarrow> g_outcome gr \<noteq> GRANTED \<and> budget_exhausted b')"
proof -
  note spec = request_spec [OF assms]
  have ex: "budget_exhausted (record_exhaustion b) = budget_exhausted b"
    by (simp add: budget_exhausted_def remaining_chars_def remaining_retrievals_def remaining_memories_def)
  from spec have "(refused gr \<and> (b' = b \<or> b' = record_exhaustion b)) \<or>
     (grant_ok b b' gr \<and> gr_execution_id g = eb_execution_id b \<and>
      applies_at (policy_for (gs_strategy s)) (gr_purpose g) \<and>
      (\<exists>rank. retr = Some rank \<and> (\<forall>i \<in> set (g_memory_ids gr). \<exists>r sc. m_id r = i \<and>
         retrieval_ok rank (retrieval_of b s g) r sc)))" by blast
  then show ?thesis
  proof (elim disjE conjE)
    assume "refused gr" "b' = b"
    then show ?thesis by (simp add: refused_def)
  next
    assume "refused gr" "b' = record_exhaustion b"
    then show ?thesis by (simp add: refused_def ex)
  next
    assume g: "grant_ok b b' gr" "gr_execution_id g = eb_execution_id b"
      "applies_at (policy_for (gs_strategy s)) (gr_purpose g)"
      "\<exists>rank. retr = Some rank \<and> (\<forall>i \<in> set (g_memory_ids gr). \<exists>r sc. m_id r = i \<and>
         retrieval_ok rank (retrieval_of b s g) r sc)"
    then have "g_outcome gr = GRANTED" "\<not> budget_exhausted b" by (simp_all add: grant_ok_def)
    moreover have "\<exists>rank. retr = Some rank \<and> (\<forall>i \<in> set (g_memory_ids gr). \<exists>r. m_id r = i \<and> is_active r \<and>
         (m_scope r = SCOPE_GLOBAL \<or> (\<exists>p. gs_project_id s = Some p \<and> m_project_id r = Some p)) \<and>
         (gs_types s = [] \<or> m_type r \<in> set (gs_types s)) \<and> m_confidence r \<ge> gs_min_confidence s \<and>
         fst (rank r (retrieval_of b s g)) \<ge> gs_min_score s \<and>
         fst (rank r (retrieval_of b s g)) \<ge> sp_min_score (policy_for (gs_strategy s)))"
      using g(4) by (simp add: retrieval_ok_def may_see_def) (simp add: retrieval_of_def, blast)
    ultimately show ?thesis using g(2,3) by (simp add: applies_at_def)
  qed
qed

theorem grants_are_entitled_witness:
  "let st = save_memory 0 (save_memory 0 [] (sample_memory ''m1'' ''p'')) (sample_memory ''m2'' ''q'');
       (st', b', gr) = governor_request_memory 1 (Some any_ranker) sample_settings st
         (new_budget ''e'' None 0 0 []) sample_governor_request
   in g_outcome gr \<noteq> GRANTED \<longrightarrow> g_text gr = []"
proof -
  obtain st' b' gr where r: "governor_request_memory 1 (Some any_ranker) sample_settings
      (save_memory 0 (save_memory 0 [] (sample_memory ''m1'' ''p'')) (sample_memory ''m2'' ''q''))
      (new_budget ''e'' None 0 0 []) sample_governor_request = (st', b', gr)"
    using prod_cases3 by blast
  from grants_are_entitled [OF new_budget_ok sample_store_ok r] r show ?thesis by simp
qed

text \<open>Two memories whose reference lines fill a retrieval's allowance exactly.\<close>

definition tight_limits :: memory_budget_limits where
  "tight_limits = \<lparr>l_max_total_chars = 267, l_max_retrievals = 3, l_max_total_memories = 3,
     l_max_chars_per_retrieval = 134, l_max_memories_per_retrieval = 2\<rparr>"

definition tight_memory :: "string \<Rightarrow> memory_record" where
  "tight_memory i = (sample_memory i ''p'')\<lparr>m_title := ''t'', m_content := ''abc''\<rparr>"

lemma tight_run:
  "let st = save_memory 0 (save_memory 0 [] (tight_memory ''mem_1'')) (tight_memory ''mem_2'');
       (b, grs) = run_requests (Some any_ranker) sample_settings
         [(1, st, sample_governor_request), (2, st, sample_governor_request)]
         (new_budget ''e'' (Some tight_limits) 0 0 [])
   in map g_chars grs = [133, 135] \<and> eb_consumed_chars b = 268"
  by code_simp

text \<open>The estimate of a reference line is one character short of what the line adds to the
  text, so the character ceilings do not hold: a request that repeats two memories hands out
  135 characters where one retrieval may use 134, and the execution ends with 268 charged
  where 267 was the total.
\<close>

theorem memory_ceilings_passed:
  "(\<forall>i t pt a sc w n. length (reference_line i \<lparr>i_memory_id = i, i_title = t, i_point = pt,
      i_agent = a, i_score = sc, i_reason = w, i_chars = n\<rparr>) =
    reference_cost \<lparr>i_memory_id = i, i_title = t, i_point = pt, i_agent = a, i_score = sc,
      i_reason = w, i_chars = n\<rparr>) \<and>
   l_max_chars_per_retrieval tight_limits = 134 \<and> l_max_total_chars tight_limits = 267 \<and>
   (let st = save_memory 0 (save_memory 0 [] (tight_memory ''mem_1'')) (tight_memory ''mem_2'');
       (b, grs) = run_requests (Some any_ranker) sample_settings
         [(1, st, sample_governor_request), (2, st, sample_governor_request)]
         (new_budget ''e'' (Some tight_limits) 0 0 [])
   in map g_chars grs = [133, 135] \<and> eb_consumed_chars b = 268)"
  by (intro conjI allI; (rule tight_run | simp add: length_reference_line tight_limits_def))

end
