(* ===== verification/Agent_Model.thy ===== *)
theory Agent_Model
  imports Edith_Prelude
begin

text \<open>
  \<open>edith/schemas/agent.py\<close>: the permissions of an agent and their validator. A tool set is a
  list whose order and repetitions do not matter.
\<close>

record agent_permissions =
  p_allowed_tools :: "string list"
  p_allowed_read_paths :: "string list"
  p_allowed_write_paths :: "string list"
  p_network_access :: bool

datatype permission_error = AbsolutePattern string | TraversalPattern string

definition permission_pattern_error :: "string \<Rightarrow> permission_error option" where
  "permission_pattern_error p =
     (if starts_with p ''/'' \<or> starts_with p [CHR 0x5C] \<or> (length p > 1 \<and> p ! 1 = CHR '':'')
      then Some (AbsolutePattern p)
      else if ''..'' \<in> set (split_on (CHR ''/'') (fwd_slashes p)) then Some (TraversalPattern p)
      else None)"

fun first_pattern_error :: "string list \<Rightarrow> permission_error option" where
  "first_pattern_error [] = None"
| "first_pattern_error (p # ps) =
     (case permission_pattern_error p of Some e \<Rightarrow> Some e | None \<Rightarrow> first_pattern_error ps)"

definition validate_permissions :: "agent_permissions \<Rightarrow> (permission_error, agent_permissions) res" where
  "validate_permissions p =
     (case first_pattern_error (p_allowed_read_paths p) of
        Some e \<Rightarrow> Inl e
      | None \<Rightarrow> (case first_pattern_error (p_allowed_write_paths p) of
                   Some e \<Rightarrow> Inl e | None \<Rightarrow> Inr p))"

definition permissions_read_only :: "agent_permissions \<Rightarrow> bool" where
  "permissions_read_only p \<longleftrightarrow> p_allowed_write_paths p = []"

lemma first_pattern_error_None:
  "first_pattern_error ps = None \<longleftrightarrow> (\<forall>p \<in> set ps. permission_pattern_error p = None)"
  by (induction ps) (auto split: option.splits)

end
