(* ===== verification/Path_Policy.thy ===== *)
theory Path_Policy
  imports Edith_Prelude
begin

text \<open>
  \<open>edith/tools/paths.py\<close>: path normalisation, the deny list and the resolution of a path an
  agent names. The file system the policy reads is an association list from absolute
  component lists to nodes, with symbolic links; \<open>Path.resolve\<close> follows them, with a bound
  on the number of links followed that stands for the loop check of the library. The
  platform is POSIX (\<open>os.path.normcase\<close> is the identity). \<open>fnmatch.fnmatchcase\<close> is the
  standard library's, bracket expressions included.
\<close>

section \<open>Glob patterns\<close>

datatype glob_token = Any_String | Any_Char | Lit char | Bracket bool "(char \<times> char) list"

fun bracket_ranges :: "string \<Rightarrow> (char \<times> char) list" where
  "bracket_ranges (a # d # b # r) =
     (if d = CHR ''-'' then (a, b) # bracket_ranges r else (a, a) # bracket_ranges (d # b # r))"
| "bracket_ranges (a # r) = (a, a) # bracket_ranges r"
| "bracket_ranges [] = []"

text \<open>The text after \<open>[\<close> up to the closing bracket, which may not be the first character (after
  a negation): the content and the rest of the pattern.\<close>

fun bracket_keep :: "string \<Rightarrow> nat" where
  "bracket_keep (a # b # _) =
     (if a = CHR ''!'' then (if b = CHR '']'' then 2 else 1) else if a = CHR '']'' then 1 else 0)"
| "bracket_keep [a] = (if a = CHR ''!'' \<or> a = CHR '']'' then 1 else 0)"
| "bracket_keep [] = 0"

definition bracket_content :: "string \<Rightarrow> (string \<times> string) option" where
  "bracket_content s =
     (let keep = bracket_keep s; tail = drop keep s
      in if CHR '']'' \<in> set tail
         then Some (take keep s @ takeWhile (\<lambda>c. c \<noteq> CHR '']'') tail,
                    tl (dropWhile (\<lambda>c. c \<noteq> CHR '']'') tail))
         else None)"

definition bracket_token :: "string \<Rightarrow> glob_token" where
  "bracket_token content =
     (if content \<noteq> [] \<and> hd content = CHR ''!'' then Bracket True (bracket_ranges (tl content))
      else Bracket False (bracket_ranges content))"

lemma bracket_content_shorter: "bracket_content s = Some (c, r) \<Longrightarrow> length r < Suc (length s)"
proof -
  assume b: "bracket_content s = Some (c, r)"
  let ?k = "bracket_keep s"
  from b have "r = tl (dropWhile (\<lambda>c. c \<noteq> CHR '']'') (drop ?k s))"
    by (auto simp: bracket_content_def Let_def split: if_splits)
  then have "length r \<le> length (drop ?k s)"
    using length_dropWhile_le [of "\<lambda>c. c \<noteq> CHR '']''" "drop ?k s"] by simp
  then show ?thesis by simp
qed

function glob_parse :: "string \<Rightarrow> glob_token list" where
  "glob_parse [] = []"
| "glob_parse (c # s) =
     (if c = CHR ''*'' then Any_String # glob_parse s
      else if c = CHR ''?'' then Any_Char # glob_parse s
      else if c = CHR ''['' then
        (case bracket_content s of
           None \<Rightarrow> Lit c # glob_parse s
         | Some (content, rest) \<Rightarrow> bracket_token content # glob_parse rest)
      else Lit c # glob_parse s)"
  by pat_completeness auto
termination
  by (relation "measure length") (auto dest: bracket_content_shorter)

definition in_bracket :: "bool \<Rightarrow> (char \<times> char) list \<Rightarrow> char \<Rightarrow> bool" where
  "in_bracket neg rs c \<longleftrightarrow> (list_ex (\<lambda>(a, b). a \<le> c \<and> c \<le> b) rs) \<noteq> neg"

fun glob_match :: "glob_token list \<Rightarrow> string \<Rightarrow> bool" where
  "glob_match [] s = (s = [])"
| "glob_match (Any_String # g) [] = glob_match g []"
| "glob_match (Any_String # g) (c # s) = (glob_match g (c # s) \<or> glob_match (Any_String # g) s)"
| "glob_match (Any_Char # g) (c # s) = glob_match g s"
| "glob_match (Lit x # g) (c # s) = (x = c \<and> glob_match g s)"
| "glob_match (Bracket n rs # g) (c # s) = (in_bracket n rs c \<and> glob_match g s)"
| "glob_match (_ # g) [] = False"

definition fnmatchcase :: "string \<Rightarrow> string \<Rightarrow> bool" where
  "fnmatchcase name pat = glob_match (glob_parse pat) name"

text \<open>Characters that stand for themselves.\<close>

definition plain_char :: "char \<Rightarrow> bool" where
  "plain_char c \<longleftrightarrow> c \<noteq> CHR ''*'' \<and> c \<noteq> CHR ''?'' \<and> c \<noteq> CHR ''[''"

lemma glob_parse_plain: "list_all plain_char d \<Longrightarrow> glob_parse (d @ s) = map Lit d @ glob_parse s"
  by (induction d) (auto simp: plain_char_def)

lemma glob_match_lits: "glob_match (map Lit d @ g) s \<longleftrightarrow> (\<exists>t. s = d @ t \<and> glob_match g t)"
proof (induction d arbitrary: s)
  case (Cons x d)
  then show ?case by (cases s) auto
qed simp

lemma fnmatchcase_plain_prefix:
  "list_all plain_char d \<Longrightarrow> fnmatchcase s (d @ p) \<Longrightarrow> \<exists>t. s = d @ t \<and> fnmatchcase t p"
  by (simp add: fnmatchcase_def glob_parse_plain glob_match_lits)

lemma fnmatchcase_plain: "list_all plain_char d \<Longrightarrow> fnmatchcase s d \<longleftrightarrow> s = d"
  using glob_parse_plain [of d "[]"] glob_match_lits [of d "[]" s] by (simp add: fnmatchcase_def)

lemma glob_any_string: "glob_match (Any_String # g) s \<longleftrightarrow> (\<exists>a b. s = a @ b \<and> glob_match g b)"
proof (induction s)
  case (Cons c s)
  show ?case
  proof
    assume "glob_match (Any_String # g) (c # s)"
    then consider "glob_match g (c # s)" | "glob_match (Any_String # g) s" by auto
    then show "\<exists>a b. c # s = a @ b \<and> glob_match g b"
      by cases (use Cons.IH in \<open>metis append_Cons append_Nil\<close>)+
  next
    assume "\<exists>a b. c # s = a @ b \<and> glob_match g b"
    then obtain a b where "c # s = a @ b" "glob_match g b" by blast
    with Cons.IH show "glob_match (Any_String # g) (c # s)" by (cases a) auto
  qed
qed simp

section \<open>Normalisation and the deny list\<close>

definition normalize_relative :: "string \<Rightarrow> string" where
  "normalize_relative s = lstrip_chars ''/'' (strip_dot_slash (py_lower (fwd_slashes s)))"

definition reserved_stems :: "string list" where
  "reserved_stems =
     [''con'', ''prn'', ''aux'', ''nul''] @
     map (\<lambda>d. ''com'' @ [d]) ''0123456789'' @ map (\<lambda>d. ''lpt'' @ [d]) ''0123456789''"

record path_policy_config =
  pc_protected_patterns :: "string list"
  pc_max_file_bytes :: nat
  pc_max_search_results :: nat
  pc_allow_symlinks :: bool

definition default_protected :: "string list" where
  "default_protected =
     [''.git/**'', ''.git'', ''**/.git'', ''**/.git/**'', ''.env'', ''.env.*'', ''**/.env'',
      ''**/.env.*'', ''secrets/**'', ''credentials/**'', ''**/id_rsa'', ''**/id_ed25519'', ''*.pem'',
      ''**/*.pem'', ''*.key'', ''**/*.key'', ''*.pfx'', ''**/*.pfx'', ''.ssh/**'', ''.aws/**'',
      ''**/.npmrc'', ''**/.pypirc'']"

definition default_path_config :: path_policy_config where
  "default_path_config = \<lparr>pc_protected_patterns = default_protected, pc_max_file_bytes = 2097152,
     pc_max_search_results = 200, pc_allow_symlinks = False\<rparr>"

definition infix_of :: "string \<Rightarrow> string \<Rightarrow> bool" where
  "infix_of needle hay = list_ex (\<lambda>s. starts_with s needle) (suffixes hay)"

definition protects :: "string \<Rightarrow> string \<Rightarrow> bool" where
  "protects lowered candidate \<longleftrightarrow>
     (if ends_with lowered ''/**''
      then (let base = drop_last 3 lowered in
            candidate = base \<or> starts_with candidate (base @ ''/'') \<or>
            infix_of (''/'' @ base @ ''/'') (''/'' @ candidate))
      else fnmatchcase candidate lowered \<or> starts_with candidate (lowered @ ''/''))"

definition is_protected :: "path_policy_config \<Rightarrow> string \<Rightarrow> bool" where
  "is_protected cfg rel =
     list_ex (\<lambda>p. protects (normalize_relative p) (normalize_relative rel)) (pc_protected_patterns cfg)"

section \<open>Syntax\<close>

datatype path_error =
    EmptyPath | NulByte | UncOrDevice | AbsolutePath | DriveQualified | HomeReference
  | TraversalSegment | AlternateStream | ReservedName string
  | EscapesRoot | TraversesSymlink string | ProtectedLocation | FileTooBig nat | LinkLoop

definition device_prefixes :: "string list" where
  "device_prefixes =
     [[CHR 0x5C, CHR 0x5C, CHR ''?'', CHR 0x5C], [CHR 0x5C, CHR 0x5C, CHR ''.'', CHR 0x5C],
      ''//?/'', ''//./'']"

definition segment_error :: "string \<Rightarrow> path_error option" where
  "segment_error seg =
     (if seg = [] \<or> seg = ''.'' then None
      else if seg = ''..'' then Some TraversalSegment
      else if CHR '':'' \<in> set seg then Some AlternateStream
      else if py_lower (hd (split_on (CHR ''.'') seg)) \<in> set reserved_stems then Some (ReservedName seg)
      else None)"

fun first_segment_error :: "string list \<Rightarrow> path_error option" where
  "first_segment_error [] = None"
| "first_segment_error (s # ss) =
     (case segment_error s of Some e \<Rightarrow> Some e | None \<Rightarrow> first_segment_error ss)"

definition unsafe_syntax :: "string \<Rightarrow> path_error option" where
  "unsafe_syntax raw =
     (let n = fwd_slashes raw in
      if raw = [] \<or> py_strip raw = [] then Some EmptyPath
      else if CHR 0x00 \<in> set raw then Some NulByte
      else if list_ex (starts_with raw) device_prefixes \<or> starts_with n ''//'' then Some UncOrDevice
      else if starts_with n ''/'' then Some AbsolutePath
      else if length raw \<ge> 2 \<and> raw ! 1 = CHR '':'' then Some DriveQualified
      else if starts_with raw ''~'' then Some HomeReference
      else first_segment_error (split_on (CHR ''/'') n))"

section \<open>File system and resolution\<close>

text \<open>A text file holds its decoded text; a file that is not UTF-8 only its size. A link holds
  whether its target is absolute and the target's components.\<close>

datatype fs_node = TextFile string | BinaryFile nat | Directory | Link bool "string list"

type_synonym abs_path = "string list"
type_synonym file_system = "(abs_path \<times> fs_node) list"

definition node_at :: "file_system \<Rightarrow> abs_path \<Rightarrow> fs_node option" where
  "node_at fs p = (if p = [] then Some Directory else map_of fs p)"

definition is_link :: "file_system \<Rightarrow> abs_path \<Rightarrow> bool" where
  "is_link fs p = (case node_at fs p of Some (Link a t) \<Rightarrow> True | _ \<Rightarrow> False)"

function resolve_loop :: "nat \<Rightarrow> file_system \<Rightarrow> abs_path \<Rightarrow> string list \<Rightarrow> abs_path option" where
  "resolve_loop links fs cur [] = Some cur"
| "resolve_loop links fs cur (c # rest) =
     (if c = [] \<or> c = ''.'' then resolve_loop links fs cur rest
      else if c = ''..'' then resolve_loop links fs (butlast cur) rest
      else (case node_at fs (cur @ [c]) of
              Some (Link absolute target) \<Rightarrow>
                (if links = 0 then None
                 else resolve_loop (links - 1) fs (if absolute then [] else cur) (target @ rest))
            | _ \<Rightarrow> resolve_loop links fs (cur @ [c]) rest))"
  by pat_completeness auto
termination
  by (relation "measures [\<lambda>(l, fs, cur, rest). l, \<lambda>(l, fs, cur, rest). length rest]") auto

record path_policy =
  pp_root :: abs_path
  pp_config :: path_policy_config
  pp_max_links :: nat

definition lib_resolve :: "path_policy \<Rightarrow> file_system \<Rightarrow> string list \<Rightarrow> abs_path option" where
  "lib_resolve pol fs comps = resolve_loop (pp_max_links pol) fs [] comps"

definition contains_path :: "path_policy \<Rightarrow> file_system \<Rightarrow> abs_path \<Rightarrow> bool" where
  "contains_path pol fs p =
     (case lib_resolve pol fs p of None \<Rightarrow> False | Some r \<Rightarrow> prefix (pp_root pol) r)"

fun first_link :: "file_system \<Rightarrow> abs_path \<Rightarrow> string list \<Rightarrow> string option" where
  "first_link fs cur [] = None"
| "first_link fs cur (part # parts) =
     (if is_link fs (cur @ [part]) then Some part
      else if node_at fs (cur @ [part]) = None then None
      else first_link fs (cur @ [part]) parts)"

definition relative_of :: "path_policy \<Rightarrow> abs_path \<Rightarrow> string" where
  "relative_of pol p =
     (let comps = drop (length (pp_root pol)) p in if comps = [] then ''.'' else join ''/'' comps)"

definition resolve_path :: "path_policy \<Rightarrow> file_system \<Rightarrow> string \<Rightarrow> (path_error, abs_path) res" where
  "resolve_path pol fs raw =
     (case unsafe_syntax raw of
        Some e \<Rightarrow> Inl e
      | None \<Rightarrow>
          (case lib_resolve pol fs (pp_root pol @ split_on (CHR ''/'') (fwd_slashes raw)) of
             None \<Rightarrow> Inl LinkLoop
           | Some p \<Rightarrow>
               if \<not> contains_path pol fs p then Inl EscapesRoot
               else (case (if pc_allow_symlinks (pp_config pol) then None
                           else first_link fs (pp_root pol) (drop (length (pp_root pol)) p)) of
                       Some part \<Rightarrow> Inl (TraversesSymlink part)
                     | None \<Rightarrow>
                         if is_protected (pp_config pol) (relative_of pol p) then Inl ProtectedLocation
                         else Inr p)))"

definition utf8_length :: "string \<Rightarrow> nat" where
  "utf8_length s = sum_list (map (\<lambda>c. if (of_char c :: nat) < 128 then 1 else 2) s)"

definition node_size :: "fs_node \<Rightarrow> nat" where
  "node_size n = (case n of
     TextFile s \<Rightarrow> utf8_length s
   | BinaryFile k \<Rightarrow> k | Directory \<Rightarrow> 4096 | Link a t \<Rightarrow> 0)"

definition check_readable_size :: "path_policy \<Rightarrow> fs_node \<Rightarrow> (path_error, nat) res" where
  "check_readable_size pol n =
     (if node_size n > pc_max_file_bytes (pp_config pol) then Inl (FileTooBig (node_size n))
      else Inr (node_size n))"

section \<open>Resolved paths are canonical\<close>

definition plain_component :: "string \<Rightarrow> bool" where
  "plain_component c \<longleftrightarrow> c \<noteq> [] \<and> c \<noteq> ''.'' \<and> c \<noteq> ''..''"

definition canonical :: "file_system \<Rightarrow> abs_path \<Rightarrow> bool" where
  "canonical fs p \<longleftrightarrow> list_all plain_component p \<and> (\<forall>q. prefix q p \<longrightarrow> \<not> is_link fs q)"

lemma canonical_Nil [simp]: "canonical fs []"
  by (simp add: canonical_def is_link_def node_at_def)

lemma canonical_butlast: "canonical fs p \<Longrightarrow> canonical fs (butlast p)"
  by (metis canonical_def in_set_butlastD list_all_iff prefix_order.trans prefixeq_butlast)

lemma canonical_snoc: "canonical fs (p @ [c]) \<longleftrightarrow> canonical fs p \<and> plain_component c \<and> \<not> is_link fs (p @ [c])"
  by (auto simp: canonical_def prefix_snoc)

lemma canonical_prefix: "canonical fs (p @ q) \<Longrightarrow> canonical fs p"
  by (auto simp: canonical_def)

lemma resolve_loop_canonical:
  "resolve_loop links fs cur rest = Some p \<Longrightarrow> canonical fs cur \<Longrightarrow> canonical fs p"
proof (induction links fs cur rest rule: resolve_loop.induct)
  case (2 links fs cur c rest)
  show ?case
  proof (cases "c = [] \<or> c = ''.''")
    case True
    with 2 show ?thesis by auto
  next
    case skip: False
    show ?thesis
    proof (cases "c = ''..''")
      case True
      with 2 skip show ?thesis by (auto intro: canonical_butlast)
    next
      case False
      with skip have plain: "plain_component c" by (simp add: plain_component_def)
      show ?thesis
      proof (cases "is_link fs (cur @ [c])")
        case True
        then obtain a t where n: "node_at fs (cur @ [c]) = Some (Link a t)"
          by (auto simp: is_link_def split: option.splits fs_node.splits)
        with "2.prems"(1) skip False have l: "links \<noteq> 0"
          "resolve_loop (links - 1) fs (if a then [] else cur) (t @ rest) = Some p"
          by (auto split: if_splits)
        have "canonical fs (if a then [] else cur)" using "2.prems"(2) by simp
        with "2.IH"(7) [OF skip False n refl l(1) l(2)] show ?thesis by blast
      next
        case nolink: False
        then have "resolve_loop links fs (cur @ [c]) rest = Some p"
          using "2.prems"(1) skip False by (auto simp: is_link_def split: option.splits fs_node.splits)
        moreover have "canonical fs (cur @ [c])" using "2.prems"(2) plain nolink by (simp add: canonical_snoc)
        ultimately show ?thesis
          using "2.IH" skip False nolink by (cases "node_at fs (cur @ [c])")
            (auto simp: is_link_def split: fs_node.splits)
      qed
    qed
  qed
qed simp

lemma resolve_loop_id: "canonical fs (cur @ rest) \<Longrightarrow> resolve_loop links fs cur rest = Some (cur @ rest)"
proof (induction rest arbitrary: cur)
  case (Cons c rest)
  then have "canonical fs ((cur @ [c]) @ rest)" by simp
  then have c: "plain_component c" "\<not> is_link fs (cur @ [c])" "canonical fs ((cur @ [c]) @ rest)"
    using canonical_prefix canonical_snoc by blast+
  from Cons.IH [OF c(3)] c(1,2) show ?case
    by (auto simp: plain_component_def is_link_def split: option.splits fs_node.splits)
qed simp

lemma lib_resolve_canonical: "lib_resolve pol fs comps = Some p \<Longrightarrow> canonical fs p"
  by (simp add: lib_resolve_def resolve_loop_canonical)

lemma contains_canonical: "canonical fs p \<Longrightarrow> contains_path pol fs p \<longleftrightarrow> prefix (pp_root pol) p"
  by (simp add: contains_path_def lib_resolve_def resolve_loop_id)

lemma first_link_canonical: "canonical fs (cur @ parts) \<Longrightarrow> first_link fs cur parts = None"
proof (induction parts arbitrary: cur)
  case (Cons c parts)
  then have "canonical fs ((cur @ [c]) @ parts)" by simp
  then have "\<not> is_link fs (cur @ [c])" "canonical fs ((cur @ [c]) @ parts)"
    using canonical_prefix canonical_snoc by blast+
  with Cons.IH show ?case by simp
qed simp

lemma first_segment_error_None:
  "first_segment_error ss = None \<longleftrightarrow> (\<forall>s \<in> set ss. segment_error s = None)"
  by (induction ss) (auto split: option.splits)

lemma resolve_path_Inr:
  assumes "resolve_path pol fs raw = Inr p"
  shows "unsafe_syntax raw = None" "canonical fs p" "prefix (pp_root pol) p"
    "\<not> is_protected (pp_config pol) (relative_of pol p)"
proof -
  show u: "unsafe_syntax raw = None"
    using assms by (auto simp: resolve_path_def split: option.splits)
  obtain q where q: "lib_resolve pol fs (pp_root pol @ split_on (CHR ''/'') (fwd_slashes raw)) = Some q"
    using assms u by (auto simp: resolve_path_def split: option.splits)
  have pq: "q = p" "contains_path pol fs p" "\<not> is_protected (pp_config pol) (relative_of pol p)"
    using assms u q by (auto simp: resolve_path_def split: option.splits if_splits)
  then show "\<not> is_protected (pp_config pol) (relative_of pol p)" by simp
  show c: "canonical fs p" using lib_resolve_canonical [OF q] pq(1) by simp
  show "prefix (pp_root pol) p" using pq(2) contains_canonical [OF c] by simp
qed


definition sample_policy :: path_policy where
  "sample_policy = \<lparr>pp_root = [''ws''], pp_config =
      \<lparr>pc_protected_patterns = default_protected, pc_max_file_bytes = 1024,
       pc_max_search_results = 200, pc_allow_symlinks = False\<rparr>, pp_max_links = 8\<rparr>"

definition sample_fs :: file_system where
  "sample_fs = [([''ws''], Directory), ([''ws'', ''src''], Directory),
     ([''ws'', ''src'', ''a.py''], TextFile ''x = 1''), ([''ws'', ''lnk''], Link False [''src'']),
     ([''ws'', ''out''], Link True [''etc'']), ([''etc''], Directory)]"


text \<open>
  With symbolic links disabled the policy still never refuses one: its check walks the
  path after resolution, which contains no link any more. A link inside the workspace that
  points inside it is accepted under the default patterns; one that points outside is
  refused, by containment.
\<close>

theorem symlink_check_vacuous:
  "resolve_path pol fs raw \<noteq> Inl (TraversesSymlink part) \<and>
   pc_allow_symlinks (pp_config sample_policy) = False \<and>
   resolve_path sample_policy sample_fs ''lnk/a.py'' = Inr [''ws'', ''src'', ''a.py''] \<and>
   resolve_path sample_policy sample_fs ''out/passwd'' = Inl EscapesRoot"
proof (intro conjI)
  show "resolve_path pol fs raw \<noteq> Inl (TraversesSymlink part)"
  proof
    assume r: "resolve_path pol fs raw = Inl (TraversesSymlink part)"
    have "e \<noteq> TraversesSymlink part" if "unsafe_syntax raw = Some e" for e
    proof -
      have "first_segment_error ss = Some e \<Longrightarrow> e \<noteq> TraversesSymlink part" for ss
        by (induction ss) (auto simp: segment_error_def split: option.splits if_splits)
      with that show ?thesis by (auto simp: unsafe_syntax_def Let_def split: if_splits)
    qed
    with r have u: "unsafe_syntax raw = None" by (auto simp: resolve_path_def split: option.splits)
    then obtain p where p: "lib_resolve pol fs (pp_root pol @ split_on (CHR ''/'') (fwd_slashes raw)) = Some p"
      "contains_path pol fs p" "first_link fs (pp_root pol) (drop (length (pp_root pol)) p) = Some part"
      using r by (auto simp: resolve_path_def split: option.splits if_splits)
    have c: "canonical fs p" by (rule lib_resolve_canonical [OF p(1)])
    with p(2) have "pp_root pol @ drop (length (pp_root pol)) p = p"
      by (auto simp: contains_canonical prefix_def)
    with c p(3) first_link_canonical [of fs "pp_root pol" "drop (length (pp_root pol)) p"]
    show False by simp
  qed
qed code_simp+

section \<open>The deny list\<close>

definition capital :: "nat \<Rightarrow> bool" where
  "capital n \<longleftrightarrow> (65 \<le> n \<and> n \<le> 90) \<or> (192 \<le> n \<and> n \<le> 222 \<and> n \<noteq> 215)"

lemma lower_char_capital:
  "lower_char c = (if capital (of_char c) then char_of (of_char c + 32 :: nat) else c)"
  by (simp add: lower_char_def capital_def Let_def)

lemma lowered_code: "capital n \<Longrightarrow> of_char (char_of (n + 32 :: nat) :: char) = n + 32 \<and> \<not> capital (n + 32)"
  by (auto simp: capital_def)

lemma lower_char_idem [simp]: "lower_char (lower_char c) = lower_char c"
  using lowered_code [of "of_char c"] by (simp add: lower_char_capital)

lemma lower_char_dot: "lower_char c = CHR ''.'' \<longleftrightarrow> c = CHR ''.''"
proof -
  have "char_of (n + 32 :: nat) \<noteq> CHR ''.''" if "capital n" for n
  proof
    assume "char_of (n + 32 :: nat) = CHR ''.''"
    then have "of_char (char_of (n + 32 :: nat) :: char) = (of_char (CHR ''.'') :: nat)" by (rule arg_cong)
    with lowered_code [OF that] have "n + 32 = (46 :: nat)" by simp
    with that show False by (simp add: capital_def)
  qed
  moreover have "\<not> capital (of_char (CHR ''.''))" by (simp add: capital_def)
  ultimately show ?thesis by (auto simp: lower_char_capital)
qed

lemma lower_char_backslash: "lower_char c = CHR 0x5C \<longleftrightarrow> c = CHR 0x5C"
proof -
  have "char_of (n + 32 :: nat) \<noteq> CHR 0x5C" if "capital n" for n
  proof
    assume "char_of (n + 32 :: nat) = CHR 0x5C"
    then have "of_char (char_of (n + 32 :: nat) :: char) = (of_char (CHR 0x5C) :: nat)" by (rule arg_cong)
    with lowered_code [OF that] have "n + 32 = (92 :: nat)" by simp
    with that show False by (simp add: capital_def)
  qed
  moreover have "\<not> capital (of_char (CHR 0x5C))" by (simp add: capital_def)
  ultimately show ?thesis by (auto simp: lower_char_capital)
qed

lemma normalize_relative_case: "normalize_relative (py_lower s) = normalize_relative s"
proof -
  have "py_lower (fwd_slashes (py_lower s)) = py_lower (fwd_slashes s)"
    by (simp add: py_lower_def fwd_slashes_def lower_char_backslash)
  then show ?thesis by (simp add: normalize_relative_def)
qed

lemma normalize_relative_dot_slash: "normalize_relative (''./'' @ s) = normalize_relative s"
proof -
  have "lower_char (CHR ''.'') = CHR ''.''" "lower_char (CHR ''/'') = CHR ''/''" by code_simp+
  then show ?thesis by (simp add: normalize_relative_def py_lower_def fwd_slashes_def)
qed

lemma normalize_relative_plain:
  "c \<noteq> CHR ''.'' \<Longrightarrow> c \<noteq> CHR ''/'' \<Longrightarrow> py_lower (fwd_slashes (c # s)) = c # s \<Longrightarrow> normalize_relative (c # s) = c # s"
  by (cases s) (simp_all add: normalize_relative_def lstrip_chars_def)

lemma starts_with_suffix_infix: "infix_of needle (a @ needle @ b)"
  unfolding infix_of_def list_ex_iff by (rule bexI [of _ "needle @ b"]) (auto simp: starts_with_append suffix_def)

lemma git_protected:
  assumes "''.git'' \<in> set (split_on (CHR ''/'') n)" "n = normalize_relative rel"
    "set default_protected \<subseteq> set (pc_protected_patterns cfg)"
  shows "is_protected cfg rel"
proof -
  have norm: "normalize_relative ''.git/**'' = ''.git/**''" "normalize_relative ''**/.git'' = ''**/.git''"
    "ends_with ''.git/**'' ''/**''" "drop_last 3 ''.git/**'' = ''.git''" "\<not> ends_with ''**/.git'' ''/**''"
    by code_simp+
  have mem: "''.git/**'' \<in> set (pc_protected_patterns cfg)" "''**/.git'' \<in> set (pc_protected_patterns cfg)"
    using assms(3) by (auto simp: default_protected_def)
  have dir: "protects ''.git/**'' n \<longleftrightarrow> n = ''.git'' \<or> starts_with n ''.git/'' \<or> infix_of ''/.git/'' (''/'' @ n)"
    by (simp add: protects_def norm(3,4) Let_def)
  from split_on_mem [OF assms(1)] have "protects ''.git/**'' n \<or> protects ''**/.git'' n"
  proof (elim disjE exE)
    assume "n = ''.git''"
    then show ?thesis unfolding dir by simp
  next
    fix b assume "n = ''.git'' @ CHR ''/'' # b"
    then show ?thesis unfolding dir by (simp add: starts_with_append)
  next
    fix a assume "n = a @ CHR ''/'' # ''.git''"
    moreover have parse: "glob_parse ''**/.git'' = Any_String # Any_String # map Lit ''/.git'' @ []" by code_simp
    have "glob_match (map Lit ''/.git'' @ []) ''/.git''" by (simp only: glob_match_lits) simp
    then have "glob_match (Any_String # map Lit ''/.git'' @ []) ''/.git''"
      by (metis glob_any_string append_Nil)
    then have "glob_match (Any_String # Any_String # map Lit ''/.git'' @ []) (a @ ''/.git'')"
      using glob_any_string by blast
    ultimately have "fnmatchcase n ''**/.git''" by (simp only: fnmatchcase_def parse append_Cons append_Nil)
    then show ?thesis unfolding protects_def by (simp add: norm(5))
  next
    fix a b assume "n = a @ CHR ''/'' # ''.git'' @ CHR ''/'' # b"
    then have "''/'' @ n = (''/'' @ a) @ ''/.git/'' @ b" by simp
    then have "infix_of ''/.git/'' (''/'' @ n)" by (simp only: starts_with_suffix_infix)
    then show ?thesis unfolding dir by simp
  qed
  then show ?thesis
    unfolding is_protected_def list_ex_iff assms(2) by (metis mem norm(1,2))
qed

text \<open>
  The deny list: its decision does not depend on letter case or a leading \<open>./\<close>, and under
  any configuration with the default patterns every path with a \<open>.git\<close> component, at any
  depth and in any case, is protected. Three credentials it names only below a directory
  are not protected at the workspace root.
\<close>

theorem deny_list:
  assumes "set default_protected \<subseteq> set (pc_protected_patterns cfg)"
  shows "is_protected cfg (py_lower rel) = is_protected cfg rel \<and>
    is_protected cfg (''./'' @ rel) = is_protected cfg rel \<and>
    (''.git'' \<in> set (split_on (CHR ''/'') (normalize_relative rel)) \<longrightarrow> is_protected cfg rel) \<and>
    is_protected default_path_config ''keys/id_rsa'' \<and>
    \<not> is_protected default_path_config ''id_rsa'' \<and> \<not> is_protected default_path_config ''.npmrc'' \<and>
    \<not> is_protected default_path_config ''.pypirc''"
proof (intro conjI impI)
  assume "''.git'' \<in> set (split_on (CHR ''/'') (normalize_relative rel))"
  from git_protected [OF this refl assms] show "is_protected cfg rel" .
qed (simp_all only: is_protected_def normalize_relative_case normalize_relative_dot_slash
      default_path_config_def path_policy_config.simps, code_simp+)

theorem deny_list_witness:
  "is_protected (pp_config sample_policy) ''sub/.GIT/config''"
proof -
  have "set default_protected \<subseteq> set (pc_protected_patterns (pp_config sample_policy))"
    by (simp add: sample_policy_def)
  moreover have "''.git'' \<in> set (split_on (CHR ''/'') (normalize_relative ''sub/.GIT/config''))" by code_simp
  ultimately show ?thesis using deny_list by blast
qed

end
