(* ===== verification/Permissions.thy ===== *)
theory Permissions
  imports Agent_Model Path_Policy
begin

text \<open>
  \<open>edith/tools/permissions.py\<close> and the tool specification of \<open>edith/tools/schemas.py\<close>: what an
  agent may use and which paths it may read or write.
\<close>

datatype access_mode = READ | WRITE

record tool_spec =
  ts_name :: string
  ts_access :: "access_mode list"
  ts_spawns_process :: bool
  ts_uses_network :: bool

definition spec_writes :: "tool_spec \<Rightarrow> bool" where
  "spec_writes s \<longleftrightarrow> WRITE \<in> set (ts_access s)"

datatype denial = ToolDenied string | NetworkDenied string | NoScope access_mode | OutsideScope access_mode

definition unrestricted :: agent_permissions where
  "unrestricted = \<lparr>p_allowed_tools = [''*''], p_allowed_read_paths = [''**''],
     p_allowed_write_paths = [''**''], p_network_access = True\<rparr>"

definition pattern_allows :: "string \<Rightarrow> string \<Rightarrow> bool" where
  "pattern_allows candidate pattern =
     (let lowered = normalize_relative pattern in
      if lowered = ''**'' \<or> lowered = ''**/*'' then True
      else if ends_with lowered ''/**''
      then (let base = drop_last 3 lowered in candidate = base \<or> starts_with candidate (base @ ''/''))
      else fnmatchcase candidate lowered \<or> starts_with candidate (rstrip_chars ''/'' lowered @ ''/''))"

definition matches_any :: "string \<Rightarrow> string list \<Rightarrow> bool" where
  "matches_any rel patterns = list_ex (pattern_allows (normalize_relative rel)) patterns"

definition may_use_tool :: "agent_permissions \<Rightarrow> string \<Rightarrow> bool" where
  "may_use_tool perms name \<longleftrightarrow>
     ''*'' \<in> set (p_allowed_tools perms) \<or> name \<in> set (p_allowed_tools perms) \<or>
     hd (split_on (CHR ''.'') name) @ ''.*'' \<in> set (p_allowed_tools perms)"

definition authorize_tool :: "agent_permissions \<Rightarrow> tool_spec \<Rightarrow> (denial, unit) res" where
  "authorize_tool perms spec =
     (if \<not> may_use_tool perms (ts_name spec) then Inl (ToolDenied (ts_name spec))
      else if ts_uses_network spec \<and> \<not> p_network_access perms then Inl (NetworkDenied (ts_name spec))
      else Inr ())"

definition authorize_path :: "agent_permissions \<Rightarrow> string \<Rightarrow> access_mode \<Rightarrow> (denial, unit) res" where
  "authorize_path perms rel mode =
     (let patterns = (if mode = WRITE then p_allowed_write_paths perms else p_allowed_read_paths perms) in
      if patterns = [] then Inl (NoScope mode)
      else if \<not> matches_any rel patterns then Inl (OutsideScope mode)
      else Inr ())"

lemma authorize_path_Inr:
  "authorize_path perms rel mode = Inr u \<longleftrightarrow>
     matches_any rel (if mode = WRITE then p_allowed_write_paths perms else p_allowed_read_paths perms)"
  by (auto simp: authorize_path_def matches_any_def Let_def)

lemma read_only_never_writes:
  "permissions_read_only perms \<Longrightarrow> authorize_path perms rel WRITE = Inl (NoScope WRITE)"
  by (simp add: permissions_read_only_def authorize_path_def)

end
