(* ===== verification/Tool_Gateway.thy ===== *)
theory Tool_Gateway
  imports Permissions Failure_Policy
begin

text \<open>
  \<open>edith/tools/workspace.py\<close>, the read, write and patch tools of \<open>edith/tools/filesystem.py\<close>,
  \<open>edith/tools/registry.py\<close>, \<open>edith/tools/base.py\<close> and \<open>edith/tools/gateway.py\<close>, over the file
  system of \<open>Path_Policy\<close>. Operating-system refusals are a predicate on paths. A tool
  returns its result and the file system it leaves. Durations, logging and the text of
  errors are left out.
\<close>

datatype tool_error =
    PathRefused path_error | Denied denial
  | FileNotFound string | NotRegularFile string | DirectoryNotFound string | NotADirectory string
  | TooLarge nat | BeyondEnd nat | NotUtf8 string | CouldNotRead string | CouldNotWrite string
  | NonFileTarget string | AlreadyExists string | ParentMissing string
  | OldTextMissing | OldTextAmbiguous nat
  | UnknownTool string | InvalidArguments string | Crashed string

fun error_category :: "tool_error \<Rightarrow> failure_category" where
  "error_category (PathRefused e) = (if e = LinkLoop then TOOL_ERROR else SECURITY_FAILURE)"
| "error_category (Denied d) = SECURITY_FAILURE"
| "error_category (UnknownTool n) = CONFIGURATION_ERROR"
| "error_category (InvalidArguments n) = VALIDATION_FAILURE"
| "error_category _ = TOOL_ERROR"

section \<open>Workspace\<close>

definition workspace_resolve ::
    "path_policy \<Rightarrow> agent_permissions \<Rightarrow> file_system \<Rightarrow> string \<Rightarrow> access_mode \<Rightarrow> (tool_error, abs_path) res" where
  "workspace_resolve pol perms fs raw mode =
     (case resolve_path pol fs raw of
        Inl e \<Rightarrow> Inl (PathRefused e)
      | Inr p \<Rightarrow> (case authorize_path perms (relative_of pol p) mode of
                   Inl d \<Rightarrow> Inl (Denied d) | Inr u \<Rightarrow> Inr p))"

definition is_regular :: "fs_node \<Rightarrow> bool" where
  "is_regular n = (case n of TextFile s \<Rightarrow> True | BinaryFile k \<Rightarrow> True | _ \<Rightarrow> False)"

definition resolve_existing_file ::
    "path_policy \<Rightarrow> agent_permissions \<Rightarrow> file_system \<Rightarrow> string \<Rightarrow> access_mode \<Rightarrow>
     (tool_error, abs_path \<times> fs_node) res" where
  "resolve_existing_file pol perms fs raw mode =
     res_bind (workspace_resolve pol perms fs raw mode) (\<lambda>p.
       case node_at fs p of
         None \<Rightarrow> Inl (FileNotFound raw)
       | Some n \<Rightarrow> if is_regular n then Inr (p, n) else Inl (NotRegularFile raw))"

definition resolve_directory ::
    "path_policy \<Rightarrow> agent_permissions \<Rightarrow> file_system \<Rightarrow> string \<Rightarrow> access_mode \<Rightarrow> (tool_error, abs_path) res" where
  "resolve_directory pol perms fs raw mode =
     res_bind (workspace_resolve pol perms fs raw mode) (\<lambda>p.
       case node_at fs p of
         None \<Rightarrow> Inl (DirectoryNotFound raw)
       | Some n \<Rightarrow> if n = Directory then Inr p else Inl (NotADirectory raw))"

definition resolve_traversal_root ::
    "path_policy \<Rightarrow> file_system \<Rightarrow> string \<Rightarrow> (tool_error, abs_path) res" where
  "resolve_traversal_root pol fs raw =
     (case resolve_path pol fs raw of
        Inl e \<Rightarrow> Inl (PathRefused e)
      | Inr p \<Rightarrow> (case node_at fs p of
                   None \<Rightarrow> Inl (DirectoryNotFound raw)
                 | Some n \<Rightarrow> if n = Directory then Inr p else Inl (NotADirectory raw)))"

definition is_visible ::
    "path_policy \<Rightarrow> agent_permissions \<Rightarrow> file_system \<Rightarrow> abs_path \<Rightarrow> access_mode \<Rightarrow> bool" where
  "is_visible pol perms fs candidate mode =
     (contains_path pol fs candidate \<and>
      (case lib_resolve pol fs candidate of
         None \<Rightarrow> False
       | Some r \<Rightarrow> \<not> is_protected (pp_config pol) (relative_of pol r) \<and>
                   is_ok (authorize_path perms (relative_of pol r) mode)))"

section \<open>Text\<close>

text \<open>Reading in text mode turns every line ending into a line feed.\<close>

fun universal_newlines :: "string \<Rightarrow> string" where
  "universal_newlines (a # b # s) =
     (if a = CHR 0x0D then (if b = CHR 0x0A then CHR 0x0A # universal_newlines s
                            else CHR 0x0A # universal_newlines (b # s))
      else a # universal_newlines (b # s))"
| "universal_newlines [a] = (if a = CHR 0x0D then [CHR 0x0A] else [a])"
| "universal_newlines [] = []"

definition line_break :: "char \<Rightarrow> bool" where
  "line_break c \<longleftrightarrow> (let n = (of_char c :: nat) in (10 \<le> n \<and> n \<le> 13) \<or> (28 \<le> n \<and> n \<le> 30) \<or> n = 133)"

text \<open>\<open>splitlines\<close> of text that has no carriage return left.\<close>

fun split_lines :: "string \<Rightarrow> string \<Rightarrow> string list" where
  "split_lines acc [] = (if acc = [] then [] else [acc])"
| "split_lines acc (c # s) = (if line_break c then acc # split_lines [] s else split_lines (acc @ [c]) s)"

text \<open>Non-overlapping occurrences from the left, and replacing them; the text replaced is not
  empty.\<close>

function count_text :: "string \<Rightarrow> string \<Rightarrow> nat" where
  "count_text old [] = 0"
| "count_text old (c # s) =
     (if old \<noteq> [] \<and> starts_with (c # s) old
      then Suc (count_text old (drop (length old) (c # s))) else count_text old s)"
  by pat_completeness auto
termination
  by (relation "measure (\<lambda>(old, s). length s)") (auto simp: Suc_le_eq)

function replace_all_text :: "string \<Rightarrow> string \<Rightarrow> string \<Rightarrow> string" where
  "replace_all_text old new [] = []"
| "replace_all_text old new (c # s) =
     (if old \<noteq> [] \<and> starts_with (c # s) old
      then new @ replace_all_text old new (drop (length old) (c # s))
      else c # replace_all_text old new s)"
  by pat_completeness auto
termination
  by (relation "measure (\<lambda>(old, new, s). length s)") (auto simp: Suc_le_eq)

fun replace_first_text :: "string \<Rightarrow> string \<Rightarrow> string \<Rightarrow> string" where
  "replace_first_text old new [] = []"
| "replace_first_text old new (c # s) =
     (if old \<noteq> [] \<and> starts_with (c # s) old then new @ drop (length old) (c # s)
      else c # replace_first_text old new s)"

definition read_text :: "(abs_path \<Rightarrow> bool) \<Rightarrow> abs_path \<Rightarrow> fs_node \<Rightarrow> string \<Rightarrow> (tool_error, string) res" where
  "read_text refuses p n raw =
     (if refuses p then Inl (CouldNotRead raw)
      else case n of TextFile s \<Rightarrow> Inr (universal_newlines s) | _ \<Rightarrow> Inl (NotUtf8 raw))"

definition size_gate :: "path_policy \<Rightarrow> fs_node \<Rightarrow> (tool_error, nat) res" where
  "size_gate pol n = (case check_readable_size pol n of Inl e \<Rightarrow> Inl (PathRefused e) | Inr k \<Rightarrow> Inr k)"

section \<open>The file tools\<close>

record read_input =
  ri_path :: string
  ri_start_line :: "nat option"
  ri_max_lines :: "nat option"

record write_input =
  wi_path :: string
  wi_content :: string
  wi_overwrite :: bool
  wi_create_parents :: bool

record patch_input =
  pi_path :: string
  pi_old_text :: string
  pi_new_text :: string
  pi_replace_all :: bool

datatype tool_output =
    ReadOutput string string nat nat nat bool nat
  | WriteOutput string nat bool
  | PatchOutput string nat nat
  | OtherOutput string

definition read_tool ::
    "path_policy \<Rightarrow> agent_permissions \<Rightarrow> (abs_path \<Rightarrow> bool) \<Rightarrow> read_input \<Rightarrow> file_system \<Rightarrow>
     (tool_error, tool_output) res" where
  "read_tool pol perms refuses a fs =
     res_bind (resolve_existing_file pol perms fs (ri_path a) READ) (\<lambda>(p, n).
     res_bind (size_gate pol n) (\<lambda>size.
     res_bind (read_text refuses p n (ri_path a)) (\<lambda>text.
       let lines = split_lines [] text; total = length lines;
           start = (case ri_start_line a of None \<Rightarrow> 0 | Some k \<Rightarrow> k - 1) in
       if start \<ge> total \<and> total > 0 then Inl (BeyondEnd total)
       else (let end_line = (case ri_max_lines a of None \<Rightarrow> total | Some m \<Rightarrow> min total (start + m));
                 selected = take (end_line - start) (drop start lines) in
             Inr (ReadOutput (relative_of pol p) (join [CHR 0x0A] selected) (start + 1)
                    (length selected) total (end_line < total) size)))))"

definition make_dirs :: "file_system \<Rightarrow> abs_path \<Rightarrow> (tool_error, file_system) res" where
  "make_dirs fs p =
     foldl (\<lambda>r q. res_bind r (\<lambda>s. case node_at s q of
              None \<Rightarrow> Inr (alist_put q Directory s)
            | Some n \<Rightarrow> if n = Directory then Inr s else Inl (Crashed ''mkdir'')))
       (Inr fs) (prefixes p)"

definition open_and_write ::
    "(abs_path \<Rightarrow> bool) \<Rightarrow> abs_path \<Rightarrow> string \<Rightarrow> string \<Rightarrow> tool_output \<Rightarrow> file_system \<Rightarrow>
     (tool_error, tool_output) res \<times> file_system" where
  "open_and_write refuses p raw content out fs =
     (if refuses p then (Inl (CouldNotWrite raw), fs)
      else (Inr out, alist_put p (TextFile content) fs))"

definition write_tool ::
    "path_policy \<Rightarrow> agent_permissions \<Rightarrow> (abs_path \<Rightarrow> bool) \<Rightarrow> write_input \<Rightarrow> file_system \<Rightarrow>
     (tool_error, tool_output) res \<times> file_system" where
  "write_tool pol perms refuses a fs =
     (case workspace_resolve pol perms fs (wi_path a) WRITE of
        Inl e \<Rightarrow> (Inl e, fs)
      | Inr p \<Rightarrow>
          let size = utf8_length (wi_content a); existed = (node_at fs p \<noteq> None);
              out = WriteOutput (relative_of pol p) size (\<not> existed) in
          if size > pc_max_file_bytes (pp_config pol) then (Inl (TooLarge size), fs)
          else if existed \<and> \<not> is_regular (the (node_at fs p)) then (Inl (NonFileTarget (wi_path a)), fs)
          else if existed \<and> \<not> wi_overwrite a then (Inl (AlreadyExists (wi_path a)), fs)
          else if wi_create_parents a
          then (case make_dirs fs (butlast p) of
                  Inl e \<Rightarrow> (Inl e, fs)
                | Inr fs1 \<Rightarrow> open_and_write refuses p (wi_path a) (wi_content a) out fs1)
          else if node_at fs (butlast p) \<noteq> Some Directory then (Inl (ParentMissing (wi_path a)), fs)
          else open_and_write refuses p (wi_path a) (wi_content a) out fs)"

definition patch_tool ::
    "path_policy \<Rightarrow> agent_permissions \<Rightarrow> (abs_path \<Rightarrow> bool) \<Rightarrow> patch_input \<Rightarrow> file_system \<Rightarrow>
     (tool_error, tool_output) res \<times> file_system" where
  "patch_tool pol perms refuses a fs =
     (case res_bind (resolve_existing_file pol perms fs (pi_path a) WRITE) (\<lambda>(p, n).
           res_bind (size_gate pol n) (\<lambda>_.
           res_bind (read_text refuses p n (pi_path a)) (\<lambda>text. Inr (p, text)))) of
        Inl e \<Rightarrow> (Inl e, fs)
      | Inr (p, original) \<Rightarrow>
          let occurrences = count_text (pi_old_text a) original;
              updated = (if pi_replace_all a then replace_all_text (pi_old_text a) (pi_new_text a) original
                         else replace_first_text (pi_old_text a) (pi_new_text a) original);
              size = utf8_length updated in
          if occurrences = 0 then (Inl OldTextMissing, fs)
          else if occurrences > 1 \<and> \<not> pi_replace_all a then (Inl (OldTextAmbiguous occurrences), fs)
          else if size > pc_max_file_bytes (pp_config pol) then (Inl (TooLarge size), fs)
          else open_and_write refuses p (pi_path a) updated
                 (PatchOutput (relative_of pol p) (if pi_replace_all a then occurrences else 1) size) fs)"

section \<open>Registry and gateway\<close>

datatype tool_arguments =
    ReadArgs read_input | WriteArgs write_input | PatchArgs patch_input | OtherArgs string

record tool =
  tl_spec :: tool_spec
  tl_run :: "tool_arguments \<Rightarrow> file_system \<Rightarrow> (tool_error, tool_output) res \<times> file_system"

type_synonym registry = "(string \<times> tool) list"

datatype registration_error = AlreadyRegistered string

definition register_tool :: "registry \<Rightarrow> tool \<Rightarrow> bool \<Rightarrow> (registration_error, registry) res" where
  "register_tool reg t replace =
     (if map_of reg (ts_name (tl_spec t)) \<noteq> None \<and> \<not> replace
      then Inl (AlreadyRegistered (ts_name (tl_spec t)))
      else Inr (alist_put (ts_name (tl_spec t)) t reg))"

definition registry_names :: "registry \<Rightarrow> string list" where
  "registry_names reg = sort (map fst reg)"

text \<open>A tool validates its arguments before it runs.\<close>

definition run_read :: "path_policy \<Rightarrow> agent_permissions \<Rightarrow> (abs_path \<Rightarrow> bool) \<Rightarrow> tool_arguments \<Rightarrow>
    file_system \<Rightarrow> (tool_error, tool_output) res \<times> file_system" where
  "run_read pol perms refuses args fs =
     (case args of
        ReadArgs a \<Rightarrow>
          if ri_path a = [] \<or> ri_start_line a = Some 0 \<or> ri_max_lines a = Some 0
          then (Inl (InvalidArguments ''filesystem.read''), fs)
          else (read_tool pol perms refuses a fs, fs)
      | _ \<Rightarrow> (Inl (InvalidArguments ''filesystem.read''), fs))"

definition run_write :: "path_policy \<Rightarrow> agent_permissions \<Rightarrow> (abs_path \<Rightarrow> bool) \<Rightarrow> tool_arguments \<Rightarrow>
    file_system \<Rightarrow> (tool_error, tool_output) res \<times> file_system" where
  "run_write pol perms refuses args fs =
     (case args of
        WriteArgs a \<Rightarrow>
          if wi_path a = [] then (Inl (InvalidArguments ''filesystem.write''), fs)
          else write_tool pol perms refuses a fs
      | _ \<Rightarrow> (Inl (InvalidArguments ''filesystem.write''), fs))"

definition run_patch :: "path_policy \<Rightarrow> agent_permissions \<Rightarrow> (abs_path \<Rightarrow> bool) \<Rightarrow> tool_arguments \<Rightarrow>
    file_system \<Rightarrow> (tool_error, tool_output) res \<times> file_system" where
  "run_patch pol perms refuses args fs =
     (case args of
        PatchArgs a \<Rightarrow>
          if pi_path a = [] \<or> pi_old_text a = [] then (Inl (InvalidArguments ''filesystem.patch''), fs)
          else patch_tool pol perms refuses a fs
      | _ \<Rightarrow> (Inl (InvalidArguments ''filesystem.patch''), fs))"

definition file_tools :: "path_policy \<Rightarrow> agent_permissions \<Rightarrow> (abs_path \<Rightarrow> bool) \<Rightarrow> registry" where
  "file_tools pol perms refuses =
     [(''filesystem.read'', \<lparr>tl_spec = \<lparr>ts_name = ''filesystem.read'', ts_access = [READ],
         ts_spawns_process = False, ts_uses_network = False\<rparr>, tl_run = run_read pol perms refuses\<rparr>),
      (''filesystem.write'', \<lparr>tl_spec = \<lparr>ts_name = ''filesystem.write'', ts_access = [WRITE],
         ts_spawns_process = False, ts_uses_network = False\<rparr>, tl_run = run_write pol perms refuses\<rparr>),
      (''filesystem.patch'', \<lparr>tl_spec = \<lparr>ts_name = ''filesystem.patch'', ts_access = [READ, WRITE],
         ts_spawns_process = False, ts_uses_network = False\<rparr>, tl_run = run_patch pol perms refuses\<rparr>)]"

record tool_call =
  tc_call_id :: string
  tc_tool :: string
  tc_arguments :: tool_arguments

record tool_result =
  tr_call_id :: string
  tr_tool :: string
  tr_ok :: bool
  tr_output :: "tool_output option"
  tr_error :: "tool_error option"
  tr_failure_category :: "failure_category option"

definition result_denied :: "tool_result \<Rightarrow> bool" where
  "result_denied r \<longleftrightarrow> tr_failure_category r = Some SECURITY_FAILURE"

definition gateway_failure :: "tool_call \<Rightarrow> tool_error \<Rightarrow> tool_result" where
  "gateway_failure call e = \<lparr>tr_call_id = tc_call_id call, tr_tool = tc_tool call, tr_ok = False,
     tr_output = None, tr_error = Some e, tr_failure_category = Some (error_category e)\<rparr>"

definition gateway_execute ::
    "agent_permissions \<Rightarrow> registry \<Rightarrow> tool_call \<Rightarrow> file_system \<Rightarrow> tool_result \<times> file_system" where
  "gateway_execute perms reg call fs =
     (case map_of reg (tc_tool call) of
        None \<Rightarrow> (gateway_failure call (UnknownTool (tc_tool call)), fs)
      | Some t \<Rightarrow>
          (case authorize_tool perms (tl_spec t) of
             Inl d \<Rightarrow> (gateway_failure call (Denied d), fs)
           | Inr u \<Rightarrow>
               (case tl_run t (tc_arguments call) fs of
                  (Inl e, fs') \<Rightarrow> (gateway_failure call e, fs')
                | (Inr out, fs') \<Rightarrow>
                    (\<lparr>tr_call_id = tc_call_id call, tr_tool = tc_tool call, tr_ok = True,
                      tr_output = Some out, tr_error = None, tr_failure_category = None\<rparr>, fs'))))"

definition can_use :: "agent_permissions \<Rightarrow> registry \<Rightarrow> string \<Rightarrow> bool" where
  "can_use perms reg name \<longleftrightarrow> map_of reg name \<noteq> None \<and> may_use_tool perms name"

definition available_specs :: "agent_permissions \<Rightarrow> registry \<Rightarrow> tool_spec list" where
  "available_specs perms reg =
     filter (\<lambda>s. may_use_tool perms (ts_name s))
       (map (\<lambda>n. tl_spec (the (map_of reg n))) (registry_names reg))"

section \<open>Where the tools may write\<close>

text \<open>
  The interface between the tools and the policy: whatever path a resolver hands out is one
  its authority covers.
\<close>

locale path_authority =
  fixes resolve :: "'fs \<Rightarrow> 'raw \<Rightarrow> 'm \<Rightarrow> ('e, 'p) res"
    and covers :: "'m \<Rightarrow> 'p \<Rightarrow> bool"
  assumes covered: "resolve fs raw m = Inr p \<Longrightarrow> covers m p"
begin

lemma guarded_step:
  assumes "(case resolve fs raw m of Inl e \<Rightarrow> (Inl e, fs) | Inr p \<Rightarrow> body p) = (r, fs')"
  obtains e where "r = Inl e" "fs' = fs" "resolve fs raw m = Inl e"
    | p where "resolve fs raw m = Inr p" "covers m p" "body p = (r, fs')"
  using assms covered by (cases "resolve fs raw m") auto

end

definition may_access :: "path_policy \<Rightarrow> agent_permissions \<Rightarrow> access_mode \<Rightarrow> abs_path \<Rightarrow> bool" where
  "may_access pol perms mode p \<longleftrightarrow>
     prefix (pp_root pol) p \<and> \<not> is_protected (pp_config pol) (relative_of pol p) \<and>
     matches_any (relative_of pol p)
       (if mode = WRITE then p_allowed_write_paths perms else p_allowed_read_paths perms)"

interpretation workspace: path_authority "workspace_resolve pol perms" "may_access pol perms"
  for pol perms
proof unfold_locales
  fix fs raw m p assume r: "workspace_resolve pol perms fs raw m = Inr p"
  then have rp: "resolve_path pol fs raw = Inr p"
    by (auto simp: workspace_resolve_def split: sum.splits)
  with r have "is_ok (authorize_path perms (relative_of pol p) m)"
    by (auto simp: workspace_resolve_def split: sum.splits)
  then show "may_access pol perms m p"
    using resolve_path_Inr [OF rp] by (auto simp: may_access_def is_ok_iff authorize_path_Inr)
qed

text \<open>The difference one write makes.\<close>

definition confined :: "path_policy \<Rightarrow> agent_permissions \<Rightarrow> file_system \<Rightarrow> file_system \<Rightarrow> bool" where
  "confined pol perms fs fs' \<longleftrightarrow>
     (\<forall>p. node_at fs' p \<noteq> node_at fs p \<longrightarrow>
        (may_access pol perms WRITE p \<and> (\<exists>s. node_at fs' p = Some (TextFile s))) \<or>
        (node_at fs p = None \<and> node_at fs' p = Some Directory \<and>
           (\<exists>q. may_access pol perms WRITE q \<and> prefix p q)))"

lemma confined_refl [simp]: "confined pol perms fs fs"
  by (simp add: confined_def)

lemma node_at_put: "node_at (alist_put q n fs) p = (if p = q \<and> p \<noteq> [] then Some n else node_at fs p)"
  by (simp add: node_at_def)

lemma make_dirs_fold:
  assumes "foldl (\<lambda>r q. res_bind r (\<lambda>s. case node_at s q of
              None \<Rightarrow> Inr (alist_put q Directory s)
            | Some n \<Rightarrow> if n = Directory then Inr s else Inl e)) (Inr fs) qs = Inr fs'"
  shows "node_at fs' p = (if node_at fs p = None \<and> p \<in> set qs then Some Directory else node_at fs p)"
  using assms
proof (induction qs arbitrary: fs)
  case (Cons q qs)
  let ?step = "\<lambda>r q. res_bind r (\<lambda>s. case node_at s q of
              None \<Rightarrow> Inr (alist_put q Directory s)
            | Some n \<Rightarrow> if n = Directory then Inr s else Inl e)"
  have stuck: "foldl ?step (Inl e') qs = Inl e'" for e' by (induction qs) simp_all
  show ?case
  proof (cases "node_at fs q")
    case None
    then have "foldl ?step (Inr (alist_put q Directory fs)) qs = Inr fs'" using Cons.prems by simp
    from Cons.IH [OF this] None show ?thesis by (auto simp: node_at_put node_at_def split: if_splits)
  next
    case (Some n)
    with Cons.prems stuck have "n = Directory" by (auto split: if_splits)
    with Some Cons.prems have "foldl ?step (Inr fs) qs = Inr fs'" by simp
    from Cons.IH [OF this] Some show ?thesis by auto
  qed
qed simp

lemma make_dirs_nodes:
  "make_dirs fs d = Inr fs' \<Longrightarrow>
     node_at fs' p = (if node_at fs p = None \<and> prefix p d then Some Directory else node_at fs p)"
  unfolding make_dirs_def by (drule make_dirs_fold [where p = p]) (simp add: in_set_prefixes)

lemma open_and_write_confined:
  assumes "may_access pol perms WRITE p"
    and "\<And>q. node_at fs1 q = (if node_at fs q = None \<and> Q q then Some Directory else node_at fs q)"
    and "\<And>q. Q q \<Longrightarrow> prefix q p"
    and "open_and_write refuses p raw content out fs1 = (r, fs')"
  shows "confined pol perms fs fs'"
proof -
  have "fs' = fs1 \<or> fs' = alist_put p (TextFile content) fs1"
    using assms(4) by (auto simp: open_and_write_def split: if_splits)
  then show ?thesis
    using assms(1-3) by (auto simp: confined_def node_at_put split: if_splits)
qed

lemma write_tool_confined:
  assumes "write_tool pol perms refuses a fs = (r, fs')"
  shows "confined pol perms fs fs'"
proof -
  from assms show ?thesis
    unfolding write_tool_def
  proof (cases rule: workspace.guarded_step)
    case (2 p)
    show ?thesis
    proof (cases "fs' = fs")
      case False
      then consider fs1 out where "make_dirs fs (butlast p) = Inr fs1"
          "open_and_write refuses p (wi_path a) (wi_content a) out fs1 = (r, fs')"
        | out where "open_and_write refuses p (wi_path a) (wi_content a) out fs = (r, fs')"
        using 2(3) by (auto simp: Let_def split: if_splits sum.splits)
      then show ?thesis
      proof cases
        case 1
        then show ?thesis
          by (intro open_and_write_confined [OF 2(2) _ _ 1(2), where Q = "\<lambda>q. prefix q (butlast p)"])
            (auto simp: make_dirs_nodes intro: prefix_order.trans prefixeq_butlast)
      next
        case 2: 2
        show ?thesis
          by (rule open_and_write_confined [OF _ _ _ 2, where Q = "\<lambda>q. False"])
            (use \<open>may_access pol perms WRITE p\<close> in auto)
      qed
    qed simp
  qed simp
qed

lemma patch_tool_confined:
  assumes "patch_tool pol perms refuses a fs = (r, fs')"
  shows "confined pol perms fs fs'"
proof (cases "fs' = fs")
  case False
  then obtain p n out content where
    ex: "resolve_existing_file pol perms fs (pi_path a) WRITE = Inr (p, n)"
    and w: "open_and_write refuses p (pi_path a) content out fs = (r, fs')"
    using assms
    by (auto simp: patch_tool_def Let_def res_bind_Inr_iff res_bind_Inl_iff split: sum.splits if_splits)
  from ex have "workspace_resolve pol perms fs (pi_path a) WRITE = Inr p"
    by (auto simp: resolve_existing_file_def res_bind_Inr_iff split: option.splits if_splits)
  then have "may_access pol perms WRITE p" by (rule workspace.covered)
  then show ?thesis
    by (rule open_and_write_confined [OF _ _ _ w, where Q = "\<lambda>q. False"]) auto
qed simp

lemma file_tools_confined:
  assumes "(n, t) \<in> set (file_tools pol perms refuses)" "tl_run t args fs = (r, fs')"
  shows "confined pol perms fs fs'"
  using assms write_tool_confined patch_tool_confined
  by (auto simp: file_tools_def run_read_def run_write_def run_patch_def
      split: tool_arguments.splits if_splits)

lemma gateway_execute_cases:
  assumes "gateway_execute perms reg call fs = (r, fs')"
  obtains (unknown) "map_of reg (tc_tool call) = None" "fs' = fs" "r = gateway_failure call (UnknownTool (tc_tool call))"
    | (denied) t d where "map_of reg (tc_tool call) = Some t" "authorize_tool perms (tl_spec t) = Inl d"
        "fs' = fs" "r = gateway_failure call (Denied d)"
    | (failed) t e where "map_of reg (tc_tool call) = Some t" "authorize_tool perms (tl_spec t) = Inr ()"
        "tl_run t (tc_arguments call) fs = (Inl e, fs')" "r = gateway_failure call e"
    | (succeeded) t out where "map_of reg (tc_tool call) = Some t" "authorize_tool perms (tl_spec t) = Inr ()"
        "tl_run t (tc_arguments call) fs = (Inr out, fs')" "tr_ok r" "tr_output r = Some out"
        "tr_failure_category r = None"
  using assms
  by (auto simp: gateway_execute_def split: option.splits sum.splits prod.splits)

text \<open>C35. Every call through the gateway is answered: it succeeds with an output, or fails with an
  error and its category, never both. A tool runs only when it is registered, the agent
  may use it and may use the network if the tool does; otherwise nothing changes and an
  unpermitted call is a security failure.
\<close>

theorem gateway_guards:
  assumes "gateway_execute perms reg call fs = (r, fs')"
  shows "tr_call_id r = tc_call_id call \<and> tr_tool r = tc_tool call \<and>
    (tr_ok r \<longleftrightarrow> tr_failure_category r = None) \<and> (tr_ok r \<longleftrightarrow> tr_output r \<noteq> None) \<and>
    (tr_ok r \<longleftrightarrow> tr_error r = None) \<and>
    (tr_ok r \<or> fs' \<noteq> fs \<longrightarrow> (\<exists>t. map_of reg (tc_tool call) = Some t \<and>
       may_use_tool perms (ts_name (tl_spec t)) \<and>
       (ts_uses_network (tl_spec t) \<longrightarrow> p_network_access perms))) \<and>
    (\<forall>t. map_of reg (tc_tool call) = Some t \<and> \<not> may_use_tool perms (ts_name (tl_spec t)) \<longrightarrow>
       result_denied r \<and> fs' = fs)"
  using assms
  by (auto simp: gateway_execute_def gateway_failure_def authorize_tool_def result_denied_def
      split: option.splits sum.splits prod.splits if_splits)

theorem gateway_guards_witness:
  "result_denied (fst (gateway_execute
     \<lparr>p_allowed_tools = [''filesystem.read''], p_allowed_read_paths = [''**''],
      p_allowed_write_paths = [], p_network_access = False\<rparr>
     (file_tools sample_policy unrestricted (\<lambda>p. False))
     \<lparr>tc_call_id = ''c'', tc_tool = ''filesystem.write'', tc_arguments = OtherArgs ''x''\<rparr> sample_fs))"
proof -
  let ?perms = "\<lparr>p_allowed_tools = [''filesystem.read''], p_allowed_read_paths = [''**''],
      p_allowed_write_paths = [], p_network_access = False\<rparr>"
  let ?reg = "file_tools sample_policy unrestricted (\<lambda>p. False)"
  let ?call = "\<lparr>tc_call_id = ''c'', tc_tool = ''filesystem.write'', tc_arguments = OtherArgs ''x''\<rparr>"
  obtain r fs' where g: "gateway_execute ?perms ?reg ?call sample_fs = (r, fs')" by fastforce
  obtain t where t: "map_of ?reg (tc_tool ?call) = Some t" "ts_name (tl_spec t) = ''filesystem.write''"
    by (simp add: file_tools_def)
  moreover have "\<not> may_use_tool ?perms ''filesystem.write''" by code_simp
  ultimately have "result_denied r" using gateway_guards [OF g] by metis
  with g show ?thesis by simp
qed

lemma gateway_writes_frame:
  assumes "gateway_execute perms (file_tools pol perms refuses) call fs = (r, fs')"
    and "node_at fs' p \<noteq> node_at fs p"
  shows "(may_access pol perms WRITE p \<and> (\<exists>s. node_at fs' p = Some (TextFile s))) \<or>
        (node_at fs p = None \<and> node_at fs' p = Some Directory \<and>
           (\<exists>q. may_access pol perms WRITE q \<and> prefix p q))"
proof -
  have "confined pol perms fs fs'" using assms(1)
  proof (cases rule: gateway_execute_cases)
    case (failed t e)
    then show ?thesis using file_tools_confined by (metis map_of_SomeD)
  next
    case (succeeded t out)
    then show ?thesis using file_tools_confined by (metis map_of_SomeD)
  qed simp_all
  with assms(2) show ?thesis by (simp add: confined_def)
qed

text \<open>C4. Confinement of the file tools: whatever an agent asks of them through the gateway, the
  file system differs afterwards only at places inside the workspace that the deny list
  does not protect and the agent's write patterns cover, where there is now a text file,
  and at new directories above such a place (inside the workspace, when its root exists).
\<close>

theorem gateway_writes_confined:
  assumes "gateway_execute perms (file_tools pol perms refuses) call fs = (r, fs')"
    and "node_at fs' p \<noteq> node_at fs p"
  shows "(prefix (pp_root pol) p \<and> \<not> is_protected (pp_config pol) (relative_of pol p) \<and>
      matches_any (relative_of pol p) (p_allowed_write_paths perms) \<and>
      (\<exists>s. node_at fs' p = Some (TextFile s))) \<or>
    (node_at fs p = None \<and> node_at fs' p = Some Directory \<and>
      (\<exists>q. prefix p q \<and> prefix (pp_root pol) q \<and>
         matches_any (relative_of pol q) (p_allowed_write_paths perms)) \<and>
      ((\<forall>q. prefix q (pp_root pol) \<longrightarrow> node_at fs q = Some Directory) \<longrightarrow> prefix (pp_root pol) p))"
proof -
  from gateway_writes_frame [OF assms] show ?thesis
  proof
    assume "may_access pol perms WRITE p \<and> (\<exists>s. node_at fs' p = Some (TextFile s))"
    then show ?thesis by (simp add: may_access_def)
  next
    assume d: "node_at fs p = None \<and> node_at fs' p = Some Directory \<and>
           (\<exists>q. may_access pol perms WRITE q \<and> prefix p q)"
    then obtain q where q: "prefix (pp_root pol) q" "prefix p q"
      "matches_any (relative_of pol q) (p_allowed_write_paths perms)" by (auto simp: may_access_def)
    have "prefix (pp_root pol) p" if "\<forall>q. prefix q (pp_root pol) \<longrightarrow> node_at fs q = Some Directory"
      using prefix_same_cases [OF q(1,2)] that d by auto
    with d q show ?thesis by blast
  qed
qed

definition sample_perms :: agent_permissions where
  "sample_perms = \<lparr>p_allowed_tools = [''filesystem.*''], p_allowed_read_paths = [''**''],
      p_allowed_write_paths = [''src/**''], p_network_access = False\<rparr>"

theorem gateway_writes_confined_witness:
  "let call = \<lparr>tc_call_id = ''c'', tc_tool = ''filesystem.write'', tc_arguments = WriteArgs
         \<lparr>wi_path = ''src/new/b.py'', wi_content = ''y = 2'', wi_overwrite = False, wi_create_parents = True\<rparr>\<rparr>;
       fs' = snd (gateway_execute sample_perms (file_tools sample_policy sample_perms (\<lambda>p. False)) call sample_fs)
   in node_at fs' [''ws'', ''src'', ''new'', ''b.py''] = Some (TextFile ''y = 2'') \<and>
      matches_any (relative_of sample_policy [''ws'', ''src'', ''new'', ''b.py'']) [''src/**'']"
proof -
  let ?call = "\<lparr>tc_call_id = ''c'', tc_tool = ''filesystem.write'', tc_arguments = WriteArgs
         \<lparr>wi_path = ''src/new/b.py'', wi_content = ''y = 2'', wi_overwrite = False, wi_create_parents = True\<rparr>\<rparr>"
  let ?g = "gateway_execute sample_perms (file_tools sample_policy sample_perms (\<lambda>p. False)) ?call sample_fs"
  have new: "node_at (snd ?g) [''ws'', ''src'', ''new'', ''b.py''] = Some (TextFile ''y = 2'')" by code_simp
  moreover have "node_at sample_fs [''ws'', ''src'', ''new'', ''b.py''] = None" by code_simp
  ultimately show ?thesis
    using gateway_writes_confined [of sample_perms sample_policy "\<lambda>p. False" ?call sample_fs "fst ?g" "snd ?g"
        "[''ws'', ''src'', ''new'', ''b.py'']"]
    by (simp add: Let_def) (simp add: sample_perms_def)
qed

section \<open>Patching\<close>

lemma replace_first_split:
  "old \<noteq> [] \<Longrightarrow> count_text old s \<noteq> 0 \<Longrightarrow>
     \<exists>pre post. s = pre @ old @ post \<and> replace_first_text old new s = pre @ new @ post \<and>
       (\<forall>pre' post'. s = pre' @ old @ post' \<longrightarrow> length pre \<le> length pre')"
proof (induction s)
  case (Cons c s)
  show ?case
  proof (cases "starts_with (c # s) old")
    case True
    then obtain post where post: "c # s = old @ post" by (auto simp: starts_with_append)
    have "replace_first_text old new (c # s) = new @ drop (length old) (c # s)"
      using Cons.prems(1) True by simp
    also have "drop (length old) (c # s) = post" by (subst post) simp
    finally show ?thesis using post by (intro exI [of _ "[]"] exI [of _ post]) simp
  next
    case False
    with Cons obtain pre post where ih: "s = pre @ old @ post" "replace_first_text old new s = pre @ new @ post"
      "\<forall>pre' post'. s = pre' @ old @ post' \<longrightarrow> length pre \<le> length pre'" by auto
    have "length (c # pre) \<le> length pre'" if "c # s = pre' @ old @ post'" for pre' post'
    proof (cases pre')
      case Nil
      with that False show ?thesis by (auto simp: starts_with_append)
    next
      case (Cons x xs)
      with that have "s = xs @ old @ post'" by simp
      with ih(3) have "length pre \<le> length xs" by blast
      with Cons show ?thesis by simp
    qed
    with ih False show ?thesis
      by (intro exI [of _ "c # pre"] exI [of _ post]) auto
  qed
qed simp



end
