(* ===== verification/Integrity.thy ===== *)
theory Integrity
  imports Tool_Gateway Failure_Policy
begin

text \<open>
  Test integrity (\<open>integrity.py\<close>, \<open>verification/integrity_check.py\<close>): what kind of file a
  path is, the tests and assertions of a parsed test file, the comparison of a test file with
  its baseline, the report and its verdict, and the check that collects both sides through
  the gateway.

  The syntax tree is the part of Python's \<open>ast\<close> the code looks at; \<open>ast.parse\<close>, the
  standard library's parser, is an argument from text to the tree or a syntax error. An
  assertion carries its dump, which is what assertions are compared by.
\<close>

section \<open>Kinds of file\<close>

datatype severity = SEV_INFO | SEV_LOW | SEV_MEDIUM | SEV_HIGH | SEV_CRITICAL

datatype file_kind = FK_SOURCE | FK_TEST | FK_FIXTURE | FK_CONFIG | FK_DOC | FK_UNKNOWN

definition test_dir_markers :: "string list" where
  "test_dir_markers = [''tests/'', ''test/'', ''spec/'', ''__tests__/'']"

definition test_name_suffixes :: "string list" where
  "test_name_suffixes = [''_test.py'', ''_test.go'', ''.test.js'', ''.test.jsx'', ''.test.ts'', ''.test.tsx'',
     ''.spec.js'', ''.spec.jsx'', ''.spec.ts'', ''.spec.tsx'']"

definition fixture_markers :: "string list" where
  "fixture_markers = [''fixtures/'', ''testdata/'', ''conftest.py'']"

definition config_suffixes :: "string list" where
  "config_suffixes = [''.toml'', ''.cfg'', ''.ini'', ''.yaml'', ''.yml'', ''.json'']"

definition doc_suffixes :: "string list" where
  "doc_suffixes = [''.md'', ''.rst'', ''.txt'']"

definition classify_path :: "string \<Rightarrow> file_kind" where
  "classify_path path =
     (let lowered = py_lower (fwd_slashes path); name = last (split_on (CHR ''/'') lowered);
          has = (\<lambda>ms. list_ex (\<lambda>m. infix_of m (''/'' @ lowered)) ms);
          ends = list_ex (ends_with lowered) in
      if has fixture_markers \<and> \<not> starts_with name ''test_'' then FK_FIXTURE
      else if starts_with name ''test_'' \<or> ends test_name_suffixes \<or> has test_dir_markers then FK_TEST
      else if ends doc_suffixes then FK_DOC
      else if ends config_suffixes then FK_CONFIG
      else if CHR ''.'' \<in> set name then FK_SOURCE
      else FK_UNKNOWN)"

section \<open>The tests of a file\<close>

text \<open>A class and a function keep their decorators and their body apart; the other children of a
  node are in its list. A call holds the function first, an attribute its object; an import
  names its modules.\<close>

datatype py_node =
    PyClass string "py_node list" "py_node list"
  | PyFunction string "py_node list" "py_node list" "py_node list"
  | PyAssert string string "py_node list"
  | PyCall py_node "py_node list"
  | PyAttribute string py_node
  | PyName string
  | PyImport "string list"
  | PyImportFrom "string option"
  | PyOther "py_node list"

fun py_children :: "py_node \<Rightarrow> py_node list" where
  "py_children (PyClass n others body) = others @ body"
| "py_children (PyFunction n others body decorators) = others @ body @ decorators"
| "py_children (PyAssert d s cs) = cs"
| "py_children (PyCall f cs) = f # cs"
| "py_children (PyAttribute a v) = [v]"
| "py_children (PyName i) = []"
| "py_children (PyImport ms) = []"
| "py_children (PyImportFrom m) = []"
| "py_children (PyOther cs) = cs"

definition weights :: "py_node list \<Rightarrow> nat" where
  "weights ns = sum_list (map (\<lambda>n. Suc (size n)) ns)"

lemma weights_size: "weights ns = size_list size ns"
  by (induction ns) (auto simp: weights_def)

lemma weights_simps [simp]: "weights [] = 0" "weights (n # ns) = Suc (size n) + weights ns"
    "weights (ms @ ns) = weights ms + weights ns"
  by (simp_all add: weights_def)

lemma py_children_smaller: "weights (py_children n) < Suc (size n)"
  by (cases n) (simp_all add: weights_size [symmetric])

text \<open>\<open>ast.walk\<close>: breadth first.\<close>

function walk :: "py_node list \<Rightarrow> py_node list" where
  "walk [] = []"
| "walk (n # queue) = n # walk (queue @ py_children n)"
  by pat_completeness auto
termination
  by (relation "measure weights") (use py_children_smaller in auto)

definition skip_markers :: "string list" where
  "skip_markers = [''skip'', ''skipif'', ''xfail'']"

definition is_skip_name :: "string \<Rightarrow> bool" where
  "is_skip_name s \<longleftrightarrow> py_lower s \<in> set skip_markers"

fun attribute_parts :: "py_node \<Rightarrow> string list" where
  "attribute_parts (PyAttribute a v) = a # attribute_parts v"
| "attribute_parts (PyName i) = [i]"
| "attribute_parts _ = []"

definition is_skip_decorator :: "py_node \<Rightarrow> bool" where
  "is_skip_decorator n =
     list_ex is_skip_name (attribute_parts (case n of PyCall f cs \<Rightarrow> f | _ \<Rightarrow> n))"

definition is_skip_call :: "py_node \<Rightarrow> bool" where
  "is_skip_call n \<longleftrightarrow>
     (case n of
        PyCall f cs \<Rightarrow> (case f of PyAttribute a v \<Rightarrow> is_skip_name a | PyName i \<Rightarrow> is_skip_name i | _ \<Rightarrow> False)
      | _ \<Rightarrow> False)"

definition contains_skip_call :: "py_node \<Rightarrow> bool" where
  "contains_skip_call n = list_ex is_skip_call (walk [n])"

record test_function =
  tf_name :: string
  tf_assertions :: "string list"
  tf_assertion_source :: "string list"
  tf_skipped :: bool

definition assertion_count :: "test_function \<Rightarrow> nat" where
  "assertion_count t = length (tf_assertions t)"

fun assertions_of :: "py_node list \<Rightarrow> (string \<times> string) list" where
  "assertions_of [] = []"
| "assertions_of (PyAssert d s cs # ns) = (d, s) # assertions_of ns"
| "assertions_of (n # ns) = assertions_of ns"

definition test_function_of :: "string \<Rightarrow> py_node \<Rightarrow> py_node list \<Rightarrow> test_function" where
  "test_function_of name node decorators =
     \<lparr>tf_name = name, tf_assertions = map fst (assertions_of (walk [node])),
      tf_assertion_source = map snd (assertions_of (walk [node])),
      tf_skipped = list_ex is_skip_decorator decorators \<or> contains_skip_call node\<rparr>"

fun visit :: "string \<Rightarrow> py_node \<Rightarrow> (string \<times> test_function) list \<Rightarrow> (string \<times> test_function) list"
  and visit_all :: "string \<Rightarrow> py_node list \<Rightarrow> (string \<times> test_function) list \<Rightarrow> (string \<times> test_function) list" where
  "visit pre (PyClass n others body) found = visit_all (pre @ n @ ''.'') body found"
| "visit pre (PyFunction n others body decorators) found =
     (if starts_with n ''test''
      then alist_put (pre @ n) (test_function_of (pre @ n) (PyFunction n others body decorators) decorators) found
      else found)"
| "visit pre _ found = found"
| "visit_all pre [] found = found"
| "visit_all pre (n # ns) found = visit_all pre ns (visit pre n found)"

definition extract_tests :: "(string \<Rightarrow> py_node list option) \<Rightarrow> string \<Rightarrow> (string \<times> test_function) list" where
  "extract_tests parse content = (case parse content of None \<Rightarrow> [] | Some body \<Rightarrow> visit_all [] body [])"

section \<open>Comparing with the baseline\<close>

datatype finding_kind =
  TestRemoved string nat | TestSkipped string | AssertionRemoved string nat | AssertionChanged string nat
  | TestFileDeleted

record integrity_finding =
  if_severity :: severity
  if_kind :: finding_kind
  if_path :: string

definition finding_blocking :: "integrity_finding \<Rightarrow> bool" where
  "finding_blocking f \<longleftrightarrow> if_severity f \<in> {SEV_HIGH, SEV_CRITICAL}"

record delta =
  d_findings :: "integrity_finding list"
  d_tests_added :: "string list"
  d_tests_removed :: "string list"
  d_assertions_removed :: nat
  d_skips_added :: "string list"

definition lost_assertions :: "test_function \<Rightarrow> test_function \<Rightarrow> string list" where
  "lost_assertions original updated = filter (\<lambda>d. d \<notin> set (tf_assertions updated)) (tf_assertions original)"

definition compare_test :: "string \<Rightarrow> string \<Rightarrow> test_function \<Rightarrow> test_function \<Rightarrow> integrity_finding list" where
  "compare_test path name original updated =
     (if tf_skipped updated \<and> \<not> tf_skipped original
      then [\<lparr>if_severity = SEV_HIGH, if_kind = TestSkipped name, if_path = path\<rparr>] else []) @
     (let lost = lost_assertions original updated in
      if lost = [] then []
      else [\<lparr>if_severity = SEV_HIGH,
             if_kind = (if assertion_count updated < assertion_count original
                        then AssertionRemoved name (length lost) else AssertionChanged name (length lost)),
             if_path = path\<rparr>])"

definition compare_test_file ::
    "(string \<Rightarrow> py_node list option) \<Rightarrow> string \<Rightarrow> string \<Rightarrow> string \<Rightarrow> delta" where
  "compare_test_file parse path baseline current =
     (let before = extract_tests parse baseline; after = extract_tests parse current;
          removed = sort (filter (\<lambda>n. map_of after n = None) (map fst before));
          added = sort (filter (\<lambda>n. map_of before n = None) (map fst after));
          both = sort (filter (\<lambda>n. map_of after n \<noteq> None) (map fst before));
          at = (\<lambda>ts n. the (map_of ts n)) in
      \<lparr>d_findings =
         map (\<lambda>n. \<lparr>if_severity = SEV_CRITICAL, if_kind = TestRemoved n (assertion_count (at before n)),
                    if_path = path\<rparr>) removed @
         concat (map (\<lambda>n. compare_test path n (at before n) (at after n)) both),
       d_tests_added = added, d_tests_removed = removed,
       d_assertions_removed = sum_list (map (\<lambda>n. length (lost_assertions (at before n) (at after n))) both),
       d_skips_added = filter (\<lambda>n. tf_skipped (at after n) \<and> \<not> tf_skipped (at before n)) both\<rparr>)"

section \<open>The report\<close>

record integrity_report =
  ir_findings :: "integrity_finding list"
  ir_source_files_changed :: "string list"
  ir_test_files_changed :: "string list"
  ir_tests_added :: "string list"
  ir_tests_removed :: "string list"
  ir_assertions_removed :: nat
  ir_skips_added :: "string list"
  ir_justification :: string
  ir_baseline_unavailable :: bool

definition blocking_findings :: "integrity_report \<Rightarrow> integrity_finding list" where
  "blocking_findings r = filter finding_blocking (ir_findings r)"

definition tampered :: "integrity_report \<Rightarrow> bool" where
  "tampered r \<longleftrightarrow> blocking_findings r \<noteq> [] \<and> py_strip (ir_justification r) = []"

definition tests_were_modified :: "integrity_report \<Rightarrow> bool" where
  "tests_were_modified r \<longleftrightarrow> ir_test_files_changed r \<noteq> []"

definition empty_report :: "string \<Rightarrow> bool \<Rightarrow> integrity_report" where
  "empty_report justification unavailable_baseline =
     \<lparr>ir_findings = [], ir_source_files_changed = [], ir_test_files_changed = [], ir_tests_added = [],
      ir_tests_removed = [], ir_assertions_removed = 0, ir_skips_added = [],
      ir_justification = justification, ir_baseline_unavailable = unavailable_baseline\<rparr>"

definition report_path ::
    "(string \<Rightarrow> py_node list option) \<Rightarrow> (string \<times> string) list \<Rightarrow> (string \<times> string) list \<Rightarrow> string \<Rightarrow>
     integrity_report \<Rightarrow> integrity_report" where
  "report_path parse baselines current path r =
     (case classify_path path of
        FK_SOURCE \<Rightarrow> r\<lparr>ir_source_files_changed := ir_source_files_changed r @ [path]\<rparr>
      | FK_TEST \<Rightarrow>
          (let r' = r\<lparr>ir_test_files_changed := ir_test_files_changed r @ [path]\<rparr> in
           case map_of baselines path of
             None \<Rightarrow> r'
           | Some baseline \<Rightarrow>
               (case map_of current path of
                  None \<Rightarrow> r'\<lparr>ir_findings := ir_findings r' @
                            [\<lparr>if_severity = SEV_CRITICAL, if_kind = TestFileDeleted, if_path = path\<rparr>]\<rparr>
                | Some now \<Rightarrow>
                    (let dl = compare_test_file parse path baseline now in
                     r'\<lparr>ir_findings := ir_findings r' @ d_findings dl,
                        ir_tests_added := ir_tests_added r' @ d_tests_added dl,
                        ir_tests_removed := ir_tests_removed r' @ d_tests_removed dl,
                        ir_assertions_removed := ir_assertions_removed r' + d_assertions_removed dl,
                        ir_skips_added := ir_skips_added r' @ d_skips_added dl\<rparr>)))
      | _ \<Rightarrow> r)"

definition build_report ::
    "(string \<Rightarrow> py_node list option) \<Rightarrow> (string \<times> string) list \<Rightarrow> (string \<times> string) list \<Rightarrow> string list \<Rightarrow>
     string \<Rightarrow> bool \<Rightarrow> integrity_report" where
  "build_report parse baselines current changed_paths justification unavailable_baseline =
     foldl (\<lambda>r p. report_path parse baselines current p r) (empty_report justification unavailable_baseline)
       (sort changed_paths)"

section \<open>The check\<close>

text \<open>What the gateway answers: the names \<open>git.diff\<close> lists and the paths \<open>git.status\<close> lists
  (nothing when refused), a path's content at the baseline (\<open>git.show\<close>) and now
  (\<open>filesystem.read\<close>).\<close>

record integrity_gateway =
  ig_can_use :: "string \<Rightarrow> bool"
  ig_diff_names :: "string list option"
  ig_status_paths :: "string list option"
  ig_show :: "string \<Rightarrow> string option"
  ig_read :: "string \<Rightarrow> string option"

definition max_baseline_chars :: nat where
  "max_baseline_chars = 200000"

definition integrity_available :: "integrity_gateway \<Rightarrow> bool" where
  "integrity_available g \<longleftrightarrow> ig_can_use g ''git.diff'' \<and> ig_can_use g ''git.show''"

definition changed_paths :: "integrity_gateway \<Rightarrow> string list" where
  "changed_paths g =
     sorted_set ((case ig_diff_names g of None \<Rightarrow> [] | Some ps \<Rightarrow> ps) @
       (case ig_status_paths g of None \<Rightarrow> [] | Some ps \<Rightarrow> filter (\<lambda>p. p \<noteq> []) ps))"

definition read_baseline :: "integrity_gateway \<Rightarrow> string \<Rightarrow> string option" where
  "read_baseline g path =
     (case ig_show g path of
        None \<Rightarrow> None
      | Some content \<Rightarrow> if length content \<le> max_baseline_chars then Some content else None)"

definition check_integrity ::
    "(string \<Rightarrow> py_node list option) \<Rightarrow> integrity_gateway \<Rightarrow> string \<Rightarrow> integrity_report" where
  "check_integrity parse g justification =
     (if \<not> integrity_available g then build_report parse [] [] [] [] True
      else (let paths = changed_paths g in
            if paths = [] then build_report parse [] [] [] justification False
            else (let test_paths = filter (\<lambda>p. classify_path p = FK_TEST) paths;
                      collect = (\<lambda>f. concat (map (\<lambda>p. case f p of None \<Rightarrow> [] | Some c \<Rightarrow> [(p, c)]) test_paths)) in
                  build_report parse (collect (read_baseline g)) (collect (ig_read g)) paths justification False)))"

section \<open>Do the tests import the change\<close>

definition is_test_path :: "string \<Rightarrow> bool" where
  "is_test_path relative =
     (let posix = fwd_slashes relative; name = last (split_on (CHR ''/'') posix) in
      starts_with posix ''tests/'' \<or> infix_of ''/tests/'' posix \<or> starts_with name ''test_'' \<or>
      ends_with name ''_test.py'')"

definition non_test_dirs :: "string list" where
  "non_test_dirs = [''.git'', ''.venv'', ''venv'', ''__pycache__'', ''.pytest_cache'', ''.edith'', ''node_modules'']"

definition module_paths_of :: "string \<Rightarrow> string list" where
  "module_paths_of relative =
     (let posix = fwd_slashes relative in
      if ends_with posix ''.py''
      then (let parts = split_on (CHR ''/'') (drop_last 3 posix) in
            last parts # map (\<lambda>k. join ''.'' (drop k parts)) [0..<length parts])
      else [])"

definition module_paths_for :: "string list \<Rightarrow> string list" where
  "module_paths_for changed = concat (map module_paths_of changed)"

fun imported_names :: "py_node list \<Rightarrow> string list" where
  "imported_names [] = []"
| "imported_names (PyImportFrom m # ns) =
     (case m of
        Some name \<Rightarrow> if name = [] then [] else [name, last (split_on (CHR ''.'') name)]
      | None \<Rightarrow> []) @ imported_names ns"
| "imported_names (PyImport names # ns) =
     concat (map (\<lambda>name. [name, last (split_on (CHR ''.'') name)]) names) @ imported_names ns"
| "imported_names (n # ns) = imported_names ns"

text \<open>The Python files below the project: the path relative to it and the text, when it can be read.\<close>

type_synonym project_files = "(string \<times> string option) list"

definition test_sources :: "string list \<Rightarrow> project_files \<Rightarrow> string list" where
  "test_sources root files =
     concat (map (\<lambda>(rel, txt).
        if list_ex (\<lambda>part. part \<in> set non_test_dirs) (root @ split_on (CHR ''/'') rel) \<or> \<not> is_test_path rel
        then [] else (case txt of None \<Rightarrow> [] | Some t \<Rightarrow> [t])) files)"

text \<open>The modules named when the tests import none of the changed ones.\<close>

definition tests_exercise_changes ::
    "(string \<Rightarrow> py_node list option) \<Rightarrow> string list \<Rightarrow> project_files \<Rightarrow> string list \<Rightarrow> string list option" where
  "tests_exercise_changes parse root files changed =
     (let targets = module_paths_for (filter (\<lambda>p. \<not> is_test_path p) changed);
          sources = test_sources root files;
          imported = concat (map (\<lambda>s. case parse s of None \<Rightarrow> [] | Some ns \<Rightarrow> imported_names (walk ns)) sources) in
      if targets = [] \<or> sources = [] then None
      else if list_ex (\<lambda>m. m \<in> set targets) imported then None
      else Some (sorted_set (filter (\<lambda>t. CHR ''.'' \<notin> set t) targets)))"

section \<open>What the verdict means\<close>

definition test_kept :: "test_function \<Rightarrow> test_function \<Rightarrow> bool" where
  "test_kept original updated \<longleftrightarrow>
     (tf_skipped updated \<longrightarrow> tf_skipped original) \<and> set (tf_assertions original) \<subseteq> set (tf_assertions updated)"

text \<open>Every test of the first text is in the second, with all its assertions, and not newly skipped.\<close>

definition tests_kept :: "(string \<times> test_function) list \<Rightarrow> (string \<times> test_function) list \<Rightarrow> bool" where
  "tests_kept before after \<longleftrightarrow>
     list_all (\<lambda>n. case map_of after n of None \<Rightarrow> False | Some t \<Rightarrow> test_kept (the (map_of before n)) t)
       (map fst before)"

lemma tests_kept_iff:
  "tests_kept before after \<longleftrightarrow>
     (\<forall>n t. map_of before n = Some t \<longrightarrow> (\<exists>t'. map_of after n = Some t' \<and> test_kept t t'))"
proof -
  have "n \<in> set (map fst before) \<longleftrightarrow> (\<exists>t. map_of before n = Some t)" for n
    by (metis domD domI dom_map_of_conv_image_fst list.set_map)
  then show ?thesis
    unfolding tests_kept_def list_all_iff by (force split: option.splits)
qed

lemma lost_assertions_Nil: "lost_assertions t t' = [] \<longleftrightarrow> set (tf_assertions t) \<subseteq> set (tf_assertions t')"
  by (auto simp: lost_assertions_def filter_empty_conv)

lemma compare_test_Nil: "compare_test path n t t' = [] \<longleftrightarrow> test_kept t t'"
  by (auto simp: compare_test_def Let_def lost_assertions_Nil test_kept_def)

lemma compare_test_blocking: "f \<in> set (compare_test path n t t') \<Longrightarrow> finding_blocking f"
  by (auto simp: compare_test_def Let_def finding_blocking_def split: if_splits)

lemma sort_Nil_iff: "sort xs = [] \<longleftrightarrow> xs = []"
  by (metis set_empty set_sort)

lemma compare_findings_Nil:
  "d_findings (compare_test_file parse path b c) = [] \<longleftrightarrow> tests_kept (extract_tests parse b) (extract_tests parse c)"
proof -
  let ?b = "extract_tests parse b" and ?c = "extract_tests parse c"
  have "d_findings (compare_test_file parse path b c) = [] \<longleftrightarrow>
      (\<forall>n \<in> set (map fst ?b). map_of ?c n \<noteq> None) \<and>
      (\<forall>n \<in> set (map fst ?b). map_of ?c n \<noteq> None \<longrightarrow> test_kept (the (map_of ?b n)) (the (map_of ?c n)))"
    unfolding compare_test_file_def Let_def
    by (auto simp: compare_test_Nil filter_empty_conv sort_Nil_iff)
  also have "\<dots> \<longleftrightarrow> tests_kept ?b ?c"
    unfolding tests_kept_def list_all_iff by (force split: option.splits)
  finally show ?thesis .
qed

lemma compare_findings_blocking: "f \<in> set (d_findings (compare_test_file parse path b c)) \<Longrightarrow> finding_blocking f"
  by (auto simp: compare_test_file_def Let_def finding_blocking_def dest: compare_test_blocking)

definition path_findings ::
    "(string \<Rightarrow> py_node list option) \<Rightarrow> (string \<times> string) list \<Rightarrow> (string \<times> string) list \<Rightarrow> string \<Rightarrow> integrity_finding list" where
  "path_findings parse baselines current path =
     (if classify_path path \<noteq> FK_TEST then []
      else case map_of baselines path of
             None \<Rightarrow> []
           | Some b \<Rightarrow>
               (case map_of current path of
                  None \<Rightarrow> [\<lparr>if_severity = SEV_CRITICAL, if_kind = TestFileDeleted, if_path = path\<rparr>]
                | Some c \<Rightarrow> d_findings (compare_test_file parse path b c)))"

lemma report_path_findings:
  "ir_findings (report_path parse baselines current path r) = ir_findings r @ path_findings parse baselines current path"
  "ir_justification (report_path parse baselines current path r) = ir_justification r"
  by (simp_all add: report_path_def path_findings_def Let_def split: file_kind.splits option.splits)

lemma build_report_findings:
  "ir_findings (build_report parse baselines current ps j u) =
     concat (map (path_findings parse baselines current) (sort ps))"
  "ir_justification (build_report parse baselines current ps j u) = j"
proof -
  have fold: "ir_findings (foldl (\<lambda>r p. report_path parse baselines current p r) r ps) =
      ir_findings r @ concat (map (path_findings parse baselines current) ps) \<and>
    ir_justification (foldl (\<lambda>r p. report_path parse baselines current p r) r ps) = ir_justification r" for r ps
    by (induction ps arbitrary: r) (simp_all add: report_path_findings)
  then show "ir_findings (build_report parse baselines current ps j u) =
     concat (map (path_findings parse baselines current) (sort ps))"
    "ir_justification (build_report parse baselines current ps j u) = j"
    by (simp_all add: build_report_def empty_report_def)
qed

lemma path_findings_blocking: "f \<in> set (path_findings parse baselines current p) \<Longrightarrow> finding_blocking f"
  by (auto simp: path_findings_def intro: compare_findings_blocking split: if_splits option.splits)
    (simp add: finding_blocking_def)

lemma blocking_all: "blocking_findings (build_report parse baselines current ps j u) =
    ir_findings (build_report parse baselines current ps j u)"
  by (auto simp: blocking_findings_def build_report_findings filter_id_conv dest: path_findings_blocking)

lemma tampered_build:
  "tampered (build_report parse baselines current ps j u) \<longleftrightarrow>
     py_strip j = [] \<and> (\<exists>p \<in> set ps. path_findings parse baselines current p \<noteq> [])"
  by (auto simp: tampered_def blocking_all build_report_findings)

lemma map_of_collect:
  "map_of (concat (map (\<lambda>p. case f p of None \<Rightarrow> [] | Some c \<Rightarrow> [(p, c)]) ps)) p = (if p \<in> set ps then f p else None)"
  by (induction ps) (auto split: option.splits)

text \<open>C11. The integrity verdict is exact: the check finds the tests tampered with if and only if
  nothing was offered as justification, the gateway lets it look, and some changed test file
  with a readable baseline of at most 200000 characters has either disappeared (or cannot be
  read) or no longer keeps its baseline's tests, that is, a test is gone, newly skipped, or
  lacks an assertion it used to make.
\<close>

theorem integrity_verdict_exact:
  "tampered (check_integrity parse g justification) \<longleftrightarrow>
     integrity_available g \<and> py_strip justification = [] \<and>
     (\<exists>p b. p \<in> set (changed_paths g) \<and> classify_path p = FK_TEST \<and> ig_show g p = Some b \<and>
        length b \<le> max_baseline_chars \<and>
        (case ig_read g p of
           None \<Rightarrow> True
         | Some c \<Rightarrow> \<not> tests_kept (extract_tests parse b) (extract_tests parse c)))"
proof -
  let ?paths = "changed_paths g"
  let ?tests = "filter (\<lambda>p. classify_path p = FK_TEST) ?paths"
  let ?collect = "\<lambda>f. concat (map (\<lambda>p. case f p of None \<Rightarrow> [] | Some c \<Rightarrow> [(p, c)]) ?tests)"
  have path: "path_findings parse (?collect (read_baseline g)) (?collect (ig_read g)) p \<noteq> [] \<longleftrightarrow>
      classify_path p = FK_TEST \<and> (\<exists>b. ig_show g p = Some b \<and> length b \<le> max_baseline_chars \<and>
        (case ig_read g p of
           None \<Rightarrow> True
         | Some c \<Rightarrow> \<not> tests_kept (extract_tests parse b) (extract_tests parse c)))"
    if "p \<in> set ?paths" for p
  proof (cases "classify_path p = FK_TEST")
    case True
    with that have "p \<in> set ?tests" by simp
    with True show ?thesis
      unfolding path_findings_def map_of_collect
      by (auto simp: read_baseline_def compare_findings_Nil split: option.splits)
  qed (simp add: path_findings_def)
  show ?thesis
  proof (cases "integrity_available g")
    case True
    then have check: "check_integrity parse g justification =
        (if ?paths = [] then build_report parse [] [] [] justification False
         else build_report parse (?collect (read_baseline g)) (?collect (ig_read g)) ?paths justification False)"
      by (simp add: check_integrity_def Let_def)
    show ?thesis
    proof (cases "?paths = []")
      case empty: True
      then show ?thesis using check by (simp add: tampered_build)
    next
      case False
      then show ?thesis using check True path by (simp add: tampered_build) blast
    qed
  next
    case False
    then show ?thesis by (simp add: check_integrity_def tampered_build)
  qed
qed

text \<open>A parser that knows two texts: a test with two assertions, and the same test with one.\<close>

definition sample_parse :: "string \<Rightarrow> py_node list option" where
  "sample_parse content =
     (if content = ''old'' then Some [PyFunction ''test_sum'' [] [PyAssert ''a'' ''a'' [], PyAssert ''b'' ''b'' []] []]
      else if content = ''new'' then Some [PyFunction ''test_sum'' [] [PyAssert ''a'' ''a'' []] []]
      else None)"

definition sample_gateway :: integrity_gateway where
  "sample_gateway = \<lparr>ig_can_use = (\<lambda>t. True), ig_diff_names = Some [''src/a.py'', ''tests/test_a.py''],
     ig_status_paths = None, ig_show = (\<lambda>p. Some ''old''), ig_read = (\<lambda>p. Some ''new'')\<rparr>"

theorem integrity_verdict_exact_witness:
  "tampered (check_integrity sample_parse sample_gateway []) \<and>
   \<not> tampered (check_integrity sample_parse sample_gateway ''the requirement changed'')"
proof -
  have "''tests/test_a.py'' \<in> set (changed_paths sample_gateway)" "classify_path ''tests/test_a.py'' = FK_TEST"
    "\<not> tests_kept (extract_tests sample_parse ''old'') (extract_tests sample_parse ''new'')"
    "py_strip [] = []" "py_strip ''the requirement changed'' \<noteq> []" by code_simp+
  moreover have "length ''old'' \<le> max_baseline_chars" by (simp add: max_baseline_chars_def)
  ultimately show ?thesis
    unfolding integrity_verdict_exact by (auto simp: integrity_available_def sample_gateway_def)
qed

end
