(* ===== verification/Quality.thy ===== *)
theory Quality
  imports Complex_Main Agent_Model Integrity
begin

text \<open>
  The quality layer's artifacts (\<open>edith/quality/artifacts.py\<close>) and principals
  (\<open>edith/quality/principals.py\<close>): what a finding is and which findings pydantic refuses,
  which findings block, how a report is adjudicated, and the permission sets that keep the
  coder, the verifier, the testers, the reviewers and the judge apart.
\<close>

section \<open>Findings\<close>

datatype quality_verdict = QV_PASS | QV_PASS_WITH_ADVISORIES | QV_REPAIR_REQUIRED | QV_BLOCKED | QV_FAILED

definition verdict_merges :: "quality_verdict \<Rightarrow> bool" where
  "verdict_merges v \<longleftrightarrow> v \<in> {QV_PASS, QV_PASS_WITH_ADVISORIES}"

datatype finding_origin = DETERMINISTIC | MODEL

record review_evidence =
  ev_source :: string
  ev_detail :: string
  ev_file :: string
  ev_line :: "nat option"

record quality_finding =
  qf_category :: string
  qf_severity :: severity
  qf_summary :: string
  qf_evidence :: "review_evidence list"
  qf_affected_files :: "string list"
  qf_task_id :: string
  qf_origin :: finding_origin
  qf_failure_category :: "failure_category option"
  qf_repairable :: bool
  qf_confidence :: rat

text \<open>The field constraints; an object that breaks one cannot be built. A confidence below 0 or
  above 1 is refused as well.\<close>

definition evidence_valid :: "review_evidence \<Rightarrow> bool" where
  "evidence_valid e \<longleftrightarrow>
     1 \<le> length (ev_source e) \<and> length (ev_source e) \<le> 200 \<and> py_strip (ev_source e) \<noteq> [] \<and>
     1 \<le> length (ev_detail e) \<and> length (ev_detail e) \<le> 4000 \<and> py_strip (ev_detail e) \<noteq> [] \<and>
     length (ev_file e) \<le> 400 \<and> (case ev_line e of None \<Rightarrow> True | Some n \<Rightarrow> 1 \<le> n)"

definition finding_valid :: "quality_finding \<Rightarrow> bool" where
  "finding_valid f \<longleftrightarrow>
     1 \<le> length (qf_category f) \<and> length (qf_category f) \<le> 60 \<and>
     1 \<le> length (qf_summary f) \<and> length (qf_summary f) \<le> 1000 \<and>
     qf_evidence f \<noteq> [] \<and> length (qf_evidence f) \<le> 20 \<and> list_all evidence_valid (qf_evidence f) \<and>
     length (qf_affected_files f) \<le> 20 \<and> length (qf_task_id f) \<le> 120 \<and>
     0 \<le> qf_confidence f \<and> qf_confidence f \<le> 1"

datatype quality_error = InvalidFinding string | InvalidReport | UnparsableSource | ReviewerFailed

definition build_finding :: "quality_finding \<Rightarrow> (quality_error, quality_finding) res" where
  "build_finding f = (if finding_valid f then Inr f else Inl (InvalidFinding (qf_category f)))"

definition is_blocking :: "quality_finding \<Rightarrow> bool" where
  "is_blocking f \<longleftrightarrow> qf_severity f \<in> {SEV_HIGH, SEV_CRITICAL} \<and> qf_origin f = DETERMINISTIC"

definition normalise_finding :: "quality_finding \<Rightarrow> quality_finding" where
  "normalise_finding f =
     (if qf_origin f = DETERMINISTIC \<and> qf_confidence f < 1 then f\<lparr>qf_confidence := 1\<rparr> else f)"

section \<open>The report and its verdict\<close>

record quality_report =
  qr_task_id :: string
  qr_findings :: "quality_finding list"
  qr_judge_verdict :: "quality_verdict option"
  qr_judge_rationale :: string

definition report_valid :: "quality_report \<Rightarrow> bool" where
  "report_valid r \<longleftrightarrow>
     length (qr_task_id r) \<le> 120 \<and> length (qr_findings r) \<le> 200 \<and> length (qr_judge_rationale r) \<le> 2000"

definition report_blocking :: "quality_report \<Rightarrow> quality_finding list" where
  "report_blocking r = filter is_blocking (qr_findings r)"

definition report_advisories :: "quality_report \<Rightarrow> quality_finding list" where
  "report_advisories r = filter (\<lambda>f. \<not> is_blocking f) (qr_findings r)"

definition by_severity :: "quality_report \<Rightarrow> severity \<Rightarrow> quality_finding list" where
  "by_severity r s = filter (\<lambda>f. qf_severity f = s) (qr_findings r)"

record repair_recommendation =
  rc_finding_category :: string
  rc_action :: string
  rc_target_files :: "string list"
  rc_evidence :: "review_evidence list"

definition recommendations :: "quality_report \<Rightarrow> repair_recommendation list" where
  "recommendations r =
     map (\<lambda>f. \<lparr>rc_finding_category = qf_category f, rc_action = qf_summary f,
                rc_target_files = qf_affected_files f, rc_evidence = take 10 (qf_evidence f)\<rparr>)
       (filter qf_repairable (report_blocking r))"

definition quality_adjudicate :: "quality_report \<Rightarrow> quality_verdict" where
  "quality_adjudicate r =
     (let blocking = report_blocking r in
      if list_ex (\<lambda>f. qf_severity f = SEV_CRITICAL) blocking then QV_BLOCKED
      else if blocking \<noteq> []
      then (if list_all qf_repairable blocking then QV_REPAIR_REQUIRED else QV_BLOCKED)
      else (case qr_judge_verdict r of
              Some v \<Rightarrow>
                if \<not> verdict_merges v then v
                else if report_advisories r \<noteq> [] then QV_PASS_WITH_ADVISORIES else QV_PASS
            | None \<Rightarrow> if report_advisories r \<noteq> [] then QV_PASS_WITH_ADVISORIES else QV_PASS))"

lemma report_blocking_empty:
  "report_blocking r = [] \<longleftrightarrow> (\<forall>f \<in> set (qr_findings r). \<not> is_blocking f)"
  by (simp add: report_blocking_def filter_empty_conv)

lemma merges_iff:
  "verdict_merges (quality_adjudicate r) \<longleftrightarrow>
     (\<forall>f \<in> set (qr_findings r). \<not> is_blocking f) \<and>
     (case qr_judge_verdict r of None \<Rightarrow> True | Some v \<Rightarrow> verdict_merges v)"
  unfolding report_blocking_empty [symmetric]
  by (auto simp: quality_adjudicate_def Let_def verdict_merges_def split: option.splits)

lemma blocking_verdict:
  assumes "report_blocking r \<noteq> []"
  shows "quality_adjudicate r =
    (if (\<forall>f \<in> set (report_blocking r). qf_severity f \<noteq> SEV_CRITICAL \<and> qf_repairable f)
     then QV_REPAIR_REQUIRED else QV_BLOCKED)"
  using assms by (auto simp: quality_adjudicate_def Let_def list_ex_iff list_all_iff)

text \<open>A verdict is at least as strict as another when every merge of it is a merge of the
  other.\<close>

lemma judge_only_lowers:
  "verdict_merges (quality_adjudicate (r\<lparr>qr_judge_verdict := j\<rparr>)) \<Longrightarrow>
     verdict_merges (quality_adjudicate (r\<lparr>qr_judge_verdict := None\<rparr>))"
  by (simp add: merges_iff)

section \<open>Principals\<close>

definition test_scope :: "string list" where
  "test_scope = [''tests/**'', ''test/**'', ''**/test_*.py'', ''**/*_test.py'']"

definition implementation_scope :: "string list" where
  "implementation_scope = [''src/**'', ''lib/**'', ''app/**'']"

definition generated_test_scope :: "string list" where
  "generated_test_scope = [''tests/generated/**'']"

datatype principal =
  PR_CODER | PR_VERIFIER | PR_TESTER | PR_TESTGEN | PR_SECURITY | PR_REVIEWER | PR_JUDGE

definition principal_set :: "string list \<Rightarrow> string list \<Rightarrow> agent_permissions" where
  "principal_set tools writes = \<lparr>p_allowed_tools = tools, p_allowed_read_paths = [''**''],
     p_allowed_write_paths = writes, p_network_access = False\<rparr>"

fun quality_permissions :: "principal \<Rightarrow> agent_permissions option" where
  "quality_permissions PR_VERIFIER = Some (principal_set [''shell.run'', ''filesystem.read''] [])"
| "quality_permissions PR_TESTER = Some (principal_set
     [''filesystem.read'', ''filesystem.search'', ''filesystem.write'', ''shell.run''] test_scope)"
| "quality_permissions PR_TESTGEN =
     Some (principal_set [''filesystem.read'', ''filesystem.write''] generated_test_scope)"
| "quality_permissions PR_SECURITY = Some (principal_set [''filesystem.read'', ''filesystem.search''] [])"
| "quality_permissions PR_REVIEWER =
     Some (principal_set [''filesystem.read'', ''filesystem.search'', ''git.diff''] [])"
| "quality_permissions PR_JUDGE = Some (principal_set [''filesystem.read''] [])"
| "quality_permissions PR_CODER = None"

definition mutating_tools :: "string list" where
  "mutating_tools = [''git.commit'', ''git.branch'', ''git.worktree'', ''filesystem.patch'']"

definition may_write_any :: "agent_permissions \<Rightarrow> bool" where
  "may_write_any p \<longleftrightarrow>
     p_allowed_write_paths p \<noteq> [] \<and>
     (''filesystem.write'' \<in> set (p_allowed_tools p) \<or> ''filesystem.patch'' \<in> set (p_allowed_tools p))"

definition may_execute :: "agent_permissions \<Rightarrow> bool" where
  "may_execute p \<longleftrightarrow> ''shell.run'' \<in> set (p_allowed_tools p)"

definition may_mutate_git :: "agent_permissions \<Rightarrow> bool" where
  "may_mutate_git p \<longleftrightarrow> (\<exists>t \<in> set (p_allowed_tools p). t \<in> set mutating_tools)"

text \<open>Three of them write nothing and run nothing, only the tester both writes and runs, and
  nobody changes the repository.\<close>

lemma principals_separate:
  assumes "quality_permissions pr = Some p"
  shows "\<not> may_mutate_git p" "may_write_any p \<longleftrightarrow> pr \<in> {PR_TESTER, PR_TESTGEN}"
    "may_execute p \<longleftrightarrow> pr \<in> {PR_VERIFIER, PR_TESTER}"
  using assms
  by (cases pr; fastforce simp: principal_set_def may_mutate_git_def may_write_any_def may_execute_def
      mutating_tools_def test_scope_def generated_test_scope_def)+

text \<open>The tester's set contains the tools, the reads and the writes of three others.\<close>

definition permissions_within :: "agent_permissions \<Rightarrow> agent_permissions \<Rightarrow> bool" where
  "permissions_within p q \<longleftrightarrow>
     set (p_allowed_tools p) \<subseteq> set (p_allowed_tools q) \<and>
     set (p_allowed_read_paths p) \<subseteq> set (p_allowed_read_paths q) \<and>
     set (p_allowed_write_paths p) \<subseteq> set (p_allowed_write_paths q)"

lemma tester_is_a_superset:
  "pr \<in> {PR_VERIFIER, PR_SECURITY, PR_JUDGE} \<Longrightarrow>
     permissions_within (the (quality_permissions pr)) (the (quality_permissions PR_TESTER))"
  by (auto simp: permissions_within_def principal_set_def)

end
