(* ===== verification/Scanners.thy ===== *)
theory Scanners
  imports Quality Tool_Gateway
begin

text \<open>
  The deterministic scanners (\<open>edith/quality/scanners.py\<close>): security and review checks over
  the syntax tree of a source file.

  \<open>ast.parse\<close> is an argument, from source text to the tree or the error it raises. The tree
  holds what the scanners look at; every other statement is \<open>QStatement\<close>, every other node
  \<open>QOther\<close>. A finding pydantic refuses to build raises, and the scan with it.
\<close>

section \<open>Syntax trees\<close>

datatype q_constant = CStr string | CTrue | CFalse | COther

datatype q_node =
    QName string
  | QConstant q_constant
  | QAttribute q_node string
  | QCall nat q_node "q_node list" "q_node list"
  | QKeyword "string option" q_node
  | QAssign nat "q_node list" q_node
  | QExceptHandler nat "q_node option" "q_node list"
  | QFunctionDef nat string "q_node list" "q_node list" "q_node list"
  | QReturn nat "q_node list"
  | QRaise nat "q_node list"
  | QPass nat
  | QStatement nat "q_node list"
  | QOther "q_node list"

datatype q_parse = Parsed q_node | SyntaxErr "nat option" string | ParseRaised

fun q_children :: "q_node \<Rightarrow> q_node list" where
  "q_children (QName i) = []"
| "q_children (QConstant c) = []"
| "q_children (QAttribute v a) = [v]"
| "q_children (QCall l f args kws) = f # args @ kws"
| "q_children (QKeyword a v) = [v]"
| "q_children (QAssign l ts v) = ts @ [v]"
| "q_children (QExceptHandler l t body) = (case t of None \<Rightarrow> [] | Some n \<Rightarrow> [n]) @ body"
| "q_children (QFunctionDef l n before body after) = before @ body @ after"
| "q_children (QReturn l cs) = cs"
| "q_children (QRaise l cs) = cs"
| "q_children (QPass l) = []"
| "q_children (QStatement l cs) = cs"
| "q_children (QOther cs) = cs"

fun q_lineno :: "q_node \<Rightarrow> nat" where
  "q_lineno (QCall l f args kws) = l"
| "q_lineno (QAssign l ts v) = l"
| "q_lineno (QExceptHandler l t body) = l"
| "q_lineno (QFunctionDef l n before body after) = l"
| "q_lineno (QReturn l cs) = l"
| "q_lineno (QRaise l cs) = l"
| "q_lineno (QPass l) = l"
| "q_lineno (QStatement l cs) = l"
| "q_lineno n = 0"

lemma size_list_append [simp]: "size_list f (xs @ ys) = size_list f xs + size_list f ys"
  by (induction xs) auto

lemma q_children_smaller: "size_list size (q_children n) < Suc (size n)"
  by (cases n) (auto split: option.splits)

text \<open>\<open>ast.walk\<close>: breadth first.\<close>

function q_walk :: "q_node list \<Rightarrow> q_node list" where
  "q_walk [] = []"
| "q_walk (n # queue) = n # q_walk (queue @ q_children n)"
  by pat_completeness auto
termination
  by (relation "measure (size_list size)") (use q_children_smaller in auto)

section \<open>What the scanners look for\<close>

definition dangerous_calls :: "(string \<times> severity) list" where
  "dangerous_calls = [(''eval'', SEV_CRITICAL), (''exec'', SEV_CRITICAL), (''compile'', SEV_HIGH),
     (''__import__'', SEV_HIGH)]"

definition dangerous_attrs :: "((string \<times> string) \<times> severity) list" where
  "dangerous_attrs =
     [((''os'', ''system''), SEV_CRITICAL), ((''os'', ''popen''), SEV_CRITICAL),
      ((''pickle'', ''loads''), SEV_HIGH), ((''pickle'', ''load''), SEV_HIGH),
      ((''yaml'', ''load''), SEV_HIGH), ((''marshal'', ''loads''), SEV_HIGH),
      ((''subprocess'', ''getoutput''), SEV_HIGH)]"

text \<open>The characters \<open>\w\<close> matches, among the first 256.\<close>

definition regex_word :: "char \<Rightarrow> bool" where
  "regex_word c =
     (word_char c \<or>
      (let n = (of_char c :: nat) in
       n \<in> {170, 178, 179, 181, 185, 186, 188, 189, 190} \<or> (192 \<le> n \<and> n \<noteq> 215 \<and> n \<noteq> 247)))"

definition word_boundary :: "string \<Rightarrow> nat \<Rightarrow> bool" where
  "word_boundary s i \<longleftrightarrow>
     (0 < i \<and> i \<le> length s \<and> regex_word (s ! (i - 1))) \<noteq> (i < length s \<and> regex_word (s ! i))"

definition secret_words :: "string list" where
  "secret_words = [''password'', ''passwd'', ''secret'', ''api_key'', ''apikey'', ''access_key'',
     ''token'', ''private_key'', ''credential'']"

text \<open>\<open>_SECRET_NAMES.search(name)\<close>: one of the words between two word boundaries.\<close>

definition secret_name :: "string \<Rightarrow> bool" where
  "secret_name name =
     (let s = py_lower name in
      list_ex (\<lambda>i. word_boundary s i \<and>
        list_ex (\<lambda>w. starts_with (drop i s) w \<and> word_boundary s (i + length w)) secret_words)
        [0..<Suc (length s)])"

definition min_secret_length :: nat where
  "min_secret_length = 8"

definition placeholders :: "string list" where
  "placeholders = ['''', ''none'', ''null'', ''changeme'', ''your_password_here'', ''xxx'', ''todo'',
     ''example'', ''placeholder'', ''redacted'', ''dummy'', ''test'', ''fake'', ''<password>'', ''...'',
     ''secret'', ''password'']"

definition log_methods :: "string list" where
  "log_methods = [''debug'', ''info'', ''warning'', ''warn'', ''error'', ''critical'', ''exception'', ''log'']"

fun call_name :: "q_node \<Rightarrow> string" where
  "call_name (QName i) = i"
| "call_name f = []"

fun attr_pair :: "q_node \<Rightarrow> (string \<times> string) option" where
  "attr_pair (QAttribute (QName m) a) = Some (m, a)"
| "attr_pair f = None"

definition scan_evidence :: "string \<Rightarrow> string \<Rightarrow> nat \<Rightarrow> string \<Rightarrow> review_evidence" where
  "scan_evidence src path line detail =
     \<lparr>ev_source = src, ev_detail = take 4000 detail, ev_file = path, ev_line = Some line\<rparr>"

type_synonym scan_result = "(quality_error, quality_finding) res"

definition scan_finding ::
    "string \<Rightarrow> severity \<Rightarrow> string \<Rightarrow> string \<Rightarrow> nat \<Rightarrow> string \<Rightarrow> string \<Rightarrow> scan_result" where
  "scan_finding category sev summary path line detail scanner =
     build_finding \<lparr>qf_category = category, qf_severity = sev, qf_summary = summary,
       qf_evidence = [scan_evidence scanner path line detail], qf_affected_files = [path],
       qf_task_id = [], qf_origin = DETERMINISTIC, qf_failure_category = None,
       qf_repairable = True, qf_confidence = 1\<rparr>"

text \<open>The generators are consumed in order; the first that raises ends the scan.\<close>

fun all_results :: "('e, 'a) res list \<Rightarrow> ('e, 'a list) res" where
  "all_results [] = Inr []"
| "all_results (r # rs) = res_bind r (\<lambda>x. res_bind (all_results rs) (\<lambda>xs. Inr (x # xs)))"

definition line_text :: "string \<Rightarrow> nat \<Rightarrow> string" where
  "line_text content n =
     (let lines = split_lines [] (universal_newlines content) in
      if 1 \<le> n \<and> n \<le> length lines then py_strip (lines ! (n - 1)) else [])"

section \<open>Security\<close>

definition call_findings :: "q_node \<Rightarrow> string \<Rightarrow> nat \<Rightarrow> string \<Rightarrow> scan_result list" where
  "call_findings f path line txt =
     (case map_of dangerous_calls (call_name f) of
        None \<Rightarrow> []
      | Some sev \<Rightarrow> [scan_finding ''code-injection'' sev (call_name f @ ''() executes arbitrary code'')
                      path line txt ''ast:dangerous-call'']) @
     (case attr_pair f of
        None \<Rightarrow> []
      | Some pair \<Rightarrow>
          (case map_of dangerous_attrs pair of
             None \<Rightarrow> []
           | Some sev \<Rightarrow>
               [scan_finding
                  (if fst pair = ''os'' \<or> snd pair = ''getoutput'' then ''command-injection''
                   else ''unsafe-deserialization'') sev
                  (fst pair @ ''.'' @ snd pair @ ''() is unsafe on untrusted input'')
                  path line txt ''ast:dangerous-attribute'']))"

definition keyword_findings :: "string \<Rightarrow> nat \<Rightarrow> string \<Rightarrow> q_node \<Rightarrow> scan_result list" where
  "keyword_findings path line txt kw =
     (case kw of
        QKeyword (Some arg) (QConstant c) \<Rightarrow>
          (if arg = ''shell'' \<and> c = CTrue
           then [scan_finding ''command-injection'' SEV_CRITICAL ''shell=True passes the command through a shell''
                   path line txt ''ast:shell-true''] else []) @
          (if arg = ''verify'' \<and> c = CFalse
           then [scan_finding ''insecure-configuration'' SEV_HIGH ''TLS certificate verification is disabled''
                   path line txt ''ast:verify-false''] else [])
      | _ \<Rightarrow> [])"

definition traversal_findings :: "q_node \<Rightarrow> string \<Rightarrow> nat \<Rightarrow> string \<Rightarrow> q_node \<Rightarrow> scan_result list" where
  "traversal_findings f path line txt argument =
     (if call_name f = ''open'' \<or> attr_pair f \<in> {Some (''os'', ''remove''), Some (''shutil'', ''rmtree'')}
      then (case argument of
              QConstant (CStr v) \<Rightarrow>
                if ''..'' \<in> set (split_on (CHR ''/'') (fwd_slashes v))
                then [scan_finding ''path-traversal'' SEV_HIGH
                        (''a filesystem path escapes its directory with '' @ [CHR 0x27] @ ''..'' @ [CHR 0x27])
                        path line txt ''ast:path-traversal'']
                else []
            | _ \<Rightarrow> [])
      else [])"

definition is_secret_literal :: "q_constant \<Rightarrow> bool" where
  "is_secret_literal c =
     (case c of
        CStr v \<Rightarrow>
          (let stripped = py_strip v in
           min_secret_length \<le> length stripped \<and> py_lower stripped \<notin> set placeholders \<and>
           \<not> (starts_with stripped ''${'' \<or> starts_with stripped ''{''))
      | _ \<Rightarrow> False)"

fun target_name :: "q_node \<Rightarrow> string" where
  "target_name (QName i) = i"
| "target_name (QAttribute v a) = a"
| "target_name t = []"

definition secret_finding :: "string \<Rightarrow> nat \<Rightarrow> q_node \<Rightarrow> scan_result list" where
  "secret_finding path line target =
     (let name = target_name target in
      if name \<noteq> [] \<and> secret_name name
      then [scan_finding ''secret-exposure'' SEV_CRITICAL (''a credential appears to be hardcoded in '' @ name)
              path line (name @ '' = <redacted literal>'') ''ast:hardcoded-secret'']
      else [])"

definition node_findings :: "string \<Rightarrow> (nat \<Rightarrow> string) \<Rightarrow> q_node \<Rightarrow> scan_result list" where
  "node_findings path line_of n =
     (case n of
        QCall l f args kws \<Rightarrow>
          call_findings f path l (line_of l) @
          concat (map (keyword_findings path l (line_of l)) kws) @
          concat (map (traversal_findings f path l (line_of l)) args)
      | QAssign l targets (QConstant c) \<Rightarrow>
          if is_secret_literal c then concat (map (secret_finding path l) targets) else []
      | _ \<Rightarrow> [])"

definition logging_call :: "q_node \<Rightarrow> bool" where
  "logging_call f \<longleftrightarrow>
     (case attr_pair f of None \<Rightarrow> False | Some (m, a) \<Rightarrow> a \<in> set log_methods) \<or>
     (case f of QAttribute v a \<Rightarrow> a \<in> set log_methods | _ \<Rightarrow> False)"

fun names_in :: "q_node list \<Rightarrow> string list" where
  "names_in [] = []"
| "names_in (QName i # ns) = i # names_in ns"
| "names_in (QAttribute v a # ns) = a # names_in ns"
| "names_in (n # ns) = names_in ns"

definition keyword_value :: "q_node \<Rightarrow> q_node" where
  "keyword_value k = (case k of QKeyword a v \<Rightarrow> v | _ \<Rightarrow> k)"

definition logs_secret :: "q_node \<Rightarrow> bool" where
  "logs_secret n \<longleftrightarrow>
     (case n of
        QCall l f args kws \<Rightarrow>
          logging_call f \<and>
          list_ex (\<lambda>a. list_ex secret_name (names_in (q_walk [a]))) (args @ map keyword_value kws)
      | _ \<Rightarrow> False)"

text \<open>The scan for logged secrets returns at the first.\<close>

definition logging_findings :: "string \<Rightarrow> (nat \<Rightarrow> string) \<Rightarrow> q_node list \<Rightarrow> scan_result list" where
  "logging_findings path line_of ns =
     (case find logs_secret ns of
        None \<Rightarrow> []
      | Some n \<Rightarrow> [scan_finding ''sensitive-logging'' SEV_HIGH ''a credential-named value is written to the log''
                    path (q_lineno n) (line_of (q_lineno n)) ''ast:secret-logging''])"

definition scan_security :: "(string \<Rightarrow> q_parse) \<Rightarrow> string \<Rightarrow> string \<Rightarrow> (quality_error, quality_finding list) res" where
  "scan_security parse path content =
     (case parse content of
        ParseRaised \<Rightarrow> Inl UnparsableSource
      | SyntaxErr l msg \<Rightarrow>
          all_results [scan_finding ''security-scan'' SEV_CRITICAL
            ''the file could not be parsed, so it was not security-scanned'' path
            (max 1 (case l of None \<Rightarrow> 1 | Some k \<Rightarrow> if k = 0 then 1 else k)) (''SyntaxError: '' @ msg) ''ast.parse'']
      | Parsed tree \<Rightarrow>
          (let ns = q_walk [tree] in
           all_results (concat (map (node_findings path (line_text content)) ns) @
                        logging_findings path (line_text content) ns)))"

section \<open>Review\<close>

definition is_pass :: "q_node \<Rightarrow> bool" where
  "is_pass n \<longleftrightarrow> (case n of QPass l \<Rightarrow> True | _ \<Rightarrow> False)"

definition ends_flow :: "q_node \<Rightarrow> bool" where
  "ends_flow n \<longleftrightarrow> (case n of QReturn l cs \<Rightarrow> True | QRaise l cs \<Rightarrow> True | _ \<Rightarrow> False)"

definition blanket_handler :: "q_node option \<Rightarrow> bool" where
  "blanket_handler t \<longleftrightarrow>
     (case t of None \<Rightarrow> True | Some (QName i) \<Rightarrow> i \<in> {''Exception'', ''BaseException''} | _ \<Rightarrow> False)"

fun dead_code :: "string \<Rightarrow> (nat \<Rightarrow> string) \<Rightarrow> string \<Rightarrow> q_node list \<Rightarrow> scan_result list" where
  "dead_code path line_of name (statement # following # rest) =
     (if ends_flow statement
      then [scan_finding ''dead-code'' SEV_MEDIUM
              (''code after an unconditional return in '' @ name @ ''() is unreachable'') path
              (q_lineno following) (line_of (q_lineno following)) ''ast:dead-code'']
      else dead_code path line_of name (following # rest))"
| "dead_code path line_of name ss = []"

definition review_findings :: "string \<Rightarrow> (nat \<Rightarrow> string) \<Rightarrow> q_node \<Rightarrow> scan_result list" where
  "review_findings path line_of n =
     (case n of
        QExceptHandler l t body \<Rightarrow>
          if list_all is_pass body \<and> blanket_handler t
          then [scan_finding ''error-handling'' SEV_HIGH ''an exception handler silently discards every error''
                  path l (line_of l) ''ast:swallowed-exception''] else []
      | QFunctionDef l name before body after \<Rightarrow> dead_code path line_of name body
      | _ \<Rightarrow> [])"

definition scan_review :: "(string \<Rightarrow> q_parse) \<Rightarrow> string \<Rightarrow> string \<Rightarrow> (quality_error, quality_finding list) res" where
  "scan_review parse path content =
     (case parse content of
        ParseRaised \<Rightarrow> Inl UnparsableSource
      | SyntaxErr l msg \<Rightarrow> Inr []
      | Parsed tree \<Rightarrow>
          all_results (concat (map (review_findings path (line_text content)) (q_walk [tree]))))"

section \<open>The nodes a walk visits\<close>

inductive q_within :: "q_node \<Rightarrow> q_node \<Rightarrow> bool" where
  here [intro]: "q_within n n"
| below: "c \<in> set (q_children n) \<Longrightarrow> q_within m c \<Longrightarrow> q_within m n"

lemma q_within_iff: "q_within m n \<longleftrightarrow> m = n \<or> (\<exists>c \<in> set (q_children n). q_within m c)"
  by (subst q_within.simps) auto

lemma set_q_walk: "m \<in> set (q_walk ns) \<longleftrightarrow> (\<exists>n \<in> set ns. q_within m n)"
proof (induction ns rule: q_walk.induct)
  case (2 n queue)
  then show ?case using q_within_iff [of m n] by auto
qed simp

section \<open>What a scan returns\<close>

lemma all_results_Inr: "all_results rs = Inr xs \<longleftrightarrow> rs = map Inr xs"
proof (induction rs arbitrary: xs)
  case (Cons r rs)
  then show ?case by (cases r; cases xs) (auto simp: res_simps)
qed auto

lemma scan_finding_Inr:
  assumes "scan_finding category sev summary path line detail scanner = Inr f"
  shows "qf_severity f = sev" "qf_origin f = DETERMINISTIC" "qf_category f = category"
    "qf_affected_files f = [path]" "qf_repairable f" "finding_valid f" "qf_confidence f = 1"
  using assms by (auto simp: scan_finding_def build_finding_def split: if_splits)

definition deterministic_about :: "string \<Rightarrow> scan_result \<Rightarrow> bool" where
  "deterministic_about path r \<longleftrightarrow>
     (\<forall>f. r = Inr f \<longrightarrow> qf_origin f = DETERMINISTIC \<and> finding_valid f \<and> qf_affected_files f = [path] \<and>
        qf_repairable f \<and> qf_confidence f = 1)"

lemma deterministic_scan_finding [simp]:
  "deterministic_about path (scan_finding category sev summary path line detail scanner)"
  using scan_finding_Inr by (auto simp: deterministic_about_def)

lemma deterministic_node: "r \<in> set (node_findings path line_of n) \<Longrightarrow> deterministic_about path r"
  by (auto simp: node_findings_def call_findings_def keyword_findings_def traversal_findings_def
      secret_finding_def Let_def split: q_node.splits option.splits q_constant.splits if_splits)

lemma deterministic_logging: "r \<in> set (logging_findings path line_of ns) \<Longrightarrow> deterministic_about path r"
  by (auto simp: logging_findings_def split: option.splits)

lemma deterministic_dead: "r \<in> set (dead_code path line_of name ss) \<Longrightarrow> deterministic_about path r"
  by (induction path line_of name ss rule: dead_code.induct) (auto split: if_splits)

lemma deterministic_review: "r \<in> set (review_findings path line_of n) \<Longrightarrow> deterministic_about path r"
  by (auto simp: review_findings_def deterministic_dead split: q_node.splits if_splits)

lemma deterministic_results:
  assumes "all_results rs = Inr fs" "\<And>r. r \<in> set rs \<Longrightarrow> deterministic_about path r" "f \<in> set fs"
  shows "qf_origin f = DETERMINISTIC \<and> finding_valid f \<and> qf_affected_files f = [path] \<and>
    qf_repairable f \<and> qf_confidence f = 1"
proof -
  have "Inr f \<in> set rs" using assms(1,3) by (auto simp: all_results_Inr)
  then show ?thesis using assms(2) by (auto simp: deterministic_about_def)
qed

lemma scan_security_deterministic:
  assumes "scan_security parse path content = Inr fs" "f \<in> set fs"
  shows "qf_origin f = DETERMINISTIC \<and> finding_valid f \<and> qf_affected_files f = [path] \<and>
    qf_repairable f \<and> qf_confidence f = 1"
proof (cases "parse content")
  case (Parsed tree)
  define rs where "rs = concat (map (node_findings path (line_text content)) (q_walk [tree])) @
    logging_findings path (line_text content) (q_walk [tree])"
  have "all_results rs = Inr fs" using assms(1) Parsed by (simp add: scan_security_def rs_def)
  then show ?thesis
    by (rule deterministic_results [OF _ _ assms(2)])
      (auto simp: rs_def intro: deterministic_node deterministic_logging)
next
  case (SyntaxErr l msg)
  define r where "r = scan_finding ''security-scan'' SEV_CRITICAL
      ''the file could not be parsed, so it was not security-scanned'' path
      (max 1 (case l of None \<Rightarrow> 1 | Some k \<Rightarrow> if k = 0 then 1 else k)) (''SyntaxError: '' @ msg) ''ast.parse''"
  have "all_results [r] = Inr fs" using assms(1) SyntaxErr by (simp only: scan_security_def r_def q_parse.case)
  then show ?thesis by (rule deterministic_results [OF _ _ assms(2)]) (simp add: r_def)
qed (use assms in \<open>simp add: scan_security_def\<close>)

lemma scan_review_deterministic:
  assumes "scan_review parse path content = Inr fs" "f \<in> set fs"
  shows "qf_origin f = DETERMINISTIC \<and> finding_valid f \<and> qf_affected_files f = [path] \<and>
    qf_repairable f \<and> qf_confidence f = 1"
proof (cases "parse content")
  case (Parsed tree)
  have "all_results (concat (map (review_findings path (line_text content)) (q_walk [tree]))) = Inr fs"
    using assms(1) Parsed by (simp add: scan_review_def)
  then show ?thesis
    by (rule deterministic_results [OF _ _ assms(2)]) (auto intro: deterministic_review)
qed (use assms in \<open>simp_all add: scan_review_def\<close>)

section \<open>Which defects are critical\<close>

definition critical_node :: "q_node \<Rightarrow> bool" where
  "critical_node n \<longleftrightarrow>
     (case n of
        QCall l f args kws \<Rightarrow>
          call_name f \<in> {''eval'', ''exec''} \<or>
          attr_pair f \<in> {Some (''os'', ''system''), Some (''os'', ''popen'')} \<or>
          QKeyword (Some ''shell'') (QConstant CTrue) \<in> set kws
      | QAssign l ts (QConstant c) \<Rightarrow>
          is_secret_literal c \<and> (\<exists>t \<in> set ts. target_name t \<noteq> [] \<and> secret_name (target_name t))
      | _ \<Rightarrow> False)"

definition critical_result :: "scan_result \<Rightarrow> bool" where
  "critical_result r \<longleftrightarrow> (\<exists>f. r = Inr f \<and> qf_severity f = SEV_CRITICAL)"

lemma critical_scan_finding [simp]:
  "critical_result (scan_finding category sev summary path line detail scanner) \<longleftrightarrow>
     sev = SEV_CRITICAL \<and> is_ok (scan_finding category sev summary path line detail scanner)"
  using scan_finding_Inr(1) unfolding critical_result_def is_ok_iff by blast

lemma dangerous_calls_critical:
  "map_of dangerous_calls n = Some SEV_CRITICAL \<longleftrightarrow> n \<in> {''eval'', ''exec''}"
  by (simp add: dangerous_calls_def)

lemma dangerous_attrs_critical:
  "map_of dangerous_attrs p = Some SEV_CRITICAL \<longleftrightarrow> p \<in> {(''os'', ''system''), (''os'', ''popen'')}"
  by (cases p) (simp add: dangerous_attrs_def)

lemma critical_dangerous_call:
  assumes "\<forall>sev. map_of dangerous_calls (call_name f) = Some sev \<longrightarrow>
    is_ok (scan_finding ''code-injection'' sev (call_name f @ ''() executes arbitrary code'') path line txt ''ast:dangerous-call'')"
  shows "(\<exists>r \<in> set (case map_of dangerous_calls (call_name f) of
        None \<Rightarrow> []
      | Some sev \<Rightarrow> [scan_finding ''code-injection'' sev (call_name f @ ''() executes arbitrary code'')
                      path line txt ''ast:dangerous-call'']). critical_result r) \<longleftrightarrow>
    call_name f \<in> {''eval'', ''exec''}"
  using assms dangerous_calls_critical [of "call_name f"] by (cases "map_of dangerous_calls (call_name f)") auto

lemma critical_call:
  assumes "\<forall>r \<in> set (call_findings f path line txt). is_ok r"
  shows "(\<exists>r \<in> set (call_findings f path line txt). critical_result r) \<longleftrightarrow>
    call_name f \<in> {''eval'', ''exec''} \<or> attr_pair f \<in> {Some (''os'', ''system''), Some (''os'', ''popen'')}"
proof -
  define attr where "attr = (case attr_pair f of
        None \<Rightarrow> []
      | Some pair \<Rightarrow>
          (case map_of dangerous_attrs pair of
             None \<Rightarrow> []
           | Some sev \<Rightarrow>
               [scan_finding
                  (if fst pair = ''os'' \<or> snd pair = ''getoutput'' then ''command-injection''
                   else ''unsafe-deserialization'') sev
                  (fst pair @ ''.'' @ snd pair @ ''() is unsafe on untrusted input'')
                  path line txt ''ast:dangerous-attribute'']))"
  define call where "call = (case map_of dangerous_calls (call_name f) of
        None \<Rightarrow> []
      | Some sev \<Rightarrow> [scan_finding ''code-injection'' sev (call_name f @ ''() executes arbitrary code'')
                      path line txt ''ast:dangerous-call''])"
  have split: "call_findings f path line txt = call @ attr"
    unfolding call_findings_def call_def attr_def by (rule refl)
  have "\<forall>r \<in> set call. is_ok r" "\<forall>r \<in> set attr. is_ok r" using assms unfolding split by auto
  then have c: "(\<exists>r \<in> set call. critical_result r) \<longleftrightarrow> call_name f \<in> {''eval'', ''exec''}"
    unfolding call_def by (intro critical_dangerous_call) (auto split: option.splits)
  have "(\<exists>r \<in> set attr. critical_result r) \<longleftrightarrow>
      (\<exists>p. attr_pair f = Some p \<and> map_of dangerous_attrs p = Some SEV_CRITICAL)"
  proof (cases "attr_pair f")
    case (Some p)
    then show ?thesis using \<open>\<forall>r \<in> set attr. is_ok r\<close>
      by (cases "map_of dangerous_attrs p") (simp_all add: attr_def)
  qed (simp add: attr_def)
  also have "\<dots> \<longleftrightarrow> attr_pair f \<in> {Some (''os'', ''system''), Some (''os'', ''popen'')}"
    unfolding dangerous_attrs_critical by auto
  finally show ?thesis using c unfolding split by (simp only: set_append bex_Un)
qed

lemma critical_keyword:
  assumes "\<forall>r \<in> set (keyword_findings path line txt kw). is_ok r"
  shows "(\<exists>r \<in> set (keyword_findings path line txt kw). critical_result r) \<longleftrightarrow>
    kw = QKeyword (Some ''shell'') (QConstant CTrue)"
proof (cases "\<exists>arg c. kw = QKeyword (Some arg) (QConstant c)")
  case True
  then obtain arg c where "kw = QKeyword (Some arg) (QConstant c)" by blast
  then show ?thesis using assms
    by (cases "arg = ''shell'' \<and> c = CTrue"; cases "arg = ''verify'' \<and> c = CFalse")
      (auto simp: keyword_findings_def)
next
  case False
  then show ?thesis by (auto simp: keyword_findings_def split: q_node.splits option.splits)
qed

lemma traversal_cases:
  "traversal_findings f path line txt a = [] \<or>
   traversal_findings f path line txt a =
     [scan_finding ''path-traversal'' SEV_HIGH
        (''a filesystem path escapes its directory with '' @ [CHR 0x27] @ ''..'' @ [CHR 0x27])
        path line txt ''ast:path-traversal'']"
proof (cases "\<exists>v. a = QConstant (CStr v)")
  case True
  then obtain v where "a = QConstant (CStr v)" by blast
  then show ?thesis unfolding traversal_findings_def by (simp only: q_node.case q_constant.case) metis
next
  case False
  then show ?thesis unfolding traversal_findings_def by (cases a) (auto split: q_constant.splits)
qed

lemma critical_traversal:
  assumes "r \<in> set (traversal_findings f path line txt a)"
  shows "\<not> critical_result r"
  using assms traversal_cases [of f path line "txt" a] by (metis critical_scan_finding empty_iff empty_set
      set_ConsD severity.distinct(19))

lemma critical_secret:
  assumes "\<forall>r \<in> set (secret_finding path line t). is_ok r"
  shows "(\<exists>r \<in> set (secret_finding path line t). critical_result r) \<longleftrightarrow>
    target_name t \<noteq> [] \<and> secret_name (target_name t)"
  using assms by (auto simp: secret_finding_def Let_def)

lemma critical_node_findings:
  assumes ok: "\<forall>r \<in> set (node_findings path line_of n). is_ok r"
  shows "(\<exists>r \<in> set (node_findings path line_of n). critical_result r) \<longleftrightarrow> critical_node n"
proof (cases n)
  case (QCall l f args kws)
  have c: "\<forall>r \<in> set (call_findings f path l (line_of l)). is_ok r"
    and k: "\<And>kw. kw \<in> set kws \<Longrightarrow> \<forall>r \<in> set (keyword_findings path l (line_of l) kw). is_ok r"
    and a: "\<And>x. x \<in> set args \<Longrightarrow> \<forall>r \<in> set (traversal_findings f path l (line_of l) x). is_ok r"
    using ok QCall by (auto simp: node_findings_def)
  have "(\<exists>r \<in> set (node_findings path line_of n). critical_result r) \<longleftrightarrow>
      (\<exists>r \<in> set (call_findings f path l (line_of l)). critical_result r) \<or>
      (\<exists>kw \<in> set kws. \<exists>r \<in> set (keyword_findings path l (line_of l) kw). critical_result r)"
    using critical_traversal QCall by (auto simp: node_findings_def)
  also have "\<dots> \<longleftrightarrow> critical_node n"
    using critical_call [OF c] critical_keyword [OF k] QCall by (auto simp: critical_node_def)
  finally show ?thesis .
next
  case (QAssign l ts v)
  show ?thesis
  proof (cases "\<exists>c. v = QConstant c \<and> is_secret_literal c")
    case True
    then obtain c where v: "v = QConstant c" "is_secret_literal c" by blast
    have "\<And>t. t \<in> set ts \<Longrightarrow> \<forall>r \<in> set (secret_finding path l t). is_ok r"
      using ok QAssign v by (auto simp: node_findings_def)
    then show ?thesis using critical_secret QAssign v by (auto simp: node_findings_def critical_node_def)
  next
    case False
    then show ?thesis using QAssign by (auto simp: node_findings_def critical_node_def split: q_node.splits)
  qed
qed (simp_all add: node_findings_def critical_node_def)

lemma critical_logging:
  "r \<in> set (logging_findings path line_of ns) \<Longrightarrow> \<not> critical_result r"
  by (auto simp: logging_findings_def split: option.splits)

lemma scan_security_critical:
  assumes "parse content = Parsed tree" "scan_security parse path content = Inr fs"
  shows "(\<exists>f \<in> set fs. qf_severity f = SEV_CRITICAL) \<longleftrightarrow> (\<exists>n. q_within n tree \<and> critical_node n)"
proof -
  define per where "per = concat (map (node_findings path (line_text content)) (q_walk [tree]))"
  define lg where "lg = logging_findings path (line_text content) (q_walk [tree])"
  have rs: "per @ lg = map Inr fs"
    using assms by (simp add: scan_security_def all_results_Inr per_def lg_def)
  have ok: "\<forall>r \<in> set (per @ lg). is_ok r" unfolding rs by auto
  have "(\<exists>f \<in> set fs. qf_severity f = SEV_CRITICAL) \<longleftrightarrow> (\<exists>r \<in> set (per @ lg). critical_result r)"
    unfolding rs by (auto simp: critical_result_def)
  also have "\<dots> \<longleftrightarrow> (\<exists>r \<in> set per. critical_result r)"
    using critical_logging unfolding lg_def by auto
  also have "\<dots> \<longleftrightarrow> (\<exists>n \<in> set (q_walk [tree]). \<exists>r \<in> set (node_findings path (line_text content) n). critical_result r)"
    by (auto simp: per_def)
  also have "\<dots> \<longleftrightarrow> (\<exists>n \<in> set (q_walk [tree]). critical_node n)"
  proof (rule bex_cong [OF refl])
    fix n
    assume "n \<in> set (q_walk [tree])"
    then have "\<forall>r \<in> set (node_findings path (line_text content) n). is_ok r" using ok by (auto simp: per_def)
    then show "(\<exists>r \<in> set (node_findings path (line_text content) n). critical_result r) \<longleftrightarrow> critical_node n"
      by (rule critical_node_findings)
  qed
  also have "\<dots> \<longleftrightarrow> (\<exists>n. q_within n tree \<and> critical_node n)"
    unfolding Bex_def set_q_walk by simp
  finally show ?thesis .
qed

text \<open>A file that does not parse as Python is a critical defect, whatever it holds.\<close>

lemma scan_security_unparsable:
  assumes "parse content = SyntaxErr l msg" "scan_security parse path content = Inr fs"
  shows "\<exists>f. fs = [f] \<and> is_blocking f \<and> qf_severity f = SEV_CRITICAL"
proof -
  obtain f where "fs = [f]" and r: "scan_finding ''security-scan'' SEV_CRITICAL
      ''the file could not be parsed, so it was not security-scanned'' path
      (max 1 (case l of None \<Rightarrow> 1 | Some k \<Rightarrow> if k = 0 then 1 else k)) (''SyntaxError: '' @ msg) ''ast.parse'' = Inr f"
    using assms by (auto simp: scan_security_def res_simps)
  then show ?thesis using scan_finding_Inr [OF r] by (simp add: is_blocking_def)
qed

section \<open>Secret names\<close>

lemma boundary_inside:
  assumes "\<forall>c \<in> set s. regex_word c" "i \<le> length s"
  shows "word_boundary s i \<longleftrightarrow> s \<noteq> [] \<and> (i = 0 \<or> i = length s)"
proof -
  have "\<And>k. k < length s \<Longrightarrow> regex_word (s ! k)" using assms(1) nth_mem by blast
  then show ?thesis using assms(2) by (cases "s = []") (auto simp: word_boundary_def)
qed

text \<open>An identifier is a secret name only when all of it is one of the words: an underscore is a
  word character, so \<open>db_password\<close> is none.\<close>

lemma secret_name_whole:
  assumes "\<forall>c \<in> set (py_lower name). regex_word c"
  shows "secret_name name \<longleftrightarrow> py_lower name \<in> set secret_words"
proof -
  define s where "s = py_lower name"
  have b: "\<And>i. i \<le> length s \<Longrightarrow> word_boundary s i \<longleftrightarrow> s \<noteq> [] \<and> (i = 0 \<or> i = length s)"
    using boundary_inside assms by (simp add: s_def)
  have ne: "\<And>w. w \<in> set secret_words \<Longrightarrow> w \<noteq> []" by (auto simp: secret_words_def)
  have "secret_name name \<longleftrightarrow>
      (\<exists>i \<le> length s. \<exists>w \<in> set secret_words. word_boundary s i \<and> starts_with (drop i s) w \<and> word_boundary s (i + length w))"
    unfolding secret_name_def Let_def list_ex_iff s_def [symmetric] Bex_def set_upt atLeast0LessThan lessThan_iff
      less_Suc_eq_le by blast
  also have "\<dots> \<longleftrightarrow> s \<in> set secret_words"
  proof
    assume "\<exists>i \<le> length s. \<exists>w \<in> set secret_words. word_boundary s i \<and> starts_with (drop i s) w \<and> word_boundary s (i + length w)"
    then obtain i w where i: "i \<le> length s" "word_boundary s i" "starts_with (drop i s) w"
      "word_boundary s (i + length w)" and w: "w \<in> set secret_words" by blast
    have len: "i + length w \<le> length s"
      using i(1,3) prefix_length_le [of w "drop i s"] by (simp add: starts_with_def)
    have "s \<noteq> []" "i = 0 \<or> i = length s" using b [OF i(1)] i(2) by auto
    moreover have "i \<noteq> length s" using len ne [OF w] by auto
    ultimately have i0: "i = 0" by blast
    then have "length w = length s" using b [OF len] i(4) ne [OF w] by auto
    then have "s = w" using i(3) i0 by (auto simp: starts_with_def prefix_def)
    then show "s \<in> set secret_words" using w by simp
  next
    assume w: "s \<in> set secret_words"
    then have "s \<noteq> []" using ne by blast
    then have "word_boundary s 0" "word_boundary s (0 + length s)" using b by auto
    then show "\<exists>i \<le> length s. \<exists>w \<in> set secret_words. word_boundary s i \<and> starts_with (drop i s) w \<and> word_boundary s (i + length w)"
      using w by (intro exI [of _ 0] conjI bexI [of _ s]) (auto simp: starts_with_def)
  qed
  finally show ?thesis by (simp add: s_def)
qed

end
