(* ===== verification/Memory_Writers.thy ===== *)
theory Memory_Writers
  imports Memory_Retrieval Scanners
begin

text \<open>
  What may become a memory: \<open>edith/memory/validation.py\<close> and \<open>MemoryStore.propose\<close> of
  \<open>edith/memory/store.py\<close>. The seven patterns for credentials are written out as matchers
  that take the character before a place and the text from there on and give the length
  of the match, if there is one: each is deterministic, as no pattern has two ways of
  matching at one place (a greedy run is followed by something the run cannot contain, or
  by a word boundary no shorter run has). Text is Latin-1 as elsewhere;
  the clock and the new identifier are arguments.
\<close>

section \<open>Patterns for credentials\<close>

text \<open>\<open>regex_word\<close> on the bits of the character, for evaluation.\<close>

lemma regex_word_bits [code]:
  "regex_word (Char b0 b1 b2 b3 b4 b5 b6 b7) =
     (if b7 then
        (if b6 then \<not> (b4 \<and> \<not> b3 \<and> b2 \<and> b1 \<and> b0)
         else b5 \<and> (if b4 then (if b3 then (if b2 then \<not> (b1 \<and> b0) else b1 \<noteq> b0)
                               else (if b2 then \<not> b1 \<and> b0 else b1))
                   else b3 \<and> \<not> b2 \<and> b1 \<and> \<not> b0))
      else word_char (Char b0 b1 b2 b3 b4 b5 b6 False))"
  by (cases b7; cases b6; cases b5; cases b4; cases b3; cases b2; cases b1; cases b0)
    (simp_all add: regex_word_def word_char_def word_start_def Let_def of_char_Char)

type_synonym matcher = "char option \<Rightarrow> string \<Rightarrow> nat option"

definition at_boundary :: "char option \<Rightarrow> string \<Rightarrow> bool" where
  "at_boundary prev s \<longleftrightarrow>
     (case prev of None \<Rightarrow> False | Some c \<Rightarrow> regex_word c) \<noteq>
     (case s of [] \<Rightarrow> False | c # _ \<Rightarrow> regex_word c)"

definition credential_words :: "string list" where
  "credential_words = [''apikey'', ''api_key'', ''api-key'', ''secret'', ''password'', ''passwd'',
     ''token'', ''credential'']"

definition credential_word :: "char option \<Rightarrow> string \<Rightarrow> string option" where
  "credential_word prev s =
     (if at_boundary prev s
      then find (\<lambda>w. starts_with (py_lower s) w \<and>
                     at_boundary (Some (last w)) (drop (length w) s)) credential_words
      else None)"

definition assignment_at :: matcher where
  "assignment_at prev s =
     (case credential_word prev s of
        None \<Rightarrow> None
      | Some w \<Rightarrow>
          let rest = drop (length w) s; gap = takeWhile is_space rest
          in (case drop (length gap) rest of
                [] \<Rightarrow> None
              | c # rest' \<Rightarrow>
                  let gap' = takeWhile is_space rest';
                      val = takeWhile (\<lambda>x. \<not> is_space x) (drop (length gap') rest')
                  in if (c = CHR '':'' \<or> c = CHR ''='') \<and> val \<noteq> []
                     then Some (length w + length gap + 1 + length gap' + length val) else None))"

definition alnum :: "char \<Rightarrow> bool" where
  "alnum c \<longleftrightarrow> word_char c \<and> c \<noteq> CHR ''_''"

definition upper :: "char \<Rightarrow> bool" where
  "upper c \<longleftrightarrow> (let n = (of_char c :: nat) in 65 \<le> n \<and> n \<le> 90)"

definition upper_or_digit :: "char \<Rightarrow> bool" where
  "upper_or_digit c \<longleftrightarrow> (let n = (of_char c :: nat) in (65 \<le> n \<and> n \<le> 90) \<or> (48 \<le> n \<and> n \<le> 57))"

definition bearer_at :: matcher where
  "bearer_at prev s =
     (let rest = drop 6 s; gap = takeWhile is_space rest;
          tok = takeWhile (\<lambda>c. word_char c \<or> c = CHR ''.'' \<or> c = CHR ''-'') (drop (length gap) rest)
      in if at_boundary prev s \<and> starts_with (py_lower s) ''bearer'' \<and> gap \<noteq> [] \<and> 16 \<le> length tok
         then Some (6 + length gap + length tok) else None)"

text \<open>\<open>\bsk-[A-Za-z0-9]{16,}\b\<close> and \<open>\bghp_[A-Za-z0-9]{20,}\b\<close>.\<close>

definition prefixed_at :: "string \<Rightarrow> nat \<Rightarrow> matcher" where
  "prefixed_at pre n prev s =
     (let rest = drop (length pre) s; tok = takeWhile alnum rest
      in if at_boundary prev s \<and> starts_with s pre \<and> n \<le> length tok \<and>
            at_boundary (Some (last tok)) (drop (length tok) rest)
         then Some (length pre + length tok) else None)"

definition akia_at :: matcher where
  "akia_at prev s =
     (let tok = take 16 (drop 4 s)
      in if at_boundary prev s \<and> starts_with s ''AKIA'' \<and> length tok = 16 \<and>
            list_all upper_or_digit tok \<and> at_boundary (Some (last tok)) (drop 20 s)
         then Some 20 else None)"

definition private_key_at :: matcher where
  "private_key_at prev s =
     (let run = takeWhile (\<lambda>c. upper c \<or> c = CHR '' '') (drop 11 s)
      in if starts_with s ''-----BEGIN '' \<and> ends_with run ''PRIVATE KEY'' \<and>
            starts_with (drop (11 + length run) s) ''-----''
         then Some (16 + length run) else None)"

definition aws_name_at :: matcher where
  "aws_name_at prev s =
     (if at_boundary prev s \<and> starts_with (py_lower s) ''aws_secret_access_key'' \<and>
         at_boundary (Some (CHR ''y'')) (drop 21 s)
      then Some 21 else None)"

definition secret_matchers :: "matcher list" where
  "secret_matchers = [assignment_at, bearer_at, prefixed_at ''sk-'' 16, prefixed_at ''ghp_'' 20,
     akia_at, private_key_at, aws_name_at]"

text \<open>\<open>pattern.search\<close>: some place of the text; \<open>pattern.sub\<close>: the matches from left to right.\<close>

fun found_in :: "matcher \<Rightarrow> char option \<Rightarrow> string \<Rightarrow> bool" where
  "found_in m prev [] = (m prev [] \<noteq> None)"
| "found_in m prev (c # cs) = (m prev (c # cs) \<noteq> None \<or> found_in m (Some c) cs)"

definition contains_secret :: "string \<Rightarrow> bool" where
  "contains_secret s = list_ex (\<lambda>m. found_in m None s) secret_matchers"

definition redaction_mask :: string where
  "redaction_mask = ''***REDACTED***''"

function redact_with :: "matcher \<Rightarrow> char option \<Rightarrow> string \<Rightarrow> string" where
  "redact_with m prev [] = []"
| "redact_with m prev (c # cs) =
     (case m prev (c # cs) of
        Some (Suc n) \<Rightarrow> redaction_mask @ redact_with m (Some (last (c # take n cs))) (drop n cs)
      | _ \<Rightarrow> c # redact_with m (Some c) cs)"
  by pat_completeness auto
termination by (relation "measure (\<lambda>(m, prev, s). length s)") auto

definition redact :: "string \<Rightarrow> string" where
  "redact s = foldl (\<lambda>t m. redact_with m None t) s secret_matchers"

lemma redact_with_clean: "\<not> found_in m prev s \<Longrightarrow> redact_with m prev s = s"
  by (induction m prev s rule: found_in.induct) auto

lemma redact_clean:
  assumes "\<not> contains_secret s"
  shows "redact s = s"
proof -
  have "foldl (\<lambda>t m. redact_with m None t) s ms = s" if "\<forall>m \<in> set ms. \<not> found_in m None s" for ms
    using that by (induction ms) (auto simp: redact_with_clean)
  with assms show ?thesis by (simp add: redact_def contains_secret_def list_ex_iff)
qed

text \<open>An underscore is a word character, so a name that ends in a credential word is not seen.\<close>

lemma credential_names:
  "contains_secret ''PASSWORD=x''" "\<not> contains_secret ''DB_PASSWORD=x''"
  "redact ''token: a'' = redaction_mask"
  by code_simp+

section \<open>Markers\<close>

definition protected_markers :: "string list" where
  "protected_markers = [''.env'', ''secrets/'', ''credentials/'', ''id_rsa'', ''id_ed25519'', ''.pem'',
     ''.pfx'', ''.ssh/'', ''.aws/'', ''.npmrc'', ''.pypirc'']"

definition references_protected_path :: "string \<Rightarrow> string \<Rightarrow> bool" where
  "references_protected_path reference body =
     list_ex (contains (fwd_slashes (py_lower (reference @ '' '' @ body)))) protected_markers"

definition speculation_markers :: "string list" where
  "speculation_markers = [''i think'', ''probably'', ''might be'', ''maybe'', ''not sure'', ''i believe'',
     ''it seems'', ''possibly'', ''could be'', ''presumably'']"

definition looks_speculative :: "string \<Rightarrow> bool" where
  "looks_speculative s = list_ex (contains (py_lower s)) speculation_markers"

section \<open>Proposals\<close>

record memory_proposal =
  mp_type :: memory_type
  mp_title :: string
  mp_content :: string
  mp_source :: memory_source
  mp_source_reference :: string
  mp_scope :: memory_scope
  mp_project_id :: "string option"
  mp_tags :: "string list"
  mp_importance :: int
  mp_confidence :: "rat option"
  mp_supersedes :: "string option"
  mp_metadata :: "(string \<times> string) list"

definition proposal_valid :: "memory_proposal \<Rightarrow> bool" where
  "proposal_valid p \<longleftrightarrow>
     mp_title p \<noteq> [] \<and> length (mp_title p) \<le> 200 \<and> mp_content p \<noteq> [] \<and> length (mp_content p) \<le> 4000 \<and>
     length (mp_source_reference p) \<le> 500 \<and> 0 \<le> mp_importance p \<and> mp_importance p \<le> 100 \<and>
     (case mp_confidence p of None \<Rightarrow> True | Some c \<Rightarrow> 0 \<le> c \<and> c \<le> 1)"

definition record_fields_ok :: "memory_record \<Rightarrow> bool" where
  "record_fields_ok r \<longleftrightarrow>
     m_title r \<noteq> [] \<and> length (m_title r) \<le> 200 \<and> m_content r \<noteq> [] \<and> length (m_content r) \<le> 4000 \<and>
     m_source_reference r \<noteq> [] \<and> length (m_source_reference r) \<le> 500 \<and>
     0 \<le> m_confidence r \<and> m_confidence r \<le> 1 \<and> 0 \<le> m_importance r \<and> m_importance r \<le> 100 \<and>
     1 \<le> m_recurrence_count r"

fun source_confidence :: "memory_source \<Rightarrow> rat" where
  "source_confidence SRC_TEST_RESULT = 95/100"
| "source_confidence SRC_TOOL_OBSERVATION = 90/100"
| "source_confidence SRC_USER = 90/100"
| "source_confidence SRC_PROJECT_ARTIFACT = 80/100"
| "source_confidence SRC_EXTERNAL_RESEARCH = 60/100"
| "source_confidence SRC_AGENT_INFERENCE = 40/100"
| "source_confidence SRC_MODEL_SUGGESTION = 25/100"

definition auto_trusted :: "memory_source list" where
  "auto_trusted = [SRC_USER, SRC_TEST_RESULT, SRC_TOOL_OBSERVATION, SRC_PROJECT_ARTIFACT]"

record memory_outcome =
  mo_accepted :: bool
  mo_reason :: string
  mo_requires_approval :: bool

definition outcome_rejected :: "memory_outcome \<Rightarrow> bool" where
  "outcome_rejected o1 \<longleftrightarrow> \<not> mo_accepted o1 \<and> \<not> mo_requires_approval o1"

definition refusal :: "string \<Rightarrow> memory_outcome" where
  "refusal why = \<lparr>mo_accepted = False, mo_reason = why, mo_requires_approval = False\<rparr>"

definition min_content_chars :: nat where
  "min_content_chars = 10"

definition validate_proposal :: "memory_proposal \<Rightarrow> memory_outcome" where
  "validate_proposal p =
     (if py_strip (mp_source_reference p) = []
      then refusal ''no source reference; a memory that cannot be traced is not knowledge''
      else if length (py_strip (mp_content p)) < min_content_chars
      then refusal (''content is shorter than '' @ show_nat min_content_chars @ '' characters'')
      else if contains_secret (mp_content p) \<or> contains_secret (mp_title p)
      then refusal ''content looks like it contains a credential and will not be stored''
      else if references_protected_path (mp_source_reference p) (mp_content p)
      then refusal (''derived from a protected location; a file agents may not read must not '' @
                    ''become a memory they can'')
      else if mp_source p \<notin> set auto_trusted then
        if looks_speculative (mp_content p)
        then refusal ''speculative wording from an untrusted source; hypotheses are not memories''
        else \<lparr>mo_accepted = False,
              mo_reason = str_memory_source (mp_source p) @
                '' is not an auto-trusted source and needs explicit approval'',
              mo_requires_approval = True\<rparr>
      else \<lparr>mo_accepted = True, mo_reason = ''accepted'', mo_requires_approval = False\<rparr>)"

text \<open>Building a record validates its fields and then its scope, and raises otherwise.\<close>

datatype record_error = FieldError | ScopingError scoping_error

definition new_record :: "memory_record \<Rightarrow> (record_error, memory_record) res" where
  "new_record r =
     (if \<not> record_fields_ok r then Inl FieldError
      else (case enforce_scoping r of Inl e \<Rightarrow> Inl (ScopingError e) | Inr r' \<Rightarrow> Inr r'))"

definition proposed_confidence :: "memory_proposal \<Rightarrow> rat" where
  "proposed_confidence p =
     (let baseline = source_confidence (mp_source p);
          c = (case mp_confidence p of Some x \<Rightarrow> x | None \<Rightarrow> baseline)
      in if mp_source p \<notin> set auto_trusted then min c baseline else c)"

definition proposed_record :: "nat \<Rightarrow> string \<Rightarrow> memory_proposal \<Rightarrow> bool \<Rightarrow> memory_record" where
  "proposed_record now new_id p approved =
     \<lparr>m_id = new_id, m_type = mp_type p, m_scope = mp_scope p, m_project_id = mp_project_id p,
      m_title = mp_title p, m_content = mp_content p, m_tags = mp_tags p, m_source = mp_source p,
      m_source_reference = mp_source_reference p, m_confidence = proposed_confidence p,
      m_importance = mp_importance p,
      m_status = (if mp_source p \<notin> set auto_trusted \<and> \<not> approved then MS_REJECTED else MS_ACTIVE),
      m_supersedes = mp_supersedes p, m_superseded_by = None, m_access_count = 0,
      m_recurrence_count = 1, m_metadata = mp_metadata p, m_last_accessed_at = None,
      m_created_at = now, m_updated_at = now\<rparr>"

definition to_record ::
    "nat \<Rightarrow> string \<Rightarrow> memory_proposal \<Rightarrow> bool \<Rightarrow> (record_error, memory_record) res" where
  "to_record now new_id p approved = new_record (proposed_record now new_id p approved)"

definition propose ::
    "nat \<Rightarrow> string \<Rightarrow> memory_store \<Rightarrow> memory_proposal \<Rightarrow> bool \<Rightarrow>
     (record_error, memory_store \<times> memory_record option \<times> memory_outcome) res" where
  "propose now new_id st p approved =
     (let outcome = validate_proposal p
      in if outcome_rejected outcome then Inr (st, None, outcome)
         else if mo_requires_approval outcome \<and> \<not> approved then Inr (st, None, outcome)
         else (case to_record now new_id p approved of
                 Inl e \<Rightarrow> Inl e
               | Inr r \<Rightarrow> Inr (save_memory now st r, Some r, outcome)))"

section \<open>What a save does to the other rows\<close>

lemma get_row_mark_other: "old \<noteq> j \<Longrightarrow> get_row (mark_superseded now st old new) j = get_row st j"
  by (simp add: mark_superseded_def get_row_update Let_def split: option.splits)

lemma get_memory_save_self:
  "m_supersedes r \<noteq> Some (m_id r) \<Longrightarrow> get_memory (save_memory now st r) (m_id r) = Some r"
  by (auto simp: save_memory_def Let_def get_memory_def get_row_mark_other get_row_upsert row_of_def
      merge_row_def truthy_opt_def split: option.splits)

lemma get_row_save_other:
  "j \<noteq> m_id r \<Longrightarrow> m_supersedes r \<noteq> Some j \<or> \<not> is_active r \<Longrightarrow>
     get_row (save_memory now st r) j = get_row st j"
  by (auto simp: save_memory_def Let_def get_row_mark_other get_row_upsert truthy_opt_def
      split: option.splits)

lemma get_memory_save_other:
  "j \<noteq> m_id r \<Longrightarrow> m_supersedes r \<noteq> Some j \<or> \<not> is_active r \<Longrightarrow>
     get_memory (save_memory now st r) j = get_memory st j"
  using get_row_save_other [of j r now st] by (simp add: get_memory_def)

lemma get_memory_save_superseded:
  assumes "is_active r" "m_supersedes r = Some old" "old \<noteq> []" "old \<noteq> m_id r"
    and "get_memory st old = Some p"
  shows "get_memory (save_memory now st r) old =
    Some (p\<lparr>m_status := MS_SUPERSEDED, m_superseded_by := Some (m_id r), m_updated_at := now\<rparr>)"
proof -
  from assms(5) obtain x where "get_row st old = Some x" "p = r_payload x"
    by (auto simp: get_memory_def)
  with assms(1-4) show ?thesis
    by (simp add: save_memory_def Let_def truthy_opt_def mark_superseded_def get_memory_def
        get_row_upsert get_row_update)
qed

section \<open>What a proposal must be\<close>

text \<open>
  The standing a proposal needs, without the order of the checks: a source that can be
  looked up, something said, no credential, nothing from a protected place; and a source
  that is trusted, or the approval of one that does not hedge.
\<close>

definition admissible :: "memory_proposal \<Rightarrow> bool" where
  "admissible p \<longleftrightarrow>
     py_strip (mp_source_reference p) \<noteq> [] \<and> 10 \<le> length (py_strip (mp_content p)) \<and>
     redact (mp_content p) = mp_content p \<and> redact (mp_title p) = mp_title p \<and>
     \<not> contains_secret (mp_content p) \<and> \<not> contains_secret (mp_title p) \<and>
     \<not> references_protected_path (mp_source_reference p) (mp_content p)"

definition may_store :: "memory_proposal \<Rightarrow> bool \<Rightarrow> bool" where
  "may_store p approved \<longleftrightarrow> admissible p \<and>
     (mp_source p \<in> set auto_trusted \<or> approved \<and> \<not> looks_speculative (mp_content p))"

lemma validate_accepted:
  "mo_accepted (validate_proposal p) \<longleftrightarrow> admissible p \<and> mp_source p \<in> set auto_trusted"
  by (auto simp: validate_proposal_def admissible_def refusal_def min_content_chars_def redact_clean)

lemma validate_needs_approval:
  "mo_requires_approval (validate_proposal p) \<longleftrightarrow>
     admissible p \<and> mp_source p \<notin> set auto_trusted \<and> \<not> looks_speculative (mp_content p)"
  by (auto simp: validate_proposal_def admissible_def refusal_def min_content_chars_def redact_clean)

lemma propose_cases:
  "propose now i st p approved =
     (if \<not> may_store p approved then Inr (st, None, validate_proposal p)
      else case to_record now i p approved of
             Inl e \<Rightarrow> Inl e
           | Inr r \<Rightarrow> Inr (save_memory now st r, Some r, validate_proposal p))"
  by (auto simp: propose_def Let_def outcome_rejected_def validate_accepted validate_needs_approval
      may_store_def)

lemma source_confidence_range: "0 \<le> source_confidence s \<and> source_confidence s \<le> 1"
  by (cases s) simp_all

lemma proposed_fields_ok:
  assumes "proposal_valid p" "py_strip (mp_source_reference p) \<noteq> []"
  shows "record_fields_ok (proposed_record now i p approved)"
proof -
  have "mp_source_reference p \<noteq> []"
    using assms(2) by (auto simp: py_strip_def py_lstrip_def py_rstrip_def)
  moreover have "0 \<le> proposed_confidence p \<and> proposed_confidence p \<le> 1"
    using assms(1) source_confidence_range [of "mp_source p"]
    by (auto simp: proposal_valid_def proposed_confidence_def Let_def min_def split: option.splits)
  ultimately show ?thesis
    using assms(1) by (simp add: record_fields_ok_def proposed_record_def proposal_valid_def)
qed

lemma to_record_valid:
  assumes "proposal_valid p" "may_store p approved"
  shows "to_record now i p approved =
    (case enforce_scoping (proposed_record now i p approved) of
       Inl e \<Rightarrow> Inl (ScopingError e) | Inr r \<Rightarrow> Inr (proposed_record now i p approved))"
proof -
  have "record_fields_ok (proposed_record now i p approved)"
    using assms by (intro proposed_fields_ok) (simp_all add: may_store_def admissible_def)
  then show ?thesis
    by (auto simp: to_record_def new_record_def enforce_scoping_Inr split: sum.splits)
qed

lemma proposed_active: "may_store p approved \<Longrightarrow> is_active (proposed_record now i p approved)"
  by (auto simp: may_store_def is_active_def proposed_record_def)

lemma proposed_confidence_capped:
  "mp_source p \<notin> set auto_trusted \<Longrightarrow> proposed_confidence p \<le> source_confidence (mp_source p)"
  by (simp add: proposed_confidence_def Let_def)

text \<open>C10. The gate of memory: a proposal is stored exactly when it has the standing
  (a reference, some content, no credential, no protected origin, and a trusted source or
  the approval of an unhedged claim) and a scope that fits; then its record is active, within the
  limits of the schema and, from an untrusted source, no surer than that source; only the
  record it replaces changes besides, which is retired. Otherwise the store is as it was,
  and the only error is one of scope.
\<close>

theorem propose_exact:
  assumes "store_ok st" "get_row st i = None" "proposal_valid p" "mp_supersedes p \<noteq> Some i"
  shows "case propose now i st p approved of
      Inl e \<Rightarrow> may_store p approved \<and>
        (\<exists>se. e = ScopingError se \<and> enforce_scoping (proposed_record now i p approved) = Inl se)
    | Inr (st', None, out) \<Rightarrow> \<not> may_store p approved \<and> st' = st \<and> \<not> mo_accepted out
    | Inr (st', Some r, out) \<Rightarrow>
        may_store p approved \<and> is_ok (enforce_scoping r) \<and> store_ok st' \<and>
        get_memory st' i = Some r \<and> is_active r \<and> record_fields_ok r \<and>
        (mp_source p \<notin> set auto_trusted \<longrightarrow> m_confidence r \<le> source_confidence (mp_source p)) \<and>
        (\<forall>j. j \<noteq> i \<longrightarrow> mp_supersedes p \<noteq> Some j \<longrightarrow> get_memory st' j = get_memory st j) \<and>
        (\<forall>old q. mp_supersedes p = Some old \<longrightarrow> old \<noteq> [] \<longrightarrow> get_memory st old = Some q \<longrightarrow>
           get_memory st' old =
             Some (q\<lparr>m_status := MS_SUPERSEDED, m_superseded_by := Some i, m_updated_at := now\<rparr>))"
proof (cases "may_store p approved")
  case False
  then show ?thesis
    by (auto simp: propose_cases validate_accepted may_store_def)
next
  case stored: True
  let ?r = "proposed_record now i p approved"
  have id: "m_id ?r = i" "m_supersedes ?r = mp_supersedes p" "m_confidence ?r = proposed_confidence p"
    by (simp_all add: proposed_record_def)
  show ?thesis
  proof (cases "enforce_scoping ?r")
    case (Inl e)
    then show ?thesis using stored assms by (simp add: propose_cases to_record_valid)
  next
    case (Inr r')
    then have scoped: "is_ok (enforce_scoping ?r)" by simp
    have fields: "record_fields_ok ?r"
      using assms stored by (intro proposed_fields_ok) (simp_all add: may_store_def admissible_def)
    have "store_ok (save_memory now st ?r)"
      using assms scoped id by (intro store_ok_save) (simp_all add: saveable_def)
    moreover have "get_memory (save_memory now st ?r) i = Some ?r"
      using get_memory_save_self [of ?r now st] assms id by simp
    moreover have "get_memory (save_memory now st ?r) j = get_memory st j"
      if "j \<noteq> i" "mp_supersedes p \<noteq> Some j" for j
      using that id by (intro get_memory_save_other) simp_all
    moreover have "get_memory (save_memory now st ?r) old =
        Some (q\<lparr>m_status := MS_SUPERSEDED, m_superseded_by := Some i, m_updated_at := now\<rparr>)"
      if "mp_supersedes p = Some old" "old \<noteq> []" "get_memory st old = Some q" for old q
      using that assms(4) id proposed_active [OF stored, of now i]
        get_memory_save_superseded [of ?r old st q now] by auto
    ultimately show ?thesis
      using Inr stored assms scoped fields proposed_active [OF stored, of now i] id
        proposed_confidence_capped [of p]
      by (simp add: propose_cases to_record_valid)
  qed
qed

definition sample_proposal :: memory_proposal where
  "sample_proposal = \<lparr>mp_type = MT_DECISION, mp_title = ''Store'', mp_content = ''Use SQLite.'',
     mp_source = SRC_AGENT_INFERENCE, mp_source_reference = ''docs/adr.md'', mp_scope = SCOPE_PROJECT,
     mp_project_id = Some ''p'', mp_tags = [], mp_importance = 50, mp_confidence = Some 1,
     mp_supersedes = None, mp_metadata = []\<rparr>"

lemma sample_proposal_facts:
  "proposal_valid sample_proposal" "mp_supersedes sample_proposal = None"
  "mp_source sample_proposal = SRC_AGENT_INFERENCE" "may_store sample_proposal True"
  "\<not> may_store (sample_proposal\<lparr>mp_content := ''TOKEN = abc''\<rparr>) True"
  by code_simp+

theorem propose_exact_witness:
  "case propose 3 ''m1'' [] sample_proposal True of
     Inl e \<Rightarrow> False
   | Inr (st', None, out) \<Rightarrow> False
   | Inr (st', Some r, out) \<Rightarrow> get_memory st' ''m1'' = Some r \<and> is_active r \<and> m_confidence r \<le> 2/5"
proof -
  have "is_ok (enforce_scoping (proposed_record 3 ''m1'' sample_proposal True))" by code_simp
  then show ?thesis
    using propose_exact [where st = "[]" and i = "''m1''" and p = sample_proposal and now = 3 and approved = True] sample_proposal_facts
    by (auto simp: store_ok_def auto_trusted_def split: sum.splits option.splits)
qed

end
