(* ===== verification/Memory_Consolidation.thy ===== *)
theory Memory_Consolidation
  imports Memory_Writers
begin

text \<open>
  \<open>edith/memory/consolidation.py\<close>: similar memories of one project and type are grouped and
  folded into the strongest of the group. Similarities are exact fractions (a quotient of
  two small counts compares with the thresholds as the float does). Records are objects in
  the code: \<open>group.primary\<close> and \<open>group.duplicates\<close> are computed anew from the group after the
  primary was changed in place, which \<open>put_record\<close> does here by the identifier of the record
  (the identifiers of a group differ).
\<close>

section \<open>Similarity and the primary record\<close>

definition similarity :: "memory_record \<Rightarrow> memory_record \<Rightarrow> rat" where
  "similarity l r =
     (let ls = tokenize (text_of l); rs = tokenize (text_of r)
      in if ls = [] \<or> rs = [] then 0
         else of_nat (length (common ls rs)) / of_nat (length (remdups (ls @ rs))))"

definition duplicate_threshold :: rat where
  "duplicate_threshold = 3/5"

definition identical_threshold :: rat where
  "identical_threshold = 9/10"

definition deterministic_sources :: "memory_source list" where
  "deterministic_sources = [SRC_TEST_RESULT, SRC_TOOL_OBSERVATION, SRC_USER, SRC_PROJECT_ARTIFACT]"

type_synonym evidence_rank = "bool \<times> rat \<times> nat \<times> int"

definition evidence_key :: "memory_record \<Rightarrow> evidence_rank" where
  "evidence_key r = (m_source r \<in> set deterministic_sources, m_confidence r, m_recurrence_count r,
     m_importance r)"

text \<open>\<open>max\<close> with a key: the first of the largest.\<close>

fun max_from :: "memory_record \<Rightarrow> memory_record list \<Rightarrow> memory_record" where
  "max_from b [] = b"
| "max_from b (x # xs) = max_from (if evidence_key b < evidence_key x then x else b) xs"

definition primary_of :: "memory_record list \<Rightarrow> memory_record" where
  "primary_of rs = max_from (hd rs) (tl rs)"

definition duplicates_of :: "memory_record list \<Rightarrow> memory_record list" where
  "duplicates_of rs = filter (\<lambda>r. m_id r \<noteq> m_id (primary_of rs)) rs"

definition total_recurrence :: "memory_record list \<Rightarrow> nat" where
  "total_recurrence rs = sum_list (map m_recurrence_count rs)"

section \<open>Grouping\<close>

definition near_duplicate :: "rat \<Rightarrow> memory_record \<Rightarrow> memory_record \<Rightarrow> bool" where
  "near_duplicate threshold r x \<longleftrightarrow>
     m_type x = m_type r \<and> m_project_id x = m_project_id r \<and> similarity r x \<ge> threshold"

fun collect_group ::
    "rat \<Rightarrow> memory_record \<Rightarrow> string list \<Rightarrow> memory_record list \<Rightarrow> memory_record list \<times> string list" where
  "collect_group threshold r assigned [] = ([], assigned)"
| "collect_group threshold r assigned (x # xs) =
     (if m_id x \<in> set assigned then collect_group threshold r assigned xs
      else if near_duplicate threshold r x
      then (let (g, a) = collect_group threshold r (assigned @ [m_id x]) xs in (x # g, a))
      else collect_group threshold r assigned xs)"

fun group_loop :: "rat \<Rightarrow> string list \<Rightarrow> memory_record list \<Rightarrow> memory_record list list" where
  "group_loop threshold assigned [] = []"
| "group_loop threshold assigned (r # rs) =
     (if m_id r \<in> set assigned then group_loop threshold assigned rs
      else (let (g, a) = collect_group threshold r (assigned @ [m_id r]) rs
            in (if g \<noteq> [] then [r # g] else []) @ group_loop threshold a rs))"

definition find_duplicate_groups :: "rat \<Rightarrow> memory_record list \<Rightarrow> memory_record list list" where
  "find_duplicate_groups threshold rs = group_loop threshold [] (sort_key m_id rs)"

definition find_existing_match ::
    "rat \<Rightarrow> memory_store \<Rightarrow> memory_record \<Rightarrow> memory_record option" where
  "find_existing_match threshold st c =
     find (\<lambda>x. m_id x \<noteq> m_id c \<and> similarity x c \<ge> threshold)
       (visible_to st (m_project_id c) [m_type c] (Some MS_ACTIVE) True 500)"

section \<open>Folding a group into its primary\<close>

definition put_record :: "memory_record \<Rightarrow> memory_record list \<Rightarrow> memory_record list" where
  "put_record r rs = map (\<lambda>x. if m_id x = m_id r then r else x) rs"

definition retire :: "string \<Rightarrow> memory_record \<Rightarrow> memory_record" where
  "retire primary_id d = d\<lparr>m_superseded_by := Some primary_id, m_status := MS_SUPERSEDED\<rparr>"

definition absorbed_ids :: "memory_record list \<Rightarrow> string" where
  "absorbed_ids rs = take 400 (join '','' (map m_id (duplicates_of rs)))"

datatype consolidation_error = TitleTooLong

definition consolidate_group ::
    "nat \<Rightarrow> memory_store \<Rightarrow> memory_record list \<Rightarrow> string option \<Rightarrow>
     (consolidation_error, memory_store \<times> memory_record option) res" where
  "consolidate_group now st rs merged_title =
     (if length rs < 2 then Inr (st, None)
      else if truthy_opt merged_title \<and> 200 < length (the merged_title) then Inl TitleTooLong
      else let p = primary_of rs;
               p = p\<lparr>m_recurrence_count := total_recurrence rs\<rparr>;
               p = (if truthy_opt merged_title then p\<lparr>m_title := the merged_title\<rparr> else p);
               p = p\<lparr>m_metadata := alist_put ''consolidated_from'' (absorbed_ids (put_record p rs))
                       (m_metadata p)\<rparr>;
               st = save_memory now st p
           in Inr (foldl (\<lambda>s d. save_memory now s (retire (m_id p) d)) st
                     (duplicates_of (put_record p rs)), Some p))"

fun consolidate_groups ::
    "nat \<Rightarrow> memory_store \<Rightarrow> memory_record list list \<Rightarrow>
     (consolidation_error, memory_store \<times> memory_record list) res" where
  "consolidate_groups now st [] = Inr (st, [])"
| "consolidate_groups now st (g # gs) =
     (case consolidate_group now st g None of
        Inl e \<Rightarrow> Inl e
      | Inr (st', merged) \<Rightarrow>
          (case consolidate_groups now st' gs of
             Inl e \<Rightarrow> Inl e
           | Inr (st'', ms) \<Rightarrow> Inr (st'', (case merged of None \<Rightarrow> ms | Some m \<Rightarrow> m # ms))))"

definition consolidate_project ::
    "nat \<Rightarrow> memory_store \<Rightarrow> string option \<Rightarrow> rat \<Rightarrow>
     (consolidation_error, memory_store \<times> memory_record list) res" where
  "consolidate_project now st project_id threshold =
     consolidate_groups now st
       (find_duplicate_groups threshold (visible_to st project_id [] (Some MS_ACTIVE) False 500))"

section \<open>The primary\<close>

lemma max_from_mem: "max_from b xs \<in> insert b (set xs)"
  by (induction b xs rule: max_from.induct) (auto split: if_splits)

lemma max_from_ge: "x \<in> insert b (set xs) \<Longrightarrow> evidence_key x \<le> evidence_key (max_from b xs)"
proof (induction b xs arbitrary: x rule: max_from.induct)
  case (2 b y ys)
  let ?c = "if evidence_key b < evidence_key y then y else b"
  have "evidence_key z \<le> evidence_key (max_from ?c ys)" if "z \<in> insert ?c (set ys)" for z
    by (rule "2.IH" [OF that])
  moreover have "evidence_key b \<le> evidence_key ?c" "evidence_key y \<le> evidence_key ?c" by auto
  ultimately show ?case using "2.prems" by (auto intro: order_trans)
qed simp

lemma primary_mem: "rs \<noteq> [] \<Longrightarrow> primary_of rs \<in> set rs"
  using max_from_mem [of "hd rs" "tl rs"] by (cases rs) (auto simp: primary_of_def)

lemma primary_ge: "x \<in> set rs \<Longrightarrow> evidence_key x \<le> evidence_key (primary_of rs)"
  using max_from_ge [of x "hd rs" "tl rs"] by (cases rs) (auto simp: primary_of_def)

lemma put_record_mem: "x \<in> set (put_record r rs) \<Longrightarrow> x = r \<or> x \<in> set rs \<and> m_id x \<noteq> m_id r"
  by (auto simp: put_record_def split: if_splits)

lemma put_record_has: "x \<in> set rs \<Longrightarrow> m_id x = m_id r \<Longrightarrow> r \<in> set (put_record r rs)"
  by (auto simp: put_record_def image_iff split: if_splits)

text \<open>The primary stays the primary once it has absorbed the counts of the others.\<close>

lemma primary_put:
  assumes ne: "rs \<noteq> []" and pos: "\<forall>x \<in> set rs. 1 \<le> m_recurrence_count x"
    and dist: "distinct (map m_id rs)"
    and p: "m_id p = m_id (primary_of rs)" "m_source p = m_source (primary_of rs)"
      "m_confidence p = m_confidence (primary_of rs)" "m_recurrence_count p = total_recurrence rs"
  shows "primary_of (put_record p rs) = p"
proof -
  let ?q = "primary_of rs" and ?rs = "put_record p rs"
  have q: "?q \<in> set rs" by (rule primary_mem [OF ne])
  have strict: "evidence_key x < evidence_key p" if x: "x \<in> set rs" "m_id x \<noteq> m_id p" for x
  proof -
    have "m_recurrence_count x + m_recurrence_count ?q \<le> total_recurrence rs"
    proof -
      have "x \<noteq> ?q" using x p(1) by auto
      have "distinct rs" using dist by (simp add: distinct_map)
      then have "total_recurrence rs = sum m_recurrence_count (set rs)"
        by (simp add: total_recurrence_def sum_list_distinct_conv_sum_set)
      moreover have "sum m_recurrence_count {x, ?q} \<le> sum m_recurrence_count (set rs)"
        using x(1) q by (intro sum_mono2) auto
      ultimately show ?thesis using \<open>x \<noteq> ?q\<close> by simp
    qed
    moreover have "1 \<le> m_recurrence_count ?q" using pos q by auto
    ultimately have "m_recurrence_count x < m_recurrence_count p" using p(4) by linarith
    with primary_ge [OF x(1)] p show ?thesis
      by (auto simp: evidence_key_def less_prod_simp less_eq_prod_simp)
  qed
  have ne': "?rs \<noteq> []" using ne by (simp add: put_record_def)
  have mem: "p \<in> set ?rs" by (rule put_record_has [OF q]) (simp add: p)
  show ?thesis
  proof (rule ccontr)
    assume "primary_of ?rs \<noteq> p"
    with primary_mem [OF ne'] put_record_mem have "evidence_key (primary_of ?rs) < evidence_key p"
      using strict by blast
    with primary_ge [OF mem] show False by (simp add: leD)
  qed
qed

lemma duplicates_put:
  assumes "primary_of (put_record p rs) = p" "m_id p = m_id (primary_of rs)"
  shows "duplicates_of (put_record p rs) = duplicates_of rs"
proof -
  have "filter (\<lambda>r. m_id r \<noteq> m_id p) (map (\<lambda>x. if m_id x = m_id p then p else x) rs) =
      filter (\<lambda>r. m_id r \<noteq> m_id p) rs"
    by (induction rs) auto
  with assms show ?thesis by (simp add: duplicates_of_def) (simp add: put_record_def)
qed

section \<open>Similarity is symmetric\<close>

lemma length_common: "length (common xs ys) = card (set xs \<inter> set ys)"
  by (simp add: common_def flip: List.card_set) (metis Int_def)

lemma similarity_sym: "similarity l r = similarity r l"
proof -
  have "length (remdups (xs @ ys)) = length (remdups (ys @ xs))" for xs ys :: "string list"
    by (metis List.card_set set_append sup_commute)
  then show ?thesis by (auto simp: similarity_def Let_def length_common Int_commute)
qed

section \<open>The groups\<close>

lemma near_duplicate_sym: "near_duplicate t a b \<longleftrightarrow> near_duplicate t b a"
  by (auto simp: near_duplicate_def similarity_sym)

definition collected ::
    "rat \<Rightarrow> memory_record \<Rightarrow> string list \<Rightarrow> memory_record list \<Rightarrow> memory_record list \<Rightarrow> bool" where
  "collected t r assigned xs g \<longleftrightarrow>
     subseq g xs \<and> (\<forall>x \<in> set g. near_duplicate t r x \<and> m_id x \<notin> set assigned) \<and>
     distinct (map m_id g) \<and>
     (\<forall>x \<in> set xs. near_duplicate t r x \<longrightarrow> m_id x \<in> set assigned \<or> m_id x \<in> m_id ` set g)"

lemma collected_Cons_skip:
  "collected t r assigned xs g \<Longrightarrow> m_id x \<in> set assigned \<or> \<not> near_duplicate t r x \<Longrightarrow>
     collected t r assigned (x # xs) g"
  by (auto simp: collected_def)

lemma collected_Cons_take:
  "collected t r (assigned @ [m_id x]) xs g \<Longrightarrow> m_id x \<notin> set assigned \<Longrightarrow> near_duplicate t r x \<Longrightarrow>
     collected t r assigned (x # xs) (x # g)"
  by (auto simp: collected_def)

lemma collect_group_spec:
  "collect_group t r assigned xs = (g, a) \<Longrightarrow>
     a = assigned @ map m_id g \<and> collected t r assigned xs g"
proof (induction t r assigned xs arbitrary: g a rule: collect_group.induct)
  case (1 t r assigned)
  then show ?case by (simp add: collected_def)
next
  case (2 t r assigned x xs)
  show ?case
  proof (cases "m_id x \<in> set assigned \<or> \<not> near_duplicate t r x")
    case True
    with 2 have "a = assigned @ map m_id g \<and> collected t r assigned xs g"
      by (simp split: if_splits)
    with True show ?thesis by (simp add: collected_Cons_skip)
  next
    case False
    obtain g' a' where r: "collect_group t r (assigned @ [m_id x]) xs = (g', a')" by fastforce
    with "2.IH"(2) False have "a' = (assigned @ [m_id x]) @ map m_id g' \<and>
        collected t r (assigned @ [m_id x]) xs g'" by blast
    moreover have "g = x # g'" "a = a'" using 2(4) False r by simp_all
    ultimately show ?thesis using False by (simp add: collected_Cons_take)
  qed
qed

definition proper_group :: "rat \<Rightarrow> memory_record list \<Rightarrow> bool" where
  "proper_group t g \<longleftrightarrow> 2 \<le> length g \<and> (\<forall>x \<in> set (tl g). near_duplicate t (hd g) x)"

text \<open>No similar pair is left with both outside the groups.\<close>

definition grouped ::
    "rat \<Rightarrow> string list \<Rightarrow> memory_record list \<Rightarrow> memory_record list list \<Rightarrow> bool" where
  "grouped t assigned rs gs \<longleftrightarrow>
     distinct (map m_id (concat gs)) \<and>
     (\<forall>x \<in> set (concat gs). x \<in> set rs \<and> m_id x \<notin> set assigned) \<and>
     (\<forall>g \<in> set gs. proper_group t g) \<and>
     (\<forall>b \<in> set rs. \<forall>c \<in> set rs. b \<noteq> c \<longrightarrow> near_duplicate t b c \<longrightarrow>
        m_id b \<notin> set assigned \<longrightarrow> m_id c \<notin> set assigned \<longrightarrow>
        b \<in> set (concat gs) \<or> c \<in> set (concat gs))"

lemma grouped_skip: "grouped t assigned rs gs \<Longrightarrow> m_id r \<in> set assigned \<Longrightarrow> grouped t assigned (r # rs) gs"
  by (auto simp: grouped_def)

lemma id_inj: "distinct (map m_id rs) \<Longrightarrow> x \<in> set rs \<Longrightarrow> y \<in> set rs \<Longrightarrow> m_id x = m_id y \<Longrightarrow> x = y"
  by (auto simp: distinct_map dest: inj_onD)

lemma grouped_Cons:
  assumes rest: "grouped t (assigned @ [m_id r] @ map m_id g) rs gs"
    and coll: "collected t r (assigned @ [m_id r]) rs g"
    and new: "m_id r \<notin> set assigned" and dist: "distinct (map m_id (r # rs))"
  shows "grouped t assigned (r # rs) ((if g \<noteq> [] then [r # g] else []) @ gs)"
proof -
  let ?gs = "(if g \<noteq> [] then [r # g] else []) @ gs"
  have sub: "set g \<subseteq> set rs" using coll by (auto simp: collected_def dest: subseq_mem)
  have near: "m_id x \<in> set assigned \<or> x \<in> set (concat ?gs) \<and> r \<in> set (concat ?gs)"
    if x: "x \<in> set rs" "near_duplicate t r x" for x
  proof -
    have "m_id x \<noteq> m_id r" using dist x(1) by (metis distinct.simps(2) image_eqI list.simps(9) set_map)
    then consider "m_id x \<in> set assigned" | y where "y \<in> set g" "m_id x = m_id y"
      using coll x by (auto simp: collected_def)
    then show ?thesis
    proof cases
      case 2
      then have "x = y" using dist sub x(1) id_inj [of rs x y] by auto
      with 2 show ?thesis by auto
    qed simp
  qed
  have apart: "m_id y \<notin> set (map m_id (r # g))" if "y \<in> set (concat gs)" for y
    using rest that unfolding grouped_def by fastforce
  have "distinct (map m_id (r # g))" "distinct (map m_id (concat gs))"
    using rest coll by (auto simp: grouped_def collected_def)
  with apart have "distinct (map m_id (r # g) @ map m_id (concat gs))"
    unfolding distinct_append set_map [of m_id "concat gs"] by blast
  then have "distinct (map m_id (concat ?gs))"
    using \<open>distinct (map m_id (concat gs))\<close> by simp
  moreover have "\<forall>x \<in> set (concat ?gs). x \<in> set (r # rs) \<and> m_id x \<notin> set assigned"
    using rest coll sub new by (auto simp: grouped_def collected_def)
  moreover have "\<forall>h \<in> set ?gs. proper_group t h"
    using rest coll by (auto simp: grouped_def collected_def proper_group_def Suc_le_eq split: if_splits)
  moreover have "b \<in> set (concat ?gs) \<or> c \<in> set (concat ?gs)"
    if bc: "b \<in> set (r # rs)" "c \<in> set (r # rs)" "b \<noteq> c" "near_duplicate t b c"
      "m_id b \<notin> set assigned" "m_id c \<notin> set assigned" for b c
  proof -
    consider "b = r" "c \<in> set rs" | "c = r" "b \<in> set rs" | "b \<in> set rs" "c \<in> set rs"
      using bc by auto
    then show ?thesis
    proof cases
      case 1
      with near [of c] bc show ?thesis by auto
    next
      case 2
      with near [of b] bc near_duplicate_sym [of t b c] show ?thesis by auto
    next
      case 3
      show ?thesis
      proof (cases "m_id b \<in> m_id ` set g \<or> m_id c \<in> m_id ` set g")
        case True
        then show ?thesis using 3 dist sub id_inj [of rs] by auto
      next
        case False
        moreover have "m_id b \<noteq> m_id r" "m_id c \<noteq> m_id r"
          using 3 dist by (metis distinct.simps(2) image_eqI list.simps(9) set_map)+
        ultimately show ?thesis using rest 3 bc by (auto simp: grouped_def)
      qed
    qed
  qed
  ultimately show ?thesis unfolding grouped_def by blast
qed

lemma group_loop_grouped:
  "distinct (map m_id rs) \<Longrightarrow> grouped t assigned rs (group_loop t assigned rs)"
proof (induction t assigned rs rule: group_loop.induct)
  case (1 t assigned)
  then show ?case by (simp add: grouped_def)
next
  case (2 t assigned r rs)
  show ?case
  proof (cases "m_id r \<in> set assigned")
    case True
    with 2 show ?thesis by (simp add: grouped_skip)
  next
    case False
    obtain g a where c: "collect_group t r (assigned @ [m_id r]) rs = (g, a)" by fastforce
    then have a: "a = assigned @ [m_id r] @ map m_id g" "collected t r (assigned @ [m_id r]) rs g"
      using collect_group_spec [OF c] by simp_all
    have "grouped t a rs (group_loop t a rs)"
      using "2.IH"(2) [OF False c [symmetric]] "2.prems" by simp
    with a False "2.prems" c show ?thesis
      using grouped_Cons [of t assigned r g rs "group_loop t a rs"] by simp
  qed
qed

lemma find_groups_grouped:
  assumes "distinct (map m_id rs)"
  shows "grouped t [] rs (find_duplicate_groups t rs)"
proof -
  have "distinct (map m_id (sort_key m_id rs))"
    using assms by (metis distinct_map distinct_sort set_sort)
  from group_loop_grouped [OF this, of t "[]"] show ?thesis
    by (simp add: grouped_def find_duplicate_groups_def)
qed

section \<open>Writing records one after another\<close>

text \<open>What a table promises whose writes are by key, and what a run of writes leaves.\<close>

locale keyed_writes =
  fixes put :: "'s \<Rightarrow> 'r \<Rightarrow> 's" and lookup :: "'s \<Rightarrow> 'k \<Rightarrow> 'r option" and key :: "'r \<Rightarrow> 'k"
    and writes :: "'r \<Rightarrow> bool"
  assumes lookup_put: "writes r \<Longrightarrow> lookup (put s r) k = (if k = key r then Some r else lookup s k)"
begin

lemma lookup_fold_other:
  "\<forall>r \<in> set rs. writes r \<Longrightarrow> k \<notin> key ` set rs \<Longrightarrow> lookup (foldl put s rs) k = lookup s k"
  by (induction rs arbitrary: s) (auto simp: lookup_put)

lemma lookup_fold:
  "\<forall>r \<in> set rs. writes r \<Longrightarrow> distinct (map key rs) \<Longrightarrow> r \<in> set rs \<Longrightarrow>
     lookup (foldl put s rs) (key r) = Some r"
proof (induction rs arbitrary: s)
  case (Cons x xs)
  then show ?case
    by (cases "r = x") (auto simp: lookup_put lookup_fold_other)
qed simp

end

lemma get_memory_save_inactive:
  "\<not> is_active r \<Longrightarrow>
     get_memory (save_memory now st r) k = (if k = m_id r then Some r else get_memory st k)"
  by (auto simp: save_memory_def Let_def get_memory_def get_row_upsert row_of_def merge_row_def
      split: option.splits)

interpretation retired_rows: keyed_writes "save_memory now" get_memory m_id "\<lambda>r. \<not> is_active r" for now
  by unfold_locales (simp add: get_memory_save_inactive)

text \<open>Saving a stored record keeps every row, in its place, with its type, scope and project.\<close>

definition same_place :: "memory_row \<Rightarrow> memory_row \<Rightarrow> bool" where
  "same_place x y \<longleftrightarrow> r_id x = r_id y \<and> r_type x = r_type y \<and> r_scope x = r_scope y \<and>
     r_project_id x = r_project_id y"

lemma same_place_refl: "same_place x x"
  by (simp add: same_place_def)

lemma same_place_trans: "same_place x y \<Longrightarrow> same_place y z \<Longrightarrow> same_place x z"
  by (simp add: same_place_def)

lemma places_upsert:
  "get_row st (m_id r) \<noteq> None \<Longrightarrow> list_all2 same_place st (upsert r st)"
  by (induction st) (auto simp: same_place_def merge_row_def intro: list_all2_refl split: if_splits)

lemma places_update:
  "(\<And>x. same_place x (f x)) \<Longrightarrow> list_all2 same_place st (update_row f i st)"
  by (induction st) (auto intro: list_all2_refl same_place_refl)

lemma places_trans:
  "list_all2 same_place a b \<Longrightarrow> list_all2 same_place b c \<Longrightarrow> list_all2 same_place a c"
  by (rule list_all2_trans [where ?P1.0 = same_place and ?P2.0 = same_place]) (auto intro: same_place_trans)

lemma places_save:
  "get_row st (m_id r) \<noteq> None \<Longrightarrow> list_all2 same_place st (save_memory now st r)"
proof -
  assume "get_row st (m_id r) \<noteq> None"
  then have up: "list_all2 same_place st (upsert r st)" by (rule places_upsert)
  have "list_all2 same_place t (mark_superseded now t i j)" for t i j
    by (auto simp: mark_superseded_def Let_def same_place_def intro!: places_update list_all2_refl
        split: option.splits)
  with up show ?thesis by (auto simp: save_memory_def Let_def intro: places_trans)
qed

lemma places_get:
  "list_all2 same_place st st' \<Longrightarrow>
     rel_option same_place (get_row st i) (get_row st' i)"
  by (induction rule: list_all2_induct) (auto simp: same_place_def)

definition stored :: "memory_store \<Rightarrow> memory_record \<Rightarrow> bool" where
  "stored st r \<longleftrightarrow> saveable st r \<and> get_row st (m_id r) \<noteq> None"

lemma stored_places:
  assumes "list_all2 same_place st st'" "stored st r"
  shows "stored st' r"
proof -
  from assms(2) obtain x where x: "get_row st (m_id r) = Some x" by (auto simp: stored_def)
  with places_get [OF assms(1), of "m_id r"] obtain y where
    "get_row st' (m_id r) = Some y" "same_place x y" by (auto simp: rel_option_iff split: option.splits)
  with assms(2) x show ?thesis by (auto simp: stored_def saveable_def same_place_def)
qed

lemma stored_same:
  "stored st r \<Longrightarrow> m_id r' = m_id r \<Longrightarrow> m_type r' = m_type r \<Longrightarrow> m_scope r' = m_scope r \<Longrightarrow>
     m_project_id r' = m_project_id r \<Longrightarrow> stored st r'"
  by (auto simp: stored_def saveable_def is_ok_scoping)

lemma stored_fold:
  assumes "store_ok st" "\<forall>r \<in> set rs. stored st r"
  shows "store_ok (foldl (save_memory now) st rs) \<and>
    list_all2 same_place st (foldl (save_memory now) st rs)"
  using assms
proof (induction rs arbitrary: st)
  case Nil
  then show ?case by (simp add: list_all2_refl same_place_refl)
next
  case (Cons r rs)
  let ?st = "save_memory now st r"
  have pl: "list_all2 same_place st ?st"
    using Cons.prems by (intro places_save) (simp add: stored_def)
  have "store_ok ?st" using Cons.prems by (intro store_ok_save) (simp_all add: stored_def)
  with Cons.IH [of ?st] Cons.prems stored_places [OF pl]
  have "store_ok (foldl (save_memory now) ?st rs) \<and>
    list_all2 same_place ?st (foldl (save_memory now) ?st rs)" by simp
  with pl show ?case by (auto intro: places_trans)
qed

lemma places_ids: "list_all2 same_place st st' \<Longrightarrow> map r_id st' = map r_id st"
  by (induction rule: list_all2_induct) (auto simp: same_place_def)

section \<open>One group\<close>

definition merged_primary :: "memory_record list \<Rightarrow> memory_record" where
  "merged_primary g = (primary_of g)\<lparr>m_recurrence_count := total_recurrence g,
     m_metadata := alist_put ''consolidated_from'' (absorbed_ids g) (m_metadata (primary_of g))\<rparr>"

lemma merged_primary_simps [simp]:
  "m_id (merged_primary g) = m_id (primary_of g)"
  "m_supersedes (merged_primary g) = m_supersedes (primary_of g)"
  "m_recurrence_count (merged_primary g) = total_recurrence g"
  by (simp_all add: merged_primary_def)

lemma retire_simps [simp]:
  "m_id (retire i d) = m_id d" "\<not> is_active (retire i d)"
  by (simp_all add: retire_def is_active_def)

definition foldable :: "memory_record list \<Rightarrow> bool" where
  "foldable g \<longleftrightarrow> 2 \<le> length g \<and> distinct (map m_id g) \<and> (\<forall>r \<in> set g. 1 \<le> m_recurrence_count r)"

definition retired_group :: "memory_record list \<Rightarrow> memory_record list" where
  "retired_group g = map (retire (m_id (primary_of g))) (duplicates_of g)"

lemma consolidate_group_eq:
  assumes "foldable g"
  shows "consolidate_group now st g None =
    Inr (foldl (save_memory now) (save_memory now st (merged_primary g)) (retired_group g),
         Some (merged_primary g))"
proof -
  let ?p = "(primary_of g)\<lparr>m_recurrence_count := total_recurrence g\<rparr>"
  let ?q = "merged_primary g"
  have ne: "g \<noteq> []" using assms by (auto simp: foldable_def)
  have "primary_of (put_record ?p g) = ?p"
    using assms ne by (intro primary_put) (simp_all add: foldable_def)
  then have p: "duplicates_of (put_record ?p g) = duplicates_of g" by (rule duplicates_put) simp
  have "primary_of (put_record ?q g) = ?q"
    using assms ne by (intro primary_put) (simp_all add: foldable_def merged_primary_def)
  then have q: "duplicates_of (put_record ?q g) = duplicates_of g" by (rule duplicates_put) simp
  have "?p\<lparr>m_metadata := alist_put ''consolidated_from'' (absorbed_ids (put_record ?p g))
      (m_metadata ?p)\<rparr> = ?q"
    by (simp add: merged_primary_def absorbed_ids_def p)
  then show ?thesis
    using assms q
    by (simp add: consolidate_group_def Let_def truthy_opt_def foldable_def retired_group_def foldl_map
        del: merged_primary_simps)
qed

lemma retired_group_ids:
  "r \<in> set (retired_group g) \<Longrightarrow> m_id r \<in> m_id ` set g \<and> m_id r \<noteq> m_id (primary_of g) \<and> \<not> is_active r"
  by (auto simp: retired_group_def duplicates_of_def)

lemma primary_in: "foldable g \<Longrightarrow> primary_of g \<in> set g"
  by (intro primary_mem) (auto simp: foldable_def)

lemma stored_retire: "stored st d \<Longrightarrow> stored st (retire i d)"
  by (rule stored_same [of st d]) (simp_all add: retire_def)

lemma group_stored:
  assumes "foldable g" "\<forall>r \<in> set g. stored st r"
  shows "stored st (merged_primary g)" "\<forall>r \<in> set (retired_group g). stored st r"
proof -
  show "stored st (merged_primary g)"
    by (rule stored_same [of st "primary_of g"])
      (simp_all add: merged_primary_def assms primary_in)
  show "\<forall>r \<in> set (retired_group g). stored st r"
    using assms(2) stored_retire by (auto simp: retired_group_def duplicates_of_def)
qed

text \<open>Folding a group into the store, and what it leaves at every identifier.\<close>

definition fold_group :: "nat \<Rightarrow> memory_store \<Rightarrow> memory_record list \<Rightarrow> memory_store" where
  "fold_group now st g =
     foldl (save_memory now) (save_memory now st (merged_primary g)) (retired_group g)"

lemma fold_group_stored:
  assumes "store_ok st" "foldable g" "\<forall>r \<in> set g. stored st r"
  shows "store_ok (fold_group now st g) \<and> list_all2 same_place st (fold_group now st g)"
  using stored_fold [OF assms(1), of "merged_primary g # retired_group g" now] group_stored [OF assms(2,3)]
  by (simp add: fold_group_def)

lemma fold_group_get:
  assumes "foldable g" "\<forall>r \<in> set g. m_supersedes (primary_of g) \<noteq> Some (m_id r)"
  shows "get_memory (fold_group now st g) (m_id (primary_of g)) = Some (merged_primary g)"
    and "d \<in> set (duplicates_of g) \<Longrightarrow>
      get_memory (fold_group now st g) (m_id d) = Some (retire (m_id (primary_of g)) d)"
    and "j \<notin> m_id ` set g \<Longrightarrow> m_supersedes (primary_of g) \<noteq> Some j \<Longrightarrow>
      get_memory (fold_group now st g) j = get_memory st j"
proof -
  let ?st = "save_memory now st (merged_primary g)"
  have w: "\<forall>r \<in> set (retired_group g). \<not> is_active r" using retired_group_ids by blast
  have "m_id (primary_of g) \<notin> m_id ` set (retired_group g)" using retired_group_ids by force
  then have "get_memory (fold_group now st g) (m_id (primary_of g)) = get_memory ?st (m_id (primary_of g))"
    unfolding fold_group_def by (rule retired_rows.lookup_fold_other [OF w])
  then show "get_memory (fold_group now st g) (m_id (primary_of g)) = Some (merged_primary g)"
    using get_memory_save_self [of "merged_primary g" now st] assms primary_in [OF assms(1)] by simp
  have "distinct (map m_id (retired_group g))"
    using assms(1) by (simp add: foldable_def retired_group_def duplicates_of_def comp_def distinct_map_filter)
  from retired_rows.lookup_fold [OF w this]
  show "get_memory (fold_group now st g) (m_id d) = Some (retire (m_id (primary_of g)) d)"
    if "d \<in> set (duplicates_of g)"
    using that unfolding fold_group_def by (fastforce simp: retired_group_def)
  show "get_memory (fold_group now st g) j = get_memory st j"
    if j: "j \<notin> m_id ` set g" "m_supersedes (primary_of g) \<noteq> Some j"
  proof -
    have "j \<notin> m_id ` set (retired_group g)" using j(1) retired_group_ids by blast
    then have "get_memory (fold_group now st g) j = get_memory ?st j"
      unfolding fold_group_def by (rule retired_rows.lookup_fold_other [OF w])
    moreover have "j \<noteq> m_id (primary_of g)" using j(1) primary_in [OF assms(1)] by blast
    ultimately show ?thesis
      using get_memory_save_other [of j "merged_primary g" now st] j by simp
  qed
qed

section \<open>All groups of a project\<close>

definition apart_groups :: "memory_record list list \<Rightarrow> bool" where
  "apart_groups gs \<longleftrightarrow> distinct (map m_id (concat gs)) \<and> (\<forall>g \<in> set gs. foldable g) \<and>
     (\<forall>r \<in> set (concat gs). \<forall>s \<in> set (concat gs). m_supersedes r \<noteq> Some (m_id s))"

definition folded ::
    "memory_store \<Rightarrow> memory_record list list \<Rightarrow> memory_store \<Rightarrow> bool" where
  "folded st gs st' \<longleftrightarrow>
     (\<forall>g \<in> set gs. get_memory st' (m_id (primary_of g)) = Some (merged_primary g) \<and>
        (\<forall>d \<in> set (duplicates_of g). get_memory st' (m_id d) = Some (retire (m_id (primary_of g)) d))) \<and>
     (\<forall>j. j \<notin> m_id ` set (concat gs) \<longrightarrow> (\<forall>g \<in> set gs. m_supersedes (primary_of g) \<noteq> Some j) \<longrightarrow>
        get_memory st' j = get_memory st j)"

lemma apart_Cons:
  assumes "apart_groups (g # gs)"
  shows "apart_groups gs" "foldable g" "\<forall>r \<in> set g. m_supersedes (primary_of g) \<noteq> Some (m_id r)"
    "\<forall>h \<in> set gs. \<forall>r \<in> set g. m_id r \<notin> m_id ` set h \<and> m_supersedes (primary_of h) \<noteq> Some (m_id r)"
proof -
  show "apart_groups gs" "foldable g" using assms by (auto simp: apart_groups_def)
  then have g: "primary_of g \<in> set g" by (simp add: primary_in)
  show "\<forall>r \<in> set g. m_supersedes (primary_of g) \<noteq> Some (m_id r)"
    using assms g by (auto simp: apart_groups_def)
  show "\<forall>h \<in> set gs. \<forall>r \<in> set g. m_id r \<notin> m_id ` set h \<and> m_supersedes (primary_of h) \<noteq> Some (m_id r)"
  proof (intro ballI conjI)
    fix h r assume h: "h \<in> set gs" "r \<in> set g"
    have "m_id ` set g \<inter> m_id ` set (concat gs) = {}"
      using assms by (simp add: apart_groups_def)
    with h show "m_id r \<notin> m_id ` set h" by auto
    have "primary_of h \<in> set h" using assms h by (intro primary_in) (simp add: apart_groups_def)
    with assms h show "m_supersedes (primary_of h) \<noteq> Some (m_id r)"
      by (auto simp: apart_groups_def)
  qed
qed

lemma folded_Cons:
  assumes ap: "apart_groups (g # gs)" and rest: "folded (fold_group now st g) gs st'"
  shows "folded st (g # gs) st'"
proof -
  note c = apart_Cons [OF ap]
  note get = fold_group_get [OF c(2,3), where now = now and st = st]
  have keep: "get_memory st' (m_id r) = get_memory (fold_group now st g) (m_id r)" if "r \<in> set g" for r
  proof -
    have "m_id r \<notin> m_id ` set (concat gs)" "\<forall>h \<in> set gs. m_supersedes (primary_of h) \<noteq> Some (m_id r)"
      using c(4) that by fastforce+
    with rest show ?thesis unfolding folded_def by blast
  qed
  have dup: "d \<in> set g" if "d \<in> set (duplicates_of g)" for d
    using that by (simp add: duplicates_of_def)
  show ?thesis
    unfolding folded_def
  proof (intro conjI ballI allI impI)
    fix h assume "h \<in> set (g # gs)"
    then show "get_memory st' (m_id (primary_of h)) = Some (merged_primary h)"
      using rest keep [OF primary_in [OF c(2)]] get(1) by (auto simp: folded_def)
  next
    fix h d assume "h \<in> set (g # gs)" "d \<in> set (duplicates_of h)"
    then show "get_memory st' (m_id d) = Some (retire (m_id (primary_of h)) d)"
      using rest keep dup get(2) by (auto simp: folded_def)
  next
    fix j assume j: "j \<notin> m_id ` set (concat (g # gs))" "\<forall>h \<in> set (g # gs). m_supersedes (primary_of h) \<noteq> Some j"
    then have "j \<notin> m_id ` set g" "j \<notin> m_id ` set (concat gs)" by (simp_all add: image_Un)
    with j(2) rest get(3) [of j] show "get_memory st' j = get_memory st j"
      unfolding folded_def by simp
  qed
qed

lemma consolidate_groups_spec:
  assumes "store_ok st" "apart_groups gs" "\<forall>r \<in> set (concat gs). stored st r"
  shows "\<exists>st'. consolidate_groups now st gs = Inr (st', map merged_primary gs) \<and> store_ok st' \<and>
    list_all2 same_place st st' \<and> folded st gs st'"
  using assms
proof (induction gs arbitrary: st)
  case Nil
  then show ?case by (simp add: folded_def list_all2_refl same_place_refl)
next
  case (Cons g gs)
  note c = apart_Cons [OF Cons.prems(2)]
  have st1: "store_ok (fold_group now st g)" "list_all2 same_place st (fold_group now st g)"
    using fold_group_stored [OF Cons.prems(1) c(2)] Cons.prems(3) by auto
  have "\<forall>r \<in> set (concat gs). stored (fold_group now st g) r"
    using Cons.prems(3) stored_places [OF st1(2)] by auto
  from Cons.IH [OF st1(1) c(1) this] obtain st' where
    st': "consolidate_groups now (fold_group now st g) gs = Inr (st', map merged_primary gs)"
      "store_ok st'" "list_all2 same_place (fold_group now st g) st'" "folded (fold_group now st g) gs st'"
    by blast
  have "consolidate_groups now st (g # gs) = Inr (st', map merged_primary (g # gs))"
    using st'(1) consolidate_group_eq [OF c(2), of now st] by (simp add: fold_group_def)
  with st' st1 folded_Cons [OF Cons.prems(2) st'(4)] show ?case by (blast intro: places_trans)
qed

section \<open>Consolidating a project\<close>

lemma visible_stored:
  assumes "store_ok st" "r \<in> set (visible_to st pid types status glob limit)"
  shows "get_memory st (m_id r) = Some r" "stored st r"
proof -
  from visible_row [OF assms(2)] obtain x where x: "x \<in> set st" "r = r_payload x" by blast
  then have "row_ok x" using assms(1) by (auto simp: store_ok_def list_all_iff)
  then have row: "get_row st (m_id r) = Some x"
    using x assms(1) get_row_unique [of st x] by (simp add: store_ok_def row_ok_def)
  then show get: "get_memory st (m_id r) = Some r" using x by (simp add: get_memory_def)
  show "stored st r"
    using row saveable_same_key [OF assms(1) get] by (simp add: stored_def)
qed

lemma belief_of_retired:
  assumes "get_memory st i = Some d" "m_id d = i" "m_superseded_by d = Some j" "j \<noteq> []"
    and "get_memory st j = Some p" "\<not> truthy_opt (m_superseded_by p)"
  shows "current_belief st i = Some p"
proof -
  have "belief_loop st p [i] = p" by (subst belief_loop.simps) (simp add: assms)
  then have "belief_loop st d [] = p"
    using assms by (subst belief_loop.simps) (simp add: truthy_opt_def)
  then show ?thesis by (simp add: current_belief_def assms)
qed

lemma sublist_of_concat: "g \<in> set gs \<Longrightarrow> distinct (map f (concat gs)) \<Longrightarrow> distinct (map f g)"
  by (induction gs) auto

lemma project_groups_apart:
  assumes ok: "store_ok st" and counts: "\<forall>x \<in> set st. 1 \<le> m_recurrence_count (r_payload x)"
    and seen: "seen = visible_to st pid [] (Some MS_ACTIVE) False 500"
    and settled: "\<forall>r \<in> set seen. \<forall>s \<in> set seen. m_supersedes r \<noteq> Some (m_id s)"
  shows "apart_groups (find_duplicate_groups t seen)"
    and "\<forall>r \<in> set (concat (find_duplicate_groups t seen)). r \<in> set seen \<and> stored st r"
proof -
  let ?gs = "find_duplicate_groups t seen"
  have g: "grouped t [] seen ?gs"
    unfolding seen by (rule find_groups_grouped [OF visible_distinct [OF ok]])
  then have mem: "r \<in> set seen" if "r \<in> set (concat ?gs)" for r
    using that by (auto simp: grouped_def)
  then show "\<forall>r \<in> set (concat ?gs). r \<in> set seen \<and> stored st r"
    using visible_stored(2) [OF ok] unfolding seen by blast
  have "1 \<le> m_recurrence_count r" if "r \<in> set seen" for r
    using counts visible_row [OF that [unfolded seen]] by auto
  then have "foldable h" if "h \<in> set ?gs" for h
    using g that mem sublist_of_concat [OF that, of m_id]
    by (auto simp: grouped_def proper_group_def foldable_def)
  with g mem settled show "apart_groups ?gs" unfolding apart_groups_def grouped_def by blast
qed

text \<open>
  Grouping: the groups of a list of distinct records are disjoint, each is made of two
  or more of its records, all of them of the type and project of the first and similar to
  it, and no similar pair of records of one type and project is left with both outside.
\<close>

theorem duplicate_groups_exact:
  assumes "distinct (map m_id rs)"
  shows "distinct (map m_id (concat (find_duplicate_groups t rs))) \<and>
    set (concat (find_duplicate_groups t rs)) \<subseteq> set rs \<and>
    (\<forall>g \<in> set (find_duplicate_groups t rs). 2 \<le> length g \<and>
       (\<forall>x \<in> set (tl g). m_type x = m_type (hd g) \<and> m_project_id x = m_project_id (hd g) \<and>
          t \<le> similarity (hd g) x)) \<and>
    (\<forall>b \<in> set rs. \<forall>c \<in> set rs. b \<noteq> c \<longrightarrow> m_type b = m_type c \<longrightarrow> m_project_id b = m_project_id c \<longrightarrow>
       t \<le> similarity b c \<longrightarrow> b \<in> set (concat (find_duplicate_groups t rs)) \<or>
         c \<in> set (concat (find_duplicate_groups t rs)))"
  using find_groups_grouped [OF assms, of t]
  unfolding grouped_def proper_group_def near_duplicate_def by auto


definition sample_memories :: memory_store where
  "sample_memories = [row_of (sample_memory ''m1'' ''p''),
     row_of ((sample_memory ''m2'' ''p'')\<lparr>m_recurrence_count := 3\<rparr>),
     row_of ((sample_memory ''m3'' ''p'')\<lparr>m_content := ''timeout in payments''\<rparr>)]"

definition sample_seen :: "memory_record list" where
  "sample_seen = visible_to sample_memories (Some ''p'') [] (Some MS_ACTIVE) False 500"

lemma sample_memories_facts:
  "map r_id sample_memories = [''m1'', ''m2'', ''m3'']"
  "map (map m_id) (find_duplicate_groups duplicate_threshold sample_seen) = [[''m1'', ''m2'']]"
  "map (m_id \<circ> primary_of) (find_duplicate_groups duplicate_threshold sample_seen) = [''m2'']"
  "map (m_superseded_by \<circ> primary_of) (find_duplicate_groups duplicate_threshold sample_seen) = [None]"
  "map total_recurrence (find_duplicate_groups duplicate_threshold sample_seen) = [4]"
  "map m_supersedes sample_seen = [None, None, None]"
  "map (m_recurrence_count \<circ> r_payload) sample_memories = [1, 3, 1]"
  by code_simp+

lemma sample_memories_ok: "store_ok sample_memories"
  by (simp add: store_ok_def sample_memories_def row_ok_def row_of_def sample_memory_def is_ok_scoping
      truthy_opt_def)


end
