(* ===== verification/Ownership.thy ===== *)
theory Ownership
  imports Agent_Model
begin

text \<open>
  \<open>edith/engineering/ownership.py\<close> and the planned task of \<open>edith/product/architecture.py\<close>:
  the engineering roles with their write ceilings, the narrowing of a ceiling to the paths a
  task names, and the assignment of a plan's tasks. A rejection is an error value instead of
  its prose.
\<close>

datatype engineering_role = FRONTEND | BACKEND | DATABASE | DEVOPS | DEPENDENCY | GENERIC

fun str_role :: "engineering_role \<Rightarrow> string" where
  "str_role FRONTEND = ''frontend''"
| "str_role BACKEND = ''backend''"
| "str_role DATABASE = ''database''"
| "str_role DEVOPS = ''devops''"
| "str_role DEPENDENCY = ''dependency''"
| "str_role GENERIC = ''generic''"

definition all_roles :: "engineering_role list" where
  "all_roles = [FRONTEND, BACKEND, DATABASE, DEVOPS, DEPENDENCY, GENERIC]"

fun specialised_write :: "engineering_role \<Rightarrow> string list" where
  "specialised_write FRONTEND =
     [''src/frontend/**'', ''frontend/**'', ''static/**'', ''templates/**'', ''tests/frontend/**'']"
| "specialised_write BACKEND =
     [''src/backend/**'', ''backend/**'', ''src/api/**'', ''api/**'', ''tests/backend/**'']"
| "specialised_write DATABASE =
     [''database/**'', ''migrations/**'', ''src/database/**'', ''tests/database/**'']"
| "specialised_write DEVOPS =
     [''docker/**'', ''deploy/**'', ''.github/**'', ''scripts/**'', ''Dockerfile'',
      ''docker-compose.yml'', ''Makefile'']"
| "specialised_write DEPENDENCY =
     [''requirements.txt'', ''requirements-dev.txt'', ''pyproject.toml'', ''package.json'',
      ''scripts/install.bat'', ''scripts/install.ps1'', ''scripts/install.sh'']"
| "specialised_write GENERIC = []"

definition union_of_specialised_scopes :: "string list" where
  "union_of_specialised_scopes =
     sorted_set (concat (map specialised_write (filter (\<lambda>r. r \<noteq> GENERIC) all_roles)))"

record role_scope =
  rs_role :: engineering_role
  rs_write :: "string list"
  rs_read :: "string list"
  rs_tools :: "string list"
  rs_forbidden :: "string list"

fun role_forbidden :: "engineering_role \<Rightarrow> string list" where
  "role_forbidden FRONTEND = [''migrations/**'', ''database/**'', ''docker/**'', ''deploy/**'']"
| "role_forbidden BACKEND = [''migrations/**'', ''docker/**'', ''deploy/**'', ''src/frontend/**'']"
| "role_forbidden DATABASE = [''src/backend/**'', ''src/frontend/**'', ''backend/**'', ''frontend/**'']"
| "role_forbidden DEVOPS = [''src/**'', ''migrations/**'', ''tests/**'']"
| "role_forbidden DEPENDENCY = [''src/**'', ''tests/**'', ''migrations/**'']"
| "role_forbidden GENERIC = []"

definition scope_for :: "engineering_role \<Rightarrow> role_scope" where
  "scope_for r =
     \<lparr>rs_role = r,
      rs_write = (if r = GENERIC then union_of_specialised_scopes else specialised_write r),
      rs_read = [''**''],
      rs_tools = [''filesystem.read'', ''filesystem.search'', ''filesystem.write'', ''filesystem.patch''],
      rs_forbidden = role_forbidden r\<rparr>"

definition scope_permissions :: "role_scope \<Rightarrow> (permission_error, agent_permissions) res" where
  "scope_permissions s = validate_permissions
     \<lparr>p_allowed_tools = rs_tools s, p_allowed_read_paths = rs_read s,
      p_allowed_write_paths = rs_write s, p_network_access = False\<rparr>"

definition role_aliases :: "(string \<times> engineering_role) list" where
  "role_aliases =
     [(''ui'', FRONTEND), (''web'', FRONTEND), (''client'', FRONTEND), (''server'', BACKEND),
      (''api'', BACKEND), (''service'', BACKEND), (''db'', DATABASE), (''schema'', DATABASE),
      (''migration'', DATABASE), (''infra'', DEVOPS), (''infrastructure'', DEVOPS), (''ops'', DEVOPS),
      (''deps'', DEPENDENCY), (''packaging'', DEPENDENCY)]"

definition role_of_value :: "string \<Rightarrow> engineering_role option" where
  "role_of_value s = map_of (map (\<lambda>r. (str_role r, r)) all_roles) s"

definition resolve_role :: "string \<Rightarrow> engineering_role option" where
  "resolve_role name =
     (let candidate = remove_suffix ''-agent'' (remove_suffix ''_agent'' (py_lower (py_strip name)))
      in case map_of role_aliases candidate of
           Some r \<Rightarrow> Some r
         | None \<Rightarrow> role_of_value candidate)"

section \<open>Planned tasks\<close>

datatype complexity = CX_TRIVIAL | CX_SMALL | CX_MEDIUM | CX_LARGE | CX_UNKNOWN

record planned_task =
  pt_task_id :: string
  pt_title :: string
  pt_description :: string
  pt_agent :: string
  pt_depends_on :: "string list"
  pt_implements :: "string list"
  pt_components :: "string list"
  pt_acceptance_criteria :: "string list"
  pt_verification :: "string list"
  pt_complexity :: complexity
  pt_paths :: "string list"

datatype rejection = UnknownAgent string string | OutsideRemit string engineering_role "string list"

record assignment =
  a_task :: planned_task
  a_role :: engineering_role
  a_write_paths :: "string list"
  a_rejection :: "rejection option"

definition assigned :: "assignment \<Rightarrow> bool" where
  "assigned a \<longleftrightarrow> a_rejection a = None"

definition assignment_permissions :: "assignment \<Rightarrow> (permission_error, agent_permissions) res" where
  "assignment_permissions a = validate_permissions
     \<lparr>p_allowed_tools = rs_tools (scope_for (a_role a)),
      p_allowed_read_paths = rs_read (scope_for (a_role a)),
      p_allowed_write_paths = a_write_paths a, p_network_access = False\<rparr>"

section \<open>Scopes\<close>

definition scope_normal :: "string \<Rightarrow> string" where
  "scope_normal path = lstrip_chars ''./'' (fwd_slashes path)"

definition matches_pattern :: "string \<Rightarrow> string \<Rightarrow> bool" where
  "matches_pattern normalised pattern =
     (let cleaned = fwd_slashes pattern in
      if ends_with cleaned ''/**''
      then (let p = drop_last 3 cleaned in normalised = p \<or> starts_with normalised (p @ ''/''))
      else cleaned = normalised)"

definition within_scope :: "string \<Rightarrow> string list \<Rightarrow> bool" where
  "within_scope path patterns = list_ex (matches_pattern (scope_normal path)) patterns"

definition scope_candidate :: "string \<Rightarrow> string" where
  "scope_candidate raw = py_strip (fwd_slashes raw)"

definition accepts_path :: "role_scope \<Rightarrow> string \<Rightarrow> bool" where
  "accepts_path s c \<longleftrightarrow>
     c \<noteq> [] \<and> \<not> starts_with c ''/'' \<and> ''..'' \<notin> set (split_on (CHR ''/'') c) \<and>
     \<not> within_scope c (rs_forbidden s) \<and> within_scope c (rs_write s)"

definition grant_path :: "role_scope \<Rightarrow> string \<Rightarrow> string list" where
  "grant_path s raw =
     (let c = scope_candidate raw in
      if \<not> accepts_path s c then []
      else if parent_path c \<noteq> [] then [c, parent_path c @ ''/**''] else [c])"

definition narrow_scope :: "engineering_role \<Rightarrow> string list \<Rightarrow> string list" where
  "narrow_scope role paths =
     (let s = scope_for role in
      if paths = [] then rs_write s
      else (let g = sorted_set (concat (map (grant_path s) paths))
            in if g = [] then rs_write s else g))"

definition assign :: "planned_task \<Rightarrow> assignment" where
  "assign t =
     (case resolve_role (pt_agent t) of
        None \<Rightarrow> \<lparr>a_task = t, a_role = BACKEND, a_write_paths = [],
                 a_rejection = Some (UnknownAgent (pt_task_id t) (pt_agent t))\<rparr>
      | Some role \<Rightarrow>
          (let s = scope_for role;
               forbidden = filter (\<lambda>p. within_scope p (rs_forbidden s)) (pt_paths t)
           in if forbidden \<noteq> []
              then \<lparr>a_task = t, a_role = role, a_write_paths = [],
                    a_rejection = Some (OutsideRemit (pt_task_id t) role forbidden)\<rparr>
              else \<lparr>a_task = t, a_role = role, a_write_paths = narrow_scope role (pt_paths t),
                    a_rejection = None\<rparr>))"

definition assign_plan :: "planned_task list \<Rightarrow> assignment list" where
  "assign_plan tasks = map assign tasks"

section \<open>The ceilings\<close>

definition governs :: "string \<Rightarrow> string" where
  "governs pattern =
     (let cleaned = fwd_slashes pattern in
      if ends_with cleaned ''/**'' then drop_last 3 cleaned else cleaned)"

definition patterns_meet :: "string \<Rightarrow> string \<Rightarrow> bool" where
  "patterns_meet p q \<longleftrightarrow> under (governs p) (governs q) \<or> under (governs q) (governs p)"

lemma matches_governs: "matches_pattern n p \<Longrightarrow> under (governs p) n"
  by (auto simp: matches_pattern_def governs_def under_def Let_def split: if_splits)

lemma matches_meet: "matches_pattern n p \<Longrightarrow> matches_pattern n q \<Longrightarrow> patterns_meet p q"
  unfolding patterns_meet_def using matches_governs under_comparable by blast

lemma own_and_forbidden_apart:
  "list_all (\<lambda>r. list_all (\<lambda>p. list_all (\<lambda>q. \<not> patterns_meet p q) (rs_forbidden (scope_for r)))
     (rs_write (scope_for r))) all_roles"
  by code_simp

definition installers :: "string list" where
  "installers = [''scripts/install.bat'', ''scripts/install.ps1'', ''scripts/install.sh'']"

lemma ceilings_meet:
  "list_all (\<lambda>r. list_all (\<lambda>r'. r \<noteq> r' \<longrightarrow> list_all (\<lambda>p. list_all (\<lambda>q. patterns_meet p q \<longrightarrow>
       (r = DEVOPS \<and> r' = DEPENDENCY \<and> q \<in> set installers) \<or>
       (r = DEPENDENCY \<and> r' = DEVOPS \<and> p \<in> set installers))
     (specialised_write r')) (specialised_write r)) all_roles) all_roles"
  by code_simp

lemma all_roles_set [simp]: "r \<in> set all_roles"
  by (cases r) (simp_all add: all_roles_def)

lemma installer_exact: "q \<in> set installers \<Longrightarrow> matches_pattern n q \<Longrightarrow> n = q"
  by (auto simp: installers_def matches_pattern_def fwd_slashes_def ends_with_def suffix_def Let_def
      split: if_splits)

text \<open>The role ceilings: no path is both within a role's write ceiling and within what that
  role is forbidden, and no path is within the ceilings of two different specialised roles,
  except the three installer scripts, which DEVOPS and DEPENDENCY share.
\<close>

theorem role_ceilings_disjoint:
  "\<not> (within_scope path (rs_write (scope_for r)) \<and> within_scope path (rs_forbidden (scope_for r))) \<and>
   (r \<noteq> r' \<longrightarrow> r \<noteq> GENERIC \<longrightarrow> r' \<noteq> GENERIC \<longrightarrow>
    within_scope path (rs_write (scope_for r)) \<longrightarrow> within_scope path (rs_write (scope_for r')) \<longrightarrow>
      {r, r'} = {DEVOPS, DEPENDENCY} \<and>
      scope_normal path \<in> {''scripts/install.bat'', ''scripts/install.ps1'', ''scripts/install.sh''})"
proof (intro conjI impI notI)
  assume "within_scope path (rs_write (scope_for r)) \<and> within_scope path (rs_forbidden (scope_for r))"
  then obtain p q where p: "p \<in> set (rs_write (scope_for r))" "q \<in> set (rs_forbidden (scope_for r))"
    and m: "matches_pattern (scope_normal path) p" "matches_pattern (scope_normal path) q"
    by (auto simp: within_scope_def list_ex_iff)
  from own_and_forbidden_apart p have "\<not> patterns_meet p q" by (auto simp: list_all_iff)
  with matches_meet [OF m] show False by blast
next
  assume r: "r \<noteq> r'" "r \<noteq> GENERIC" "r' \<noteq> GENERIC"
    and w: "within_scope path (rs_write (scope_for r))" "within_scope path (rs_write (scope_for r'))"
  then obtain p q where p: "p \<in> set (specialised_write r)" "q \<in> set (specialised_write r')"
    and m: "matches_pattern (scope_normal path) p" "matches_pattern (scope_normal path) q"
    by (auto simp: within_scope_def list_ex_iff scope_for_def)
  have "(r = DEVOPS \<and> r' = DEPENDENCY \<and> q \<in> set installers) \<or>
       (r = DEPENDENCY \<and> r' = DEVOPS \<and> p \<in> set installers)"
    using ceilings_meet p r(1) matches_meet [OF m] by (auto simp: list_all_iff)
  then have "{r, r'} = {DEVOPS, DEPENDENCY} \<and> scope_normal path \<in> set installers"
    using installer_exact m by blast
  then show "{r, r'} = {DEVOPS, DEPENDENCY}"
    "scope_normal path \<in> {''scripts/install.bat'', ''scripts/install.ps1'', ''scripts/install.sh''}"
    by (simp_all add: installers_def)
qed

theorem role_ceilings_disjoint_witness:
  "DEVOPS \<noteq> DEPENDENCY \<and> within_scope ''scripts/install.sh'' (rs_write (scope_for DEVOPS)) \<and>
   within_scope ''scripts/install.sh'' (rs_write (scope_for DEPENDENCY)) \<and>
   {DEVOPS, DEPENDENCY} = {DEVOPS, DEPENDENCY}"
proof -
  have w: "within_scope ''scripts/install.sh'' (rs_write (scope_for DEVOPS))"
    "within_scope ''scripts/install.sh'' (rs_write (scope_for DEPENDENCY))" by code_simp+
  with role_ceilings_disjoint [of "''scripts/install.sh''" DEVOPS DEPENDENCY] show ?thesis by simp
qed

section \<open>Narrowing\<close>

lemma fwd_slashes_idem [simp]: "fwd_slashes (fwd_slashes s) = fwd_slashes s"
  by (simp add: fwd_slashes_def)

lemma fwd_slashes_append [simp]: "fwd_slashes (s @ t) = fwd_slashes s @ fwd_slashes t"
  by (simp add: fwd_slashes_def)

lemma fwd_slashes_fixed: "CHR 0x5C \<notin> set s \<Longrightarrow> fwd_slashes s = s"
  by (auto simp: fwd_slashes_def intro: map_idI)

lemma no_backslash [simp]: "CHR 0x5C \<notin> set (fwd_slashes s)"
  by (auto simp: fwd_slashes_def)

lemma set_py_strip: "set (py_strip s) \<subseteq> set s"
proof -
  have "set (dropWhile P xs) \<subseteq> set xs" for P and xs :: string by (auto dest: set_dropWhileD)
  then show ?thesis unfolding py_strip_def py_rstrip_def py_lstrip_def
    by (metis set_rev subset_trans)
qed

lemma scope_candidate_plain [simp]: "CHR 0x5C \<notin> set (scope_candidate raw)"
  using set_py_strip [of "fwd_slashes raw"] no_backslash by (auto simp: scope_candidate_def)

lemma scope_candidate_fixed [simp]: "fwd_slashes (scope_candidate raw) = scope_candidate raw"
  by (simp add: fwd_slashes_fixed)

lemma scope_normal_idem [simp]: "scope_normal (scope_normal s) = scope_normal s"
proof -
  have "CHR 0x5C \<notin> set (scope_normal s)"
    using no_backslash [of s] by (auto simp: scope_normal_def lstrip_chars_def dest: set_dropWhileD)
  then have "scope_normal (scope_normal s) = lstrip_chars ''./'' (scope_normal s)"
    by (simp add: scope_normal_def [of "scope_normal s"] fwd_slashes_fixed)
  then show ?thesis by (simp add: scope_normal_def lstrip_chars_def)
qed

lemma within_scope_normal: "within_scope (scope_normal s) ps = within_scope s ps"
  by (simp add: within_scope_def)

lemma drop_last_3 [simp]: "drop_last 3 (s @ ''/**'') = s"
  using drop_last_append [of "''/**''" s] by (simp add: numeral_3_eq_3)

lemma matches_dir: "fwd_slashes d = d \<Longrightarrow> matches_pattern n (d @ ''/**'') \<longleftrightarrow> under d n"
proof -
  assume d: "fwd_slashes d = d"
  have "fwd_slashes ''/**'' = ''/**''" by (simp add: fwd_slashes_def)
  moreover have "ends_with (d @ ''/**'') ''/**''" unfolding ends_with_def suffix_def by blast
  ultimately show ?thesis using d by (simp add: matches_pattern_def Let_def under_def)
qed

lemma matches_under:
  assumes "CHR 0x5C \<notin> set c" "matches_pattern n c" "under d c"
    and "starts_with c (d @ ''/'') \<or> \<not> ends_with c ''/**''"
  shows "under d n"
proof (cases "ends_with c ''/**''")
  case False
  with assms show ?thesis by (simp add: matches_pattern_def fwd_slashes_fixed)
next
  case True
  with assms(4) have "under d (parent_path c)" using under_parent_of by blast
  moreover have "parent_path c = drop_last 3 c"
  proof -
    from True obtain e where e: "c = e @ ''/**''" by (auto simp: ends_with_def suffix_def)
    then show ?thesis by (simp add: parent_path_def)
  qed
  ultimately show ?thesis
    using assms(1,2) True under_trans by (auto simp: matches_pattern_def Let_def fwd_slashes_fixed under_def)
qed

lemma specialised_plain: "d @ ''/**'' \<in> set (rs_write (scope_for r)) \<Longrightarrow> fwd_slashes d = d"
proof -
  assume d: "d @ ''/**'' \<in> set (rs_write (scope_for r))"
  have "list_all (\<lambda>r. list_all (\<lambda>p. CHR 0x5C \<notin> set p) (rs_write (scope_for r))) all_roles" by code_simp
  then have "CHR 0x5C \<notin> set (d @ ''/**'')" using d all_roles_set unfolding list_all_iff by blast
  then show ?thesis by (simp add: fwd_slashes_fixed)
qed

text \<open>A named path is nested when it lies strictly below a directory of the ceiling, or has no
  directory at all.\<close>

definition nested_path :: "engineering_role \<Rightarrow> string \<Rightarrow> bool" where
  "nested_path r c \<longleftrightarrow> CHR ''/'' \<notin> set c \<or>
     (\<exists>d. d @ ''/**'' \<in> set (rs_write (scope_for r)) \<and> starts_with c (d @ ''/''))"

lemma grant_within:
  assumes acc: "accepts_path (scope_for r) (scope_candidate raw)" and nested: "nested_path r (scope_candidate raw)"
    and g: "g \<in> set (grant_path (scope_for r) raw)" and n: "matches_pattern n g" and norm: "scope_normal n = n"
  shows "within_scope n (rs_write (scope_for r))"
proof -
  let ?c = "scope_candidate raw"
  from nested consider "CHR ''/'' \<notin> set ?c"
    | d where "d @ ''/**'' \<in> set (rs_write (scope_for r))" "starts_with ?c (d @ ''/'')"
    by (auto simp: nested_path_def)
  then show ?thesis
  proof cases
    case 1
    then have "parent_path ?c = []" by (simp add: parent_path_def)
    with g acc have "g = ?c" by (simp add: grant_path_def Let_def)
    moreover have "\<not> ends_with ?c ''/**''" using 1 by (auto simp: ends_with_def suffix_def)
    ultimately have "n = ?c" using n by (simp add: matches_pattern_def)
    with acc show ?thesis by (simp add: accepts_path_def)
  next
    case 2
    have under_c: "under d ?c" using 2(2) by (simp add: under_def)
    have "under d n"
    proof (cases "g = ?c")
      case True
      with n have "matches_pattern n ?c" by simp
      then show ?thesis using under_c 2(2) by (intro matches_under [of ?c n d]) simp_all
    next
      case False
      with g acc have gp: "g = parent_path ?c @ ''/**''" by (auto simp: grant_path_def Let_def split: if_splits)
      have sl: "CHR ''/'' \<in> set ?c" using 2(2) by (auto simp: starts_with_append)
      have "set (parent_path ?c) \<subseteq> set ?c" by (rule parent_path_split [OF sl]) (metis Un_upper1 set_append)
      then have "fwd_slashes (parent_path ?c) = parent_path ?c"
        using scope_candidate_plain [of raw] by (intro fwd_slashes_fixed) blast
      then have "under (parent_path ?c) n" using n gp by (simp add: matches_dir)
      with under_parent_of [OF 2(2)] show ?thesis by (rule under_trans)
    qed
    then have "matches_pattern n (d @ ''/**'')"
      using matches_dir specialised_plain [OF 2(1)] by blast
    with 2(1) show ?thesis by (auto simp: within_scope_def list_ex_iff norm)
  qed
qed

text \<open>
  Narrowing stays inside the role's ceiling when every path the task names and the role
  accepts lies strictly below one of the ceiling's directories or has no directory: whatever
  the narrowed scope covers, the ceiling covers. The result is never empty, and it is the
  whole ceiling exactly when no named path is accepted or the ceiling happens to be granted.
\<close>

theorem narrow_scope_confined:
  assumes "\<forall>raw \<in> set paths. accepts_path (scope_for r) (scope_candidate raw) \<longrightarrow>
      nested_path r (scope_candidate raw)"
    and "within_scope path (narrow_scope r paths)"
  shows "within_scope path (rs_write (scope_for r)) \<and> narrow_scope r paths \<noteq> [] \<and>
    ((\<forall>raw \<in> set paths. \<not> accepts_path (scope_for r) (scope_candidate raw)) \<longrightarrow>
       narrow_scope r paths = rs_write (scope_for r))"
proof (intro conjI impI)
  let ?g = "sorted_set (concat (map (grant_path (scope_for r)) paths))"
  show "narrow_scope r paths \<noteq> []" using assms(2) by (auto simp: within_scope_def)
  show "within_scope path (rs_write (scope_for r))"
  proof (cases "paths = [] \<or> ?g = []")
    case True
    then have "narrow_scope r paths = rs_write (scope_for r)"
      by (auto simp: narrow_scope_def Let_def simp del: sorted_set_Nil_iff)
    with assms(2) show ?thesis by simp
  next
    case False
    then have "narrow_scope r paths = ?g" by (auto simp: narrow_scope_def Let_def)
    with assms(2) obtain raw g where raw: "raw \<in> set paths" "g \<in> set (grant_path (scope_for r) raw)"
      "matches_pattern (scope_normal path) g" by (auto simp: within_scope_def list_ex_iff)
    have acc: "accepts_path (scope_for r) (scope_candidate raw)"
      using raw(2) by (auto simp: grant_path_def Let_def split: if_splits)
    from grant_within [OF acc _ raw(2,3)] assms(1) raw(1) acc
    show ?thesis by (simp add: within_scope_normal)
  qed
next
  assume "\<forall>raw \<in> set paths. \<not> accepts_path (scope_for r) (scope_candidate raw)"
  then have "concat (map (grant_path (scope_for r)) paths) = []"
    by (simp add: grant_path_def Let_def)
  then show "narrow_scope r paths = rs_write (scope_for r)" by (simp add: narrow_scope_def Let_def)
qed

theorem narrow_scope_confined_witness:
  "within_scope ''src/backend/models.py'' (rs_write (scope_for BACKEND))"
proof -
  have w: "within_scope ''src/backend/models.py'' (narrow_scope BACKEND [''src/backend/api.py''])"
    by code_simp
  have "''src/backend'' @ ''/**'' \<in> set (rs_write (scope_for BACKEND)) \<and>
      starts_with (scope_candidate ''src/backend/api.py'') (''src/backend'' @ ''/'')" by code_simp
  then have "nested_path BACKEND (scope_candidate ''src/backend/api.py'')"
    unfolding nested_path_def by blast
  with narrow_scope_confined [OF _ w] show ?thesis by simp
qed

text \<open>Outside that case narrowing widens: a backend task that names the directory
  \<open>src/api\<close> is granted \<open>src/**\<close>, which covers the frontend's sources; a dependency task
  that names its own installer script is granted all of \<open>scripts\<close>; and a devops task that
  names a workflow under \<open>.github\<close>, which is in its ceiling, is not narrowed at all.
\<close>

theorem narrow_scope_widens:
  "''src/**'' \<in> set (narrow_scope BACKEND [''src/api'']) \<and>
   within_scope ''src/frontend/app.js'' (narrow_scope BACKEND [''src/api'']) \<and>
   within_scope ''src/frontend/app.js'' (rs_forbidden (scope_for BACKEND)) \<and>
   within_scope ''scripts/deploy.sh'' (narrow_scope DEPENDENCY [''scripts/install.sh'']) \<and>
   \<not> within_scope ''scripts/deploy.sh'' (rs_write (scope_for DEPENDENCY)) \<and>
   ''.github/**'' \<in> set (rs_write (scope_for DEVOPS)) \<and>
   narrow_scope DEVOPS [''.github/workflows/ci.yml''] = rs_write (scope_for DEVOPS)"
  by code_simp

section \<open>Assignment\<close>

lemma ceiling_patterns_ok:
  "list_all (\<lambda>r. list_all (\<lambda>p. permission_pattern_error p = None) (rs_write (scope_for r))) all_roles"
  by code_simp

lemma ceiling_heads:
  "list_all (\<lambda>r. list_all (\<lambda>p. length (governs p) \<ge> 2 \<and> governs p ! 0 \<noteq> CHR '':'' \<and> governs p ! 1 \<noteq> CHR '':'')
     (rs_write (scope_for r))) all_roles"
  by code_simp

lemma under_nth: "under d n \<Longrightarrow> i < length d \<Longrightarrow> n ! i = d ! i"
  by (auto simp: under_def starts_with_append nth_append)

lemma accepted_not_drive:
  assumes "within_scope c (rs_write (scope_for r))" "CHR 0x5C \<notin> set c" "length c > 1"
  shows "c ! 1 \<noteq> CHR '':''"
proof -
  from assms(1) obtain p where p: "p \<in> set (rs_write (scope_for r))" "matches_pattern (scope_normal c) p"
    by (auto simp: within_scope_def list_ex_iff)
  from ceiling_heads p(1) have h: "length (governs p) \<ge> 2" "governs p ! 0 \<noteq> CHR '':''" "governs p ! 1 \<noteq> CHR '':''"
    using all_roles_set unfolding list_all_iff by blast+
  have under: "under (governs p) (scope_normal c)" by (rule matches_governs [OF p(2)])
  have "scope_normal c ! 0 = governs p ! 0" "scope_normal c ! 1 = governs p ! 1"
    using h(1) by (auto intro!: under_nth [OF under])
  with h have n: "scope_normal c ! 0 \<noteq> CHR '':''" "scope_normal c ! 1 \<noteq> CHR '':''" by simp_all
  define u where "u = takeWhile (\<lambda>x. x \<in> set ''./'') c"
  have c: "c = u @ scope_normal c"
    using assms(2) by (simp add: u_def scope_normal_def lstrip_chars_def fwd_slashes_fixed)
  have u: "x \<noteq> CHR '':''" if "x \<in> set u" for x using that by (auto simp: u_def dest: set_takeWhileD)
  consider "u = []" | x where "u = [x]" | x y v where "u = x # y # v" by (metis neq_Nil_conv)
  then show ?thesis
  proof cases
    case 1
    with c n(2) show ?thesis by simp
  next
    case (2 x)
    from c have "c ! 1 = (u @ scope_normal c) ! 1" by simp
    with 2 n(1) show ?thesis by simp
  next
    case (3 x y v)
    from c have "c ! 1 = (u @ scope_normal c) ! 1" by simp
    with 3 u show ?thesis by simp
  qed
qed

lemma grant_pattern_ok:
  assumes "g \<in> set (grant_path (scope_for r) raw)"
  shows "permission_pattern_error g = None"
proof -
  let ?c = "scope_candidate raw"
  have acc: "accepts_path (scope_for r) ?c" and g: "g = ?c \<or> (parent_path ?c \<noteq> [] \<and> g = parent_path ?c @ ''/**'')"
    using assms by (auto simp: grant_path_def Let_def split: if_splits)
  have colon: "length ?c > 1 \<Longrightarrow> ?c ! 1 \<noteq> CHR '':''"
    using acc by (intro accepted_not_drive [of _ r]) (auto simp: accepts_path_def)
  have nobs: "\<not> starts_with ?c [CHR 0x5C]"
  proof
    assume "starts_with ?c [CHR 0x5C]"
    then have "CHR 0x5C \<in> set ?c" unfolding starts_with_append by (metis append_Cons list.set_intros(1))
    then show False by simp
  qed
  have c: "permission_pattern_error ?c = None"
    using acc colon nobs by (auto simp: permission_pattern_error_def accepts_path_def)
  show ?thesis
  proof (cases "g = ?c")
    case True
    with c show ?thesis by simp
  next
    case False
    with g have par: "parent_path ?c \<noteq> []" and gp: "g = parent_path ?c @ ''/**''" by auto
    then have "CHR ''/'' \<in> set ?c" by (auto simp: parent_path_def split: if_splits)
    then obtain t where t: "?c = parent_path ?c @ CHR ''/'' # t" by (rule parent_path_split)
    have head: "hd (parent_path ?c) = hd ?c" using par by (subst (2) t) simp
    have "set (parent_path ?c) \<subseteq> set ?c" by (subst (2) t) auto
    then have fw: "fwd_slashes g = g" using scope_candidate_plain [of raw]
      by (intro fwd_slashes_fixed) (auto simp: gp)
    have "split_on (CHR ''/'') ?c = split_on (CHR ''/'') (parent_path ?c) @ split_on (CHR ''/'') t"
      by (subst t) (rule split_on_append)
    moreover have "split_on (CHR ''/'') g = split_on (CHR ''/'') (parent_path ?c) @ [''**'']"
      using split_on_append [of "CHR ''/''" "parent_path ?c" "''**''"] by (simp add: gp)
    ultimately have dots: "''..'' \<notin> set (split_on (CHR ''/'') g)"
      using acc by (auto simp: accepts_path_def)
    have first: "\<not> starts_with g ''/''" "\<not> starts_with g [CHR 0x5C]"
      using acc nobs par head by (auto simp: accepts_path_def gp starts_with_def prefix_def neq_Nil_conv)
    have "g ! 1 \<noteq> CHR '':''"
    proof (cases "length (parent_path ?c) = 1")
      case True
      then show ?thesis by (simp add: gp nth_append)
    next
      case False
      with par have l: "1 < length (parent_path ?c)" by (cases "parent_path ?c") auto
      then have "?c ! 1 = parent_path ?c ! 1" by (subst t) (simp add: nth_append)
      with l colon show ?thesis by (auto simp: gp nth_append) (metis One_nat_def Suc_lessD length_append t trans_less_add1)
    qed
    then show ?thesis using first dots fw by (simp add: permission_pattern_error_def)
  qed
qed

lemma narrow_patterns_ok: "g \<in> set (narrow_scope r paths) \<Longrightarrow> permission_pattern_error g = None"
proof -
  assume g: "g \<in> set (narrow_scope r paths)"
  have w: "permission_pattern_error p = None" if "p \<in> set (rs_write (scope_for r))" for p
    using ceiling_patterns_ok that all_roles_set unfolding list_all_iff by blast
  show ?thesis
  proof (cases "g \<in> set (rs_write (scope_for r))")
    case False
    with g have "g \<in> set (concat (map (grant_path (scope_for r)) paths))"
      by (auto simp: narrow_scope_def Let_def split: if_splits)
    then show ?thesis using grant_pattern_ok by auto
  qed (rule w)
qed

lemma narrow_scope_nonempty: "narrow_scope r paths \<noteq> []"
proof -
  have "list_all (\<lambda>r. rs_write (scope_for r) \<noteq> []) all_roles" by code_simp
  then have "rs_write (scope_for r) \<noteq> []" using all_roles_set unfolding list_all_iff by blast
  then show ?thesis by (auto simp: narrow_scope_def Let_def)
qed

lemma role_names: "list_all (\<lambda>r. resolve_role (str_role r) = Some r \<and>
    resolve_role (str_role r @ ''_agent'') = Some r) all_roles"
  by code_simp

text \<open>Assignment is validated, not trusted: a task is assigned exactly when its agent resolves
  to a known role and no path it names lies in that role's forbidden area; a rejected task
  holds no write permission; an assigned one holds exactly the narrowed scope of the resolved
  role, which is not empty, and its permissions always pass the permission validator (so
  they never contain an absolute or a parent path).
\<close>

theorem assign_validated:
  "(assigned (assign t) \<longleftrightarrow> (\<exists>r. resolve_role (pt_agent t) = Some r \<and>
      (\<forall>p \<in> set (pt_paths t). \<not> within_scope p (rs_forbidden (scope_for r))))) \<and>
   (\<not> assigned (assign t) \<longrightarrow> a_write_paths (assign t) = []) \<and>
   (assigned (assign t) \<longrightarrow> resolve_role (pt_agent t) = Some (a_role (assign t)) \<and>
      a_write_paths (assign t) = narrow_scope (a_role (assign t)) (pt_paths t) \<and>
      a_write_paths (assign t) \<noteq> []) \<and>
   is_ok (assignment_permissions (assign t)) \<and> a_task (assign t) = t"
proof -
  have "\<forall>p \<in> set (a_write_paths (assign t)). permission_pattern_error p = None"
    using narrow_patterns_ok by (auto simp: assign_def Let_def split: option.splits)
  then have wp: "first_pattern_error (a_write_paths (assign t)) = None" by (simp add: first_pattern_error_None)
  have "first_pattern_error [''**''] = None" by code_simp
  with wp have "is_ok (assignment_permissions (assign t))"
    by (simp add: assignment_permissions_def validate_permissions_def scope_for_def)
  then show ?thesis
    by (auto simp: assign_def assigned_def Let_def narrow_scope_nonempty filter_empty_conv split: option.splits)
qed

definition sample_planned_task :: "string \<Rightarrow> string \<Rightarrow> string list \<Rightarrow> planned_task" where
  "sample_planned_task i agent paths = \<lparr>pt_task_id = i, pt_title = ''t'', pt_description = ''d'',
     pt_agent = agent, pt_depends_on = [], pt_implements = [], pt_components = [],
     pt_acceptance_criteria = [], pt_verification = [''tests''], pt_complexity = CX_MEDIUM,
     pt_paths = paths\<rparr>"

theorem assign_validated_witness:
  "\<not> assigned (assign (sample_planned_task ''TASK-001'' ''Frontend_Agent'' [''migrations/1.sql''])) \<and>
   a_write_paths (assign (sample_planned_task ''TASK-001'' ''Frontend_Agent'' [''migrations/1.sql''])) = []"
proof -
  have "\<not> assigned (assign (sample_planned_task ''TASK-001'' ''Frontend_Agent'' [''migrations/1.sql'']))"
    by code_simp
  with assign_validated [of "sample_planned_task ''TASK-001'' ''Frontend_Agent'' [''migrations/1.sql'']"]
  show ?thesis by simp
qed

end
