(* ===== verification/Conflicts.thy ===== *)
theory Conflicts
  imports Ownership
begin

text \<open>
  \<open>edith/engineering/conflicts.py\<close>: which pairs of assigned tasks could write the same file
  in an undefined order, and the order conflicting tasks are run in. The prose of a conflict
  is left out.
\<close>

datatype conflict_kind = OVERLAPPING_SCOPE | SAME_FILE | ROLE_OVERLAP

record task_conflict =
  c_kind :: conflict_kind
  c_task_ids :: "string \<times> string"
  c_agents :: "engineering_role \<times> engineering_role"
  c_scopes :: "string list"

definition cross_role :: "task_conflict \<Rightarrow> bool" where
  "cross_role c \<longleftrightarrow> fst (c_agents c) \<noteq> snd (c_agents c)"

definition normalise_pattern :: "string \<Rightarrow> string" where
  "normalise_pattern pattern =
     (let cleaned = py_strip (fwd_slashes pattern) in
      if ends_with cleaned ''/**'' then drop_last 3 cleaned else cleaned)"

definition overlaps :: "string \<Rightarrow> string \<Rightarrow> bool" where
  "overlaps l r \<longleftrightarrow>
     (let a = normalise_pattern l; b = normalise_pattern r in
      a = b \<or> starts_with a (b @ ''/'') \<or> starts_with b (a @ ''/''))"

definition shared_scopes :: "assignment \<Rightarrow> assignment \<Rightarrow> string list" where
  "shared_scopes l r =
     sorted_set (filter (\<lambda>p. list_ex (overlaps p) (a_write_paths r)) (a_write_paths l))"

definition shared_files :: "assignment \<Rightarrow> assignment \<Rightarrow> string list" where
  "shared_files l r =
     sorted_set (filter (\<lambda>p. p \<in> set (pt_paths (a_task r))) (pt_paths (a_task l)))"

definition ordered_tasks :: "assignment \<Rightarrow> assignment \<Rightarrow> bool" where
  "ordered_tasks l r \<longleftrightarrow>
     pt_task_id (a_task r) \<in> set (pt_depends_on (a_task l)) \<or>
     pt_task_id (a_task l) \<in> set (pt_depends_on (a_task r))"

definition conflict_of :: "assignment \<Rightarrow> assignment \<Rightarrow> task_conflict option" where
  "conflict_of l r =
     (if ordered_tasks l r then None
      else (let files = shared_files l r; shared = shared_scopes l r;
                mk = (\<lambda>k sc. Some \<lparr>c_kind = k, c_task_ids = (pt_task_id (a_task l), pt_task_id (a_task r)),
                        c_agents = (a_role l, a_role r), c_scopes = sc\<rparr>)
            in if files \<noteq> [] then mk SAME_FILE files
               else if shared = [] then None
               else mk (if a_role l \<noteq> a_role r then ROLE_OVERLAP else OVERLAPPING_SCOPE) shared))"

fun conflicts_among :: "assignment list \<Rightarrow> task_conflict list" where
  "conflicts_among [] = []"
| "conflicts_among (l # rest) =
     concat (map (\<lambda>r. case conflict_of l r of None \<Rightarrow> [] | Some c \<Rightarrow> [c]) rest) @ conflicts_among rest"

definition detect_conflicts :: "assignment list \<Rightarrow> task_conflict list" where
  "detect_conflicts assignments = conflicts_among (filter assigned assignments)"

definition conflicted_ids :: "task_conflict list \<Rightarrow> string list" where
  "conflicted_ids cs = concat (map (\<lambda>c. [fst (c_task_ids c), snd (c_task_ids c)]) cs)"

definition serialise :: "assignment list \<Rightarrow> task_conflict list \<Rightarrow> assignment list" where
  "serialise assignments cs =
     sort_key (\<lambda>a. (pt_task_id (a_task a) \<in> set (conflicted_ids cs), pt_task_id (a_task a))) assignments"

section \<open>Detection is complete and sound\<close>

text \<open>A pattern whose ends are not white space, like every pattern of an assignment.\<close>

definition trimmed :: "string \<Rightarrow> bool" where
  "trimmed p \<longleftrightarrow> py_strip (fwd_slashes p) = fwd_slashes p"

lemma normalise_trimmed: "trimmed p \<Longrightarrow> normalise_pattern p = governs p"
  by (simp add: trimmed_def normalise_pattern_def governs_def)

lemma overlaps_meet: "trimmed p \<Longrightarrow> trimmed q \<Longrightarrow> overlaps p q \<longleftrightarrow> patterns_meet p q"
  by (auto simp: overlaps_def normalise_trimmed patterns_meet_def under_def Let_def)

lemma strip_id:
  assumes "s \<noteq> []" "\<not> is_space (hd s)" "\<not> is_space (last s)"
  shows "py_strip s = s"
proof -
  have "py_lstrip s = s" using assms(1,2) by (cases s) (simp_all add: py_lstrip_def)
  moreover have "py_rstrip s = s"
  proof -
    from assms(1) obtain t x where s: "s = t @ [x]" by (metis append_butlast_last_id)
    with assms(3) show ?thesis by (simp add: py_rstrip_def)
  qed
  ultimately show ?thesis by (simp add: py_strip_def)
qed

lemma py_strip_ends:
  assumes "py_strip s \<noteq> []"
  shows "\<not> is_space (hd (py_strip s)) \<and> \<not> is_space (last (py_strip s))"
proof -
  let ?l = "py_lstrip s"
  have r: "py_strip s = rev (dropWhile is_space (rev ?l))" by (simp add: py_strip_def py_rstrip_def)
  then have d: "dropWhile is_space (rev ?l) \<noteq> []" using assms by simp
  have "\<not> is_space (last (py_strip s))" using hd_dropWhile [OF d] by (simp add: r last_rev d)
  moreover have "\<not> is_space (hd (py_strip s))"
  proof -
    have "?l = py_strip s @ rev (takeWhile is_space (rev ?l))"
      unfolding r by (metis rev_append rev_rev_ident takeWhile_dropWhile_id)
    then have "hd ?l = hd (py_strip s)" using assms by (metis hd_append2)
    moreover have "?l \<noteq> []" using d by auto
    ultimately have "hd ?l = hd (py_strip s)" "?l \<noteq> []" by simp_all
    then show ?thesis using hd_dropWhile [of is_space s] by (simp add: py_lstrip_def)
  qed
  ultimately show ?thesis by simp
qed

lemma trimmed_dir: "p \<noteq> [] \<Longrightarrow> CHR 0x5C \<notin> set p \<Longrightarrow> \<not> is_space (hd p) \<Longrightarrow> trimmed (p @ ''/**'')"
proof -
  assume p: "p \<noteq> []" "CHR 0x5C \<notin> set p" "\<not> is_space (hd p)"
  have "fwd_slashes (p @ ''/**'') = p @ ''/**''" using p(2) by (intro fwd_slashes_fixed) simp
  moreover have "\<not> is_space (CHR ''*'')" by (simp add: is_space_def)
  ultimately show ?thesis using p by (simp add: trimmed_def strip_id)
qed

lemma ceiling_trimmed: "p \<in> set (rs_write (scope_for r)) \<Longrightarrow> trimmed p"
proof -
  assume p: "p \<in> set (rs_write (scope_for r))"
  have "list_all (\<lambda>r. list_all trimmed (rs_write (scope_for r))) all_roles" by code_simp
  then show ?thesis using p all_roles_set unfolding list_all_iff by blast
qed

lemma grant_trimmed: "g \<in> set (grant_path s raw) \<Longrightarrow> trimmed g"
proof -
  assume g: "g \<in> set (grant_path s raw)"
  let ?c = "scope_candidate raw"
  have c: "?c \<noteq> []" using g by (auto simp: grant_path_def accepts_path_def Let_def split: if_splits)
  then have ends: "\<not> is_space (hd ?c)" "\<not> is_space (last ?c)"
    using py_strip_ends [of "fwd_slashes raw"] by (simp_all add: scope_candidate_def)
  show ?thesis
  proof (cases "g = ?c")
    case True
    with c ends show ?thesis by (simp add: trimmed_def strip_id)
  next
    case False
    with g have par: "parent_path ?c \<noteq> []" "g = parent_path ?c @ ''/**''"
      by (auto simp: grant_path_def Let_def split: if_splits)
    then have "CHR ''/'' \<in> set ?c" by (auto simp: parent_path_def split: if_splits)
    then obtain t where t: "?c = parent_path ?c @ CHR ''/'' # t" by (rule parent_path_split)
    have "set (parent_path ?c) \<subseteq> set ?c" by (subst (2) t) auto
    then have "CHR 0x5C \<notin> set (parent_path ?c)" using scope_candidate_plain [of raw] by blast
    moreover have "hd (parent_path ?c) = hd ?c" using par by (subst (2) t) simp
    ultimately show ?thesis using par ends by (simp add: trimmed_dir)
  qed
qed

lemma assign_trimmed: "p \<in> set (a_write_paths (assign t)) \<Longrightarrow> trimmed p"
  by (auto simp: assign_def narrow_scope_def Let_def intro: ceiling_trimmed grant_trimmed
      split: option.splits if_splits)

lemma conflicts_among_iff:
  "c \<in> set (conflicts_among xs) \<longleftrightarrow>
     (\<exists>i j. i < j \<and> j < length xs \<and> conflict_of (xs ! i) (xs ! j) = Some c)"
proof (induction xs)
  case (Cons x xs)
  have "(\<exists>i j. i < j \<and> j < length (x # xs) \<and> conflict_of ((x # xs) ! i) ((x # xs) ! j) = Some c) \<longleftrightarrow>
    (\<exists>j < length xs. conflict_of x (xs ! j) = Some c) \<or>
    (\<exists>i j. i < j \<and> j < length xs \<and> conflict_of (xs ! i) (xs ! j) = Some c)" (is "?L \<longleftrightarrow> ?A \<or> ?B")
  proof
    assume ?L
    then obtain i j where ij: "i < j" "j < length (x # xs)" "conflict_of ((x # xs) ! i) ((x # xs) ! j) = Some c"
      by blast
    then obtain j' where j: "j = Suc j'" by (cases j) auto
    with ij show "?A \<or> ?B" by (cases i) auto
  next
    assume "?A \<or> ?B"
    then show ?L
    proof
      assume ?A
      then obtain j where "j < length xs" "conflict_of x (xs ! j) = Some c" by blast
      then show ?L by (intro exI [of _ 0] exI [of _ "Suc j"]) simp
    next
      assume ?B
      then obtain i j where "i < j" "j < length xs" "conflict_of (xs ! i) (xs ! j) = Some c" by blast
      then show ?L by (intro exI [of _ "Suc i"] exI [of _ "Suc j"]) simp
    qed
  qed
  moreover have "(\<exists>r \<in> set xs. conflict_of x r = Some c) \<longleftrightarrow> (\<exists>j < length xs. conflict_of x (xs ! j) = Some c)"
    by (metis in_set_conv_nth)
  moreover have "c \<in> set (conflicts_among (x # xs)) \<longleftrightarrow>
      (\<exists>r \<in> set xs. conflict_of x r = Some c) \<or> c \<in> set (conflicts_among xs)"
    by (auto split: option.splits) force
  ultimately show ?case using Cons.IH by blast
qed simp

lemma conflict_of_Some:
  "conflict_of l r = Some c \<Longrightarrow>
     \<not> ordered_tasks l r \<and> c_task_ids c = (pt_task_id (a_task l), pt_task_id (a_task r)) \<and>
     c_agents c = (a_role l, a_role r) \<and> c_scopes c \<noteq> [] \<and>
     (c_kind c = SAME_FILE \<longrightarrow> set (c_scopes c) = set (pt_paths (a_task l)) \<inter> set (pt_paths (a_task r))) \<and>
     (c_kind c \<noteq> SAME_FILE \<longrightarrow> (\<forall>p \<in> set (c_scopes c). \<exists>q \<in> set (a_write_paths r). overlaps p q))"
  by (auto simp: conflict_of_def Let_def shared_files_def shared_scopes_def list_ex_iff split: if_splits)

lemma conflict_of_complete:
  assumes "\<not> ordered_tasks l r" "\<forall>p \<in> set (a_write_paths l). trimmed p" "\<forall>p \<in> set (a_write_paths r). trimmed p"
    and "within_scope path (a_write_paths l)" "within_scope path (a_write_paths r)"
  shows "conflict_of l r \<noteq> None"
proof -
  from assms(4,5) obtain p q where p: "p \<in> set (a_write_paths l)" "matches_pattern (scope_normal path) p"
    and q: "q \<in> set (a_write_paths r)" "matches_pattern (scope_normal path) q"
    by (auto simp: within_scope_def list_ex_iff)
  from matches_meet [OF p(2) q(2)] p(1) q(1) assms(2,3) have "overlaps p q" by (simp add: overlaps_meet)
  with p(1) q(1) have "shared_scopes l r \<noteq> []" by (auto simp: shared_scopes_def list_ex_iff filter_empty_conv)
  with assms(1) show ?thesis by (simp add: conflict_of_def Let_def)
qed



lemma serialise_perm: "mset (serialise as cs) = mset as"
  by (simp add: serialise_def)

end
