(* ===== verification/Enforcement.thy ===== *)
theory Enforcement
  imports Ownership Tool_Gateway
begin

text \<open>
  How assignment and enforcement meet: the write patterns an assignment grants, enforced by
  the gateway's allow list, stay inside the ceiling of the task's role.
\<close>

section \<open>What the allow list makes of a granted pattern\<close>

text \<open>A ceiling directory is lower case, without glob characters, and starts with neither a
  dot nor a slash.\<close>

definition plain_dir :: "string \<Rightarrow> bool" where
  "plain_dir d \<longleftrightarrow> list_all plain_char d \<and> py_lower (fwd_slashes d) = d \<and>
     d \<noteq> [] \<and> hd d \<noteq> CHR ''.'' \<and> hd d \<noteq> CHR ''/'' \<and> last d \<noteq> CHR ''/''"

lemma py_lower_slash: "py_lower (fwd_slashes (''/'' @ s)) = ''/'' @ py_lower (fwd_slashes s)"
proof -
  have "lower_char (CHR ''/'') = CHR ''/''" by code_simp
  then show ?thesis by (simp add: py_lower_def fwd_slashes_def)
qed

lemma normalize_relative_head:
  assumes "s \<noteq> []" "hd s \<noteq> CHR ''.''" "hd s \<noteq> CHR ''/''" "py_lower (fwd_slashes s) = s"
  shows "normalize_relative (s @ t) = s @ py_lower (fwd_slashes t)"
proof -
  obtain c u where s: "s = c # u" using assms(1) by (cases s) auto
  have "py_lower (fwd_slashes (s @ t)) = s @ py_lower (fwd_slashes t)"
    using assms(4) by (simp add: fwd_slashes_append)
  moreover have "strip_dot_slash (s @ x) = s @ x" for x
    using assms(2) s by (cases "u @ x") auto
  ultimately show ?thesis
    using assms(3) s by (simp add: normalize_relative_def lstrip_chars_def)
qed

lemma plain_dir_normal: "plain_dir d \<Longrightarrow> normalize_relative (d @ t) = d @ py_lower (fwd_slashes t)"
  by (rule normalize_relative_head) (simp_all add: plain_dir_def)

lemma rstrip_slash_under:
  assumes "d \<noteq> []" "last d \<noteq> CHR ''/''"
  shows "under d (rstrip_chars ''/'' (d @ ''/'' @ t))"
proof -
  let ?r = "rev (d @ ''/'' @ t)"
  obtain e c where d: "d = e @ [c]" "c \<noteq> CHR ''/''" using assms by (metis append_butlast_last_id)
  have "dropWhile (\<lambda>x. x \<in> set ''/'') ?r =
      (if \<forall>x \<in> set t. x = CHR ''/'' then rev d
       else dropWhile (\<lambda>x. x \<in> set ''/'') (rev t) @ CHR ''/'' # rev d)"
    using d by (auto simp: dropWhile_append)
  then show ?thesis by (auto simp: rstrip_chars_def under_def starts_with_append)
qed

text \<open>Facts about the ceiling's patterns, checked on all of them.\<close>

definition ceiling_pattern_ok :: "string \<Rightarrow> bool" where
  "ceiling_pattern_ok p \<longleftrightarrow>
     normalize_relative p = py_lower p \<and> py_lower p \<noteq> ''**'' \<and> py_lower p \<noteq> ''**/*'' \<and>
     list_all plain_char (py_lower (governs p)) \<and>
     rstrip_chars ''/'' (py_lower (governs p)) = py_lower (governs p) \<and>
     \<not> ends_with (py_lower (governs p)) ''/**'' \<and>
     (if ends_with p ''/**'' then ends_with (py_lower p) ''/**'' \<and> drop_last 3 (py_lower p) = py_lower (governs p) \<and>
        governs p @ ''/**'' = p \<and> (hd p \<noteq> CHR ''.'' \<longrightarrow> plain_dir (governs p))
      else \<not> ends_with (py_lower p) ''/**'' \<and> governs p = p)"

lemma ceiling_patterns: "p \<in> set (rs_write (scope_for r)) \<Longrightarrow> ceiling_pattern_ok p"
proof -
  assume p: "p \<in> set (rs_write (scope_for r))"
  have "list_all (\<lambda>r. list_all ceiling_pattern_ok (rs_write (scope_for r))) all_roles" by code_simp
  then show ?thesis using p all_roles_set unfolding list_all_iff by blast
qed

lemma allows_plain:
  assumes "normalize_relative g = l" "l \<noteq> ''**''" "l \<noteq> ''**/*''" "\<not> ends_with l ''/**''" "list_all plain_char l"
    "rstrip_chars ''/'' l = l" "pattern_allows n g"
  shows "under l n"
proof -
  have "pattern_allows n g = (fnmatchcase n l \<or> starts_with n (l @ ''/''))"
    unfolding pattern_allows_def Let_def assms(1) using assms(2-4,6) by (simp only: if_False simp_thms)
  with assms(7) have "fnmatchcase n l \<or> starts_with n (l @ ''/'')" by (simp only:)
  then show ?thesis unfolding under_def fnmatchcase_plain [OF assms(5)] .
qed

lemma allows_dir:
  assumes "normalize_relative g = l @ ''/**''" "l @ ''/**'' \<noteq> ''**/*''" "pattern_allows n g"
  shows "under l n"
proof -
  have "ends_with (l @ ''/**'') ''/**''" unfolding ends_with_def suffix_def by blast
  moreover have "l @ ''/**'' \<noteq> ''**''"
  proof
    assume "l @ ''/**'' = ''**''"
    then have "length (l @ ''/**'') = length ''**''" by (rule arg_cong)
    then show False by simp
  qed
  ultimately show ?thesis using assms by (simp add: pattern_allows_def Let_def under_def)
qed

lemma not_glob_tail: "l @ ''/**'' \<noteq> ''**/*''"
proof
  assume "l @ ''/**'' = ''**/*''"
  then have "last (butlast (l @ ''/**'')) = last (butlast ''**/*'')" by simp
  then show False by (simp add: butlast_append)
qed

lemma ceiling_allows: "p \<in> set (rs_write (scope_for r)) \<Longrightarrow> pattern_allows n p \<Longrightarrow> under (py_lower (governs p)) n"
proof (cases "ends_with p ''/**''")
  case True
  assume "p \<in> set (rs_write (scope_for r))" and a: "pattern_allows n p"
  then have ok: "ceiling_pattern_ok p" using ceiling_patterns by blast
  with True have "normalize_relative p = py_lower p" "ends_with (py_lower p) ''/**''"
    "drop_last 3 (py_lower p) = py_lower (governs p)" by (simp_all add: ceiling_pattern_ok_def)
  moreover from this(2,3) have "py_lower p = py_lower (governs p) @ ''/**''"
    using drop_last_3 by (auto simp: ends_with_def suffix_def)
  ultimately show ?thesis using allows_dir [OF _ not_glob_tail a] by metis
next
  case False
  assume "p \<in> set (rs_write (scope_for r))" and a: "pattern_allows n p"
  then have ok: "ceiling_pattern_ok p" using ceiling_patterns by blast
  with False have g: "governs p = p" by (simp add: ceiling_pattern_ok_def)
  with ok show ?thesis by (intro allows_plain [OF _ _ _ _ _ _ a]) (auto simp: ceiling_pattern_ok_def)
qed

text \<open>A candidate strictly below a plain ceiling directory.\<close>

lemma below_allows:
  assumes d: "plain_dir d" and c: "c = d @ ''/'' @ t" and a: "pattern_allows n c"
  shows "under d n"
proof -
  let ?l = "d @ ''/'' @ py_lower (fwd_slashes t)"
  have l: "normalize_relative c = ?l"
    using plain_dir_normal [OF d, of "''/'' @ t"] py_lower_slash [of t] c by simp
  have sw: "starts_with ?l (d @ ''/'')" by (simp add: starts_with_append)
  have noglob: "?l \<noteq> ''**''" "?l \<noteq> ''**/*''"
    using d by (cases d; auto simp: plain_dir_def plain_char_def)+
  show ?thesis
  proof (cases "ends_with ?l ''/**''")
    case True
    then obtain b where b: "?l = b @ ''/**''" by (auto simp: ends_with_def suffix_def)
    have "parent_path (b @ ''/**'') = b" by (simp add: parent_path_def)
    then have "under d b" using under_parent_of [OF sw] by (simp only: b)
    moreover have "under b n" using allows_dir [OF _ not_glob_tail a] l b by metis
    ultimately show ?thesis by (rule under_trans)
  next
    case False
    then have "fnmatchcase n ?l \<or> starts_with n (rstrip_chars ''/'' ?l @ ''/'')"
      using a l noglob by (simp add: pattern_allows_def Let_def)
    then show ?thesis
    proof
      assume m: "fnmatchcase n ?l"
      have "list_all plain_char (d @ ''/'')" using d by (simp add: plain_dir_def plain_char_def)
      from fnmatchcase_plain_prefix [OF this, of n "py_lower (fwd_slashes t)"] m
      show ?thesis by (auto simp: under_def starts_with_append)
    next
      assume s: "starts_with n (rstrip_chars ''/'' ?l @ ''/'')"
      have "under d (rstrip_chars ''/'' ?l)"
        by (rule rstrip_slash_under) (use d in \<open>simp_all add: plain_dir_def\<close>)
      moreover have "under (rstrip_chars ''/'' ?l) n" using s by (simp add: under_def)
      ultimately show ?thesis by (rule under_trans)
    qed
  qed
qed

lemma parent_allows:
  assumes d: "plain_dir d" and p: "under d p" and a: "pattern_allows n (p @ ''/**'')"
  shows "under d n"
proof -
  from p obtain u where u: "p = d @ u" "u = [] \<or> starts_with u ''/''"
    by (auto simp: under_def starts_with_append)
  have tail: "py_lower (fwd_slashes ''/**'') = ''/**''" by code_simp
  have "normalize_relative (p @ ''/**'') = (d @ py_lower (fwd_slashes u)) @ ''/**''"
    using plain_dir_normal [OF d, of "u @ ''/**''"] tail u by simp
  from allows_dir [OF this not_glob_tail a] have "under (d @ py_lower (fwd_slashes u)) n" .
  moreover have "under d (d @ py_lower (fwd_slashes u))"
  proof (cases "u = []")
    case True
    then show ?thesis by (simp add: fwd_slashes_def)
  next
    case False
    with u(2) obtain v where "u = ''/'' @ v" by (auto simp: starts_with_append)
    then have "py_lower (fwd_slashes u) = ''/'' @ py_lower (fwd_slashes v)" by (simp only: py_lower_slash)
    then show ?thesis by (simp add: under_def starts_with_append)
  qed
  ultimately show ?thesis by (rule under_trans [rotated])
qed

section \<open>A role's writes\<close>

text \<open>The named paths for which narrowing and enforcement keep to the ceiling: strictly below
  one of its directories, or without a directory and not hidden.\<close>

definition well_placed :: "engineering_role \<Rightarrow> string \<Rightarrow> bool" where
  "well_placed r c \<longleftrightarrow> (CHR ''/'' \<notin> set c \<and> hd c \<noteq> CHR ''.'') \<or>
     (\<exists>d. d @ ''/**'' \<in> set (rs_write (scope_for r)) \<and> hd d \<noteq> CHR ''.'' \<and> starts_with c (d @ ''/''))"

lemma slash_free_candidate:
  assumes acc: "accepts_path (scope_for r) c" and "CHR ''/'' \<notin> set c" "hd c \<noteq> CHR ''.''" "CHR 0x5C \<notin> set c"
  obtains p where "p \<in> set (rs_write (scope_for r))" "c = governs p"
proof -
  have "c \<noteq> []" using acc by (simp add: accepts_path_def)
  then have "hd c \<noteq> CHR ''/''" using assms(2) by (metis hd_in_set)
  with assms(3,4) \<open>c \<noteq> []\<close> have "scope_normal c = c"
    by (cases c) (simp_all add: scope_normal_def lstrip_chars_def fwd_slashes_fixed)
  with acc obtain p where p: "p \<in> set (rs_write (scope_for r))" "matches_pattern c p"
    by (auto simp: accepts_path_def within_scope_def list_ex_iff)
  have "c = governs p"
    using matches_governs [OF p(2)] assms(2) by (auto simp: under_def starts_with_append)
  with p(1) show ?thesis by (rule that)
qed

lemma grant_enforced:
  assumes acc: "accepts_path (scope_for r) (scope_candidate raw)" and w: "well_placed r (scope_candidate raw)"
    and g: "g \<in> set (grant_path (scope_for r) raw)" and a: "pattern_allows n g"
  shows "\<exists>p \<in> set (rs_write (scope_for r)). under (py_lower (governs p)) n"
proof -
  let ?c = "scope_candidate raw"
  from w consider "CHR ''/'' \<notin> set ?c" "hd ?c \<noteq> CHR ''.''"
    | d where "d @ ''/**'' \<in> set (rs_write (scope_for r))" "hd d \<noteq> CHR ''.''" "starts_with ?c (d @ ''/'')"
    by (auto simp: well_placed_def)
  then show ?thesis
  proof cases
    case 1
    from slash_free_candidate [OF acc 1 scope_candidate_plain] obtain p where
      p: "p \<in> set (rs_write (scope_for r))" "?c = governs p" .
    have "g = ?c" using g 1(1) acc by (simp add: grant_path_def parent_path_def Let_def)
    then have gp: "g = governs p" using p(2) by simp
    have ok: "ceiling_pattern_ok p" by (rule ceiling_patterns [OF p(1)])
    have c: "?c \<noteq> []" using acc by (simp add: accepts_path_def)
    have norm: "normalize_relative g = py_lower (governs p)"
    proof -
      have gc: "g = ?c" using gp p(2) by simp
      obtain x u where xu: "g = x # u" using gc c by (metis neq_Nil_conv)
      then have x: "x \<noteq> CHR ''.''" "x \<noteq> CHR ''/''" using gc 1 by (metis list.sel(1), metis list.set_intros(1))
      have "lower_char x \<noteq> CHR ''/''" using x(2) by (simp add: lower_char_slash_iff)
      moreover have "lower_char x \<noteq> CHR ''.''" using x(1) lower_char_dot by blast
      moreover have "fwd_slashes g = g" using gp p(2) scope_candidate_fixed [of raw] by simp
      ultimately have "normalize_relative g = py_lower g" using xu
        by (cases u) (simp_all add: normalize_relative_def py_lower_def lstrip_chars_def)
      with gp show ?thesis by simp
    qed
    have "py_lower (governs p) \<noteq> ''**''" "py_lower (governs p) \<noteq> ''**/*''"
      using ok by (auto simp: ceiling_pattern_ok_def plain_char_def)
    then have "under (py_lower (governs p)) n"
      using ok by (intro allows_plain [OF norm _ _ _ _ _ a]) (auto simp: ceiling_pattern_ok_def)
    with p(1) show ?thesis by blast
  next
    case (2 d)
    let ?p = "d @ ''/**''"
    have ok: "ceiling_pattern_ok ?p" by (rule ceiling_patterns [OF 2(1)])
    have gov: "governs ?p = d"
      using specialised_plain [OF 2(1)] by (auto simp: governs_def Let_def ends_with_def suffix_def fwd_slashes_def)
    have "ends_with ?p ''/**''" unfolding ends_with_def suffix_def by blast
    moreover have "d \<noteq> []"
    proof
      assume "d = []"
      with 2(3) acc show False by (simp add: accepts_path_def)
    qed
    ultimately have d: "plain_dir d" using ok 2(2) gov by (simp add: ceiling_pattern_ok_def hd_append)
    then have low: "py_lower (governs ?p) = d"
      using gov specialised_plain [OF 2(1)] by (simp add: plain_dir_def)
    obtain t where t: "?c = d @ ''/'' @ t" using 2(3) by (auto simp: starts_with_append)
    have "under d n"
    proof (cases "g = ?c")
      case True
      with a have "pattern_allows n ?c" by simp
      then show ?thesis by (rule below_allows [OF d t])
    next
      case False
      with g acc have gp: "g = parent_path ?c @ ''/**''" by (auto simp: grant_path_def Let_def split: if_splits)
      show ?thesis by (rule parent_allows [OF d under_parent_of [OF 2(3)] a [unfolded gp]])
    qed
    with 2(1) low show ?thesis by metis
  qed
qed



end
