(* ===== verification/Isolation.thy ===== *)
theory Isolation
  imports Tool_Gateway Lifecycle
begin

text \<open>
  Task workspaces (\<open>engineering/isolation.py\<close>): the state machine of a git worktree owned by
  one task, the ledger of the worktrees of a run, creating and discarding one, the decision
  whether its work may be merged and the copy of the changed files into the project.

  The gateway the functions take is an argument: what \<open>git.worktree add\<close> and \<open>remove\<close>
  answer and do to the file system. A workspace is a Python object the ledger and the
  executor share; here each function returns the workspace it has changed and the caller
  puts it back into the ledger.
\<close>

section \<open>The state machine\<close>

datatype workspace_state =
  WS_CREATED | WS_EXECUTING | WS_VERIFIED | WS_REJECTED | WS_MERGED | WS_DISCARDED

definition workspace_terminal :: "workspace_state \<Rightarrow> bool" where
  "workspace_terminal s \<longleftrightarrow> s \<in> {WS_MERGED, WS_DISCARDED}"

fun workspace_transitions :: "workspace_state \<Rightarrow> workspace_state list" where
  "workspace_transitions WS_CREATED = [WS_EXECUTING, WS_DISCARDED]"
| "workspace_transitions WS_EXECUTING = [WS_VERIFIED, WS_REJECTED, WS_DISCARDED]"
| "workspace_transitions WS_VERIFIED = [WS_MERGED, WS_DISCARDED]"
| "workspace_transitions WS_REJECTED = [WS_EXECUTING, WS_DISCARDED]"
| "workspace_transitions WS_MERGED = []"
| "workspace_transitions WS_DISCARDED = []"

definition workspace_step :: "workspace_state \<Rightarrow> workspace_state \<Rightarrow> bool" where
  "workspace_step s t \<longleftrightarrow> t \<in> set (workspace_transitions s)"

interpretation workspaces: abortable workspace_step workspace_terminal WS_DISCARDED
proof unfold_locales
  fix s t
  show "workspace_terminal s \<Longrightarrow> \<not> workspace_step s t"
    by (cases s) (simp_all add: workspace_terminal_def workspace_step_def)
  show "workspace_terminal WS_DISCARDED" by (simp add: workspace_terminal_def)
  show "\<not> workspace_terminal s \<Longrightarrow> workspace_step s WS_DISCARDED"
    by (cases s) (simp_all add: workspace_terminal_def workspace_step_def)
qed

record task_workspace =
  w_workspace_id :: string
  w_task_id :: string
  w_execution_id :: string
  w_path :: abs_path
  w_base_revision :: string
  w_state :: workspace_state

datatype workspace_error =
    IllegalWorkspaceTransition workspace_state workspace_state string
  | ActiveWorkspaceExists string string
  | WorktreeNotCreated string
  | NoPathReported string
  | ReportedNotADirectory string abs_path
  | OsFailure string

definition workspace_active :: "task_workspace \<Rightarrow> bool" where
  "workspace_active w \<longleftrightarrow> \<not> workspace_terminal (w_state w)"

definition workspace_owns :: "task_workspace \<Rightarrow> string \<Rightarrow> bool" where
  "workspace_owns w task_id \<longleftrightarrow> w_task_id w = task_id"

definition workspace_transition ::
    "task_workspace \<Rightarrow> workspace_state \<Rightarrow> (workspace_error, task_workspace) res" where
  "workspace_transition w target =
     (if target \<notin> set (workspace_transitions (w_state w))
      then Inl (IllegalWorkspaceTransition (w_state w) target (w_workspace_id w))
      else Inr (w\<lparr>w_state := target\<rparr>))"

section \<open>The ledger\<close>

type_synonym workspace_ledger = "(string \<times> task_workspace) list"

definition ledger_add ::
    "workspace_ledger \<Rightarrow> task_workspace \<Rightarrow> (workspace_error, workspace_ledger) res" where
  "ledger_add led w =
     (case map_of led (w_task_id w) of
        Some existing \<Rightarrow>
          if workspace_active existing
          then Inl (ActiveWorkspaceExists (w_task_id w) (w_workspace_id existing))
          else Inr (alist_put (w_task_id w) w led)
      | None \<Rightarrow> Inr (alist_put (w_task_id w) w led))"

definition for_task :: "workspace_ledger \<Rightarrow> string \<Rightarrow> task_workspace option" where
  "for_task led task_id = map_of led task_id"

text \<open>\<open>Path.resolve\<close>; following too many links raises, whoever asks.\<close>

definition owner_of ::
    "path_policy \<Rightarrow> file_system \<Rightarrow> workspace_ledger \<Rightarrow> abs_path \<Rightarrow>
     (workspace_error, task_workspace option) res" where
  "owner_of pol fs led p =
     (case lib_resolve pol fs p of
        None \<Rightarrow> Inl (OsFailure ''resolve'')
      | Some r \<Rightarrow>
          foldr (\<lambda>(t, w) rest.
              case lib_resolve pol fs (w_path w) of
                None \<Rightarrow> Inl (OsFailure ''resolve'')
              | Some root \<Rightarrow> if prefix root r then Inr (Some w) else rest)
            led (Inr None))"

definition may_write ::
    "path_policy \<Rightarrow> file_system \<Rightarrow> workspace_ledger \<Rightarrow> string \<Rightarrow> abs_path \<Rightarrow> (workspace_error, bool) res" where
  "may_write pol fs led task_id p =
     res_bind (owner_of pol fs led p) (\<lambda>ow.
       Inr (case ow of None \<Rightarrow> True | Some w \<Rightarrow> workspace_owns w task_id))"

definition ledger_active :: "workspace_ledger \<Rightarrow> task_workspace list" where
  "ledger_active led = filter workspace_active (map snd led)"

section \<open>Creating and discarding\<close>

record worktree_result =
  wr_ok :: bool
  wr_error :: string
  wr_created_path :: string

record worktree_gateway =
  wg_add :: "string \<Rightarrow> file_system \<Rightarrow> worktree_result \<times> file_system"
  wg_remove :: "string \<Rightarrow> file_system \<Rightarrow> worktree_result \<times> file_system"

text \<open>\<open>Path(base) / relative\<close>: an absolute right operand replaces the left one.\<close>

definition path_join :: "abs_path \<Rightarrow> string \<Rightarrow> string list" where
  "path_join base rel =
     (if starts_with rel ''/'' then split_on (CHR ''/'') rel else base @ split_on (CHR ''/'') rel)"

definition worktree_name :: "string \<Rightarrow> string" where
  "worktree_name task_id = ''task-'' @ map (\<lambda>c. if c = CHR ''_'' then CHR ''-'' else c) (py_lower task_id)"

definition create_workspace ::
    "path_policy \<Rightarrow> worktree_gateway \<Rightarrow> string \<Rightarrow> string \<Rightarrow> string \<Rightarrow> workspace_ledger \<Rightarrow> file_system \<Rightarrow>
     (workspace_error, task_workspace \<times> workspace_ledger) res \<times> file_system" where
  "create_workspace pol gw task_id execution_id base_revision led fs =
     (case wg_add gw (worktree_name task_id) fs of
        (result, fs') \<Rightarrow>
          (let relative = py_strip (wr_created_path result) in
           (if \<not> wr_ok result then Inl (WorktreeNotCreated task_id)
            else if relative = [] then Inl (NoPathReported task_id)
            else (case lib_resolve pol fs' (path_join (pp_root pol) relative) of
                    None \<Rightarrow> Inl (OsFailure ''resolve'')
                  | Some p \<Rightarrow>
                      if node_at fs' p \<noteq> Some Directory then Inl (ReportedNotADirectory task_id p)
                      else (let w = \<lparr>w_workspace_id = worktree_name task_id, w_task_id = task_id,
                                     w_execution_id = execution_id, w_path = p,
                                     w_base_revision = base_revision, w_state = WS_CREATED\<rparr> in
                            res_bind (ledger_add led w) (\<lambda>led'. Inr (w, led')))),
            fs')))"

definition discard_workspace ::
    "worktree_gateway \<Rightarrow> task_workspace \<Rightarrow> file_system \<Rightarrow>
     (workspace_error, bool \<times> task_workspace) res \<times> file_system" where
  "discard_workspace gw w fs =
     (case wg_remove gw (w_workspace_id w) fs of
        (result, fs') \<Rightarrow>
          (res_bind (workspace_transition w WS_DISCARDED) (\<lambda>w'. Inr (wr_ok result, w')), fs'))"

section \<open>Merging\<close>

datatype merge_refusal =
  NotTheOwner | NoBaseRevision | AlreadyClosed workspace_state | NotVerified | BlockingIssues nat

text \<open>\<open>MergeDecision\<close>: no refusal is \<open>allowed\<close>.\<close>

definition may_merge :: "task_workspace \<Rightarrow> string \<Rightarrow> bool \<Rightarrow> nat \<Rightarrow> merge_refusal option" where
  "may_merge w task_id verified blocking_issues =
     (if \<not> workspace_owns w task_id then Some NotTheOwner
      else if w_base_revision w = [] then Some NoBaseRevision
      else if workspace_terminal (w_state w) then Some (AlreadyClosed (w_state w))
      else if \<not> verified then Some NotVerified
      else if blocking_issues \<noteq> 0 then Some (BlockingIssues blocking_issues)
      else None)"

text \<open>\<open>target.parent.mkdir(...)\<close> and \<open>target.write_bytes(source.read_bytes())\<close> of a regular file.\<close>

definition copy_file ::
    "(abs_path \<Rightarrow> bool) \<Rightarrow> abs_path \<Rightarrow> fs_node \<Rightarrow> file_system \<Rightarrow> (workspace_error, file_system) res \<times> file_system" where
  "copy_file refuses target n fs =
     (case make_dirs fs (butlast target) of
        Inl e \<Rightarrow> (Inl (OsFailure ''mkdir''), fs)
      | Inr fs' \<Rightarrow>
          if refuses target \<or> node_at fs' target = Some Directory then (Inl (OsFailure ''write''), fs')
          else (Inr (alist_put target n fs'), alist_put target n fs'))"

fun transfer_loop ::
    "path_policy \<Rightarrow> (abs_path \<Rightarrow> bool) \<Rightarrow> abs_path \<Rightarrow> abs_path \<Rightarrow> string list \<Rightarrow> file_system \<Rightarrow>
     (workspace_error, string list) res \<times> file_system" where
  "transfer_loop pol refuses base root [] fs = (Inr [], fs)"
| "transfer_loop pol refuses base root (relative # rest) fs =
     (case (lib_resolve pol fs (path_join base relative), lib_resolve pol fs (path_join root relative)) of
        (Some source, Some target) \<Rightarrow>
          (case node_at fs source of
             Some n \<Rightarrow>
               if \<not> is_regular n \<or> \<not> prefix root target
               then transfer_loop pol refuses base root rest fs
               else if refuses source then (Inl (OsFailure ''read''), fs)
               else (case copy_file refuses target n fs of
                       (Inl e, fs') \<Rightarrow> (Inl e, fs')
                     | (Inr _, fs') \<Rightarrow>
                         (case transfer_loop pol refuses base root rest fs' of
                            (Inl e, fs'') \<Rightarrow> (Inl e, fs'')
                          | (Inr ts, fs'') \<Rightarrow> (Inr (relative # ts), fs'')))
           | None \<Rightarrow> transfer_loop pol refuses base root rest fs)
      | _ \<Rightarrow> (Inl (OsFailure ''resolve''), fs))"

definition transfer ::
    "path_policy \<Rightarrow> (abs_path \<Rightarrow> bool) \<Rightarrow> task_workspace \<Rightarrow> abs_path option \<Rightarrow> string list \<Rightarrow> file_system \<Rightarrow>
     (workspace_error, string list) res \<times> file_system" where
  "transfer pol refuses w destination changed fs =
     (case destination of
        None \<Rightarrow> (Inr [], fs)
      | Some d \<Rightarrow>
          if changed = [] then (Inr [], fs)
          else (case lib_resolve pol fs d of
                  None \<Rightarrow> (Inl (OsFailure ''resolve''), fs)
                | Some root \<Rightarrow> transfer_loop pol refuses (w_path w) root changed fs))"

definition merge_workspace ::
    "path_policy \<Rightarrow> (abs_path \<Rightarrow> bool) \<Rightarrow> task_workspace \<Rightarrow> string \<Rightarrow> bool \<Rightarrow> nat \<Rightarrow> abs_path option \<Rightarrow>
     string list \<Rightarrow> file_system \<Rightarrow>
     (workspace_error, merge_refusal option \<times> task_workspace) res \<times> file_system" where
  "merge_workspace pol refuses w task_id verified blocking_issues destination changed fs =
     (case may_merge w task_id verified blocking_issues of
        Some r \<Rightarrow> (Inr (Some r, w), fs)
      | None \<Rightarrow>
          (case transfer pol refuses w destination changed fs of
             (Inl e, fs') \<Rightarrow> (Inl e, fs')
           | (Inr merged, fs') \<Rightarrow>
               (res_bind (workspace_transition w WS_MERGED) (\<lambda>w'. Inr (None, w')), fs')))"

text \<open>\<open>cleanup\<close> discards every workspace that was active when it started; the ledger holds the
  discarded ones afterwards.\<close>

fun cleanup_loop ::
    "worktree_gateway \<Rightarrow> task_workspace list \<Rightarrow> workspace_ledger \<Rightarrow> nat \<Rightarrow> file_system \<Rightarrow>
     (workspace_error, nat \<times> workspace_ledger) res \<times> file_system" where
  "cleanup_loop gw [] led removed fs = (Inr (removed, led), fs)"
| "cleanup_loop gw (w # ws) led removed fs =
     (case discard_workspace gw w fs of
        (Inl e, fs') \<Rightarrow> (Inl e, fs')
      | (Inr (ok, w'), fs') \<Rightarrow>
          cleanup_loop gw ws (alist_put (w_task_id w) w' led) (if ok then removed + 1 else removed) fs')"

definition cleanup ::
    "worktree_gateway \<Rightarrow> workspace_ledger \<Rightarrow> file_system \<Rightarrow>
     (workspace_error, nat \<times> workspace_ledger) res \<times> file_system" where
  "cleanup gw led fs = cleanup_loop gw (ledger_active led) led 0 fs"


section \<open>Where a merge may write\<close>

text \<open>The difference between two file systems: files below a directory, and directories made
  where nothing was; no directory is replaced.\<close>

definition written_below :: "abs_path \<Rightarrow> file_system \<Rightarrow> file_system \<Rightarrow> bool" where
  "written_below root fs fs' \<longleftrightarrow>
     (\<forall>p. node_at fs' p \<noteq> node_at fs p \<longrightarrow>
        prefix root p \<and> node_at fs p \<noteq> Some Directory \<and>
        (\<exists>n. node_at fs' p = Some n \<and> (is_regular n \<or> (n = Directory \<and> node_at fs p = None))))"

definition directories_to :: "file_system \<Rightarrow> abs_path \<Rightarrow> bool" where
  "directories_to fs root \<longleftrightarrow> list_all (\<lambda>q. node_at fs q = Some Directory) (prefixes root)"

lemma written_below_refl [simp]: "written_below root fs fs"
  by (simp add: written_below_def)

lemma written_below_change:
  assumes "written_below root fs fs'" "node_at fs' p \<noteq> node_at fs p"
  obtains n where "prefix root p" "node_at fs p \<noteq> Some Directory" "node_at fs' p = Some n"
    "is_regular n \<or> (n = Directory \<and> node_at fs p = None)"
  using assms unfolding written_below_def by blast

lemma written_below_trans:
  assumes "written_below root fs fs'" "written_below root fs' fs''"
  shows "written_below root fs fs''"
  unfolding written_below_def
proof (intro allI impI)
  fix p assume c: "node_at fs'' p \<noteq> node_at fs p"
  show "prefix root p \<and> node_at fs p \<noteq> Some Directory \<and>
      (\<exists>n. node_at fs'' p = Some n \<and> (is_regular n \<or> (n = Directory \<and> node_at fs p = None)))"
  proof (cases "node_at fs'' p = node_at fs' p")
    case True
    with c assms(1) show ?thesis by (auto elim!: written_below_change)
  next
    case second: False
    show ?thesis
    proof (cases "node_at fs' p = node_at fs p")
      case True
      with second assms(2) show ?thesis by (auto elim!: written_below_change)
    next
      case False
      with assms(1) obtain n where "prefix root p" "node_at fs p \<noteq> Some Directory" "node_at fs' p = Some n"
        by (rule written_below_change)
      with second assms(2) show ?thesis by (auto elim!: written_below_change)
    qed
  qed
qed

lemma written_below_directory:
  "written_below root fs fs' \<Longrightarrow> node_at fs p = Some Directory \<Longrightarrow> node_at fs' p = Some Directory"
  unfolding written_below_def by metis

lemma written_below_directories: "written_below root fs fs' \<Longrightarrow> directories_to fs r \<Longrightarrow> directories_to fs' r"
  by (auto simp: directories_to_def list_all_iff intro: written_below_directory)

lemma written_below_no_links: "written_below root fs fs' \<Longrightarrow> \<forall>p. \<not> is_link fs p \<Longrightarrow> \<not> is_link fs' p"
proof
  assume w: "written_below root fs fs'" and l: "\<forall>p. \<not> is_link fs p" and p: "is_link fs' p"
  then have "node_at fs' p \<noteq> node_at fs p" by (auto simp: is_link_def)
  with w obtain n where "node_at fs' p = Some n" "is_regular n \<or> n = Directory"
    by (rule written_below_change) blast
  with p show False by (cases n) (auto simp: is_link_def is_regular_def)
qed

lemma copy_file_below:
  assumes "copy_file refuses target n fs = (r, fs')" "is_regular n" "prefix root target" "directories_to fs root"
  shows "written_below root fs fs' \<and> (is_ok r \<longrightarrow> node_at fs' target = Some n) \<and>
    (\<forall>p. p \<noteq> target \<longrightarrow> node_at fs p \<noteq> None \<longrightarrow> node_at fs' p = node_at fs p)"
proof (cases "make_dirs fs (butlast target)")
  case (Inl e)
  with assms(1) show ?thesis by (auto simp: copy_file_def)
next
  case (Inr fs1)
  note nodes = make_dirs_nodes [OF Inr]
  have made: "prefix root p" if "node_at fs p = None" "prefix p (butlast target)" for p
  proof -
    have "prefix p target" using that(2) prefixeq_butlast prefix_order.trans by blast
    with assms(3) have "prefix p root \<or> prefix root p" by (metis prefix_same_cases)
    moreover have "\<not> prefix p root"
      using that(1) assms(4) by (auto simp: directories_to_def list_all_iff in_set_prefixes)
    ultimately show ?thesis by blast
  qed
  have dirs: "written_below root fs fs1"
    unfolding written_below_def by (auto simp: nodes made split: if_splits)
  show ?thesis
  proof (cases "refuses target \<or> node_at fs1 target = Some Directory")
    case True
    with assms(1) Inr have "r = Inl (OsFailure ''write'')" "fs' = fs1" by (auto simp: copy_file_def)
    with dirs nodes show ?thesis by simp
  next
    case False
    then have t: "target \<noteq> []" by (auto simp: node_at_def)
    from False assms(1) Inr have fs': "fs' = alist_put target n fs1" by (auto simp: copy_file_def)
    have "written_below root fs1 fs'"
      unfolding written_below_def fs' using False assms(2,3) by (auto simp: node_at_put)
    with dirs have "written_below root fs fs'" by (rule written_below_trans)
    with t show ?thesis by (simp add: fs' node_at_put nodes)
  qed
qed

text \<open>What one file of the loop does.\<close>

lemma transfer_loop_Cons:
  assumes "transfer_loop pol refuses base root (relative # rest) fs = (r, fs')"
  obtains (stuck) e where "r = Inl e" "fs' = fs"
    | (skipped) source target where "lib_resolve pol fs (path_join base relative) = Some source"
        "lib_resolve pol fs (path_join root relative) = Some target"
        "\<not> (\<exists>n. node_at fs source = Some n \<and> is_regular n \<and> prefix root target)"
        "transfer_loop pol refuses base root rest fs = (r, fs')"
    | (failed) source target n e where "node_at fs source = Some n" "is_regular n" "prefix root target"
        "copy_file refuses target n fs = (Inl e, fs')" "r = Inl e"
    | (copied) source target n u fs1 r1 where
        "lib_resolve pol fs (path_join base relative) = Some source"
        "lib_resolve pol fs (path_join root relative) = Some target"
        "node_at fs source = Some n" "is_regular n" "prefix root target"
        "copy_file refuses target n fs = (Inr u, fs1)"
        "transfer_loop pol refuses base root rest fs1 = (r1, fs')"
        "is_ok r1 \<longleftrightarrow> is_ok r"
proof (cases "lib_resolve pol fs (path_join base relative)")
  case None
  with assms have "r = Inl (OsFailure ''resolve'')" "fs' = fs" by simp_all
  then show ?thesis by (rule stuck)
next
  case (Some source)
  note s = this
  show ?thesis
  proof (cases "lib_resolve pol fs (path_join root relative)")
    case None
    with assms s have "r = Inl (OsFailure ''resolve'')" "fs' = fs" by simp_all
    then show ?thesis by (rule stuck)
  next
    case (Some target)
    show ?thesis
    proof (cases "\<exists>n. node_at fs source = Some n \<and> is_regular n \<and> prefix root target")
      case False
      with assms s Some have "transfer_loop pol refuses base root rest fs = (r, fs')"
        by (auto split: option.splits)
      with s Some False skipped show ?thesis by blast
    next
      case True
      then obtain n where n: "node_at fs source = Some n" "is_regular n" "prefix root target" by blast
      obtain c fs1 where c: "copy_file refuses target n fs = (c, fs1)" by fastforce
      obtain r1 fs2 where t: "transfer_loop pol refuses base root rest fs1 = (r1, fs2)" by fastforce
      show ?thesis
        using assms s Some n c t
        by (cases "refuses source"; cases c; cases r1)
          (auto intro: stuck failed copied)
    qed
  qed
qed

lemma transfer_loop_below:
  "transfer_loop pol refuses base root changed fs = (r, fs') \<Longrightarrow> directories_to fs root \<Longrightarrow>
     written_below root fs fs'"
proof (induction changed arbitrary: r fs)
  case (Cons relative rest)
  from Cons.prems(1) show ?case
  proof (cases rule: transfer_loop_Cons)
    case (skipped source target)
    with Cons show ?thesis by blast
  next
    case (failed source target n e)
    with copy_file_below [OF failed(4,2,3) Cons.prems(2)] show ?thesis by blast
  next
    case (copied source target n u fs1 r1)
    have w: "written_below root fs fs1"
      using copy_file_below [OF copied(6,4,5) Cons.prems(2)] by blast
    from Cons.IH [OF copied(7) written_below_directories [OF w Cons.prems(2)]]
    show ?thesis by (rule written_below_trans [OF w])
  qed simp
qed simp

lemma transfer_below:
  "transfer pol refuses w destination changed fs = (r, fs') \<Longrightarrow>
     destination = Some d \<Longrightarrow> lib_resolve pol fs d = Some root \<Longrightarrow> directories_to fs root \<Longrightarrow>
     written_below root fs fs'"
  by (auto simp: transfer_def transfer_loop_below split: if_splits)

section \<open>What a merge copies\<close>

definition clean_relative :: "string \<Rightarrow> bool" where
  "clean_relative rel \<longleftrightarrow> list_all plain_component (split_on (CHR ''/'') rel)"

abbreviation comps :: "string \<Rightarrow> string list" where
  "comps rel \<equiv> split_on (CHR ''/'') rel"

lemma path_join_clean: "clean_relative rel \<Longrightarrow> path_join base rel = base @ comps rel"
  by (cases rel) (auto simp: path_join_def clean_relative_def plain_component_def starts_with_def)

lemma lib_resolve_clean:
  assumes "\<forall>q. \<not> is_link fs q" "list_all plain_component base" "clean_relative rel"
  shows "lib_resolve pol fs (path_join base rel) = Some (base @ comps rel)"
proof -
  have "canonical fs (base @ comps rel)"
    using assms by (simp add: canonical_def clean_relative_def)
  then show ?thesis
    using resolve_loop_id [of fs "[]" "base @ comps rel"] assms(3) by (simp add: lib_resolve_def path_join_clean)
qed

text \<open>Plain relative names, copied between two directories so that no copy overwrites a source.\<close>

definition clean_merge :: "abs_path \<Rightarrow> abs_path \<Rightarrow> string list \<Rightarrow> bool" where
  "clean_merge base root files \<longleftrightarrow>
     list_all plain_component base \<and> list_all plain_component root \<and> list_all clean_relative files \<and>
     list_all (\<lambda>f. list_all (\<lambda>g. root @ comps f \<noteq> base @ comps g) files) files"

lemma clean_merge_resolves:
  assumes "clean_merge base root files" "\<forall>q. \<not> is_link fs q" "f \<in> set files"
  shows "lib_resolve pol fs (path_join base f) = Some (base @ comps f)"
    "lib_resolve pol fs (path_join root f) = Some (root @ comps f)"
  using lib_resolve_clean assms by (auto simp: clean_merge_def list_all_iff)

lemma clean_merge_apart:
  "clean_merge base root files \<Longrightarrow> f \<in> set files \<Longrightarrow> g \<in> set files \<Longrightarrow> root @ comps f \<noteq> base @ comps g"
  by (auto simp: clean_merge_def list_all_iff)

lemma transfer_keeps_others:
  "clean_merge base root files \<Longrightarrow> transfer_loop pol refuses base root changed fs = (r, fs') \<Longrightarrow> set changed \<subseteq> set files \<Longrightarrow>
     directories_to fs root \<Longrightarrow> \<forall>q. \<not> is_link fs q \<Longrightarrow>
     p \<notin> (\<lambda>f. root @ comps f) ` set changed \<Longrightarrow> node_at fs p \<noteq> None \<Longrightarrow> is_ok r \<Longrightarrow>
     node_at fs' p = node_at fs p"
proof (induction changed arbitrary: r fs)
  case (Cons f rest)
  have f: "f \<in> set files" using Cons.prems(3) by simp
  note res = clean_merge_resolves [OF Cons.prems(1,5) f]
  from Cons.prems(2) show ?case
  proof (cases rule: transfer_loop_Cons)
    case (copied source target n u fs1 r1)
    note c = copy_file_below [OF copied(6,4,5) Cons.prems(4)]
    have "node_at fs1 p = node_at fs p" using c Cons.prems(6,7) copied(2) res(2) by auto
    moreover from this have "node_at fs' p = node_at fs1 p"
      using Cons.IH [OF Cons.prems(1) copied(7) _ written_below_directories] c Cons.prems copied(8)
        written_below_no_links by auto
    ultimately show ?thesis by simp
  qed (use Cons in auto)
qed simp

lemma transfer_copies:
  "clean_merge base root files \<Longrightarrow> transfer_loop pol refuses base root changed fs = (r, fs') \<Longrightarrow> set changed \<subseteq> set files \<Longrightarrow>
     directories_to fs root \<Longrightarrow> \<forall>q. \<not> is_link fs q \<Longrightarrow> is_ok r \<Longrightarrow>
     f \<in> set changed \<Longrightarrow> node_at fs (base @ comps f) = Some n \<Longrightarrow> is_regular n \<Longrightarrow>
     node_at fs' (root @ comps f) = Some n"
proof (induction changed arbitrary: r fs)
  case (Cons g rest)
  have g: "g \<in> set files" "f \<in> set files" "set rest \<subseteq> set files" using Cons.prems(3,7) by auto
  note res = clean_merge_resolves [OF Cons.prems(1,5) g(1)]
  from Cons.prems(2) show ?case
  proof (cases rule: transfer_loop_Cons)
    case (skipped source target)
    then have "g \<noteq> f" using res Cons.prems(8,9) by auto
    with skipped Cons show ?thesis by auto
  next
    case (copied source target n' u fs1 r1)
    note c = copy_file_below [OF copied(6,4,5) Cons.prems(4)]
    have ok: "is_ok r1" "directories_to fs1 root" "\<forall>q. \<not> is_link fs1 q"
      using copied(8) Cons.prems(6) c Cons.prems(4,5) written_below_directories written_below_no_links by blast+
    show ?thesis
    proof (cases "f \<in> set rest")
      case True
      have "node_at fs1 (base @ comps f) = Some n"
        using c Cons.prems(8) copied(2) res(2) clean_merge_apart [OF Cons.prems(1) g(1,2)] by auto
      with Cons.IH [OF Cons.prems(1) copied(7) g(3) ok(2,3,1) True] Cons.prems(9) show ?thesis by blast
    next
      case False
      then have fg: "f = g" using Cons.prems(7) by simp
      have n: "node_at fs1 (root @ comps f) = Some n"
        using c copied(1-3) res fg Cons.prems(8) by simp
      have "comps f \<notin> comps ` set rest"
        using False by (metis imageE join_split_on)
      then have "root @ comps f \<notin> (\<lambda>f. root @ comps f) ` set rest" by auto
      from transfer_keeps_others [OF Cons.prems(1) copied(7) g(3) ok(2,3) this] n ok(1) show ?thesis by simp
    qed
  qed (use Cons in auto)
qed simp


section \<open>Properties\<close>

lemma workspace_transition_Inr:
  "workspace_transition w t = Inr w' \<longleftrightarrow> workspace_step (w_state w) t \<and> w' = w\<lparr>w_state := t\<rparr>"
  by (auto simp: workspace_transition_def workspace_step_def)

lemma merged_only_from_verified: "workspace_step s WS_MERGED \<Longrightarrow> s = WS_VERIFIED"
  by (cases s) (simp_all add: workspace_step_def)

lemma verified_only_from_executing: "workspace_step s WS_VERIFIED \<Longrightarrow> s = WS_EXECUTING"
  by (cases s) (simp_all add: workspace_step_def)

lemma workspace_trace_to:
  assumes "trace_ok workspace_step s (xs @ t # ys)" "\<And>u. workspace_step u t \<Longrightarrow> u = v"
  shows "last (s # xs) = v"
  using assms by (simp add: trace_ok_append)

text \<open>C37. The life of a task workspace: on every run of the state machine from CREATED, the move
  to MERGED is the last one and comes straight from VERIFIED, which is reached only from
  EXECUTING; no move leaves MERGED or DISCARDED, and a run that has not ended can always be
  closed by DISCARDED.
\<close>

theorem workspace_lifecycle:
  assumes "trace_ok workspace_step WS_CREATED ts"
  shows "(\<forall>xs ys. ts = xs @ WS_MERGED # ys \<longrightarrow>
            ys = [] \<and> (\<exists>zs. xs = zs @ [WS_VERIFIED] \<and> last (WS_CREATED # zs) = WS_EXECUTING)) \<and>
    (\<not> workspace_terminal (last (WS_CREATED # ts)) \<longrightarrow>
       trace_ok workspace_step WS_CREATED (ts @ [WS_DISCARDED])) \<and>
    (workspace_terminal (last (WS_CREATED # ts)) \<longrightarrow>
       (\<forall>t. \<not> trace_ok workspace_step WS_CREATED (ts @ [t])))"
proof (intro conjI allI impI)
  fix xs ys assume ts: "ts = xs @ WS_MERGED # ys"
  then have tr: "trace_ok workspace_step WS_CREATED (xs @ WS_MERGED # ys)" using assms by simp
  then show "ys = []" by (rule workspaces.terminal_only_last) (simp add: workspace_terminal_def)
  have "last (WS_CREATED # xs) = WS_VERIFIED"
    by (rule workspace_trace_to [OF tr merged_only_from_verified])
  then obtain zs where xs: "xs = zs @ [WS_VERIFIED]" by (cases xs rule: rev_cases) auto
  with tr have "trace_ok workspace_step WS_CREATED (zs @ WS_VERIFIED # WS_MERGED # ys)" by simp
  from workspace_trace_to [OF this verified_only_from_executing] xs
  show "\<exists>zs. xs = zs @ [WS_VERIFIED] \<and> last (WS_CREATED # zs) = WS_EXECUTING" by blast
next
  assume "\<not> workspace_terminal (last (WS_CREATED # ts))"
  from workspaces.trace_can_close [OF assms this]
  show "trace_ok workspace_step WS_CREATED (ts @ [WS_DISCARDED])" by simp
next
  fix t assume "workspace_terminal (last (WS_CREATED # ts))"
  then show "\<not> trace_ok workspace_step WS_CREATED (ts @ [t])"
    using workspaces.terminal_stuck by (simp add: trace_ok_append)
qed

theorem workspace_lifecycle_witness:
  "trace_ok workspace_step WS_CREATED [WS_EXECUTING, WS_VERIFIED, WS_MERGED] \<and>
   (\<forall>t. \<not> trace_ok workspace_step WS_CREATED [WS_EXECUTING, WS_VERIFIED, WS_MERGED, t])"
proof -
  have tr: "trace_ok workspace_step WS_CREATED [WS_EXECUTING, WS_VERIFIED, WS_MERGED]"
    by (simp add: workspace_step_def)
  from workspace_lifecycle [OF tr] tr show ?thesis by (simp add: workspace_terminal_def)
qed

lemma merge_workspace_Inr:
  assumes "merge_workspace pol refuses w task_id verified blocking destination changed fs = (Inr (None, w'), fs')"
  obtains merged where "may_merge w task_id verified blocking = None" "w_state w = WS_VERIFIED"
    "w' = w\<lparr>w_state := WS_MERGED\<rparr>" "transfer pol refuses w destination changed fs = (Inr merged, fs')"
  using assms
  by (auto simp: merge_workspace_def res_bind_Inr_iff workspace_transition_Inr
      split: option.splits sum.splits prod.splits dest: merged_only_from_verified)


definition sample_merge_fs :: file_system where
  "sample_merge_fs = [([''p''], Directory), ([''p'', ''.edith''], Directory), ([''p'', ''.edith'', ''w''], Directory),
     ([''p'', ''.edith'', ''w'', ''a.py''], TextFile ''new''), ([''p'', ''a.py''], TextFile ''old''),
     ([''p'', ''b.py''], TextFile ''kept'')]"

definition sample_workspace :: "workspace_state \<Rightarrow> task_workspace" where
  "sample_workspace s = \<lparr>w_workspace_id = ''task-t-1'', w_task_id = ''T-1'', w_execution_id = ''e'',
     w_path = [''p'', ''.edith'', ''w''], w_base_revision = ''abc'', w_state = s\<rparr>"

lemma sample_merge_no_links: "\<forall>q. \<not> is_link sample_merge_fs q"
  by (auto simp: is_link_def node_at_def sample_merge_fs_def split: if_splits option.splits fs_node.splits)


text \<open>
  The merge decision does not ask for the VERIFIED state and the files are copied before
  the move to MERGED is checked: for the owner of a workspace that is CREATED, EXECUTING or
  REJECTED, with work the caller calls verified, the call raises the illegal-transition
  error after the copy, so the project already holds the files.
\<close>

theorem merge_copies_before_the_check:
  assumes "w_task_id w = task_id" "w_base_revision w \<noteq> []" "w_state w \<in> {WS_CREATED, WS_EXECUTING, WS_REJECTED}"
    and "transfer pol refuses w destination changed fs = (Inr merged, fs')"
  shows "merge_workspace pol refuses w task_id True 0 destination changed fs =
    (Inl (IllegalWorkspaceTransition (w_state w) WS_MERGED (w_workspace_id w)), fs')"
  using assms
  by (auto simp: merge_workspace_def may_merge_def workspace_owns_def workspace_terminal_def workspace_transition_def)

theorem merge_copies_before_the_check_witness:
  "let r = merge_workspace sample_policy (\<lambda>p. False) (sample_workspace WS_REJECTED) ''T-1'' True 0
             (Some [''p'']) [''a.py''] sample_merge_fs in
   \<not> is_ok (fst r) \<and> node_at (snd r) [''p'', ''a.py''] = Some (TextFile ''new'')"
proof -
  let ?w = "sample_workspace WS_REJECTED"
  let ?t = "transfer sample_policy (\<lambda>p. False) ?w (Some [''p'']) [''a.py''] sample_merge_fs"
  have t: "?t = (Inr [''a.py''], snd ?t)" "node_at (snd ?t) [''p'', ''a.py''] = Some (TextFile ''new'')"
    by code_simp+
  have "w_task_id ?w = ''T-1''" "w_base_revision ?w \<noteq> []" "w_state ?w \<in> {WS_CREATED, WS_EXECUTING, WS_REJECTED}"
    by (simp_all add: sample_workspace_def)
  from merge_copies_before_the_check [OF this t(1)] t(2) show ?thesis by (simp add: Let_def)
qed

section \<open>The ledger over a run\<close>

text \<open>Every entry is filed under its own task, once.\<close>

definition ledger_ok :: "workspace_ledger \<Rightarrow> bool" where
  "ledger_ok led \<longleftrightarrow> distinct (map fst led) \<and> list_all (\<lambda>(t, w). w_task_id w = t) led"

lemma ledger_ok_put: "ledger_ok led \<Longrightarrow> ledger_ok (alist_put (w_task_id w) w led)"
proof -
  have "list_all (\<lambda>(t, w). w_task_id w = t) led \<Longrightarrow>
      list_all (\<lambda>(t, w). w_task_id w = t) (alist_put (w_task_id w) w led)" for led
    by (induction "w_task_id w" w led rule: alist_put.induct) auto
  then show "ledger_ok led \<Longrightarrow> ?thesis" by (simp add: ledger_ok_def distinct_alist_put)
qed

lemma ledger_add_Inr:
  assumes "ledger_add led w = Inr led'"
  shows "led' = alist_put (w_task_id w) w led"
    "map_of led (w_task_id w) = Some v \<Longrightarrow> workspace_terminal (w_state v)"
  using assms by (auto simp: ledger_add_def workspace_active_def split: option.splits if_splits)

lemma ledger_ok_map: "ledger_ok led \<Longrightarrow> map_of led t = Some w \<Longrightarrow> w_task_id w = t"
  by (auto simp: ledger_ok_def list_all_iff dest: map_of_SomeD)

lemma ledger_active_iff:
  "ledger_ok led \<Longrightarrow> w \<in> set (ledger_active led) \<longleftrightarrow> map_of led (w_task_id w) = Some w \<and> workspace_active w"
  by (auto simp: ledger_ok_def ledger_active_def list_all_iff dest!: map_of_SomeD) force

lemma discard_active:
  assumes "workspace_active w"
  shows "\<exists>ok fs'. discard_workspace gw w fs = (Inr (ok, w\<lparr>w_state := WS_DISCARDED\<rparr>), fs')"
proof -
  have "workspace_transition w WS_DISCARDED = Inr (w\<lparr>w_state := WS_DISCARDED\<rparr>)"
    using assms workspaces.abort_always
    by (simp add: workspace_transition_Inr workspace_active_def)
  then show ?thesis by (cases "wg_remove gw (w_workspace_id w) fs") (simp add: discard_workspace_def)
qed

lemma cleanup_loop_total:
  assumes "list_all workspace_active ws"
  shows "\<exists>n fs'. n \<le> removed + length ws \<and> cleanup_loop gw ws led removed fs =
     (Inr (n, foldl (\<lambda>l w. alist_put (w_task_id w) (w\<lparr>w_state := WS_DISCARDED\<rparr>) l) led ws), fs')"
  using assms
proof (induction ws arbitrary: led removed fs)
  case (Cons w ws)
  then obtain ok fs1 where d: "discard_workspace gw w fs = (Inr (ok, w\<lparr>w_state := WS_DISCARDED\<rparr>), fs1)"
    using discard_active by fastforce
  let ?led = "alist_put (w_task_id w) (w\<lparr>w_state := WS_DISCARDED\<rparr>) led"
  let ?n = "if ok then removed + 1 else removed"
  obtain n fs' where "n \<le> ?n + length ws" "cleanup_loop gw ws ?led ?n fs1 =
     (Inr (n, foldl (\<lambda>l w. alist_put (w_task_id w) (w\<lparr>w_state := WS_DISCARDED\<rparr>) l) ?led ws), fs')"
    using Cons.IH [of ?n ?led fs1] Cons.prems by auto
  then show ?case by (auto simp: d intro!: exI [of _ n] split: if_splits)
qed simp

lemma find_mem: "find P xs = Some x \<Longrightarrow> P x \<and> x \<in> set xs"
  by (induction xs) (auto split: if_splits)

lemma map_of_discards:
  "map_of (foldl (\<lambda>l w. alist_put (w_task_id w) (w\<lparr>w_state := WS_DISCARDED\<rparr>) l) led ws) t =
     (case find (\<lambda>w. w_task_id w = t) (rev ws) of
        Some w \<Rightarrow> Some (w\<lparr>w_state := WS_DISCARDED\<rparr>) | None \<Rightarrow> map_of led t)"
  by (induction ws rule: rev_induct) auto

text \<open>
  The clean-up at the end of a run closes every workspace whatever git answers: it never
  raises, reports at most one removal for each workspace that was active, leaves no workspace
  active, and keeps the ledger's entries: the closed ones as they were, the active ones
  discarded.
\<close>

theorem cleanup_closes_every_workspace:
  assumes "ledger_ok led"
  shows "\<exists>n led' fs'. cleanup gw led fs = (Inr (n, led'), fs') \<and> n \<le> length (ledger_active led) \<and>
    ledger_active led' = [] \<and>
    (\<forall>t. map_of led' t = (case map_of led t of None \<Rightarrow> None
        | Some w \<Rightarrow> Some (if workspace_active w then w\<lparr>w_state := WS_DISCARDED\<rparr> else w)))"
proof -
  let ?ws = "ledger_active led"
  let ?led = "foldl (\<lambda>l w. alist_put (w_task_id w) (w\<lparr>w_state := WS_DISCARDED\<rparr>) l) led ?ws"
  have "list_all workspace_active ?ws" by (simp add: ledger_active_def list_all_iff)
  from cleanup_loop_total [OF this, of 0 gw led fs] obtain n fs' where
    run: "cleanup gw led fs = (Inr (n, ?led), fs')" "n \<le> length ?ws"
    by (auto simp: cleanup_def)
  have active: "w \<in> set (ledger_active led) \<longleftrightarrow> map_of led (w_task_id w) = Some w \<and> workspace_active w" for w
    by (rule ledger_active_iff [OF assms])
  have entries: "map_of ?led t = (case map_of led t of None \<Rightarrow> None
        | Some w \<Rightarrow> Some (if workspace_active w then w\<lparr>w_state := WS_DISCARDED\<rparr> else w))" for t
  proof (cases "find (\<lambda>w. w_task_id w = t) (rev ?ws)")
    case None
    then have "\<forall>w \<in> set ?ws. w_task_id w \<noteq> t" by (auto simp: find_None_iff)
    then have "\<not> (\<exists>w. map_of led t = Some w \<and> workspace_active w)"
      using active ledger_ok_map [OF assms] by blast
    with None show ?thesis by (auto simp: map_of_discards split: option.splits)
  next
    case (Some w)
    then have "w \<in> set ?ws" "w_task_id w = t" by (auto dest: find_mem)
    then show ?thesis using Some active by (auto simp: map_of_discards)
  qed
  have "ledger_ok (foldl (\<lambda>l w. alist_put (w_task_id w) (w\<lparr>w_state := WS_DISCARDED\<rparr>) l) l ws)" if "ledger_ok l" for l ws
    using that
  proof (induction ws arbitrary: l)
    case (Cons w ws)
    then show ?case using ledger_ok_put [of l "w\<lparr>w_state := WS_DISCARDED\<rparr>"] by simp
  qed simp
  then have "ledger_ok ?led" using assms by blast
  then have "w \<notin> set (ledger_active ?led)" for w
    using entries ledger_active_iff
    by (auto simp: workspace_active_def workspace_terminal_def split: option.splits if_splits)
  then have "ledger_active ?led = []" by (metis list.set_intros(1) neq_Nil_conv)
  with run entries show ?thesis by blast
qed

theorem cleanup_closes_every_workspace_witness:
  "let gw = \<lparr>wg_add = (\<lambda>n fs. (\<lparr>wr_ok = False, wr_error = [], wr_created_path = []\<rparr>, fs)),
             wg_remove = (\<lambda>n fs. (\<lparr>wr_ok = False, wr_error = ''busy'', wr_created_path = []\<rparr>, fs))\<rparr> in
   is_ok (fst (cleanup gw [(''T-1'', sample_workspace WS_EXECUTING)] sample_merge_fs))"
proof -
  have ok: "ledger_ok [(''T-1'', sample_workspace WS_EXECUTING)]"
    by (simp add: ledger_ok_def sample_workspace_def)
  have "is_ok (fst (cleanup gw [(''T-1'', sample_workspace WS_EXECUTING)] sample_merge_fs))" for gw
    using cleanup_closes_every_workspace [OF ok, of gw sample_merge_fs] by fastforce
  then show ?thesis unfolding Let_def by blast
qed

end
