(* ===== verification/Verification.thy ===== *)
theory Verification
  imports Tool_Gateway Failure_Policy
begin

text \<open>
  Running the project's own checks: the diagnosis of a failed command
  (\<open>environment/classify.py\<close>) and the verification runner with its report
  (\<open>verification/runner.py\<close>). The command itself runs through the gateway's
  \<open>shell.run\<close>, an argument here: argv and a state of the world to a result and a new state.
  Reasons are values instead of their texts; the rendered evidence is left out.
\<close>

section \<open>Searching the output\<close>

text \<open>\<open>pattern.search\<close>: the leftmost place where a matcher succeeds.\<close>

fun search :: "(string \<Rightarrow> 'a option) \<Rightarrow> string \<Rightarrow> 'a option" where
  "search m [] = m []"
| "search m (c # s) = (case m (c # s) of Some x \<Rightarrow> Some x | None \<Rightarrow> search m s)"

definition is_digit :: "char \<Rightarrow> bool" where
  "is_digit c \<longleftrightarrow> c \<in> set ''0123456789''"

definition is_word :: "char \<Rightarrow> bool" where
  "is_word c \<longleftrightarrow>
     c \<in> set ''abcdefghijklmnopqrstuvwxyzABCDEFGHIJKLMNOPQRSTUVWXYZ0123456789_''"

definition is_quote :: "char \<Rightarrow> bool" where
  "is_quote c \<longleftrightarrow> c = CHR 0x27 \<or> c = CHR 0x22"

text \<open>\<open>No module named ['"]?([A-Za-z0-9\_.]+)['"]?\<close>.\<close>

definition missing_module_at :: "string \<Rightarrow> string option" where
  "missing_module_at s =
     (if starts_with s ''No module named ''
      then (let r = drop 16 s; r' = (if r \<noteq> [] \<and> is_quote (hd r) then tl r else r);
                name = takeWhile (\<lambda>c. is_word c \<or> c = CHR ''.'') r' in
            if name = [] then None else Some name)
      else None)"

text \<open>\<open>ImportError:\s*cannot import name ['"]([A-Za-z0-9\_]+)['"]\<close>.\<close>

definition cannot_import_at :: "string \<Rightarrow> string option" where
  "cannot_import_at s =
     (if starts_with s ''ImportError:''
      then (let r = dropWhile is_space (drop 12 s) in
            if starts_with r ''cannot import name ''
            then (let q = drop 19 r; name = takeWhile is_word (tl q); rest = dropWhile is_word (tl q) in
                  if q \<noteq> [] \<and> is_quote (hd q) \<and> name \<noteq> [] \<and> rest \<noteq> [] \<and> is_quote (hd rest)
                  then Some name else None)
            else None)
      else None)"

definition digit_value :: "char \<Rightarrow> nat" where
  "digit_value c = length (takeWhile (\<lambda>d. d \<noteq> c) ''0123456789'')"

definition int_of :: "string \<Rightarrow> nat" where
  "int_of s = foldl (\<lambda>n c. 10 * n + digit_value c) 0 s"

text \<open>\<open>(\d+) passed\<close> and its likes.\<close>

definition counted_at :: "string \<Rightarrow> string \<Rightarrow> nat option" where
  "counted_at word s =
     (let n = takeWhile is_digit s in
      if n \<noteq> [] \<and> starts_with (dropWhile is_digit s) ('' '' @ word) then Some (int_of n) else None)"

definition parse_test_counts :: "string \<Rightarrow> nat option \<times> nat option" where
  "parse_test_counts out =
     (let passed = search (counted_at ''passed'') out; failed = search (counted_at ''failed'') out;
          errors = search (counted_at ''error'') out;
          failed_count = (if failed \<noteq> None \<or> errors \<noteq> None
             then Some ((case failed of Some n \<Rightarrow> n | None \<Rightarrow> 0) + (case errors of Some n \<Rightarrow> n | None \<Rightarrow> 0))
             else None)
      in (passed, failed_count))"

section \<open>Diagnosis\<close>

definition toolchain_modules :: "string list" where
  "toolchain_modules = [''pytest'', ''pip'', ''setuptools'', ''mypy'', ''ruff'', ''tox'', ''nox'']"

definition environment_markers :: "string list" where
  "environment_markers =
     [''is not recognized as an internal or external command'', ''command not found'',
      ''no such file or directory: python'', ''can'' @ [CHR 0x27] @ ''t open file'', ''was not found on path'',
      ''not allowlisted'', ''the command could not be executed'', ''python was not found'', ''no python at'']"

definition code_markers :: "string list" where
  "code_markers = [''syntaxerror'', ''indentationerror'', ''taberror'', ''nameerror'', ''attributeerror'',
     ''typeerror'', ''collection error'', ''errors during collection'']"

definition test_markers :: "string list" where
  "test_markers = [''assertionerror'', ''failed'', ''assert '']"

datatype diagnosis_reason =
    NotStarted | RunnerMissing string | OwnModuleMissing string | PackageMissing string
  | NameMissing string | LoadFailed | AssertionFailed | NoTests | ExitedWith int

record failure_diagnosis =
  fd_category :: failure_category
  fd_reason :: diagnosis_reason
  fd_subject :: string
  fd_code_executed :: bool

definition diagnosis :: "failure_category \<Rightarrow> diagnosis_reason \<Rightarrow> string \<Rightarrow> bool \<Rightarrow> failure_diagnosis" where
  "diagnosis c r s e = \<lparr>fd_category = c, fd_reason = r, fd_subject = s, fd_code_executed = e\<rparr>"

definition any_marker :: "string list \<Rightarrow> string \<Rightarrow> bool" where
  "any_marker ms lowered = list_ex (\<lambda>m. infix_of m lowered) ms"

definition classify_failure :: "string \<Rightarrow> int \<Rightarrow> string list \<Rightarrow> failure_diagnosis" where
  "classify_failure output exit_code local_modules =
     (let lowered = py_lower output in
      if any_marker environment_markers lowered then diagnosis ENVIRONMENT_FAILURE NotStarted [] False
      else (case search missing_module_at output of
        Some name \<Rightarrow>
          (let module = hd (split_on (CHR ''.'') name) in
           if module \<in> set toolchain_modules
           then diagnosis ENVIRONMENT_FAILURE (RunnerMissing module) module False
           else if module \<in> set local_modules
           then diagnosis CODE_FAILURE (OwnModuleMissing module) module True
           else diagnosis DEPENDENCY_FAILURE (PackageMissing module) module False)
      | None \<Rightarrow>
          (case search cannot_import_at output of
             Some name \<Rightarrow> diagnosis CODE_FAILURE (NameMissing name) name True
           | None \<Rightarrow>
               if \<not> infix_of ''assertionerror'' lowered \<and> any_marker code_markers lowered
               then diagnosis CODE_FAILURE LoadFailed [] True
               else if any_marker test_markers lowered
               then diagnosis TEST_FAILURE AssertionFailed [] True
               else if exit_code = 5 then diagnosis TEST_FAILURE NoTests [] False
               else diagnosis TEST_FAILURE (ExitedWith exit_code) [] True)))"

section \<open>The runner\<close>

record verification_profile =
  vp_tests :: "string list"
  vp_lint :: "string list"
  vp_typecheck :: "string list"
  vp_build :: "string list"

definition command_for :: "verification_profile \<Rightarrow> string \<Rightarrow> string list" where
  "command_for pr kind =
     (if kind = ''tests'' then vp_tests pr else if kind = ''lint'' then vp_lint pr
      else if kind = ''typecheck'' then vp_typecheck pr else if kind = ''build'' then vp_build pr else [])"

record shell_result =
  sr_ok :: bool
  sr_denied :: bool
  sr_failure_category :: "failure_category option"
  sr_error :: string
  sr_exit_code :: int
  sr_stdout :: string
  sr_stderr :: string

type_synonym 'w shell = "string list \<Rightarrow> 'w \<Rightarrow> shell_result \<times> 'w"

datatype unavailable = NoCommand string | NotExecuted string | DidNotVerify diagnosis_reason

record verification_outcome =
  vo_kind :: string
  vo_command :: "string list"
  vo_exit_code :: int
  vo_passed :: bool
  vo_stdout :: string
  vo_stderr :: string
  vo_tests_passed :: "nat option"
  vo_tests_failed :: "nat option"
  vo_failure_category :: "failure_category option"
  vo_diagnosis :: "diagnosis_reason option"
  vo_code_executed :: bool
  vo_unavailable :: "unavailable option"

definition outcome_ran :: "verification_outcome \<Rightarrow> bool" where
  "outcome_ran o1 \<longleftrightarrow> vo_unavailable o1 = None"

definition not_run :: "string \<Rightarrow> string list \<Rightarrow> failure_category option \<Rightarrow> unavailable \<Rightarrow> verification_outcome" where
  "not_run kind argv cat why =
     \<lparr>vo_kind = kind, vo_command = argv, vo_exit_code = -1, vo_passed = False, vo_stdout = [], vo_stderr = [],
      vo_tests_passed = None, vo_tests_failed = None, vo_failure_category = cat, vo_diagnosis = None,
      vo_code_executed = True, vo_unavailable = Some why\<rparr>"

definition completed_run :: "string list \<Rightarrow> string \<Rightarrow> string list \<Rightarrow> shell_result \<Rightarrow> verification_outcome" where
  "completed_run local_modules kind argv r =
     (let passed = (sr_exit_code r = 0);
          out = sr_stdout r @ [CHR 0x0A] @ sr_stderr r;
          counts = (if kind = ''tests'' then parse_test_counts out else (None, None));
          dg = classify_failure out (sr_exit_code r) local_modules in
      \<lparr>vo_kind = kind, vo_command = argv, vo_exit_code = sr_exit_code r, vo_passed = passed,
       vo_stdout = sr_stdout r, vo_stderr = sr_stderr r,
       vo_tests_passed = fst counts, vo_tests_failed = snd counts,
       vo_failure_category = (if passed then None else Some (fd_category dg)),
       vo_diagnosis = (if passed then None else Some (fd_reason dg)),
       vo_code_executed = passed \<or> fd_code_executed dg,
       vo_unavailable = (if \<not> passed \<and> \<not> fd_code_executed dg then Some (DidNotVerify (fd_reason dg)) else None)\<rparr>)"

definition run_verification ::
    "verification_profile \<Rightarrow> string list \<Rightarrow> 'w shell \<Rightarrow> string \<Rightarrow> string option \<Rightarrow> 'w \<Rightarrow> verification_outcome \<times> 'w" where
  "run_verification pr local_modules sh kind selector w =
     (if command_for pr kind = [] then (not_run kind [] None (NoCommand kind), w)
      else (let argv = command_for pr kind @ (case selector of None \<Rightarrow> [] | Some s \<Rightarrow> if s = [] then [] else [s]) in
        (case sh argv w of (r, w') \<Rightarrow>
           ((if \<not> sr_ok r
             then not_run kind argv
                    (Some (if sr_denied r then SECURITY_FAILURE
                           else (case sr_failure_category r of Some c \<Rightarrow> c | None \<Rightarrow> TOOL_ERROR)))
                    (NotExecuted (if sr_error r = [] then ''the command could not be executed'' else sr_error r))
             else completed_run local_modules kind argv r), w'))))"

text \<open>The first check that ran and failed ends the list.\<close>

fun run_all ::
    "verification_profile \<Rightarrow> string list \<Rightarrow> 'w shell \<Rightarrow> (string \<times> string option) list \<Rightarrow> 'w \<Rightarrow>
     verification_outcome list \<times> 'w" where
  "run_all pr local_modules sh [] w = ([], w)"
| "run_all pr local_modules sh ((kind, selector) # reqs) w =
     (case run_verification pr local_modules sh kind selector w of (r, w') \<Rightarrow>
        if outcome_ran r \<and> \<not> vo_passed r then ([r], w')
        else (case run_all pr local_modules sh reqs w' of (rs, w'') \<Rightarrow> (r # rs, w'')))"

section \<open>The report\<close>

definition report_passed :: "verification_outcome list \<Rightarrow> bool" where
  "report_passed os \<longleftrightarrow> filter outcome_ran os \<noteq> [] \<and> list_all vo_passed (filter outcome_ran os)"

definition report_failures :: "verification_outcome list \<Rightarrow> verification_outcome list" where
  "report_failures os = filter (\<lambda>r. outcome_ran r \<and> \<not> vo_passed r) os"

definition report_failure_category :: "verification_outcome list \<Rightarrow> failure_category option" where
  "report_failure_category os =
     (case report_failures os of
        f # fs \<Rightarrow> vo_failure_category f
      | [] \<Rightarrow>
          (case find (\<lambda>r. \<not> outcome_ran r \<and> vo_failure_category r \<noteq> None) os of
             Some r \<Rightarrow> vo_failure_category r | None \<Rightarrow> None))"

section \<open>What a diagnosis and an outcome say\<close>

lemma classify_cases:
  "fd_category (classify_failure out code local_modules) \<in>
     {ENVIRONMENT_FAILURE, DEPENDENCY_FAILURE, CODE_FAILURE, TEST_FAILURE} \<and>
   (fd_code_executed (classify_failure out code local_modules) \<longleftrightarrow>
      fd_category (classify_failure out code local_modules) \<in> {CODE_FAILURE, TEST_FAILURE} \<and>
      fd_reason (classify_failure out code local_modules) \<noteq> NoTests)"
  unfolding classify_failure_def Let_def diagnosis_def by (simp split: option.splits)

lemma completed_run_facts:
  "vo_kind (completed_run local_modules kind argv r) = kind"
  "vo_exit_code (completed_run local_modules kind argv r) = sr_exit_code r"
  "vo_passed (completed_run local_modules kind argv r) \<longleftrightarrow> sr_exit_code r = 0"
  "vo_failure_category (completed_run local_modules kind argv r) = None \<longleftrightarrow> sr_exit_code r = 0"
  "outcome_ran (completed_run local_modules kind argv r) \<longleftrightarrow>
     sr_exit_code r = 0 \<or>
     fd_code_executed (classify_failure (sr_stdout r @ [CHR 0x0A] @ sr_stderr r) (sr_exit_code r) local_modules)"
  by (simp_all add: completed_run_def Let_def outcome_ran_def)

text \<open>What holds of every outcome the runner produces.\<close>

definition outcome_ok :: "verification_outcome \<Rightarrow> bool" where
  "outcome_ok r \<longleftrightarrow>
     (vo_passed r \<longrightarrow> outcome_ran r \<and> vo_exit_code r = 0 \<and> vo_failure_category r = None) \<and>
     (outcome_ran r \<longrightarrow> vo_passed r \<or>
        vo_exit_code r \<noteq> 0 \<and> vo_code_executed r \<and> vo_failure_category r \<in> {Some CODE_FAILURE, Some TEST_FAILURE}) \<and>
     (\<not> outcome_ran r \<longrightarrow> vo_failure_category r \<noteq> None \<or> vo_unavailable r = Some (NoCommand (vo_kind r)))"

lemma outcome_ok_passed: "outcome_ok r \<Longrightarrow> outcome_ran r \<Longrightarrow> vo_passed r \<longleftrightarrow> vo_exit_code r = 0"
  by (auto simp: outcome_ok_def)

lemma run_verification_ok:
  assumes "run_verification pr local_modules sh kind selector w = (r, w')"
  shows "outcome_ok r \<and> vo_kind r = kind"
proof -
  have complete: "outcome_ok (completed_run local_modules k argv res)" for k argv res
    using classify_cases [of "sr_stdout res @ [CHR 0x0A] @ sr_stderr res" "sr_exit_code res" local_modules]
    by (auto simp: outcome_ok_def completed_run_facts) (auto simp: completed_run_def Let_def)
  show ?thesis
  proof (cases "command_for pr kind = []")
    case True
    then show ?thesis
      using assms by (auto simp: run_verification_def not_run_def outcome_ok_def outcome_ran_def)
  next
    case False
    obtain argv res cat why where "r = not_run kind argv (Some cat) why \<or> r = completed_run local_modules kind argv res"
      using assms False unfolding run_verification_def Let_def by (simp split: prod.splits if_splits) blast+
    then show ?thesis
    proof
      assume "r = not_run kind argv (Some cat) why"
      then show ?thesis by (simp add: not_run_def outcome_ok_def outcome_ran_def)
    qed (simp add: complete completed_run_facts)
  qed
qed

lemma run_all_shape:
  "run_all pr local_modules sh reqs w = (os, w') \<Longrightarrow>
     list_all outcome_ok os \<and> map vo_kind os = map fst (take (length os) reqs) \<and> length os \<le> length reqs \<and>
     list_all (\<lambda>r. outcome_ran r \<longrightarrow> vo_passed r) (butlast os) \<and>
     (length os < length reqs \<longrightarrow> os \<noteq> [] \<and> outcome_ran (last os) \<and> \<not> vo_passed (last os))"
proof (induction reqs arbitrary: w os w')
  case (Cons q reqs)
  obtain kind selector where q: "q = (kind, selector)" by force
  obtain r w1 where r: "run_verification pr local_modules sh kind selector w = (r, w1)" by fastforce
  note ok = run_verification_ok [OF r]
  show ?case
  proof (cases "outcome_ran r \<and> \<not> vo_passed r")
    case True
    with Cons.prems q r have "os = [r]" by simp
    with True ok q show ?thesis by simp
  next
    case False
    obtain os1 w2 where rest: "run_all pr local_modules sh reqs w1 = (os1, w2)" by fastforce
    with False Cons.prems q r have os: "os = r # os1" by auto
    have "list_all (\<lambda>r. outcome_ran r \<longrightarrow> vo_passed r) (butlast (r # os1))"
      using Cons.IH [OF rest] False by simp
    with Cons.IH [OF rest] False ok q os show ?thesis by auto
  qed
qed simp

lemma report_category_passed: "list_all outcome_ok os \<Longrightarrow> report_passed os \<Longrightarrow> report_failures os = []"
  by (auto simp: report_passed_def report_failures_def list_all_iff filter_empty_conv)

text \<open>C39. A verification report means what it says. Whatever the commands answer, the outcomes
  are the required kinds in order, stopping only after a check that ran and failed, which is
  then the last; the report passes exactly when some check ran and every check that ran
  exited with 0; a failure that is reported as ran always executed the code and is a code or
  a test failure; and a report that does not pass names the category of its failure, unless
  nothing at all was configured to run.
\<close>

theorem verification_report_sound:
  assumes "run_all pr local_modules sh reqs w = (os, w')"
  shows "map vo_kind os = map fst (take (length os) reqs) \<and>
    (length os < length reqs \<longrightarrow> os \<noteq> [] \<and> report_failures os = [last os]) \<and>
    (report_passed os \<longleftrightarrow> (\<exists>r \<in> set os. outcome_ran r) \<and>
       (\<forall>r \<in> set os. outcome_ran r \<longrightarrow> vo_exit_code r = 0)) \<and>
    (\<forall>r \<in> set (report_failures os).
       vo_code_executed r \<and> vo_failure_category r \<in> {Some CODE_FAILURE, Some TEST_FAILURE}) \<and>
    (\<not> report_passed os \<and> report_failure_category os = None \<longrightarrow>
       (\<forall>r \<in> set os. vo_unavailable r = Some (NoCommand (vo_kind r))))"
proof -
  note sh = run_all_shape [OF assms]
  have ok: "outcome_ok r" if "r \<in> set os" for r using sh that by (simp add: list_all_iff)
  have last: "report_failures os = [last os]" if "length os < length reqs"
  proof -
    have "os = butlast os @ [last os]" using sh that by simp
    then have "report_failures os = report_failures (butlast os) @ report_failures [last os]"
      unfolding report_failures_def by (metis filter_append)
    moreover have "report_failures (butlast os) = []"
      using sh by (auto simp: report_failures_def filter_empty_conv list_all_iff)
    ultimately show ?thesis using sh that by (simp add: report_failures_def)
  qed
  have passed: "report_passed os \<longleftrightarrow> (\<exists>r \<in> set os. outcome_ran r) \<and>
       (\<forall>r \<in> set os. outcome_ran r \<longrightarrow> vo_exit_code r = 0)"
    using outcome_ok_passed [OF ok] by (auto simp: report_passed_def list_all_iff filter_empty_conv)
  have failures: "vo_code_executed r \<and> vo_failure_category r \<in> {Some CODE_FAILURE, Some TEST_FAILURE}"
    if "r \<in> set (report_failures os)" for r
    using that ok unfolding report_failures_def outcome_ok_def by auto
  have silent: "vo_unavailable r = Some (NoCommand (vo_kind r))"
    if np: "\<not> report_passed os" and none: "report_failure_category os = None" and r: "r \<in> set os" for r
  proof -
    have nof: "report_failures os = []"
    proof (rule ccontr)
      assume "report_failures os \<noteq> []"
      then obtain f fs where f: "report_failures os = f # fs" by (cases "report_failures os") auto
      with failures [of f] none show False by (auto simp: report_failure_category_def)
    qed
    then have "\<not> outcome_ran r"
      using np r ok unfolding report_failures_def filter_empty_conv passed outcome_ok_def by blast
    moreover have "find (\<lambda>r. \<not> outcome_ran r \<and> vo_failure_category r \<noteq> None) os = None"
      using none nof by (auto simp: report_failure_category_def find_Some_iff split: option.splits)
    ultimately have "vo_failure_category r = None" using r by (auto simp: find_None_iff)
    with \<open>\<not> outcome_ran r\<close> show ?thesis using ok [OF r] by (auto simp: outcome_ok_def)
  qed
  show ?thesis using sh last passed failures silent by blast
qed

definition sample_profile :: verification_profile where
  "sample_profile = \<lparr>vp_tests = [''pytest''], vp_lint = [''ruff''], vp_typecheck = [], vp_build = []\<rparr>"

text \<open>A shell in which every command exits with a code of its own.\<close>

definition sample_shell :: "(string \<Rightarrow> int) \<Rightarrow> unit shell" where
  "sample_shell code argv w = (\<lparr>sr_ok = True, sr_denied = False, sr_failure_category = None, sr_error = [],
     sr_exit_code = code (hd argv), sr_stdout = [], sr_stderr = []\<rparr>, w)"

theorem verification_report_sound_witness:
  "let os = fst (run_all sample_profile [] (sample_shell (\<lambda>c. if c = ''pytest'' then 1 else 0))
                   [(''lint'', None), (''tests'', None), (''lint'', None)] ()) in
   map vo_kind os = [''lint'', ''tests''] \<and> \<not> report_passed os \<and> report_failures os = [last os]"
proof -
  let ?run = "run_all sample_profile [] (sample_shell (\<lambda>c. if c = ''pytest'' then 1 else 0))
                   [(''lint'', None), (''tests'', None), (''lint'', None)] ()"
  have len: "length (fst ?run) = 2" and np: "\<not> report_passed (fst ?run)" by code_simp+
  have "?run = (fst ?run, snd ?run)" by (rule prod.collapse [symmetric])
  note t = verification_report_sound [OF this]
  from t [THEN conjunct1] len have "map vo_kind (fst ?run) = [''lint'', ''tests'']" by (simp add: numeral_eq_Suc)
  moreover have "report_failures (fst ?run) = [last (fst ?run)]"
    using t [THEN conjunct2, THEN conjunct1] len by simp
  ultimately show ?thesis using np unfolding Let_def by blast
qed

text \<open>
  A check that did not verify is left out of the verdict as soon as another one ran:
  when a check passes and the next one, the last, exits with 5 and says nothing else (pytest
  collected no test), the diagnosis says the change is unverified, and the report passes.
\<close>

theorem unverified_tests_pass_report:
  assumes "command_for pr k1 \<noteq> []" "command_for pr k2 \<noteq> []"
    and "sh (command_for pr k1) w = (r1, w1)" "sr_ok r1" "sr_exit_code r1 = 0"
    and "sh (command_for pr k2) w1 = (r2, w2)" "sr_ok r2" "sr_exit_code r2 = 5" "sr_stdout r2 = []" "sr_stderr r2 = []"
  shows "\<exists>a b. run_all pr local_modules sh [(k1, None), (k2, None)] w = ([a, b], w2) \<and>
    vo_unavailable b = Some (DidNotVerify NoTests) \<and> report_passed [a, b] \<and> report_failures [a, b] = []"
proof -
  let ?a = "completed_run local_modules k1 (command_for pr k1) r1"
  let ?b = "completed_run local_modules k2 (command_for pr k2) r2"
  have a: "run_verification pr local_modules sh k1 None w = (?a, w1)"
    using assms by (simp add: run_verification_def)
  have b: "run_verification pr local_modules sh k2 None w1 = (?b, w2)"
    using assms by (simp add: run_verification_def)
  have none: "classify_failure [CHR 0x0A] 5 local_modules = diagnosis TEST_FAILURE NoTests [] False"
  proof -
    have "\<not> any_marker environment_markers (py_lower [CHR 0x0A])" "search missing_module_at [CHR 0x0A] = None"
      "search cannot_import_at [CHR 0x0A] = None" "\<not> any_marker code_markers (py_lower [CHR 0x0A])"
      "\<not> any_marker test_markers (py_lower [CHR 0x0A])" by code_simp+
    then show ?thesis by (simp add: classify_failure_def)
  qed
  have fb: "vo_unavailable ?b = Some (DidNotVerify NoTests)" "\<not> vo_passed ?b"
    using none assms by (simp_all add: completed_run_def Let_def diagnosis_def)
  have fa: "vo_passed ?a" "outcome_ran ?a" using assms by (simp_all add: completed_run_facts)
  have "\<not> outcome_ran ?b" using fb by (simp add: outcome_ran_def)
  then have "run_all pr local_modules sh [(k1, None), (k2, None)] w = ([?a, ?b], w2)"
    "report_passed [?a, ?b]" "report_failures [?a, ?b] = []"
    using a b fa fb by (simp_all add: report_passed_def report_failures_def)
  then show ?thesis using fb(1) by blast
qed

theorem unverified_tests_pass_report_witness:
  "report_passed (fst (run_all sample_profile [] (sample_shell (\<lambda>c. if c = ''pytest'' then 5 else 0))
     [(''lint'', None), (''tests'', None)] ()))"
proof -
  let ?sh = "sample_shell (\<lambda>c. if c = ''pytest'' then 5 else 0)"
  let ?r = "\<lambda>c. fst (?sh [c] ())"
  have cmd: "command_for sample_profile ''lint'' = [''ruff'']" "command_for sample_profile ''tests'' = [''pytest'']"
    by (simp_all add: command_for_def sample_profile_def)
  have sh: "?sh (command_for sample_profile ''lint'') () = (?r ''ruff'', ())"
    "?sh (command_for sample_profile ''tests'') () = (?r ''pytest'', ())"
    unfolding cmd by (simp_all add: sample_shell_def)
  have facts: "command_for sample_profile ''lint'' \<noteq> []" "command_for sample_profile ''tests'' \<noteq> []"
    "sr_ok (?r ''ruff'')" "sr_exit_code (?r ''ruff'') = 0" "sr_ok (?r ''pytest'')" "sr_exit_code (?r ''pytest'') = 5"
    "sr_stdout (?r ''pytest'') = []" "sr_stderr (?r ''pytest'') = []"
    by (simp_all add: sample_shell_def cmd)
  from unverified_tests_pass_report
    [where sh = ?sh and ?k1.0 = "''lint''" and ?k2.0 = "''tests''" and local_modules = "[]",
      OF facts(1,2) sh(1) facts(3,4) sh(2) facts(5-8)]
  show ?thesis by (metis fst_conv)
qed

end
