(* ===== verification/Adjudication.thy ===== *)
theory Adjudication
  imports Verification Integrity
begin

text \<open>
  The verdict on a task (\<open>agents/critic.py\<close>): the integrity report, the verification report
  and the critic's opinion combined, in that order of precedence. Reasons are values.
\<close>

datatype verdict = V_PASS | V_FAIL | V_BLOCKED

record critic_output =
  cr_verdict :: verdict
  cr_findings :: "severity list"

definition critic_blocking :: "critic_output \<Rightarrow> severity list" where
  "critic_blocking c = filter (\<lambda>s. s \<in> {SEV_HIGH, SEV_CRITICAL}) (cr_findings c)"

datatype adjudication_reason =
    IntegrityViolated integrity_finding nat
  | CouldNotRun "unavailable option"
  | CheckFailed string int
  | NoFilesChanged
  | NothingConfigured
  | OnlyTheCritic verdict
  | PassedNoCritic
  | PassedAndAgreed
  | CriticBlocks nat
  | ConcernsNotSevere

definition adjudicate ::
    "critic_output option \<Rightarrow> verification_outcome list \<Rightarrow> bool \<Rightarrow> integrity_report option \<Rightarrow>
     verdict \<times> adjudication_reason" where
  "adjudicate critic outcomes changes_made integrity =
     (case (case integrity of None \<Rightarrow> [] | Some i \<Rightarrow> if tampered i then blocking_findings i else []) of
        f # fs \<Rightarrow> (V_FAIL, IntegrityViolated f (Suc (length fs)))
      | [] \<Rightarrow>
      if filter (\<lambda>r. \<not> outcome_ran r) outcomes \<noteq> [] \<and> \<not> outcome_ran (hd outcomes)
      then (V_BLOCKED, CouldNotRun (vo_unavailable (hd (filter (\<lambda>r. \<not> outcome_ran r) outcomes))))
      else (case report_failures outcomes of
        failure # rest \<Rightarrow> (V_FAIL, CheckFailed (vo_kind failure) (vo_exit_code failure))
      | [] \<Rightarrow>
      if \<not> changes_made then (V_FAIL, NoFilesChanged)
      else if outcomes = []
      then (case critic of
              None \<Rightarrow> (V_BLOCKED, NothingConfigured)
            | Some c \<Rightarrow> (cr_verdict c, OnlyTheCritic (cr_verdict c)))
      else (case critic of
              None \<Rightarrow> (V_PASS, PassedNoCritic)
            | Some c \<Rightarrow>
                if cr_verdict c = V_PASS then (V_PASS, PassedAndAgreed)
                else if critic_blocking c \<noteq> [] then (V_FAIL, CriticBlocks (length (critic_blocking c)))
                else (V_PASS, ConcernsNotSevere))))"

lemma adjudicate_tampered:
  "integrity = Some i \<Longrightarrow> tampered i \<Longrightarrow> fst (adjudicate critic os made integrity) = V_FAIL"
  by (auto simp: adjudicate_def tampered_def split: list.splits)

lemma adjudicate_untampered:
  assumes "\<not> (\<exists>i. integrity = Some i \<and> tampered i)"
  shows "adjudicate critic os made integrity = adjudicate critic os made None"
  using assms by (auto simp: adjudicate_def split: option.splits)

lemma report_failures_Nil: "report_failures os = [] \<longleftrightarrow> (\<forall>r \<in> set os. outcome_ran r \<longrightarrow> vo_passed r)"
  by (auto simp: report_failures_def filter_empty_conv)

text \<open>A task passes exactly on evidence: the tests were not tampered with, something was
  changed, every check that ran passed, and either the first check ran and the critic, if
  there is one, does not object with a high-severity finding, or nothing at all was
  configured to run and the critic says PASS. A passing verdict on a task with checks
  therefore rests on a passing report; it is BLOCKED only when the first check could not run
  or when, with no checks at all, the critic is missing or says so itself.
\<close>

theorem adjudicate_exact:
  "(fst (adjudicate critic os made integrity) = V_PASS \<longleftrightarrow>
      \<not> (\<exists>i. integrity = Some i \<and> tampered i) \<and> made \<and> report_failures os = [] \<and>
      (if os = [] then \<exists>c. critic = Some c \<and> cr_verdict c = V_PASS
       else outcome_ran (hd os) \<and> \<not> (\<exists>c. critic = Some c \<and> cr_verdict c \<noteq> V_PASS \<and> critic_blocking c \<noteq> []))) \<and>
   (fst (adjudicate critic os made integrity) = V_PASS \<and> os \<noteq> [] \<longrightarrow> report_passed os) \<and>
   (fst (adjudicate critic os made integrity) = V_BLOCKED \<longleftrightarrow>
      \<not> (\<exists>i. integrity = Some i \<and> tampered i) \<and>
      (if os = [] then made \<and> (case critic of None \<Rightarrow> True | Some c \<Rightarrow> cr_verdict c = V_BLOCKED)
       else \<not> outcome_ran (hd os)))"
proof (cases "\<exists>i. integrity = Some i \<and> tampered i")
  case True
  then have "fst (adjudicate critic os made integrity) = V_FAIL" using adjudicate_tampered by blast
  with True show ?thesis by simp
next
  case False
  note plain = adjudicate_untampered [OF False, of critic os made]
  show ?thesis
  proof (cases os)
    case Nil
    then show ?thesis
      unfolding plain using False
      by (cases critic) (simp_all add: adjudicate_def report_failures_def)
  next
    case (Cons r rs)
    show ?thesis
    proof (cases "outcome_ran r")
      case ran: True
      have passed: "report_failures os = [] \<Longrightarrow> report_passed os"
        unfolding report_failures_Nil using Cons ran
        by (auto simp: report_passed_def list_all_iff)
      show ?thesis
        unfolding plain using False Cons ran passed
        by (cases critic; cases "report_failures (r # rs)") (simp_all add: adjudicate_def)
    next
      case False
      with Cons \<open>\<not> (\<exists>i. integrity = Some i \<and> tampered i)\<close> show ?thesis
        unfolding plain by (simp add: adjudicate_def)
    qed
  qed
qed

theorem adjudicate_exact_witness:
  "let lint = fst (run_all sample_profile [] (sample_shell (\<lambda>c. 0)) [(''lint'', None)] ());
       tests = fst (run_all sample_profile [] (sample_shell (\<lambda>c. 5)) [(''tests'', None)] ()) in
   fst (adjudicate None (lint @ tests) True None) = V_PASS \<and> fst (adjudicate None (tests @ lint) True None) = V_BLOCKED"
proof -
  let ?lint = "fst (run_all sample_profile [] (sample_shell (\<lambda>c. 0)) [(''lint'', None)] ())"
  let ?tests = "fst (run_all sample_profile [] (sample_shell (\<lambda>c. 5)) [(''tests'', None)] ())"
  have "?lint @ ?tests \<noteq> []" "?tests @ ?lint \<noteq> []" "outcome_ran (hd (?lint @ ?tests))"
    "\<not> outcome_ran (hd (?tests @ ?lint))" "report_failures (?lint @ ?tests) = []" by code_simp+
  then show ?thesis
    using adjudicate_exact [of None "?lint @ ?tests" True None] adjudicate_exact [of None "?tests @ ?lint" True None]
    unfolding Let_def by simp
qed

end
