(* ===== verification/Planner.thy ===== *)
theory Planner
  imports Task_Graph_Correct
begin

text \<open>
  The planner's trust boundary (\<open>agents/planner.py\<close>): the schema of what the model proposes,
  and its translation into tasks. Validation errors are those of \<open>Task_Model\<close>; the model call
  itself is not modelled.
\<close>

section \<open>What the model proposes\<close>

record planned_step =
  ps_step :: int
  ps_title :: string
  ps_description :: string
  ps_files :: "string list"
  ps_depends_on :: "int list"
  ps_acceptance :: string

record planner_output =
  po_goal :: string
  po_steps :: "planned_step list"

definition max_plan_steps :: nat where
  "max_plan_steps = 14"

definition clean_paths :: "string list \<Rightarrow> string list" where
  "clean_paths value =
     filter (\<lambda>c. c \<noteq> [] \<and> length c < 300) (map (\<lambda>raw. strip_dot_slash (fwd_slashes (py_strip raw))) value)"

definition planned_step_ok :: "planned_step \<Rightarrow> bool" where
  "planned_step_ok s \<longleftrightarrow>
     1 \<le> ps_step s \<and> ps_step s \<le> int max_plan_steps \<and>
     ps_title s \<noteq> [] \<and> length (ps_title s) \<le> 200 \<and>
     ps_description s \<noteq> [] \<and> length (ps_description s) \<le> 2000 \<and>
     length (ps_files s) \<le> 10 \<and> length (ps_depends_on s) \<le> max_plan_steps \<and> length (ps_acceptance s) \<le> 1000"

text \<open>Validation checks the fields and cleans the paths; \<open>None\<close> is a validation error.\<close>

definition validate_step :: "planned_step \<Rightarrow> planned_step option" where
  "validate_step s = (if planned_step_ok s then Some (s\<lparr>ps_files := clean_paths (ps_files s)\<rparr>) else None)"

fun validate_steps :: "planned_step list \<Rightarrow> planned_step list option" where
  "validate_steps [] = Some []"
| "validate_steps (s # ss) =
     (case validate_step s of None \<Rightarrow> None
      | Some s' \<Rightarrow> map_option (\<lambda>ss'. s' # ss') (validate_steps ss))"

definition plan_size_ok :: "planner_output \<Rightarrow> bool" where
  "plan_size_ok p \<longleftrightarrow> po_goal p \<noteq> [] \<and> length (po_goal p) \<le> 500 \<and>
     po_steps p \<noteq> [] \<and> length (po_steps p) \<le> max_plan_steps"

definition validate_plan :: "planner_output \<Rightarrow> planner_output option" where
  "validate_plan p =
     (if plan_size_ok p then map_option (\<lambda>ss. p\<lparr>po_steps := ss\<rparr>) (validate_steps (po_steps p)) else None)"

section \<open>Translation into tasks\<close>

definition scope_patterns :: "string \<Rightarrow> string list" where
  "scope_patterns path =
     (if starts_with path ''/'' \<or> starts_with path [CHR 0x5C] \<or> (1 < length path \<and> path ! 1 = CHR '':'') then []
      else if ''..'' \<in> set (split_on (CHR ''/'') path) then []
      else path # (let parent = (if CHR ''/'' \<in> set path then parent_path path else []) in
                   if parent = [] then [] else [parent @ ''/**'']))"

definition scope_from_files :: "string list \<Rightarrow> string list" where
  "scope_from_files files = sorted_set (concat (map scope_patterns files))"

text \<open>\<open>f"task_{index + 1:02d}"\<close>.\<close>

definition task_number :: "nat \<Rightarrow> string" where
  "task_number i = ''task_'' @ (let n = show_nat (Suc i) in if length n < 2 then ''0'' @ n else n)"

definition ordered_steps :: "planner_output \<Rightarrow> planned_step list" where
  "ordered_steps p = sort_key ps_step (po_steps p)"

text \<open>The dictionary of step numbers: a later step with the same number replaces an earlier one.\<close>

definition step_ids :: "planned_step list \<Rightarrow> int \<Rightarrow> string option" where
  "step_ids ordered = map_of (rev (zip (map ps_step ordered) (map task_number [0..<length ordered])))"

text \<open>\<open>dict.fromkeys\<close>: the first of equal elements stays.\<close>

definition first_occurrences :: "'a list \<Rightarrow> 'a list" where
  "first_occurrences xs = rev (remdups (rev xs))"

definition step_dependencies :: "(int \<Rightarrow> string option) \<Rightarrow> planned_step \<Rightarrow> string list" where
  "step_dependencies idents s =
     map (\<lambda>n. the (idents n))
       (filter (\<lambda>n. idents n \<noteq> None \<and> idents n \<noteq> idents (ps_step s)) (first_occurrences (ps_depends_on s)))"

definition step_task :: "(int \<Rightarrow> string option) \<Rightarrow> int \<Rightarrow> nat \<Rightarrow> planned_step \<Rightarrow> task" where
  "step_task idents max_attempts index s =
     \<lparr>t_id = the (idents (ps_step s)), t_title = ps_title s, t_description = ps_description s,
      t_agent = ''coder'', t_priority = 100 + int index, t_deps = step_dependencies idents s,
      t_inputs = (if ps_files s = [] then [] else [(''files'', join '','' (ps_files s))]), t_outputs = [],
      t_criteria = (if py_strip (ps_acceptance s) = [] then [] else [ps_acceptance s]),
      t_verification = [\<lparr>vr_kind = ''tests'', vr_selector = None, vr_required = True\<rparr>],
      t_scope = \<lparr>sc_read_paths = [''**''],
        sc_write_paths = (if scope_from_files (ps_files s) = [] then [''**''] else scope_from_files (ps_files s))\<rparr>,
      t_status = TS_PENDING, t_attempts = 0, t_max_attempts = max_attempts,
      t_failure_reason = None, t_failure_category = None\<rparr>"

fun tasks_from ::
    "(int \<Rightarrow> string option) \<Rightarrow> int \<Rightarrow> nat \<Rightarrow> planned_step list \<Rightarrow> (plan_error, task list) res" where
  "tasks_from idents max_attempts index [] = Inr []"
| "tasks_from idents max_attempts index (s # ss) =
     res_bind (validate_task (step_task idents max_attempts index s)) (\<lambda>t.
     res_bind (tasks_from idents max_attempts (Suc index) ss) (\<lambda>ts. Inr (t # ts)))"

definition plan_to_tasks :: "planner_output \<Rightarrow> int \<Rightarrow> (plan_error, task list) res" where
  "plan_to_tasks p max_attempts =
     tasks_from (step_ids (ordered_steps p)) max_attempts 0 (ordered_steps p)"


section \<open>Identifiers\<close>

fun number_of :: "nat \<Rightarrow> string \<Rightarrow> nat" where
  "number_of a [] = a"
| "number_of a (c # cs) = number_of (10 * a + (of_char c - 48)) cs"

lemma number_of_append: "number_of a (s @ t) = number_of (number_of a s) t"
  by (induction s arbitrary: a) auto

lemma digit_value: "d < 10 \<Longrightarrow> (of_char (digit_char d) :: nat) = 48 + d"
  by (simp add: digit_char_def)

lemma number_of_show: "number_of 0 (show_nat n) = n"
proof (induction n rule: show_nat.induct)
  case (1 n)
  show ?case
  proof (cases "n < 10")
    case True
    then show ?thesis by (simp add: show_nat.simps [of n] digit_value)
  next
    case False
    then have "number_of 0 (show_nat (n div 10)) = n div 10" using "1.IH" by simp
    moreover have "show_nat n = show_nat (n div 10) @ [digit_char (n mod 10)]" using False by (subst show_nat.simps) simp
    ultimately show ?thesis by (simp add: number_of_append digit_value)
  qed
qed

lemma task_number_inject [simp]: "task_number i = task_number j \<longleftrightarrow> i = j"
proof
  have "number_of 0 (drop 5 (task_number k)) = Suc k" for k
    by (simp add: task_number_def Let_def number_of_show)
  then show "task_number i = task_number j \<Longrightarrow> i = j" by (metis Suc_inject)
qed simp

lemma step_ids_mem: "step_ids ordered n = Some x \<Longrightarrow> \<exists>i < length ordered. ps_step (ordered ! i) = n \<and> x = task_number i"
  unfolding step_ids_def by (drule map_of_SomeD) (auto simp: in_set_zip)

lemma step_ids_inject: "step_ids ordered m = Some x \<Longrightarrow> step_ids ordered n = Some x \<Longrightarrow> m = n"
  by (auto dest!: step_ids_mem)

lemma step_ids_dom: "step_ids ordered n \<noteq> None \<longleftrightarrow> n \<in> ps_step ` set ordered"
proof -
  have "map fst (zip (map ps_step ordered) (map task_number [0..<length ordered])) = map ps_step ordered" by simp
  then have "fst ` set (zip (map ps_step ordered) (map task_number [0..<length ordered])) = ps_step ` set ordered"
    by (metis list.set_map)
  then show ?thesis by (simp add: step_ids_def map_of_eq_None_iff)
qed

lemma step_ids_nth:
  assumes "distinct (map ps_step ordered)" "i < length ordered"
  shows "step_ids ordered (ps_step (ordered ! i)) = Some (task_number i)"
proof -
  obtain x where x: "step_ids ordered (ps_step (ordered ! i)) = Some x"
    using step_ids_dom [of ordered "ps_step (ordered ! i)"] assms(2) by auto
  then obtain j where "j < length ordered" "ps_step (ordered ! j) = ps_step (ordered ! i)" "x = task_number j"
    using step_ids_mem by blast
  moreover from this have "j = i" using assms nth_eq_iff_index_eq [of "map ps_step ordered" j i] by simp
  ultimately show ?thesis using x by simp
qed

lemma first_occurrences_simps [simp]: "set (first_occurrences xs) = set xs" "distinct (first_occurrences xs)"
  by (simp_all add: first_occurrences_def)

lemma set_step_dependencies:
  "set (step_dependencies (step_ids ordered) s) =
     {x. \<exists>n \<in> set (ps_depends_on s). step_ids ordered n = Some x \<and> step_ids ordered (ps_step s) \<noteq> Some x}"
  by (force simp: step_dependencies_def)

lemma distinct_step_dependencies: "distinct (step_dependencies (step_ids ordered) s)"
proof -
  have "inj_on (\<lambda>n. the (step_ids ordered n)) {n. step_ids ordered n \<noteq> None}"
    by (rule inj_onI) (auto dest: step_ids_inject)
  then show ?thesis
    unfolding step_dependencies_def by (auto simp: distinct_map intro: inj_on_subset)
qed

section \<open>Scopes\<close>

definition plain_paths :: "planned_step \<Rightarrow> bool" where
  "plain_paths s \<longleftrightarrow> (\<forall>f \<in> set (ps_files s). CHR 0x5C \<notin> set f)"

lemma set_strip_dot_slash: "set (strip_dot_slash s) \<subseteq> set s"
  by (induction s rule: strip_dot_slash.induct) auto

lemma clean_paths_plain: "f \<in> set (clean_paths fs) \<Longrightarrow> CHR 0x5C \<notin> set f"
  using set_strip_dot_slash by (fastforce simp: clean_paths_def fwd_slashes_def)

lemma validate_step_Some:
  "validate_step s = Some s' \<Longrightarrow> planned_step_ok s \<and> s' = s\<lparr>ps_files := clean_paths (ps_files s)\<rparr> \<and> plain_paths s'"
  by (auto simp: validate_step_def plain_paths_def dest: clean_paths_plain split: if_splits)

lemma fwd_slashes_plain: "CHR 0x5C \<notin> set p \<Longrightarrow> fwd_slashes p = p"
  by (induction p) (auto simp: fwd_slashes_def)

lemma scope_plain:
  assumes "CHR 0x5C \<notin> set p" "p \<noteq> []"
  shows "scope_pattern_error p = None \<longleftrightarrow>
     hd p \<noteq> CHR ''/'' \<and> (1 < length p \<longrightarrow> p ! 1 \<noteq> CHR '':'') \<and> ''..'' \<notin> set (split_on (CHR ''/'') p)"
proof -
  have "starts_with p [c] \<longleftrightarrow> hd p = c" for c
    using assms(2) by (cases p) (auto simp: starts_with_def)
  moreover have "hd p \<noteq> CHR 0x5C" using assms by (cases p) auto
  ultimately show ?thesis
    by (simp add: scope_pattern_error_def fwd_slashes_plain [OF assms(1)] del: split_on.simps)
qed

lemma scope_below:
  assumes "CHR 0x5C \<notin> set d" "d \<noteq> []" "scope_pattern_error (d @ CHR ''/'' # r) = None" "CHR 0x5C \<notin> set r"
  shows "scope_pattern_error (d @ ''/**'') = None"
proof -
  have star: "split_on (CHR ''/'') ''**'' = [''**'']" by (rule split_on_no_occurrence) simp
  have "hd d \<noteq> CHR ''/''" "''..'' \<notin> set (split_on (CHR ''/'') d)"
    "1 < length (d @ CHR ''/'' # r) \<longrightarrow> (d @ CHR ''/'' # r) ! 1 \<noteq> CHR '':''"
    using assms scope_plain [of "d @ CHR ''/'' # r"] by (simp_all add: split_on_append del: split_on.simps)
  moreover have "(d @ ''/**'') ! 1 = (d @ CHR ''/'' # r) ! 1"
    using assms(2) by (cases d; cases "tl d") auto
  ultimately show ?thesis
    using assms(1,2) scope_plain [of "d @ ''/**''"] split_on_append [of "CHR ''/''" d "''**''"] star
    by (simp del: split_on.simps)
qed

lemma scope_patterns_ok:
  assumes "CHR 0x5C \<notin> set path" "p \<in> set (scope_patterns path)"
  shows "scope_pattern_error p = None"
proof -
  have path: "scope_pattern_error path = None"
    using assms by (auto simp: scope_pattern_error_def scope_patterns_def fwd_slashes_plain split: if_splits)
  show ?thesis
  proof (cases "p = path")
    case False
    then have p: "CHR ''/'' \<in> set path" "parent_path path \<noteq> []" "p = parent_path path @ ''/**''"
      using assms(2) by (auto simp: scope_patterns_def Let_def split: if_splits)
    obtain r where r: "path = parent_path path @ CHR ''/'' # r" by (rule parent_path_split [OF p(1)])
    define d where "d = parent_path path"
    have "path = d @ CHR ''/'' # r" "d \<noteq> []" using r p(2) by (simp_all add: d_def)
    with assms(1) path have "scope_pattern_error (d @ ''/**'') = None" by (intro scope_below) auto
    with p(3) show ?thesis by (simp add: d_def)
  qed (use path in simp)
qed

lemma scope_patterns_mem: "p \<in> set (scope_patterns f) \<Longrightarrow> p = f \<or> p = parent_path f @ ''/**''"
  by (auto simp: scope_patterns_def Let_def split: if_splits)

lemma step_task_validates:
  assumes "planned_step_ok s \<or> length (ps_title s) \<in> {1..200} \<and> length (ps_description s) \<in> {1..2000}"
    and "plain_paths s" "1 \<le> mx" "mx \<le> 10" "index \<le> 900"
    and "s \<in> set ordered"
  shows "validate_task (step_task (step_ids ordered) mx index s) = Inr (step_task (step_ids ordered) mx index s)"
    (is "validate_task ?t = _")
proof -
  have star: "scope_pattern_error ''**'' = None" by code_simp
  have "scope_pattern_error p = None" if "p \<in> set (scope_from_files (ps_files s))" for p
    using assms(2) that scope_patterns_ok by (auto simp: scope_from_files_def plain_paths_def)
  then have "validate_patterns (scope_from_files (ps_files s)) = Inr ()" by (simp only: validate_patterns_ok) blast
  with star have scope: "validate_scope (t_scope ?t) = Inr (t_scope ?t)"
    by (simp add: validate_scope_def step_task_def)
  have "length (ps_title s) \<in> {1..200}" "length (ps_description s) \<in> {1..2000}"
    using assms(1) by (auto simp: planned_step_ok_def Suc_le_eq)
  then have "task_field_error ?t = None"
    using assms(3-5)
    by (simp add: task_field_error_def step_task_def validate_requirement_def agent_name_ok_def is_lower_letter_def)
  moreover have "t_id ?t \<notin> set (t_deps ?t)"
    using step_ids_dom [of ordered "ps_step s"] assms(6) by (auto simp: step_task_def set_step_dependencies)
  moreover have "distinct (t_deps ?t)" by (simp add: step_task_def distinct_step_dependencies)
  ultimately show ?thesis using scope by (simp add: validate_task_def)
qed

section \<open>The tasks of a plan\<close>

definition steps_ok :: "planned_step list \<Rightarrow> bool" where
  "steps_ok ss \<longleftrightarrow> length ss \<le> 900 \<and>
     (\<forall>s \<in> set ss. length (ps_title s) \<in> {1..200} \<and> length (ps_description s) \<in> {1..2000} \<and> plain_paths s)"

lemma validate_steps_Some:
  "validate_steps ss = Some ss' \<Longrightarrow> list_all2 (\<lambda>s s'. validate_step s = Some s') ss ss'"
  by (induction ss arbitrary: ss') (auto split: option.splits)

lemma validate_steps_mem:
  "validate_steps ss = Some ss' \<Longrightarrow> s \<in> set ss' \<Longrightarrow> \<exists>t \<in> set ss. validate_step t = Some s"
  by (induction ss arbitrary: ss') (auto split: option.splits)

lemma validate_steps_numbers: "validate_steps ss = Some ss' \<Longrightarrow> map ps_step ss' = map ps_step ss"
  by (induction ss arbitrary: ss') (auto simp: validate_step_def split: option.splits if_splits)

lemma validate_plan_ok:
  assumes "validate_plan p = Some q"
  shows "steps_ok (po_steps q)" "po_steps q \<noteq> []" "length (po_steps q) = length (po_steps p)"
    "length (po_steps q) \<le> max_plan_steps" "map ps_step (po_steps q) = map ps_step (po_steps p)"
proof -
  obtain ss where p: "plan_size_ok p" and ss: "validate_steps (po_steps p) = Some ss" and q: "q = p\<lparr>po_steps := ss\<rparr>"
    using assms by (auto simp: validate_plan_def split: if_splits)
  note rel = validate_steps_Some [OF ss]
  show len: "length (po_steps q) = length (po_steps p)" using list_all2_lengthD [OF rel] q by simp
  then show le: "length (po_steps q) \<le> max_plan_steps" "po_steps q \<noteq> []" using p by (auto simp: plan_size_ok_def)
  have "\<exists>t \<in> set (po_steps p). validate_step t = Some s" if "s \<in> set (po_steps q)" for s
    using validate_steps_mem [OF ss] that q by simp
  then show "steps_ok (po_steps q)"
    using le(1) by (fastforce simp: steps_ok_def max_plan_steps_def planned_step_ok_def Suc_le_eq dest: validate_step_Some)
  show "map ps_step (po_steps q) = map ps_step (po_steps p)"
    using validate_steps_numbers [OF ss] q by simp
qed

definition plan_task_list :: "planned_step list \<Rightarrow> int \<Rightarrow> task list" where
  "plan_task_list ordered mx = map (\<lambda>(i, s). step_task (step_ids ordered) mx i s) (enumerate 0 ordered)"

lemma tasks_from_enumerate:
  "steps_ok ss \<Longrightarrow> set ss \<subseteq> set ordered \<Longrightarrow> 1 \<le> mx \<Longrightarrow> mx \<le> 10 \<Longrightarrow> i + length ss \<le> 900 \<Longrightarrow>
     tasks_from (step_ids ordered) mx i ss = Inr (map (\<lambda>(i, s). step_task (step_ids ordered) mx i s) (enumerate i ss))"
proof (induction ss arbitrary: i)
  case (Cons s ss)
  have "validate_task (step_task (step_ids ordered) mx i s) = Inr (step_task (step_ids ordered) mx i s)"
    by (rule step_task_validates) (use Cons.prems in \<open>auto simp: steps_ok_def\<close>)
  with Cons show ?case by (auto simp: steps_ok_def)
qed simp

lemma plan_to_tasks_ok:
  assumes "steps_ok (po_steps p)" "1 \<le> mx" "mx \<le> 10"
  shows "plan_to_tasks p mx = Inr (plan_task_list (ordered_steps p) mx)"
  unfolding plan_to_tasks_def plan_task_list_def
  by (rule tasks_from_enumerate) (use assms in \<open>simp_all add: steps_ok_def ordered_steps_def\<close>)

lemma ids_plan_task_list:
  "ids (plan_task_list ordered mx) = map (\<lambda>s. the (step_ids ordered (ps_step s))) ordered"
  by (rule nth_equalityI) (auto simp: ids_def plan_task_list_def step_task_def nth_enumerate_eq)

lemma plan_task_list_upt:
  "plan_task_list ordered mx = map (\<lambda>i. step_task (step_ids ordered) mx i (ordered ! i)) [0..<length ordered]"
  unfolding plan_task_list_def by (rule nth_equalityI) (simp_all add: nth_enumerate_eq)

lemma plan_task_list_mem:
  "t \<in> set (plan_task_list ordered mx) \<longleftrightarrow> (\<exists>i < length ordered. t = step_task (step_ids ordered) mx i (ordered ! i))"
  by (auto simp: plan_task_list_upt)

lemma plan_deps_known:
  assumes "t \<in> set (plan_task_list ordered mx)"
  shows "set (t_deps t) \<subseteq> set (ids (plan_task_list ordered mx))"
proof
  fix x assume "x \<in> set (t_deps t)"
  then obtain n where n: "step_ids ordered n = Some x"
    using assms by (auto simp: plan_task_list_mem step_task_def set_step_dependencies)
  then obtain s where "s \<in> set ordered" "ps_step s = n" using step_ids_dom [of ordered n] by auto
  with n show "x \<in> set (ids (plan_task_list ordered mx))" by (force simp: ids_plan_task_list)
qed

lemma step_ids_inj_on: "inj_on (\<lambda>n. the (step_ids ordered n)) (ps_step ` set ordered)"
proof (rule inj_onI)
  fix m n assume "m \<in> ps_step ` set ordered" "n \<in> ps_step ` set ordered" "the (step_ids ordered m) = the (step_ids ordered n)"
  then show "m = n" using step_ids_dom [of ordered m] step_ids_dom [of ordered n] by (auto dest: step_ids_inject)
qed

lemma plan_wf_iff: "wf_graph (plan_task_list ordered mx) \<longleftrightarrow> distinct (map ps_step ordered)"
proof -
  have "distinct (map (\<lambda>n. the (step_ids ordered n)) (map ps_step ordered)) \<longleftrightarrow> distinct (map ps_step ordered)"
    using step_ids_inj_on [of ordered] by (metis distinct_map list.set_map)
  then have "distinct (ids (plan_task_list ordered mx)) \<longleftrightarrow> distinct (map ps_step ordered)"
    by (simp add: ids_plan_task_list comp_def)
  then show ?thesis using plan_deps_known by (auto simp: wf_graph_def)
qed

section \<open>Which plans become graphs\<close>

lemma acyclic_inj_image:
  assumes "inj_on f (Field r)"
  shows "acyclic (map_prod f f ` r) \<longleftrightarrow> acyclic r"
proof
  have fwd: "(f a, f b) \<in> (map_prod f f ` r)\<^sup>+" if "(a, b) \<in> r\<^sup>+" for a b
    using that
  proof (induction rule: trancl_induct)
    case (base b)
    then show ?case by (auto intro: r_into_trancl)
  next
    case (step b c)
    then have "(f b, f c) \<in> map_prod f f ` r" by auto
    with step.IH show ?case by (rule trancl_into_trancl)
  qed
  then show "acyclic (map_prod f f ` r) \<Longrightarrow> acyclic r" by (auto simp: acyclic_def)
  have bwd: "\<exists>b \<in> Field r. y = f b \<and> (a, b) \<in> r\<^sup>+" if "(f a, y) \<in> (map_prod f f ` r)\<^sup>+" "a \<in> Field r" for a y
    using that
  proof (induction rule: trancl_induct)
    case (base y)
    then show ?case using assms by (auto simp: Field_def dest!: inj_onD)
  next
    case (step y z)
    then obtain b c d where b: "b \<in> Field r" "y = f b" "(a, b) \<in> r\<^sup>+" and c: "(c, d) \<in> r" "f c = f b" "z = f d" by auto
    then have "c = b" using assms by (auto simp: Field_def dest: inj_onD)
    with b c show ?case by (auto simp: Field_def intro: trancl_into_trancl)
  qed
  assume r: "acyclic r"
  show "acyclic (map_prod f f ` r)"
    unfolding acyclic_def
  proof (intro allI notI)
    fix x assume x: "(x, x) \<in> (map_prod f f ` r)\<^sup>+"
    then obtain z where "(x, z) \<in> map_prod f f ` r" by (meson tranclD)
    then obtain a where a: "a \<in> Field r" "x = f a" by (auto simp: Field_def)
    with bwd [of a x] x obtain b where "b \<in> Field r" "f a = f b" "(a, b) \<in> r\<^sup>+" by auto
    then have "(a, a) \<in> r\<^sup>+" using assms a(1) by (auto dest: inj_onD)
    with r show False by (auto simp: acyclic_def)
  qed
qed

text \<open>The dependencies between step numbers that the translation keeps.\<close>

definition step_rel :: "planned_step list \<Rightarrow> (int \<times> int) set" where
  "step_rel ss = {(d, ps_step s) | d s. s \<in> set ss \<and> d \<in> set (ps_depends_on s) \<and> d \<noteq> ps_step s \<and> d \<in> ps_step ` set ss}"

lemma task_dep_rel_plan:
  "task_dep_rel (plan_task_list ordered mx) =
     map_prod (\<lambda>n. the (step_ids ordered n)) (\<lambda>n. the (step_ids ordered n)) ` step_rel ordered" (is "?l = ?r")
proof
  have dep: "x \<in> set (t_deps (step_task (step_ids ordered) mx i s)) \<longleftrightarrow>
      (\<exists>n \<in> set (ps_depends_on s). n \<noteq> ps_step s \<and> n \<in> ps_step ` set ordered \<and> x = the (step_ids ordered n))"
    if s: "s \<in> set ordered" for x i s
  proof -
    obtain y where y: "step_ids ordered (ps_step s) = Some y" using step_ids_dom [of ordered "ps_step s"] s by auto
    have "step_ids ordered n = Some x \<and> step_ids ordered (ps_step s) \<noteq> Some x \<longleftrightarrow>
        n \<noteq> ps_step s \<and> n \<in> ps_step ` set ordered \<and> x = the (step_ids ordered n)" for n
    proof (cases "step_ids ordered n")
      case None
      then show ?thesis using step_ids_dom [of ordered n] by simp
    next
      case (Some z)
      then have "n \<in> ps_step ` set ordered" "y = z \<longleftrightarrow> ps_step s = n"
        using step_ids_dom [of ordered n] step_ids_inject [OF y, of n] y by auto
      with Some y show ?thesis by auto
    qed
    note eq = this
    have "x \<in> set (t_deps (step_task (step_ids ordered) mx i s)) \<longleftrightarrow>
        (\<exists>n \<in> set (ps_depends_on s). step_ids ordered n = Some x \<and> step_ids ordered (ps_step s) \<noteq> Some x)"
      by (simp add: step_task_def set_step_dependencies)
    then show ?thesis by (simp only: eq)
  qed
  have tid: "t_id (step_task (step_ids ordered) mx i s) = the (step_ids ordered (ps_step s))" for i s
    by (simp add: step_task_def)
  show "?l \<subseteq> ?r"
  proof
    fix p assume "p \<in> ?l"
    then obtain x i where i: "i < length ordered" "p = (x, t_id (step_task (step_ids ordered) mx i (ordered ! i)))"
      "x \<in> set (t_deps (step_task (step_ids ordered) mx i (ordered ! i)))"
      by (auto simp: task_dep_rel_def plan_task_list_mem)
    then obtain n where "n \<in> set (ps_depends_on (ordered ! i))" "n \<noteq> ps_step (ordered ! i)"
      "n \<in> ps_step ` set ordered" "x = the (step_ids ordered n)"
      using dep [of "ordered ! i" x i] by auto
    then have "(n, ps_step (ordered ! i)) \<in> step_rel ordered" using i(1) by (auto simp: step_rel_def)
    moreover have "p = map_prod (\<lambda>n. the (step_ids ordered n)) (\<lambda>n. the (step_ids ordered n)) (n, ps_step (ordered ! i))"
      using i(2) \<open>x = _\<close> tid by simp
    ultimately show "p \<in> ?r" by (rule rev_image_eqI)
  qed
  show "?r \<subseteq> ?l"
  proof
    fix p assume "p \<in> ?r"
    then obtain d s where ds: "s \<in> set ordered" "d \<in> set (ps_depends_on s)" "d \<noteq> ps_step s" "d \<in> ps_step ` set ordered"
      "p = (the (step_ids ordered d), the (step_ids ordered (ps_step s)))"
      by (auto simp: step_rel_def)
    obtain i where i: "i < length ordered" "s = ordered ! i" using ds(1) by (metis in_set_conv_nth)
    have "step_task (step_ids ordered) mx i s \<in> set (plan_task_list ordered mx)" using i by (auto simp: plan_task_list_mem)
    moreover have "the (step_ids ordered d) \<in> set (t_deps (step_task (step_ids ordered) mx i s))"
      using dep [OF ds(1), of "the (step_ids ordered d)" i] ds(2-4) by blast
    ultimately show "p \<in> ?l" unfolding task_dep_rel_def ds(5) tid [of i s, symmetric] by blast
  qed
qed

lemma acyclic_plan_iff: "acyclic (task_dep_rel (plan_task_list ordered mx)) \<longleftrightarrow> acyclic (step_rel ordered)"
proof -
  have "inj_on (\<lambda>n. the (step_ids ordered n)) (ps_step ` set ordered)"
    by (rule step_ids_inj_on)
  moreover have "Field (step_rel ordered) \<subseteq> ps_step ` set ordered"
    by (auto simp: step_rel_def Field_def)
  ultimately show ?thesis
    unfolding task_dep_rel_plan by (intro acyclic_inj_image) (rule inj_on_subset)
qed

lemma sort_steps: "distinct (map ps_step (sort_key ps_step ss)) \<longleftrightarrow> distinct (map ps_step ss)"
  "step_rel (sort_key ps_step ss) = step_rel ss"
  by (simp_all add: step_rel_def distinct_map sort_key_inj_key_eq)

section \<open>Properties\<close>

text \<open>C40. The trust boundary holds. Whatever validated plan the model proposes, its translation
  raises nothing: there is one task per step, in the order of the step numbers, new (PENDING,
  no attempt made), for the coding agent, verified by the tests, and its dependencies are tasks
  of the plan. The tasks form an executable graph exactly when the step numbers are distinct
  and the dependencies between different known steps have no cycle.
\<close>

theorem plan_to_tasks_sound:
  assumes "validate_plan proposed = Some p" "1 \<le> mx" "mx \<le> 10"
  shows "\<exists>ts. plan_to_tasks p mx = Inr ts \<and>
     map t_title ts = map ps_title (sort_key ps_step (po_steps p)) \<and>
     list_all (\<lambda>t. t_status t = TS_PENDING \<and> t_attempts t = 0 \<and> t_max_attempts t = mx \<and> t_agent t = ''coder'' \<and>
       map vr_kind (t_verification t) = [''tests''] \<and> set (t_deps t) \<subseteq> set (map t_id ts)) ts \<and>
     (is_ok (task_graph ts) \<longleftrightarrow> distinct (map ps_step (po_steps p)) \<and> acyclic (step_rel (po_steps p)))"
proof -
  let ?ts = "plan_task_list (ordered_steps p) mx"
  have eq: "plan_to_tasks p mx = Inr ?ts" by (rule plan_to_tasks_ok [OF validate_plan_ok(1) [OF assms(1)] assms(2,3)])
  have "is_ok (task_graph ?ts) \<longleftrightarrow> wf_graph ?ts \<and> acyclic (task_dep_rel ?ts)"
    by (simp add: is_ok_iff task_graph_Inr)
  then have ok: "is_ok (task_graph ?ts) \<longleftrightarrow> distinct (map ps_step (po_steps p)) \<and> acyclic (step_rel (po_steps p))"
    by (simp add: plan_wf_iff acyclic_plan_iff ordered_steps_def sort_steps)
  have titles: "map t_title ?ts = map ps_title (sort_key ps_step (po_steps p))"
    by (rule nth_equalityI) (simp_all add: plan_task_list_upt step_task_def ordered_steps_def)
  have "list_all (\<lambda>t. t_status t = TS_PENDING \<and> t_attempts t = 0 \<and> t_max_attempts t = mx \<and> t_agent t = ''coder'' \<and>
       map vr_kind (t_verification t) = [''tests''] \<and> set (t_deps t) \<subseteq> set (map t_id ?ts)) ?ts"
    using plan_deps_known [of _ "ordered_steps p" mx, unfolded ids_def]
    by (auto simp: list_all_iff plan_task_list_mem step_task_def)
  with eq ok titles show ?thesis by blast
qed

definition sample_step :: "int \<Rightarrow> string \<Rightarrow> string list \<Rightarrow> int list \<Rightarrow> planned_step" where
  "sample_step n title files deps = \<lparr>ps_step = n, ps_title = title, ps_description = title, ps_files = files,
     ps_depends_on = deps, ps_acceptance = []\<rparr>"

definition sample_plan :: planner_output where
  "sample_plan = \<lparr>po_goal = ''a calculator'',
     po_steps = [sample_step 2 ''tests'' [''./tests/test_a.py''] [1, 1, 9, 2], sample_step 1 ''module'' [''src/a.py''] []]\<rparr>"

theorem plan_to_tasks_sound_witness:
  "\<exists>p ts. validate_plan sample_plan = Some p \<and> plan_to_tasks p 3 = Inr ts \<and>
     map t_title ts = map ps_title (sort_key ps_step (po_steps p)) \<and> is_ok (task_graph ts)"
proof -
  obtain p where p: "validate_plan sample_plan = Some p" "distinct (map ps_step (po_steps p))"
    "map (\<lambda>s. (ps_step s, ps_depends_on s)) (po_steps p) = [(2, [1, 1, 9, 2]), (1, [])]"
  proof -
    have "case validate_plan sample_plan of None \<Rightarrow> False
      | Some p \<Rightarrow> distinct (map ps_step (po_steps p)) \<and>
          map (\<lambda>s. (ps_step s, ps_depends_on s)) (po_steps p) = [(2, [1, 1, 9, 2]), (1, [])]" by code_simp
    then show ?thesis using that by (auto split: option.splits)
  qed
  have "\<exists>s s'. po_steps p = [s, s'] \<and> ps_step s = 2 \<and> ps_step s' = 1 \<and> ps_depends_on s = [1, 1, 9, 2] \<and> ps_depends_on s' = []"
    using p(3) by auto
  then have "step_rel (po_steps p) \<subseteq> {(1, 2)}" by (auto simp: step_rel_def)
  moreover have "acyclic {(1 :: int, 2 :: int)}" by (auto intro!: acyclicI simp: trancl_insert)
  ultimately have "acyclic (step_rel (po_steps p))" by (rule acyclic_subset [rotated])
  with plan_to_tasks_sound [OF p(1), of 3] p(1,2) show ?thesis by auto
qed

text \<open>
  A step writes only where it said it would, unless none of its files can be used. Every
  write pattern of a step is a file it named or the directory of one, repository-relative and
  without ''..''. When every file it named is refused, because it is absolute or climbs out of
  the repository, the step gets the whole repository instead.
\<close>

theorem step_write_scope:
  assumes "validate_step proposed = Some s"
  shows "(scope_from_files (ps_files s) = [] \<longleftrightarrow> list_all (\<lambda>f. scope_pattern_error f \<noteq> None) (ps_files s)) \<and>
     sc_write_paths (t_scope (step_task idents mx i s)) =
       (if scope_from_files (ps_files s) = [] then [''**''] else scope_from_files (ps_files s)) \<and>
     list_all (\<lambda>p. scope_pattern_error p = None \<and>
       list_ex (\<lambda>f. p = f \<or> p = parent_path f @ ''/**'') (ps_files s)) (scope_from_files (ps_files s))"
proof -
  have plain: "CHR 0x5C \<notin> set f" if "f \<in> set (ps_files s)" for f
    using validate_step_Some [OF assms] that by (auto simp: plain_paths_def)
  have "scope_patterns f = [] \<longleftrightarrow> scope_pattern_error f \<noteq> None" if "f \<in> set (ps_files s)" for f
    using fwd_slashes_plain [OF plain [OF that]] by (auto simp: scope_patterns_def scope_pattern_error_def)
  then have "scope_from_files (ps_files s) = [] \<longleftrightarrow> list_all (\<lambda>f. scope_pattern_error f \<noteq> None) (ps_files s)"
    by (auto simp: scope_from_files_def list_all_iff)
  moreover have "list_all (\<lambda>p. scope_pattern_error p = None \<and>
       list_ex (\<lambda>f. p = f \<or> p = parent_path f @ ''/**'') (ps_files s)) (scope_from_files (ps_files s))"
    using plain scope_patterns_ok scope_patterns_mem
    by (fastforce simp: scope_from_files_def list_all_iff list_ex_iff)
  ultimately show ?thesis by (simp add: step_task_def)
qed

theorem step_write_scope_witness:
  "\<exists>s. validate_step (sample_step 1 ''edit'' [''../../etc/passwd''] []) = Some s \<and>
     sc_write_paths (t_scope (step_task idents mx i s)) = [''**'']"
proof -
  let ?s = "sample_step 1 ''edit'' [''../../etc/passwd''] []"
  have v: "validate_step ?s = Some ?s" by code_simp
  have "list_all (\<lambda>f. scope_pattern_error f \<noteq> None) (ps_files ?s)" by code_simp
  with step_write_scope [OF v, of idents mx i] v show ?thesis by simp
qed

end
