(* ===== verification/Fan_Out.thy ===== *)
theory Fan_Out
  imports Planner
begin

text \<open>
  Planner fan-out (\<open>agents/fanout.py\<close>): a request becomes one task per function. The one
  model call, which lists functions, and the requirement-boundary analyser, which words the
  assertions to ask for, are arguments. Texts are ASCII. \<open>None\<close> stands for the exceptions that
  make the orchestrator keep the ordinary plan.
\<close>

section \<open>What the model lists\<close>

record function_spec =
  fs_name :: string
  fs_signature :: string
  fs_behaviour :: string

definition max_functions :: nat where
  "max_functions = max_plan_steps - 1"

definition is_identifier :: "string \<Rightarrow> bool" where
  "is_identifier s = (case s of [] \<Rightarrow> False | c # cs \<Rightarrow> word_start c \<and> list_all word_char cs)"

definition validate_spec :: "function_spec \<Rightarrow> function_spec option" where
  "validate_spec f =
     (let name = py_strip (fs_name f); sig = py_strip (fs_signature f) in
      if fs_name f \<noteq> [] \<and> length (fs_name f) \<le> 60 \<and> fs_signature f \<noteq> [] \<and> length (fs_signature f) \<le> 200 \<and>
         fs_behaviour f \<noteq> [] \<and> length (fs_behaviour f) \<le> 300 \<and>
         is_identifier name \<and> CHR ''('' \<in> set sig \<and> CHR '')'' \<in> set sig
      then Some (f\<lparr>fs_name := name, fs_signature := sig\<rparr>) else None)"

fun validate_specs :: "function_spec list \<Rightarrow> function_spec list option" where
  "validate_specs [] = Some []"
| "validate_specs (f # fs) =
     (case validate_spec f of None \<Rightarrow> None | Some f' \<Rightarrow> map_option (\<lambda>fs'. f' # fs') (validate_specs fs))"

definition validate_functions :: "function_spec list \<Rightarrow> function_spec list option" where
  "validate_functions fs = (if length fs \<le> max_functions then validate_specs fs else None)"

section \<open>Functions named in prose\<close>

definition name_char :: "char \<Rightarrow> bool" where
  "name_char c \<longleftrightarrow> is_lower_letter c \<or> is_digit c \<or> c = CHR ''_''"

text \<open>A name, white space and an argument list at the start of a text, and what follows.\<close>

definition signature_at :: "string \<Rightarrow> (string \<times> string \<times> string) option" where
  "signature_at s =
     (case s of [] \<Rightarrow> None
      | c # cs \<Rightarrow>
          if is_lower_letter c \<or> c = CHR ''_''
          then (case dropWhile is_space (dropWhile name_char cs) of
                  [] \<Rightarrow> None
                | p # r \<Rightarrow>
                    if p = CHR ''('' \<and> CHR '')'' \<in> set r
                    then Some (c # takeWhile name_char cs, takeWhile (\<lambda>d. d \<noteq> CHR '')'') r,
                               tl (dropWhile (\<lambda>d. d \<noteq> CHR '')'') r))
                    else None)
          else None)"

lemma signature_at_shorter: "signature_at s = Some (n, a, r) \<Longrightarrow> length r < length s"
proof -
  assume "signature_at s = Some (n, a, r)"
  then obtain c cs p q where s: "s = c # cs" "dropWhile is_space (dropWhile name_char cs) = p # q"
    "r = tl (dropWhile (\<lambda>d. d \<noteq> CHR '')'') q)"
    by (auto simp: signature_at_def split: list.splits if_splits)
  have "length (p # q) \<le> length cs"
    unfolding s(2) [symmetric] by (meson length_dropWhile_le le_trans)
  moreover have "length r \<le> length q"
    unfolding s(3) using length_dropWhile_le [of "\<lambda>d. d \<noteq> CHR '')''" q] by simp
  ultimately show ?thesis by (simp add: s(1))
qed

text \<open>\<open>finditer\<close>: a match starts at a word boundary.\<close>

function find_signatures :: "bool \<Rightarrow> string \<Rightarrow> (string \<times> string) list" where
  "find_signatures inside [] = []"
| "find_signatures inside (c # cs) =
     (case (if inside then None else signature_at (c # cs)) of
        Some (n, a, r) \<Rightarrow> (n, py_strip a) # find_signatures False r
      | None \<Rightarrow> find_signatures (word_char c) cs)"
  by pat_completeness auto
termination
  by (relation "measure (\<lambda>(inside, s). length s)") (auto split: if_splits dest!: signature_at_shorter)

definition not_functions :: "string list" where
  "not_functions =
     [''def'', ''return'', ''assert'', ''raises'', ''print'', ''int'', ''str'', ''float'', ''bool'',
      ''list'', ''dict'', ''tuple'', ''set'', ''len'', ''range'', ''type'', ''e'', ''g'', ''eg'', ''ie'',
      ''src'', ''tests'', ''import'', ''from'', ''pytest'', ''self'', ''if'', ''for'', ''in'', ''is'']"

fun collect_signatures :: "(string \<times> string) list \<Rightarrow> (string \<times> string) list \<Rightarrow> (string \<times> string) list" where
  "collect_signatures found [] = found"
| "collect_signatures found ((n, a) # ms) =
     (if n \<in> set not_functions \<or> starts_with n ''test_'' then collect_signatures found ms
      else if map_of found n = None \<or> (map_of found n = Some [] \<and> a \<noteq> [])
      then collect_signatures (alist_put n a found) ms
      else collect_signatures found ms)"

definition signatures_in :: "string \<Rightarrow> (string \<times> string) list" where
  "signatures_in text0 = collect_signatures [] (find_signatures False text0)"

definition needs_fanout :: "(string \<Rightarrow> bool) \<Rightarrow> planner_output \<Rightarrow> string \<Rightarrow> bool" where
  "needs_fanout exists p request =
     (if list_ex (\<lambda>s. list_ex exists (ps_files s)) (po_steps p) then False
      else if 2 \<le> length (signatures_in request) then True
      else list_ex (\<lambda>s. 1 < length (signatures_in (ps_description s))) (po_steps p))"

section \<open>From functions to steps\<close>

definition nl :: string where
  "nl = [CHR 0x0A]"

definition task_template :: "string \<Rightarrow> string \<Rightarrow> string \<Rightarrow> string \<Rightarrow> string" where
  "task_template name sig behaviour cases =
     ''Create src/backend/'' @ name @ ''.py containing one function '' @ sig @ '' that '' @ behaviour @ ''.'' @ nl @ nl @
     ''Also create tests/test_'' @ name @ ''.py with exactly this structure:'' @ nl @ nl @
     ''from src.backend.'' @ name @ '' import '' @ name @ nl @ nl @
     ''def test_'' @ name @ ''():'' @ nl @
     ''    <two or more assert statements that CALL '' @ name @ ''>'' @ nl @ nl @
     ''The test file must contain a test function, not only the import line.'' @ nl @
     ''The assertions must cover: '' @ cases"

definition default_cases :: string where
  "default_cases = ''at least two concrete input/output cases for the described behaviour''"

text \<open>The boundary analyser gives the wording of the explicit cases it found in a text.\<close>

type_synonym boundary_analyser = "string \<Rightarrow> string \<Rightarrow> string list"

definition cases_for :: "boundary_analyser \<Rightarrow> function_spec \<Rightarrow> string \<Rightarrow> string" where
  "cases_for analyse f request =
     (let fragments = analyse (fs_behaviour f @ '' '' @ request) (fs_name f) in
      if join ''; '' fragments = [] then default_cases else join ''; '' fragments)"

definition module_file :: "string \<Rightarrow> string" where
  "module_file name = ''src/backend/'' @ name @ ''.py''"

definition test_file :: "string \<Rightarrow> string" where
  "test_file name = ''tests/test_'' @ name @ ''.py''"

definition implement_step :: "int \<Rightarrow> string \<Rightarrow> string \<Rightarrow> planned_step" where
  "implement_step n name description =
     \<lparr>ps_step = n, ps_title = ''Implement '' @ name, ps_description = description,
      ps_files = [module_file name, test_file name], ps_depends_on = [],
      ps_acceptance = name @ '' behaves as described and its test passes''\<rparr>"

definition spec_step :: "boundary_analyser \<Rightarrow> string \<Rightarrow> int \<Rightarrow> function_spec \<Rightarrow> planned_step option" where
  "spec_step analyse request n f =
     validate_step (implement_step n (fs_name f)
       (task_template (fs_name f) (fs_signature f) (rstrip_chars ''.'' (fs_behaviour f)) (cases_for analyse f request)))"

fun spec_steps :: "boundary_analyser \<Rightarrow> string \<Rightarrow> int \<Rightarrow> function_spec list \<Rightarrow> planned_step list option" where
  "spec_steps analyse request n [] = Some []"
| "spec_steps analyse request n (f # fs) =
     (case spec_step analyse request n f of None \<Rightarrow> None
      | Some s \<Rightarrow> map_option (\<lambda>ss. s # ss) (spec_steps analyse request (n + 1) fs))"

definition assembly_step :: "string \<Rightarrow> string list \<Rightarrow> planned_step list \<Rightarrow> planned_step option" where
  "assembly_step m names steps =
     validate_step \<lparr>ps_step = int (length steps) + 1, ps_title = ''Assemble '' @ m,
       ps_description =
         ''Create src/backend/'' @ m @ ''.py containing ONLY these import '' @
         ''lines and an __all__ list. Write no other code and no logic.'' @ nl @
         join nl (map (\<lambda>n. ''from src.backend.'' @ n @ '' import '' @ n) names) @ nl @
         ''__all__ = ['' @ join '', '' (map (\<lambda>n. CHR 0x22 # n @ [CHR 0x22]) names) @ '']'' @ nl @ nl @
         ''Also create tests/test_'' @ m @ ''.py containing exactly:'' @ nl @ nl @
         ''from src.backend.'' @ m @ '' import '' @ join '', '' names @ nl @ nl @
         ''def test_'' @ m @ ''_exports():'' @ nl @
         join nl (map (\<lambda>n. ''    assert callable('' @ n @ '')'') names),
       ps_files = [module_file m, test_file m], ps_depends_on = map ps_step steps,
       ps_acceptance = m @ '' re-exports every function''\<rparr>"

definition specs_to_steps ::
    "boundary_analyser \<Rightarrow> function_spec list \<Rightarrow> string \<Rightarrow> string option \<Rightarrow> planned_step list option" where
  "specs_to_steps analyse fs request assembly =
     (case spec_steps analyse request 1 fs of None \<Rightarrow> None
      | Some steps \<Rightarrow>
          (case assembly of
             None \<Rightarrow> Some steps
           | Some m \<Rightarrow>
               if m = [] \<or> steps = [] then Some steps
               else map_option (\<lambda>s. steps @ [s]) (assembly_step m (map fs_name fs) steps)))"

section \<open>One function per step\<close>

definition is_assembly :: "planned_step \<Rightarrow> bool" where
  "is_assembly s = starts_with (ps_title s) ''Assemble ''"

fun split_steps :: "int \<Rightarrow> string \<Rightarrow> (string \<times> string) list \<Rightarrow> planned_step list option" where
  "split_steps counter title [] = Some []"
| "split_steps counter title ((n, a) # named) =
     (case validate_step (implement_step (counter + 1) n
        (task_template n (n @ ''('' @ a @ '')'') (''is described by: '' @ title) default_cases)) of
        None \<Rightarrow> None
      | Some s \<Rightarrow> map_option (\<lambda>ss. s # ss) (split_steps (counter + 1) title named))"

fun renumber :: "int \<Rightarrow> planned_step list \<Rightarrow> planned_step list option" where
  "renumber counter [] = Some []"
| "renumber counter (s # ss) =
     (if is_assembly s \<or> length (signatures_in (ps_description s)) \<le> 1
      then map_option (\<lambda>rest. s\<lparr>ps_step := counter + 1\<rparr> # rest) (renumber (counter + 1) ss)
      else (case split_steps counter (ps_title s) (sort_key fst (signatures_in (ps_description s))) of
              None \<Rightarrow> None
            | Some parts \<Rightarrow> map_option (\<lambda>rest. parts @ rest) (renumber (counter + int (length parts)) ss)))"

definition repoint :: "planned_step list \<Rightarrow> planned_step list" where
  "repoint result =
     map (\<lambda>s. if is_assembly s then s\<lparr>ps_depends_on := map ps_step (filter (\<lambda>o1. \<not> is_assembly o1) result)\<rparr> else s) result"

definition enforce_single_function :: "planned_step list \<Rightarrow> planned_step list option" where
  "enforce_single_function steps = map_option repoint (renumber 0 steps)"

section \<open>The fan-out\<close>

definition covers :: "string \<Rightarrow> function_spec list \<Rightarrow> bool" where
  "covers request fs \<longleftrightarrow> list_all (\<lambda>n. n \<in> set (map fs_name fs)) (map fst (signatures_in request))"

text \<open>\<open>findall\<close> of a letter followed by at least two word characters.\<close>

function find_nouns :: "string \<Rightarrow> string list" where
  "find_nouns [] = []"
| "find_nouns (c # cs) =
     (if word_start c \<and> c \<noteq> CHR ''_'' \<and> 2 \<le> length (takeWhile word_char cs)
      then (c # takeWhile word_char cs) # find_nouns (dropWhile word_char cs)
      else find_nouns cs)"
  by pat_completeness auto
termination
  by (relation "measure length") (auto simp: le_imp_less_Suc length_dropWhile_le)

definition not_modules :: "string list" where
  "not_modules =
     [''create'', ''build'', ''make'', ''write'', ''implement'', ''function'', ''functions'',
      ''add'', ''also'', ''which'', ''that'', ''the'', ''and'', ''with'', ''returns'', ''raises'',
      ''containing'', ''whose'', ''first'', ''line'', ''asserts'', ''python'', ''file'']"

definition assembly_name :: "string \<Rightarrow> string" where
  "assembly_name request =
     (case find (\<lambda>w. is_identifier w \<and> w \<notin> set not_functions \<and> w \<notin> set not_modules) (find_nouns (py_lower request)) of
        Some w \<Rightarrow> w | None \<Rightarrow> ''package'')"

definition fan_out :: "boundary_analyser \<Rightarrow> function_spec list option \<Rightarrow> string \<Rightarrow> string \<Rightarrow> planner_output option" where
  "fan_out analyse answer request goal =
     (case answer of None \<Rightarrow> None
      | Some proposed \<Rightarrow>
      (case validate_functions proposed of None \<Rightarrow> None
       | Some fs \<Rightarrow>
       if request = [] \<or> 4000 < length request \<or> fs = [] \<or> \<not> covers request fs then None
       else (let m = (if 1 < length fs then Some (assembly_name request) else None);
                 m' = (if m \<in> Some ` set (map fs_name fs) then None else m) in
             case specs_to_steps analyse fs request m' of None \<Rightarrow> None
             | Some raw \<Rightarrow>
             (case enforce_single_function raw of None \<Rightarrow> None
              | Some steps \<Rightarrow>
                  (let p = \<lparr>po_goal = (if goal = [] then take 200 request else goal), po_steps = steps\<rparr> in
                   if plan_size_ok p then Some p else None)))))"

section \<open>Fanned-out plans\<close>

text \<open>What a step needs to become a task.\<close>

definition step_fits :: "planned_step \<Rightarrow> bool" where
  "step_fits s \<longleftrightarrow> length (ps_title s) \<in> {1..200} \<and> length (ps_description s) \<in> {1..2000} \<and> plain_paths s"

lemma validate_step_fits: "validate_step s = Some s' \<Longrightarrow> step_fits s'"
  by (auto simp: step_fits_def planned_step_ok_def Suc_le_eq dest: validate_step_Some)

lemma validate_step_keeps:
  "validate_step s = Some s' \<Longrightarrow> ps_step s' = ps_step s \<and> ps_title s' = ps_title s \<and>
     ps_description s' = ps_description s \<and> ps_depends_on s' = ps_depends_on s"
  by (auto dest!: validate_step_Some)

lemma assembly_updates [simp]:
  "is_assembly (s\<lparr>ps_step := n\<rparr>) = is_assembly s" "is_assembly (s\<lparr>ps_depends_on := ds\<rparr>) = is_assembly s"
  "is_assembly (s\<lparr>ps_files := fs\<rparr>) = is_assembly s"
  by (simp_all add: is_assembly_def)

lemma implement_not_assembly [simp]: "\<not> is_assembly (implement_step n name d)"
  by (simp add: is_assembly_def implement_step_def starts_with_def)

lemma step_fits_updates [simp]:
  "step_fits (s\<lparr>ps_step := n\<rparr>) = step_fits s" "step_fits (s\<lparr>ps_depends_on := ds\<rparr>) = step_fits s"
  by (simp_all add: step_fits_def plain_paths_def)

definition independent :: "planned_step \<Rightarrow> bool" where
  "independent s \<longleftrightarrow> \<not> is_assembly s \<longrightarrow> ps_depends_on s = []"

lemma independent_updates [simp]: "independent (s\<lparr>ps_step := n\<rparr>) = independent s"
  by (simp add: independent_def)

text \<open>Steps numbered one by one, that fit, with dependencies in assembly steps only.\<close>

definition numbered :: "int \<Rightarrow> planned_step list \<Rightarrow> bool" where
  "numbered c ss \<longleftrightarrow> map ps_step ss = map (\<lambda>i. c + 1 + int i) [0..<length ss]"

lemma numbered_Nil [simp]: "numbered c []"
  by (simp add: numbered_def)

lemma numbered_Cons: "numbered c (s # ss) \<longleftrightarrow> ps_step s = c + 1 \<and> numbered (c + 1) ss"
  by (simp add: numbered_def map_upt_Suc add.assoc del: upt_Suc)

lemma numbered_append: "numbered c (ss @ ts) \<longleftrightarrow> numbered c ss \<and> numbered (c + int (length ss)) ts"
  by (induction ss arbitrary: c) (auto simp: numbered_Cons algebra_simps)

lemma split_steps_spec:
  "split_steps c title named = Some ss \<Longrightarrow>
     numbered c ss \<and> list_all (\<lambda>s. step_fits s \<and> \<not> is_assembly s \<and> ps_depends_on s = []) ss \<and>
     map ps_title ss = map (\<lambda>(n, a). ''Implement '' @ n) named"
proof (induction c title named arbitrary: ss rule: split_steps.induct)
  case (2 c title n a named)
  then obtain s rest where
    s: "validate_step (implement_step (c + 1) n
        (task_template n (n @ ''('' @ a @ '')'') (''is described by: '' @ title) default_cases)) = Some s"
    and rest: "split_steps (c + 1) title named = Some rest" and ss: "ss = s # rest"
    by (auto split: option.splits)
  have "ps_step s = c + 1 \<and> ps_title s = ''Implement '' @ n \<and> ps_depends_on s = [] \<and> \<not> is_assembly s \<and> step_fits s"
    using validate_step_keeps [OF s] validate_step_fits [OF s]
    by (simp add: implement_step_def is_assembly_def starts_with_def)
  with "2.IH" [OF s rest] ss show ?case by (simp add: numbered_Cons)
qed simp

lemma renumber_spec:
  "renumber c ss = Some result \<Longrightarrow> list_all (\<lambda>s. step_fits s \<and> independent s) ss \<Longrightarrow>
     numbered c result \<and> list_all (\<lambda>s. step_fits s \<and> independent s) result"
proof (induction c ss arbitrary: result rule: renumber.induct)
  case (2 c s ss)
  show ?case
  proof (cases "is_assembly s \<or> length (signatures_in (ps_description s)) \<le> 1")
    case True
    then obtain rest where "renumber (c + 1) ss = Some rest" "result = s\<lparr>ps_step := c + 1\<rparr> # rest"
      using "2.prems"(1) by auto
    with "2.IH"(1) [OF True] "2.prems"(2) show ?thesis by (simp add: numbered_Cons)
  next
    case False
    then obtain parts rest where
      parts: "split_steps c (ps_title s) (sort_key fst (signatures_in (ps_description s))) = Some parts"
      and rest: "renumber (c + int (length parts)) ss = Some rest" "result = parts @ rest"
      using "2.prems"(1) by (auto split: option.splits)
    have "numbered (c + int (length parts)) rest \<and> list_all (\<lambda>s. step_fits s \<and> independent s) rest"
      using "2.IH"(2) [OF False parts rest(1)] "2.prems"(2) by simp
    moreover have "numbered c parts" "list_all (\<lambda>s. step_fits s \<and> independent s) parts"
      using split_steps_spec [OF parts] by (auto simp: list_all_iff independent_def)
    ultimately show ?thesis by (simp add: rest(2) numbered_append)
  qed
qed simp

lemma spec_steps_spec:
  "spec_steps analyse request n fs = Some ss \<Longrightarrow> list_all (\<lambda>s. step_fits s \<and> independent s) ss"
proof (induction analyse request n fs arbitrary: ss rule: spec_steps.induct)
  case (2 analyse request n f fs)
  then obtain s rest where s: "spec_step analyse request n f = Some s"
    and rest: "spec_steps analyse request (n + 1) fs = Some rest" and ss: "ss = s # rest"
    by (auto split: option.splits)
  have "step_fits s" "independent s"
    using validate_step_fits [OF s [unfolded spec_step_def]] validate_step_keeps [OF s [unfolded spec_step_def]]
    by (simp_all add: independent_def implement_step_def)
  with "2.IH" [OF s rest] ss show ?case by simp
qed simp

lemma specs_to_steps_spec:
  assumes "specs_to_steps analyse fs request assembly = Some ss"
  shows "list_all (\<lambda>s. step_fits s \<and> independent s) ss"
proof -
  obtain steps where steps: "spec_steps analyse request 1 fs = Some steps"
    using assms by (auto simp: specs_to_steps_def split: option.splits)
  note ok = spec_steps_spec [OF steps]
  show ?thesis
  proof (cases "ss = steps")
    case False
    then obtain m s where "assembly_step m (map fs_name fs) steps = Some s" "ss = steps @ [s]"
      using assms steps by (auto simp: specs_to_steps_def split: option.splits if_splits)
    moreover from this have "step_fits s" "independent s"
      using validate_step_fits [of _ s] validate_step_keeps [of _ s]
      by (auto simp: assembly_step_def independent_def is_assembly_def starts_with_def)
    ultimately show ?thesis using ok by simp
  qed (use ok in simp)
qed

lemma fan_out_cases:
  assumes "fan_out analyse answer request goal = Some p"
  obtains proposed fs assembly raw result where "answer = Some proposed" "validate_functions proposed = Some fs"
    "fs \<noteq> []" "covers request fs" "specs_to_steps analyse fs request assembly = Some raw"
    "renumber 0 raw = Some result" "po_steps p = repoint result" "plan_size_ok p"
  using assms
  by (auto simp: fan_out_def Let_def enforce_single_function_def split: option.splits if_splits) 

lemma numbered_distinct: "numbered c ss \<Longrightarrow> distinct (map ps_step ss)"
  by (simp add: numbered_def distinct_map inj_on_def)

lemma repoint_simps [simp]:
  "map ps_step (repoint ss) = map ps_step ss" "map ps_title (repoint ss) = map ps_title ss"
  "length (repoint ss) = length ss"
  by (auto simp: repoint_def)

lemma acyclic_bipartite:
  assumes "r \<subseteq> N \<times> A" "N \<inter> A = {}"
  shows "acyclic r"
  unfolding acyclic_def
proof (intro allI notI)
  fix x assume x: "(x, x) \<in> r\<^sup>+"
  from DomainI [OF x] RangeI [OF x] have "x \<in> Domain r" "x \<in> Range r"
    unfolding trancl_domain trancl_range .
  with assms show False by blast
qed

lemma repoint_acyclic:
  assumes "numbered c ss" "list_all independent ss"
  shows "acyclic (step_rel (repoint ss))"
proof -
  let ?N = "ps_step ` {s \<in> set ss. \<not> is_assembly s}" and ?A = "ps_step ` {s \<in> set ss. is_assembly s}"
  have "?N \<inter> ?A = {}"
    using numbered_distinct [OF assms(1)] by (auto simp: distinct_map dest: inj_onD)
  moreover have "step_rel (repoint ss) \<subseteq> ?N \<times> ?A"
  proof
    fix e assume "e \<in> step_rel (repoint ss)"
    then obtain d s where e: "e = (d, ps_step s)" "s \<in> set ss" and d: "d \<in> set (if is_assembly s
        then map ps_step (filter (\<lambda>o1. \<not> is_assembly o1) ss) else ps_depends_on s)"
      by (fastforce simp: step_rel_def repoint_def split: if_splits)
    then have "is_assembly s" using assms(2) by (auto simp: list_all_iff independent_def split: if_splits)
    with e d show "e \<in> ?N \<times> ?A" by auto
  qed
  ultimately show ?thesis by (intro acyclic_bipartite)
qed

lemma fan_out_result:
  assumes "fan_out analyse answer request goal = Some p"
  obtains result where "numbered 0 result" "list_all (\<lambda>s. step_fits s \<and> independent s) result" "po_steps p = repoint result"
proof -
  from assms obtain proposed fs assembly raw result where
    raw: "specs_to_steps analyse fs request assembly = Some raw" and result: "renumber 0 raw = Some result"
    and p: "po_steps p = repoint result" by (rule fan_out_cases)
  with renumber_spec [OF result specs_to_steps_spec [OF raw]] that show ?thesis by blast
qed

lemma fan_out_steps:
  assumes "fan_out analyse answer request goal = Some p"
  shows "steps_ok (po_steps p)" "po_steps p \<noteq> []" "length (po_steps p) \<le> max_plan_steps"
proof -
  have size: "plan_size_ok p" using assms by (rule fan_out_cases)
  then show "po_steps p \<noteq> []" and small: "length (po_steps p) \<le> max_plan_steps" by (simp_all add: plan_size_ok_def)
  obtain result where "list_all (\<lambda>s. step_fits s \<and> independent s) result" "po_steps p = repoint result"
    by (rule fan_out_result [OF assms])
  then have "step_fits s" if "s \<in> set (po_steps p)" for s
    using that by (auto simp: list_all_iff repoint_def)
  with small show "steps_ok (po_steps p)" by (auto simp: steps_ok_def step_fits_def max_plan_steps_def)
qed

section \<open>Properties\<close>

text \<open>C13. A fanned-out plan can always be executed. Whatever functions the model lists, when the
  fan-out answers a plan, the plan has at most 14 steps, numbered from 1 without gaps, only the
  assembly steps depend on others and they on steps that are no assembly; its translation
  raises nothing and its tasks form a graph.
\<close>

theorem fan_out_executable:
  assumes "fan_out analyse answer request goal = Some p" "1 \<le> mx" "mx \<le> 10"
  shows "\<exists>ts. plan_to_tasks p mx = Inr ts \<and> task_graph ts = Inr ts \<and> length ts = length (po_steps p) \<and>
     length (po_steps p) \<le> 14 \<and> map ps_step (po_steps p) = map int [1..<Suc (length (po_steps p))] \<and>
     list_all (\<lambda>s. is_assembly s \<or> ps_depends_on s = []) (po_steps p)"
proof -
  obtain result where num: "numbered 0 result" and ok: "list_all (\<lambda>s. step_fits s \<and> independent s) result"
    and p: "po_steps p = repoint result" by (rule fan_out_result [OF assms(1)])
  note fits = fan_out_steps(1) [OF assms(1)] and small = fan_out_steps(3) [OF assms(1), unfolded max_plan_steps_def]
  let ?ts = "plan_task_list (ordered_steps p) mx"
  have "plan_to_tasks p mx = Inr ?ts" by (rule plan_to_tasks_ok [OF fits assms(2,3)])
  moreover have "wf_graph ?ts" "acyclic (task_dep_rel ?ts)"
    using numbered_distinct [OF num] repoint_acyclic [OF num] ok
    by (simp_all add: plan_wf_iff acyclic_plan_iff ordered_steps_def sort_steps p list_all_iff)
  then have "task_graph ?ts = Inr ?ts" by (simp add: task_graph_Inr)
  moreover have "length ?ts = length (po_steps p)" by (simp add: plan_task_list_upt ordered_steps_def)
  moreover have "map ps_step (po_steps p) = map int [1..<Suc (length (po_steps p))]"
    using num by (simp add: p numbered_def map_Suc_upt [symmetric] comp_def del: upt_Suc)
  moreover have "list_all (\<lambda>s. is_assembly s \<or> ps_depends_on s = []) (po_steps p)"
    using ok by (auto simp: p repoint_def list_all_iff independent_def)
  ultimately show ?thesis using small by blast
qed

lemma list_all2_left: "list_all2 P xs ys \<Longrightarrow> x \<in> set xs \<Longrightarrow> \<exists>y \<in> set ys. P x y"
  and list_all2_right: "list_all2 P xs ys \<Longrightarrow> y \<in> set ys \<Longrightarrow> \<exists>x \<in> set xs. P x y"
  by (metis in_set_conv_nth list_all2_conv_all_nth nth_mem)+

lemma repoint_mem:
  assumes "r \<in> set result"
  obtains r' where "r' \<in> set (repoint result)" "ps_title r' = ps_title r" "ps_description r' = ps_description r"
proof -
  let ?f = "\<lambda>s. if is_assembly s then s\<lparr>ps_depends_on := map ps_step (filter (\<lambda>o1. \<not> is_assembly o1) result)\<rparr> else s"
  have "?f r \<in> set (repoint result)" using assms by (simp add: repoint_def)
  moreover have "ps_title (?f r) = ps_title r" "ps_description (?f r) = ps_description r" by simp_all
  ultimately show ?thesis by (rule that)
qed

text \<open>One function, one step: when no description names a second function, nothing is split.\<close>

definition function_task :: "boundary_analyser \<Rightarrow> string \<Rightarrow> function_spec \<Rightarrow> string" where
  "function_task analyse request f =
     task_template (fs_name f) (fs_signature f) (rstrip_chars ''.'' (fs_behaviour f)) (cases_for analyse f request)"

definition implements :: "boundary_analyser \<Rightarrow> string \<Rightarrow> planned_step \<Rightarrow> function_spec \<Rightarrow> bool" where
  "implements analyse request s f \<longleftrightarrow>
     ps_title s = ''Implement '' @ fs_name f \<and> ps_description s = function_task analyse request f"

lemma spec_steps_implement:
  "spec_steps analyse request n fs = Some ss \<Longrightarrow> list_all2 (implements analyse request) ss fs"
proof (induction analyse request n fs arbitrary: ss rule: spec_steps.induct)
  case (2 analyse request n f fs)
  then obtain s rest where s: "spec_step analyse request n f = Some s"
    and rest: "spec_steps analyse request (n + 1) fs = Some rest" and ss: "ss = s # rest"
    by (auto split: option.splits)
  have "implements analyse request s f"
    using validate_step_keeps [OF s [unfolded spec_step_def]]
    by (simp add: implements_def function_task_def implement_step_def)
  with "2.IH" [OF s rest] ss show ?case by simp
qed simp

lemma renumber_keeps:
  "renumber c ss = Some result \<Longrightarrow> list_all (\<lambda>s. is_assembly s \<or> length (signatures_in (ps_description s)) \<le> 1) ss \<Longrightarrow>
     list_all2 (\<lambda>s r. ps_title r = ps_title s \<and> ps_description r = ps_description s) ss result"
proof (induction c ss arbitrary: result rule: renumber.induct)
  case (2 c s ss)
  then have True: "is_assembly s \<or> length (signatures_in (ps_description s)) \<le> 1" by simp
  with "2.prems" obtain rest where "renumber (c + 1) ss = Some rest" "result = s\<lparr>ps_step := c + 1\<rparr> # rest" by auto
  with "2.IH"(1) [OF True] "2.prems"(2) show ?case by simp
qed simp

text \<open>No function the request names is lost, as long as nothing has to be split. When the
  fan-out answers a plan and no function's task text names a second function, every function
  the request names in call form has a step of its own, with that function's task text.
\<close>

theorem fan_out_covers:
  assumes "fan_out analyse (Some proposed) request goal = Some p" "validate_functions proposed = Some fs"
    and "\<forall>f \<in> set fs. length (signatures_in (function_task analyse request f)) \<le> 1"
    and "(n, args) \<in> set (signatures_in request)"
  shows "\<exists>f \<in> set fs. fs_name f = n \<and> (\<exists>s \<in> set (po_steps p). implements analyse request s f)"
proof -
  from assms(1) obtain assembly raw result where cov: "covers request fs"
    and raw: "specs_to_steps analyse fs request assembly = Some raw" and result: "renumber 0 raw = Some result"
    and p: "po_steps p = repoint result" using assms(2) by (elim fan_out_cases) simp
  obtain f where f: "f \<in> set fs" "fs_name f = n"
    using cov assms(4) by (fastforce simp: covers_def list_all_iff)
  obtain steps where steps: "spec_steps analyse request 1 fs = Some steps" and sub: "set steps \<subseteq> set raw"
    and rest: "\<forall>s \<in> set raw - set steps. is_assembly s"
    using raw by (fastforce simp: specs_to_steps_def assembly_step_def is_assembly_def starts_with_def
        split: option.splits if_splits dest!: validate_step_keeps)
  have each: "\<exists>g \<in> set fs. implements analyse request s g" if "s \<in> set steps" for s
    using list_all2_left [OF spec_steps_implement [OF steps] that] .
  then have one: "list_all (\<lambda>s. is_assembly s \<or> length (signatures_in (ps_description s)) \<le> 1) raw"
    using assms(3) rest by (fastforce simp: list_all_iff implements_def)
  obtain s where s: "s \<in> set steps" "implements analyse request s f"
    using list_all2_right [OF spec_steps_implement [OF steps] f(1)] by blast
  then have "s \<in> set raw" using sub by blast
  then obtain r where "r \<in> set result" "ps_title r = ps_title s" "ps_description r = ps_description s"
    using list_all2_left [OF renumber_keeps [OF result one]] by blast
  then obtain r' where "r' \<in> set (repoint result)" "ps_title r' = ps_title r" "ps_description r' = ps_description r"
    using repoint_mem by metis
  then have "implements analyse request r' f"
    using s(2) \<open>ps_title r = _\<close> \<open>ps_description r = _\<close> by (simp add: implements_def)
  with \<open>r' \<in> _\<close> f show ?thesis unfolding p by blast
qed

definition sample_specs :: "function_spec list" where
  "sample_specs = [\<lparr>fs_name = ''add'', fs_signature = ''add(a, b)'', fs_behaviour = ''adds''\<rparr>,
     \<lparr>fs_name = ''sub'', fs_signature = ''sub(a, b)'', fs_behaviour = ''subtracts''\<rparr>]"

lemma sample_fan_out: "fan_out (\<lambda>t i. []) (Some sample_specs) ''calc: add(a, b) and sub(a, b)'' ''g'' \<noteq> None"
  by code_simp

lemma sample_specs_valid: "validate_functions sample_specs = Some sample_specs"
  by code_simp

theorem fan_out_executable_witness:
  "\<exists>p ts. fan_out (\<lambda>t i. []) (Some sample_specs) ''calc: add(a, b) and sub(a, b)'' ''g'' = Some p \<and>
     plan_to_tasks p 3 = Inr ts \<and> task_graph ts = Inr ts"
  using sample_fan_out fan_out_executable [of "\<lambda>t i. []" "Some sample_specs" "''calc: add(a, b) and sub(a, b)''" "''g''" _ 3]
  by fastforce

theorem fan_out_covers_witness:
  "\<exists>p. fan_out (\<lambda>t i. []) (Some sample_specs) ''calc: add(a, b) and sub(a, b)'' ''g'' = Some p \<and>
     (\<exists>f \<in> set sample_specs. fs_name f = ''sub'' \<and>
       (\<exists>s \<in> set (po_steps p). implements (\<lambda>t i. []) ''calc: add(a, b) and sub(a, b)'' s f))"
proof -
  let ?r = "''calc: add(a, b) and sub(a, b)''"
  obtain p where p: "fan_out (\<lambda>t i. []) (Some sample_specs) ?r ''g'' = Some p" using sample_fan_out by blast
  have one: "\<forall>f \<in> set sample_specs. length (signatures_in (function_task (\<lambda>t i. []) ?r f)) \<le> 1" by code_simp
  have named: "(''sub'', ''a, b'') \<in> set (signatures_in ?r)" by code_simp
  from fan_out_covers [OF p sample_specs_valid one named] p show ?thesis by blast
qed

text \<open>
  Splitting can lose the function it started from. The coverage check looks at the names of
  the listed functions, before the splitting, and the splitting keeps the names it finds in
  the task text. A request names divide(a, b); the model lists it with the signature
  safe_divide(a, b) and a behaviour that mentions check(b): the plan passes the check and
  implements check and safe_divide, not divide.
\<close>

theorem fan_out_loses_a_function:
  "map_of (signatures_in ''write divide(a, b)'') ''divide'' = Some ''a, b'' \<and>
   (case fan_out (\<lambda>t i. [])
       (Some [\<lparr>fs_name = ''divide'', fs_signature = ''safe_divide(a, b)'', fs_behaviour = ''calls check(b)''\<rparr>])
       ''write divide(a, b)'' ''g'' of
      None \<Rightarrow> False
    | Some p \<Rightarrow> map ps_title (po_steps p) = [''Implement check'', ''Implement safe_divide''])"
  by code_simp

end
