(* ===== verification/Orchestrator.thy ===== *)
theory Orchestrator
  imports Project_State Task_Schedule Adjudication Fan_Out
begin

text \<open>
  The autonomous loop (\<open>orchestrator.py\<close>): plan, run each task through implement, verify,
  judge and repair, defer what is not green yet, and decide the execution by a final gate.

  The agents, the shell and the views of the project are arguments (the record \<open>agents\<close>): a
  state of the world to an answer and a new state. Prompts, memory retrieval, logging and the
  rows of the store other than failures and state transitions are left out; texts of reasons
  are values. \<open>record_transition\<close> raises on an illegal move, which nothing catches: every
  operation returns that error or its result, with the state reached.
\<close>

section \<open>Agents and state\<close>

record coder_output =
  co_changed_files :: "string list"
  co_rejected_files :: "string list"
  co_remaining_concerns :: "string list"

record coder_failure =
  cf_category :: "failure_category option"
  cf_error :: string

type_synonym attempt_evidence = "(verification_outcome list \<times> string list) option"

record 'w agents =
  ag_plan :: "string \<Rightarrow> 'w \<Rightarrow> planner_output option \<times> 'w"
  ag_fan_out :: "string \<Rightarrow> 'w \<Rightarrow> function_spec list option \<times> 'w"
  ag_boundaries :: boundary_analyser
  ag_exists :: "'w \<Rightarrow> string \<Rightarrow> bool"
  ag_code :: "agent_permissions \<Rightarrow> task \<Rightarrow> attempt_evidence \<Rightarrow> string \<Rightarrow> 'w \<Rightarrow>
                (coder_failure, coder_output) res \<times> 'w"
  ag_judge :: "task \<Rightarrow> coder_output \<Rightarrow> verification_outcome list \<Rightarrow> integrity_report \<Rightarrow> 'w \<Rightarrow>
                critic_output option \<times> 'w"
  ag_diagnose :: "task \<Rightarrow> verification_outcome list \<Rightarrow> coder_output option \<Rightarrow> 'w \<Rightarrow> string option \<times> 'w"
  ag_shell :: "'w shell"
  ag_local_modules :: "'w \<Rightarrow> string list"
  ag_integrity :: "'w \<Rightarrow> integrity_gateway"
  ag_baseline :: "'w \<Rightarrow> string option"
  ag_parse :: "string \<Rightarrow> py_node list option"
  ag_root :: "string list"
  ag_files :: "'w \<Rightarrow> project_files"

record loop_settings =
  ls_profile :: verification_profile
  ls_max_task_attempts :: int
  ls_max_repair_attempts :: nat
  ls_max_total_repairs :: nat
  ls_max_total_agent_runs :: nat
  ls_agent_runs_per_task :: nat

record failure_entry =
  fe_task :: "string option"
  fe_category :: failure_category
  fe_action :: string

record 'w orch =
  o_world :: 'w
  o_execution :: execution
  o_transitions :: "project_state list"
  o_failures :: "failure_entry list"
  o_runs :: nat
  o_run_budget :: nat
  o_model_calls :: nat
  o_run_repairs :: nat
  o_baseline :: "string option"

datatype run_error = ProjectError project_error | PlanError plan_error

type_synonym ('w, 'a) op = "'w orch \<Rightarrow> (run_error, 'a) res \<times> 'w orch"

definition op_return :: "'a \<Rightarrow> ('w, 'a) op" where
  "op_return x s = (Inr x, s)"

definition op_bind :: "('w, 'a) op \<Rightarrow> ('a \<Rightarrow> ('w, 'b) op) \<Rightarrow> ('w, 'b) op" where
  "op_bind m f s = (case m s of (Inl e, s') \<Rightarrow> (Inl e, s') | (Inr x, s') \<Rightarrow> f x s')"

definition op_modify :: "('w orch \<Rightarrow> 'w orch) \<Rightarrow> ('w, unit) op" where
  "op_modify f s = (Inr (), f s)"

definition op_world :: "('w \<Rightarrow> 'a \<times> 'w) \<Rightarrow> ('w, 'a) op" where
  "op_world f s = (case f (o_world s) of (x, w) \<Rightarrow> (Inr x, s\<lparr>o_world := w\<rparr>))"

definition op_get :: "('w orch \<Rightarrow> 'a) \<Rightarrow> ('w, 'a) op" where
  "op_get f s = (Inr (f s), s)"

definition op_lift :: "(plan_error, 'a) res \<Rightarrow> ('w, 'a) op" where
  "op_lift r s = (case r of Inl e \<Rightarrow> (Inl (PlanError e), s) | Inr x \<Rightarrow> (Inr x, s))"

section \<open>Steps of an attempt\<close>

definition record_transition :: "project_state \<Rightarrow> ('w, unit) op" where
  "record_transition target s =
     (case execution_transition_to (o_execution s) target of
        Inl e \<Rightarrow> (Inl (ProjectError e), s)
      | Inr x \<Rightarrow> (Inr (), s\<lparr>o_execution := x, o_transitions := o_transitions s @ [target]\<rparr>))"

definition record_failure :: "string option \<Rightarrow> failure_category \<Rightarrow> string \<Rightarrow> ('w, unit) op" where
  "record_failure t c a = op_modify (\<lambda>s. s\<lparr>o_failures := o_failures s @ [\<lparr>fe_task = t, fe_category = c, fe_action = a\<rparr>]\<rparr>)"

fun str_action :: "failure_action \<Rightarrow> string" where
  "str_action RETRY = ''RETRY''"
| "str_action REPAIR = ''REPAIR''"
| "str_action ESCALATE = ''ESCALATE''"
| "str_action ABORT = ''ABORT''"

text \<open>One call of an agent: a model call and a recorded run.\<close>

definition call_agent :: "('w \<Rightarrow> 'a \<times> 'w) \<Rightarrow> ('w, 'a) op" where
  "call_agent f =
     op_bind (op_modify (\<lambda>s. s\<lparr>o_model_calls := o_model_calls s + 1\<rparr>)) (\<lambda>_.
     op_bind (op_world f) (\<lambda>x.
     op_bind (op_modify (\<lambda>s. s\<lparr>o_runs := o_runs s + 1\<rparr>)) (\<lambda>_. op_return x)))"

definition coder_permissions :: agent_permissions where
  "coder_permissions = \<lparr>p_allowed_tools = [''filesystem.read'', ''filesystem.search'', ''filesystem.write'',
      ''filesystem.patch'', ''git.diff'', ''git.status''],
     p_allowed_read_paths = [''**''], p_allowed_write_paths = [''**''], p_network_access = False\<rparr>"

definition scoped_permissions :: "agent_permissions \<Rightarrow> task \<Rightarrow> agent_permissions" where
  "scoped_permissions base t = base\<lparr>
     p_allowed_read_paths := (if sc_read_paths (t_scope t) = [] then p_allowed_read_paths base
                              else sc_read_paths (t_scope t)),
     p_allowed_write_paths := sc_write_paths (t_scope t)\<rparr>"

definition implement_task ::
    "'w agents \<Rightarrow> task \<Rightarrow> attempt_evidence \<Rightarrow> string \<Rightarrow> ('w, (coder_failure, coder_output) res) op" where
  "implement_task ag t evidence guidance =
     call_agent (ag_code ag (scoped_permissions coder_permissions t) t evidence guidance)"

definition integrity_at :: "'w agents \<Rightarrow> string option \<Rightarrow> 'w \<Rightarrow> integrity_report" where
  "integrity_at ag baseline w =
     (case baseline of
        None \<Rightarrow> empty_report [] True
      | Some ref \<Rightarrow> check_integrity (ag_parse ag) (ag_integrity ag w) [])"

definition check_execution_integrity :: "'w agents \<Rightarrow> 'w orch \<Rightarrow> integrity_report" where
  "check_execution_integrity ag s = integrity_at ag (o_baseline s) (o_world s)"

definition task_requirements :: "task \<Rightarrow> (string \<times> string option) list" where
  "task_requirements t =
     (if t_verification t = [] then [(''tests'', None)]
      else map (\<lambda>r. (vr_kind r, vr_selector r)) (t_verification t))"

definition verify_task ::
    "loop_settings \<Rightarrow> 'w agents \<Rightarrow> task \<Rightarrow> ('w, verification_outcome list) op" where
  "verify_task st ag t =
     op_bind (record_transition VERIFICATION) (\<lambda>_.
       op_world (\<lambda>w. run_all (ls_profile st) (ag_local_modules ag w) (ag_shell ag) (task_requirements t) w))"

definition judge_task ::
    "'w agents \<Rightarrow> task \<Rightarrow> coder_output \<Rightarrow> verification_outcome list \<Rightarrow> integrity_report \<Rightarrow>
     ('w, critic_output option) op" where
  "judge_task ag t out report integrity =
     op_bind (record_transition REVIEW) (\<lambda>_. call_agent (ag_judge ag t out report integrity))"

definition diagnose_task ::
    "'w agents \<Rightarrow> task \<Rightarrow> verification_outcome list \<Rightarrow> coder_output option \<Rightarrow> ('w, string option) op" where
  "diagnose_task ag t report out =
     op_bind (record_transition REPAIRING) (\<lambda>_. call_agent (ag_diagnose ag t report out))"

definition effective_budget :: "loop_settings \<Rightarrow> 'w orch \<Rightarrow> nat" where
  "effective_budget st s = (if o_run_budget s = 0 then ls_max_total_agent_runs st else o_run_budget s)"

definition budget_spent :: "loop_settings \<Rightarrow> 'w orch \<Rightarrow> bool" where
  "budget_spent st s \<longleftrightarrow> effective_budget st s \<le> o_runs s"

definition unexercised :: "'w agents \<Rightarrow> string list \<Rightarrow> 'w orch \<Rightarrow> string list option" where
  "unexercised ag changed s = tests_exercise_changes (ag_parse ag) (ag_root ag) (ag_files ag (o_world s)) changed"

section \<open>A task\<close>

datatype task_reason =
    DidNotComplete | AgentFailed string | Adjudicated adjudication_reason | NeverImported "string list"
  | RunBudgetExhausted

record task_outcome =
  to_verdict :: verdict
  to_reason :: task_reason
  to_changed_files :: "string list"
  to_repairs :: nat
  to_failure_category :: "failure_category option"

text \<open>The local variables of \<open>_run_task\<close>.\<close>

record attempt_vars =
  av_evidence :: attempt_evidence
  av_guidance :: string
  av_repairs :: nat
  av_changed :: "string list"
  av_reason :: task_reason
  av_category :: "failure_category option"

datatype attempt_result = Finished task_outcome | GaveUp attempt_vars | TryAgain attempt_vars

definition outcome_of :: "verdict \<Rightarrow> attempt_vars \<Rightarrow> task_outcome" where
  "outcome_of v l = \<lparr>to_verdict = v, to_reason = av_reason l, to_changed_files = av_changed l,
     to_repairs = av_repairs l, to_failure_category = av_category l\<rparr>"

text \<open>The coding agent failed.\<close>

definition coder_failed :: "task \<Rightarrow> attempt_vars \<Rightarrow> coder_failure \<Rightarrow> ('w, attempt_result) op" where
  "coder_failed t l f =
     (let l' = l\<lparr>av_category := cf_category f,
                 av_reason := AgentFailed (if cf_error f = [] then ''the coding agent failed'' else cf_error f)\<rparr>;
          action = decide (cf_category f) (nat (t_attempts t)) (nat (t_max_attempts t)) in
      op_bind (record_failure (Some (t_id t)) (case cf_category f of None \<Rightarrow> UNKNOWN | Some c \<Rightarrow> c) (str_action action)) (\<lambda>_.
        op_return (if action = ABORT then Finished (outcome_of V_BLOCKED l')
                   else if action = ESCALATE then GaveUp l' else TryAgain l')))"

text \<open>Diagnose and charge a repair, when the policy and both repair budgets allow it.\<close>

definition repair_guidance ::
    "loop_settings \<Rightarrow> 'w agents \<Rightarrow> task \<Rightarrow> attempt_vars \<Rightarrow> failure_action \<Rightarrow> verification_outcome list \<Rightarrow>
     coder_output \<Rightarrow> ('w, attempt_vars) op" where
  "repair_guidance st ag t l action report out s =
     (if action = REPAIR \<and> av_repairs l < ls_max_repair_attempts st \<and> o_run_repairs s < ls_max_total_repairs st
      then op_bind (diagnose_task ag t report (Some out)) (\<lambda>d.
           op_bind (op_modify (\<lambda>s. s\<lparr>o_run_repairs := o_run_repairs s + 1\<rparr>)) (\<lambda>_.
             op_return (l\<lparr>av_repairs := av_repairs l + 1,
                          av_guidance := (case d of None \<Rightarrow> [] | Some g \<Rightarrow> g)\<rparr>))) s
      else op_return (l\<lparr>av_guidance := []\<rparr>) s)"

text \<open>The attempt did not pass. \<open>model_copy\<close> cannot set the report's failure category, a computed
  property: the category is the report's own.\<close>

definition attempt_not_passed ::
    "loop_settings \<Rightarrow> 'w agents \<Rightarrow> task \<Rightarrow> attempt_vars \<Rightarrow> task_reason \<Rightarrow> verification_outcome list \<Rightarrow>
     coder_output \<Rightarrow> ('w, attempt_result) op" where
  "attempt_not_passed st ag t l reason report out =
     (let cat = (case report_failure_category report of None \<Rightarrow> REQUIREMENT_FAILURE | Some c \<Rightarrow> c);
          l' = l\<lparr>av_reason := reason, av_category := Some cat\<rparr>;
          action = decide (Some cat) (nat (t_attempts t)) (nat (t_max_attempts t)) in
      if is_security_failure (Some cat)
      then op_bind (record_failure (Some (t_id t)) cat ''BLOCKED'') (\<lambda>_. op_return (Finished (outcome_of V_BLOCKED l')))
      else op_bind (record_failure (Some (t_id t)) cat (str_action action)) (\<lambda>_.
        if action \<in> {ESCALATE, ABORT} then op_return (GaveUp l')
        else op_bind (repair_guidance st ag t l' action report out) (\<lambda>l''.
             op_bind (op_get (budget_spent st)) (\<lambda>spent.
               op_return (let l3 = l''\<lparr>av_evidence := Some (report, co_remaining_concerns out)\<rparr> in
                          if spent then GaveUp (l3\<lparr>av_reason := RunBudgetExhausted\<rparr>) else TryAgain l3)))))"

definition attempt_once ::
    "loop_settings \<Rightarrow> 'w agents \<Rightarrow> task \<Rightarrow> attempt_vars \<Rightarrow> ('w, attempt_result) op" where
  "attempt_once st ag t l =
     op_bind (record_transition IMPLEMENTATION) (\<lambda>_.
     op_bind (implement_task ag t (av_evidence l) (av_guidance l)) (\<lambda>response.
       case response of
         Inl f \<Rightarrow> coder_failed t l f
       | Inr out \<Rightarrow>
           (let l' = l\<lparr>av_changed := sorted_set (av_changed l @ co_changed_files out)\<rparr> in
            op_bind (if co_rejected_files out = [] then op_return ()
                     else record_failure (Some (t_id t)) SECURITY_FAILURE ''REPORTED'') (\<lambda>_.
            op_bind (verify_task st ag t) (\<lambda>report.
            op_bind (op_get (check_execution_integrity ag)) (\<lambda>integrity.
            op_bind (judge_task ag t out report integrity) (\<lambda>critic.
            (let adj = adjudicate critic report (co_changed_files out \<noteq> []) (Some integrity) in
             if fst adj = V_PASS
             then op_bind (op_get (unexercised ag (av_changed l'))) (\<lambda>un.
                    case un of
                      None \<Rightarrow> op_return (Finished (\<lparr>to_verdict = V_PASS, to_reason = Adjudicated (snd adj),
                                to_changed_files = av_changed l', to_repairs = av_repairs l',
                                to_failure_category = None\<rparr>))
                    | Some modules \<Rightarrow> attempt_not_passed st ag t l' (NeverImported modules) report out)
             else attempt_not_passed st ag t l' (Adjudicated (snd adj)) report out))))))))"

text \<open>The loop over attempts; the task that comes back has counted them.\<close>

function run_attempts ::
    "loop_settings \<Rightarrow> 'w agents \<Rightarrow> task \<Rightarrow> attempt_vars \<Rightarrow> ('w, task_outcome \<times> task) op" where
  "run_attempts st ag t l s =
     (if t_attempts t < t_max_attempts t
      then (let t' = t\<lparr>t_attempts := t_attempts t + 1\<rparr> in
            case attempt_once st ag t' l s of
              (Inl e, s') \<Rightarrow> (Inl e, s')
            | (Inr (Finished out), s') \<Rightarrow> (Inr (out, t'), s')
            | (Inr (GaveUp l'), s') \<Rightarrow> (Inr (outcome_of V_FAIL l', t'), s')
            | (Inr (TryAgain l'), s') \<Rightarrow> run_attempts st ag t' l' s')
      else (Inr (outcome_of V_FAIL l, t), s))"
  by pat_completeness auto
termination
  by (relation "measure (\<lambda>(st, ag, t, l, s). nat (t_max_attempts t - t_attempts t))") auto

declare run_attempts.simps [simp del]

definition initial_vars :: attempt_vars where
  "initial_vars = \<lparr>av_evidence = None, av_guidance = [], av_repairs = 0, av_changed = [],
     av_reason = DidNotComplete, av_category = None\<rparr>"

definition run_task :: "loop_settings \<Rightarrow> 'w agents \<Rightarrow> task \<Rightarrow> ('w, task_outcome \<times> task) op" where
  "run_task st ag t = run_attempts st ag t initial_vars"

section \<open>The final gate\<close>

datatype final_reason =
    FinalPassed | PassedAfter nat | StillFailing | TamperedTests | TamperedInRepair | GateBudgetExhausted

record gate_result =
  gr_verdict :: verdict
  gr_reason :: final_reason
  gr_repairs :: nat
  gr_changed :: "string list"

definition mk_gate_result :: "verdict \<Rightarrow> final_reason \<Rightarrow> nat \<Rightarrow> string list \<Rightarrow> gate_result" where
  "mk_gate_result v r n c = \<lparr>gr_verdict = v, gr_reason = r, gr_repairs = n, gr_changed = c\<rparr>"

lemma mk_gate_result_simps [simp]:
  "gr_verdict (mk_gate_result v r n c) = v" "gr_reason (mk_gate_result v r n c) = r"
  "gr_repairs (mk_gate_result v r n c) = n" "gr_changed (mk_gate_result v r n c) = c"
  by (simp_all add: mk_gate_result_def)

datatype gate_step = GateDone gate_result | GateAgain "verification_outcome list" "string list"

text \<open>One repair of the gate: diagnose, implement, verify, check the tests.\<close>

definition gate_repair ::
    "loop_settings \<Rightarrow> 'w agents \<Rightarrow> task \<Rightarrow> nat \<Rightarrow> verification_outcome list \<Rightarrow> string list \<Rightarrow> ('w, gate_step) op" where
  "gate_repair st ag anchor repairs report changed =
     op_bind (diagnose_task ag anchor report None) (\<lambda>d.
     op_bind (record_transition IMPLEMENTATION) (\<lambda>_.
     op_bind (implement_task ag anchor (Some (report, [])) (case d of None \<Rightarrow> [] | Some g \<Rightarrow> g)) (\<lambda>response.
       (let changed' = (case response of Inl f \<Rightarrow> changed
                        | Inr out \<Rightarrow> sorted_set (changed @ co_changed_files out)) in
        op_bind (verify_task st ag anchor) (\<lambda>report'.
        op_bind (op_get (check_execution_integrity ag)) (\<lambda>integrity.
          if tampered integrity
          then op_return (GateDone (mk_gate_result V_FAIL TamperedInRepair (repairs + 1) changed'))
          else if report_passed report'
          then op_bind (record_transition REVIEW) (\<lambda>_.
                 op_return (GateDone (mk_gate_result V_PASS (PassedAfter (repairs + 1)) (repairs + 1) changed')))
          else op_bind (record_failure (Some (t_id anchor))
                 (case report_failure_category report' of None \<Rightarrow> TEST_FAILURE | Some c \<Rightarrow> c) ''REPAIR'') (\<lambda>_.
                 op_return (GateAgain report' changed'))))))))"

function gate_loop ::
    "loop_settings \<Rightarrow> 'w agents \<Rightarrow> task \<Rightarrow> nat \<Rightarrow> verification_outcome list \<Rightarrow> string list \<Rightarrow> ('w, gate_result) op" where
  "gate_loop st ag anchor repairs report changed s =
     (if repairs < ls_max_repair_attempts st
      then if budget_spent st s
           then (Inr (mk_gate_result V_FAIL GateBudgetExhausted repairs changed), s)
           else (case gate_repair st ag anchor repairs report changed s of
                   (Inl e, s') \<Rightarrow> (Inl e, s')
                 | (Inr (GateDone r), s') \<Rightarrow> (Inr r, s')
                 | (Inr (GateAgain report' changed'), s') \<Rightarrow>
                     gate_loop st ag anchor (repairs + 1) report' changed' s')
      else (Inr (mk_gate_result V_FAIL StillFailing repairs changed), s))"
  by pat_completeness auto
termination
  by (relation "measure (\<lambda>(st, ag, t, n, r, c, s). ls_max_repair_attempts st - n)") auto

declare gate_loop.simps [simp del]

definition final_gate :: "loop_settings \<Rightarrow> 'w agents \<Rightarrow> task \<Rightarrow> string list \<Rightarrow> ('w, gate_result) op" where
  "final_gate st ag anchor changed =
     op_bind (verify_task st ag anchor) (\<lambda>report.
     op_bind (op_get (check_execution_integrity ag)) (\<lambda>integrity.
       if tampered integrity
       then op_bind (record_failure (Some (t_id anchor)) REQUIREMENT_FAILURE ''ESCALATE'') (\<lambda>_.
              op_return (mk_gate_result V_FAIL TamperedTests 0 changed))
       else if report_passed report
       then op_bind (record_transition REVIEW) (\<lambda>_. op_return (mk_gate_result V_PASS FinalPassed 0 changed))
       else gate_loop st ag anchor 0 report changed))"

section \<open>The run\<close>

record run_vars =
  rv_changed :: "string list"
  rv_repairs :: nat
  rv_last_failure :: "task_reason option"
  rv_aborted :: "task_reason option"
  rv_abort_category :: "failure_category option"

datatype run_step = Settled graph run_vars | NextTask graph run_vars

definition work_remains :: "graph \<Rightarrow> string \<Rightarrow> bool" where
  "work_remains g x = list_ex (\<lambda>t. t_id t \<noteq> x \<and> \<not> task_terminal (t_status t)) g"

text \<open>The texts the graph stores; only that they are there matters.\<close>

definition task_reason_text :: "task_reason \<Rightarrow> string" where
  "task_reason_text r = (case r of AgentFailed e \<Rightarrow> e | RunBudgetExhausted \<Rightarrow> ''total agent run budget exhausted''
     | _ \<Rightarrow> ''verification'')"

definition settle_task ::
    "graph \<Rightarrow> run_vars \<Rightarrow> task \<Rightarrow> task_outcome \<Rightarrow> (plan_error, run_step) res" where
  "settle_task g v t out =
     (let v' = v\<lparr>rv_changed := sorted_set (rv_changed v @ to_changed_files out),
                 rv_repairs := rv_repairs v + to_repairs out\<rparr>;
          x = t_id t in
      if to_verdict out = V_PASS
      then res_bind (mark_succeeded g x) (\<lambda>g'. Inr (NextTask g' v'))
      else if to_verdict out = V_BLOCKED
      then res_bind (mark_failed g x (task_reason_text (to_reason out)) (to_failure_category out)) (\<lambda>g'.
             Inr (Settled g' (v'\<lparr>rv_aborted := Some (to_reason out),
                                 rv_abort_category := to_failure_category out\<rparr>)))
      else if to_changed_files out \<noteq> [] \<and> work_remains g x
      then res_bind (mark_deferred g x ''changed files but the suite was not green yet'') (\<lambda>g'. Inr (NextTask g' v'))
      else res_bind (mark_failed g x (task_reason_text (to_reason out)) (to_failure_category out)) (\<lambda>g'.
             Inr (NextTask g' (v'\<lparr>rv_last_failure := Some (to_reason out)\<rparr>))))"

definition run_next :: "loop_settings \<Rightarrow> 'w agents \<Rightarrow> graph \<Rightarrow> run_vars \<Rightarrow> ('w, run_step) op" where
  "run_next st ag g v =
     op_bind (op_lift (next_task g)) (\<lambda>(g1, offer).
       case offer of
         None \<Rightarrow> op_return (Settled g1 v)
       | Some t \<Rightarrow>
           op_bind (op_get (budget_spent st)) (\<lambda>spent.
             if spent then op_return (Settled g1 (v\<lparr>rv_aborted := Some RunBudgetExhausted\<rparr>))
             else op_bind (op_lift (start_task g1 (t_id t))) (\<lambda>g2.
                  op_bind (run_task st ag (t\<lparr>t_status := TS_RUNNING\<rparr>)) (\<lambda>(out, t').
                    op_lift (settle_task (put_task g2 t') v t' out)))))"

subsection \<open>Every step of the loop settles a task\<close>

lemma op_bind_Inr:
  assumes "op_bind m f s = (Inr y, s')"
  obtains x s1 where "m s = (Inr x, s1)" "f x s1 = (Inr y, s')"
  using assms by (auto simp: op_bind_def split: prod.splits sum.splits)

lemma op_lift_Inr: "op_lift r s = (Inr x, s') \<longleftrightarrow> r = Inr x \<and> s' = s"
  by (auto simp: op_lift_def split: sum.splits)

lemma op_get_Inr: "op_get f s = (r, s') \<longleftrightarrow> r = Inr (f s) \<and> s' = s"
  by (auto simp: op_get_def)

lemma op_return_Inr: "op_return x s = (r, s') \<longleftrightarrow> r = Inr x \<and> s' = s"
  by (auto simp: op_return_def)

text \<open>The open tasks of a graph, each counted with a weight that does not depend on its status.\<close>

definition open_weight :: "(task \<Rightarrow> nat) \<Rightarrow> task \<Rightarrow> nat" where
  "open_weight c t = (if task_terminal (t_status t) then 0 else c t)"

definition open_sum :: "(task \<Rightarrow> nat) \<Rightarrow> graph \<Rightarrow> nat" where
  "open_sum c g = sum_list (map (open_weight c) g)"

definition status_free :: "(task \<Rightarrow> nat) \<Rightarrow> bool" where
  "status_free c \<longleftrightarrow> (\<forall>t s. c (t\<lparr>t_status := s\<rparr>) = c t)"

lemma open_put:
  "find_task g (t_id u) = Some t \<Longrightarrow>
     open_sum c (put_task g u) + open_weight c t = open_sum c g + open_weight c u"
  by (induction g) (auto simp: open_sum_def split: if_splits)

lemma open_put_status:
  assumes "status_free c" "find_task g x = Some t" "\<not> task_terminal (t_status t)"
  shows "open_sum c (put_task g (t\<lparr>t_status := s\<rparr>)) \<le> open_sum c g"
    "\<not> task_terminal s \<Longrightarrow> open_sum c (put_task g (t\<lparr>t_status := s\<rparr>)) = open_sum c g"
proof -
  have "t_id t = x" using find_task_Some [OF assms(2)] by simp
  then have "open_sum c (put_task g (t\<lparr>t_status := s\<rparr>)) + open_weight c t =
      open_sum c g + open_weight c (t\<lparr>t_status := s\<rparr>)"
    using open_put [of g "t\<lparr>t_status := s\<rparr>" t c] assms(2) by simp
  then show "open_sum c (put_task g (t\<lparr>t_status := s\<rparr>)) \<le> open_sum c g"
    "\<not> task_terminal s \<Longrightarrow> open_sum c (put_task g (t\<lparr>t_status := s\<rparr>)) = open_sum c g"
    using assms(1,3) by (auto simp: open_weight_def status_free_def split: if_splits)
qed

lemma open_refresh_visit:
  assumes "status_free c" "refresh_visit g x = Inr (g', ch)"
  shows "open_sum c g' \<le> open_sum c g"
  using assms(2)
proof (cases rule: refresh_visit_cases)
  case (blocked t)
  then show ?thesis using open_put_status(1) [OF assms(1) blocked(1)] by (auto simp: task_terminal_def)
next
  case (ready t)
  then show ?thesis using open_put_status(1) [OF assms(1) ready(1)] by (auto simp: task_terminal_def)
qed simp

lemma open_refresh_pass:
  "status_free c \<Longrightarrow> refresh_pass g xs b = Inr (g', ch) \<Longrightarrow> open_sum c g' \<le> open_sum c g"
proof (induction xs arbitrary: g b)
  case (Cons x xs)
  then obtain h d where "refresh_visit g x = Inr (h, d)" "refresh_pass h xs (b \<or> d) = Inr (g', ch)"
    by (auto simp: res_bind_Inr_iff)
  with Cons open_refresh_visit show ?case by (meson le_trans)
qed simp

lemma open_refresh: "status_free c \<Longrightarrow> refresh g = Inr g' \<Longrightarrow> open_sum c g' \<le> open_sum c g"
proof (induction g rule: refresh.induct)
  case (1 g)
  from "1.prems" obtain h ch where p: "refresh_pass g (map t_id (tasks_in_order g)) False = Inr (h, ch)"
    and r: "(if ch then refresh h else Inr h) = Inr g'"
    by (subst (asm) (2) refresh.simps) (auto split: sum.splits)
  show ?case
  proof (cases ch)
    case True
    with r have "open_sum c g' \<le> open_sum c h" using "1.IH" [OF p refl True "1.prems"(1)] by simp
    with open_refresh_pass [OF "1.prems"(1) p] show ?thesis by simp
  next
    case False
    with r open_refresh_pass [OF "1.prems"(1) p] show ?thesis by simp
  qed
qed

lemma open_next: "status_free c \<Longrightarrow> next_task g = Inr (g', offer) \<Longrightarrow> open_sum c g' \<le> open_sum c g"
  by (auto simp: next_task_def ready_tasks_def res_bind_Inr_iff dest: open_refresh)

text \<open>The three ways to finish a task: find it, move it to a terminal state, note why, refresh.\<close>

definition finish :: "task_status \<Rightarrow> (task \<Rightarrow> task) \<Rightarrow> graph \<Rightarrow> string \<Rightarrow> (plan_error, graph) res" where
  "finish s nt g x =
     res_bind (get_task g x) (\<lambda>t. res_bind (transition_to t s) (\<lambda>t'. refresh (put_task g (nt t'))))"

definition keeps_task :: "(task \<Rightarrow> task) \<Rightarrow> bool" where
  "keeps_task nt \<longleftrightarrow> (\<forall>t. t_id (nt t) = t_id t \<and> t_status (nt t) = t_status t \<and>
     t_deps (nt t) = t_deps t \<and> t_priority (nt t) = t_priority t \<and>
     t_verification (nt t) = t_verification t)"

lemma marks_finish:
  "mark_succeeded g x = finish TS_SUCCEEDED (\<lambda>t. t) g x"
  "mark_deferred g x r = finish TS_DEFERRED (\<lambda>t. t\<lparr>t_failure_reason := Some r\<rparr>) g x"
  "mark_failed g x r k = finish TS_FAILED (\<lambda>t. t\<lparr>t_failure_reason := Some r, t_failure_category := k\<rparr>) g x"
  by (simp_all add: finish_def mark_succeeded_def mark_deferred_def mark_failed_def)

lemma notes_keep [simp]:
  "keeps_task (\<lambda>t. t)" "keeps_task (\<lambda>t. t\<lparr>t_failure_reason := r\<rparr>)"
  "keeps_task (\<lambda>t. t\<lparr>t_failure_reason := r, t_failure_category := k\<rparr>)"
  by (simp_all add: keeps_task_def)

lemma finish_open:
  assumes "finish s nt g x = Inr g'" "task_terminal s" "keeps_task nt" "status_free c"
  obtains t where "find_task g x = Some t" "open_sum c g' + c t \<le> open_sum c g"
proof -
  from assms(1) obtain t u where t: "find_task g x = Some t" "transition_to t s = Inr u"
    "refresh (put_task g (nt u)) = Inr g'"
    by (auto simp: finish_def res_bind_Inr_iff get_task_Inr)
  then have "t_id t = x" "\<not> task_terminal (t_status t)" "u = t\<lparr>t_status := s\<rparr>"
    using find_task_Some [OF t(1)] by (cases "t_status t", auto simp: transition_to_Inr task_terminal_def task_can_transition_def)
  then have "open_sum c (put_task g (nt u)) + c t = open_sum c g"
    using open_put [of g "nt u" t c] t(1) assms(2,3) by (simp add: keeps_task_def open_weight_def)
  with open_refresh [OF assms(4) t(3)] that t(1) show ?thesis by simp
qed

fun step_graph :: "run_step \<Rightarrow> graph" where
  "step_graph (Settled g v) = g"
| "step_graph (NextTask g v) = g"

fun step_vars :: "run_step \<Rightarrow> run_vars" where
  "step_vars (Settled g v) = v"
| "step_vars (NextTask g v) = v"

lemma settle_task_finish:
  assumes "settle_task g v t out = Inr r"
  obtains s nt where "finish s nt g (t_id t) = Inr (step_graph r)" "task_terminal s" "keeps_task nt"
    "unlocking s \<Longrightarrow> to_verdict out = V_PASS \<or> to_changed_files out \<noteq> []"
    "s \<in> {TS_SUCCEEDED, TS_DEFERRED, TS_FAILED}"
    "rv_repairs (step_vars r) = rv_repairs v + to_repairs out"
proof -
  note unf = settle_task_def Let_def marks_finish res_bind_Inr_iff
  have rep: "rv_repairs (step_vars r) = rv_repairs v + to_repairs out"
    using assms by (auto simp: unf split: if_splits)
  consider (pass) "to_verdict out = V_PASS" | (later) "to_verdict out = V_FAIL" "to_changed_files out \<noteq> []" "work_remains g (t_id t)"
    | (lost) "to_verdict out \<noteq> V_PASS" "to_verdict out = V_BLOCKED \<or> \<not> (to_changed_files out \<noteq> [] \<and> work_remains g (t_id t))"
    by (cases "to_verdict out") auto
  then show ?thesis
  proof cases
    case pass
    then have "finish TS_SUCCEEDED (\<lambda>t. t) g (t_id t) = Inr (step_graph r)" using assms by (auto simp: unf)
    then show ?thesis by (rule that) (simp_all add: task_terminal_def pass rep)
  next
    case later
    then have "finish TS_DEFERRED (\<lambda>t. t\<lparr>t_failure_reason := Some ''changed files but the suite was not green yet''\<rparr>) g (t_id t) =
        Inr (step_graph r)" using assms by (auto simp: unf)
    then show ?thesis by (rule that) (simp_all add: task_terminal_def later rep)
  next
    case lost
    then have "finish TS_FAILED (\<lambda>t. t\<lparr>t_failure_reason := Some (task_reason_text (to_reason out)),
        t_failure_category := to_failure_category out\<rparr>) g (t_id t) = Inr (step_graph r)"
      using assms by (auto simp: unf split: if_splits)
    then show ?thesis by (rule that) (simp_all add: task_terminal_def unlocking_def rep)
  qed
qed

lemma open_settle_task:
  assumes "settle_task g v t out = Inr r" "status_free c"
  obtains u where "find_task g (t_id t) = Some u" "open_sum c (step_graph r) + c u \<le> open_sum c g"
  using assms by (elim settle_task_finish finish_open) 

lemma run_attempts_task:
  "run_attempts st ag t l s = (Inr (out, t'), s') \<Longrightarrow> \<exists>k. t' = t\<lparr>t_attempts := k\<rparr> \<and> t_attempts t \<le> k \<and>
     k \<le> max (t_attempts t) (t_max_attempts t)"
proof (induction st ag t l s arbitrary: out t' s' rule: run_attempts.induct)
  case (1 st ag t l s)
  let ?t = "t\<lparr>t_attempts := t_attempts t + 1\<rparr>"
  show ?case
  proof (cases "t_attempts t < t_max_attempts t")
    case True
    obtain r s1 where a: "attempt_once st ag ?t l s = (r, s1)" by fastforce
    show ?thesis
    proof (cases "\<exists>l'. r = Inr (TryAgain l')")
      case again: True
      then obtain l' where r: "r = Inr (TryAgain l')" by blast
      have "run_attempts st ag ?t l' s1 = (Inr (out, t'), s')"
        using "1.prems" True a r by (subst (asm) run_attempts.simps) (simp add: Let_def)
      from "1.IH" [OF True refl a [symmetric] r refl this] True show ?thesis by auto
    next
      case False
      have "t' = ?t" using "1.prems" True a False
        by (subst (asm) run_attempts.simps) (auto simp: Let_def split: sum.splits attempt_result.splits)
      with True show ?thesis by auto
    qed
  next
    case False
    then show ?thesis using "1.prems" by (subst (asm) run_attempts.simps) (auto intro: exI [of _ "t_attempts t"])
  qed
qed

lemma running_from_ready: "task_can_transition s TS_RUNNING \<Longrightarrow> s = TS_READY"
  by (cases s) (simp_all add: task_can_transition_def)

lemma start_task_Inr:
  "start_task g x = Inr g' \<longleftrightarrow>
     (\<exists>t. find_task g x = Some t \<and> t_status t = TS_READY \<and> g' = put_task g (t\<lparr>t_status := TS_RUNNING\<rparr>))"
  by (auto simp: start_task_def res_bind_Inr_iff get_task_Inr transition_to_Inr task_can_transition_def
      dest: running_from_ready [unfolded task_can_transition_def])

lemma open_start:
  assumes "start_task g x = Inr g'" "status_free c"
  obtains t where "find_task g x = Some t" "open_sum c g' = open_sum c g"
    "find_task g' x = Some (t\<lparr>t_status := TS_RUNNING\<rparr>)" "ids g' = ids g"
proof -
  from assms(1) obtain t where t: "find_task g x = Some t" "t_status t = TS_READY"
    "g' = put_task g (t\<lparr>t_status := TS_RUNNING\<rparr>)" by (auto simp: start_task_Inr)
  then show ?thesis
    using that [of t] open_put_status(2) [OF assms(2) t(1), of TS_RUNNING] find_task_ids [OF t(1)]
    by (simp add: task_terminal_def find_put_task)
qed

lemma run_next_cases:
  assumes "run_next st ag g v s = (Inr r, s')"
  obtains (idle) g1 offer where "next_task g = Inr (g1, offer)" "s' = s" "step_graph r = g1"
      "rv_repairs (step_vars r) = rv_repairs v" "\<exists>v'. r = Settled g1 v'"
    | (ran) g1 t g2 out t' where "next_task g = Inr (g1, Some t)" "start_task g1 (t_id t) = Inr g2"
      "run_task st ag (t\<lparr>t_status := TS_RUNNING\<rparr>) s = (Inr (out, t'), s')"
      "settle_task (put_task g2 t') v t' out = Inr r"
proof -
  from assms obtain g1 offer where n: "next_task g = Inr (g1, offer)"
    and k: "(case offer of None \<Rightarrow> op_return (Settled g1 v)
       | Some t \<Rightarrow> op_bind (op_get (budget_spent st)) (\<lambda>spent.
             if spent then op_return (Settled g1 (v\<lparr>rv_aborted := Some RunBudgetExhausted\<rparr>))
             else op_bind (op_lift (start_task g1 (t_id t))) (\<lambda>g2.
                  op_bind (run_task st ag (t\<lparr>t_status := TS_RUNNING\<rparr>)) (\<lambda>(out, t').
                    op_lift (settle_task (put_task g2 t') v t' out))))) s = (Inr r, s')"
    unfolding run_next_def by (elim op_bind_Inr) (auto simp: op_lift_Inr)
  show ?thesis
  proof (cases "\<exists>t. offer = Some t \<and> \<not> budget_spent st s")
    case False
    with k have "s' = s \<and> (\<exists>v'. r = Settled g1 v' \<and> rv_repairs v' = rv_repairs v)"
      by (cases offer) (auto simp: op_return_Inr op_get_Inr elim!: op_bind_Inr)
    with n idle [of g1 offer] show ?thesis by auto
  next
    case True
    then obtain t where t: "offer = Some t" "\<not> budget_spent st s" by blast
    with k ran n show ?thesis
      by (auto elim!: op_bind_Inr simp: op_get_Inr op_lift_Inr)
  qed
qed

lemma run_next_open:
  assumes "run_next st ag g v s = (Inr (NextTask g' v'), s')"
  shows "open_sum (\<lambda>_. 1) g' < open_sum (\<lambda>_. 1) g"
  using assms
proof (cases rule: run_next_cases)
  case (ran g1 t g2 out t')
  let ?c = "\<lambda>_ :: task. 1 :: nat"
  have free: "status_free ?c" by (simp add: status_free_def)
  from ran(3) obtain k where "t' = (t\<lparr>t_status := TS_RUNNING\<rparr>)\<lparr>t_attempts := k\<rparr>"
    unfolding run_task_def using run_attempts_task by blast
  then have t': "t_id t' = t_id t" "open_weight ?c t' = 1" by (simp_all add: open_weight_def task_terminal_def)
  from open_start [OF ran(2) free] obtain u where
    u: "find_task g2 (t_id t) = Some (u\<lparr>t_status := TS_RUNNING\<rparr>)" "open_sum ?c g2 = open_sum ?c g1" .
  have "open_sum ?c (put_task g2 t') = open_sum ?c g1"
    using open_put [of g2 t' "u\<lparr>t_status := TS_RUNNING\<rparr>" ?c] t' u by (simp add: open_weight_def task_terminal_def)
  moreover from open_settle_task [OF ran(4) free] have "open_sum ?c g' < open_sum ?c (put_task g2 t')"
    by (metis One_nat_def Suc_eq_plus1 Suc_le_eq step_graph.simps(2))
  ultimately show ?thesis using open_next [OF free ran(1)] by simp
qed auto

function run_loop :: "loop_settings \<Rightarrow> 'w agents \<Rightarrow> graph \<Rightarrow> run_vars \<Rightarrow> ('w, graph \<times> run_vars) op" where
  "run_loop st ag g v s =
     (case run_next st ag g v s of
        (Inl e, s') \<Rightarrow> (Inl e, s')
      | (Inr (Settled g' v'), s') \<Rightarrow> (Inr (g', v'), s')
      | (Inr (NextTask g' v'), s') \<Rightarrow> run_loop st ag g' v' s')"
  by pat_completeness auto
termination
  by (relation "measure (\<lambda>(st, ag, g, v, s). open_sum (\<lambda>_. 1) g)") (auto dest!: sym [of "(_, _)"] run_next_open)

declare run_loop.simps [simp del]

subsection \<open>Deciding the execution\<close>

datatype run_text =
    PlanningFailed failure_category
  | AbortedBecause task_reason | TaskFailure task_reason | SomeTaskFailed
  | GateSaid final_reason | ChangeNeverImported "string list" | Completed nat nat run_text

record run_result =
  rr_state :: project_state
  rr_verdict :: verdict
  rr_text :: run_text
  rr_tasks_total :: nat
  rr_tasks_succeeded :: nat
  rr_tasks_failed :: nat
  rr_agent_runs :: nat
  rr_model_calls :: nat
  rr_repairs :: nat
  rr_changed_files :: "string list"
  rr_failure_category :: "failure_category option"

definition run_succeeded :: "run_result \<Rightarrow> bool" where
  "run_succeeded r \<longleftrightarrow> rr_state r = RELEASE \<and> rr_verdict r = V_PASS"

definition status_count :: "graph \<Rightarrow> task_status \<Rightarrow> nat" where
  "status_count g x = (case map_of (summary g) x of None \<Rightarrow> 0 | Some n \<Rightarrow> n)"

text \<open>The fan-out is one model call, without a recorded run; when it declines, the plan stays.\<close>

definition fan_out_plan :: "'w agents \<Rightarrow> string \<Rightarrow> planner_output \<Rightarrow> ('w, planner_output) op" where
  "fan_out_plan ag request p =
     op_bind (op_get (\<lambda>s. needs_fanout (ag_exists ag (o_world s)) p request)) (\<lambda>needed.
       if \<not> needed then op_return p
       else op_bind (op_modify (\<lambda>s. s\<lparr>o_model_calls := o_model_calls s + 1\<rparr>)) (\<lambda>_.
            op_bind (op_world (ag_fan_out ag request)) (\<lambda>answer.
              op_return (case fan_out (ag_boundaries ag) answer request (po_goal p) of None \<Rightarrow> p | Some p' \<Rightarrow> p'))))"

text \<open>A plan that is missing or fails its schema is the planner's failure; the others are the
  plan's. Both carry the category of \<open>PlanValidationError\<close>.\<close>

definition plan_tasks :: "loop_settings \<Rightarrow> 'w agents \<Rightarrow> ('w, (failure_category, task list) res) op" where
  "plan_tasks st ag =
     op_bind (record_transition PLANNING) (\<lambda>_.
     op_bind (op_get (\<lambda>s. ex_request (o_execution s))) (\<lambda>request.
     op_bind (call_agent (ag_plan ag request)) (\<lambda>answer.
       case Option.bind answer validate_plan of
         None \<Rightarrow> op_return (Inl REQUIREMENT_FAILURE)
       | Some p \<Rightarrow>
           op_bind (fan_out_plan ag request p) (\<lambda>p'.
           op_bind (op_lift (plan_to_tasks p' (ls_max_task_attempts st))) (\<lambda>tasks.
             op_return (if tasks = [] then Inl REQUIREMENT_FAILURE
                        else (case task_graph tasks of Inl e \<Rightarrow> Inl REQUIREMENT_FAILURE | Inr g \<Rightarrow> Inr tasks)))))))"

text \<open>The gate, when nothing failed: verdict, text, repairs and changed files.\<close>

definition gate_verdict ::
    "loop_settings \<Rightarrow> 'w agents \<Rightarrow> task list \<Rightarrow> graph \<Rightarrow> run_vars \<Rightarrow>
     ('w, verdict \<times> run_text \<times> nat \<times> string list) op" where
  "gate_verdict st ag tasks g v =
     (if rv_aborted v = None \<and> settled_without_failure g
      then op_bind (final_gate st ag (the (find_task g (t_id (last tasks)))) (rv_changed v)) (\<lambda>r.
             op_return (gr_verdict r, GateSaid (gr_reason r), rv_repairs v + gr_repairs r, gr_changed r))
      else op_return (V_FAIL,
             (case rv_aborted v of
                Some r \<Rightarrow> AbortedBecause r
              | None \<Rightarrow> (case rv_last_failure v of Some r \<Rightarrow> TaskFailure r | None \<Rightarrow> SomeTaskFailed)),
             rv_repairs v, rv_changed v))"

definition exercised_verdict ::
    "'w agents \<Rightarrow> verdict \<times> run_text \<times> nat \<times> string list \<Rightarrow> ('w, verdict \<times> run_text \<times> nat \<times> string list) op" where
  "exercised_verdict ag gv =
     (case gv of (verdict, text0, repairs, changed) \<Rightarrow>
        if verdict = V_PASS
        then op_bind (op_get (unexercised ag changed)) (\<lambda>un.
               op_return (case un of
                  None \<Rightarrow> (verdict, text0, repairs, changed)
                | Some ms \<Rightarrow> (V_FAIL, ChangeNeverImported ms, repairs, changed)))
        else op_return (verdict, text0, repairs, changed))"

definition conclude ::
    "task list \<Rightarrow> graph \<Rightarrow> run_vars \<Rightarrow> verdict \<times> run_text \<times> nat \<times> string list \<Rightarrow> ('w, run_result) op" where
  "conclude tasks g v gv =
     (case gv of (verdict, text0, repairs, changed) \<Rightarrow>
        op_bind (record_transition (if verdict = V_PASS then RELEASE else PS_FAILED)) (\<lambda>_.
        op_bind (op_get (\<lambda>s. s)) (\<lambda>s.
          op_return \<lparr>rr_state = ex_state (o_execution s),
            rr_verdict = (if verdict \<noteq> V_PASS \<and> rv_aborted v \<noteq> None then V_BLOCKED else verdict),
            rr_text = (if verdict = V_PASS then Completed (length tasks) (length changed) text0 else text0),
            rr_tasks_total = length tasks, rr_tasks_succeeded = status_count g TS_SUCCEEDED,
            rr_tasks_failed = status_count g TS_FAILED + status_count g TS_BLOCKED,
            rr_agent_runs = o_runs s, rr_model_calls = o_model_calls s, rr_repairs = repairs,
            rr_changed_files = changed, rr_failure_category = rv_abort_category v\<rparr>)))"

definition planning_failed :: "failure_category \<Rightarrow> ('w, run_result) op" where
  "planning_failed c =
     op_bind (record_failure None c ''ESCALATE'') (\<lambda>_.
     op_bind (record_transition PS_FAILED) (\<lambda>_.
       op_return \<lparr>rr_state = PS_FAILED, rr_verdict = V_BLOCKED, rr_text = PlanningFailed c, rr_tasks_total = 0,
         rr_tasks_succeeded = 0, rr_tasks_failed = 0, rr_agent_runs = 0, rr_model_calls = 0, rr_repairs = 0,
         rr_changed_files = [], rr_failure_category = Some c\<rparr>))"

definition initial_run_vars :: run_vars where
  "initial_run_vars = \<lparr>rv_changed = [], rv_repairs = 0, rv_last_failure = None, rv_aborted = None,
     rv_abort_category = None\<rparr>"

definition run_tasks :: "loop_settings \<Rightarrow> 'w agents \<Rightarrow> task list \<Rightarrow> ('w, run_result) op" where
  "run_tasks st ag tasks =
     op_bind (op_lift (res_bind (task_graph tasks) refresh)) (\<lambda>g0.
     op_bind (op_modify (\<lambda>s. s\<lparr>o_run_budget :=
       max (ls_max_total_agent_runs st) (length tasks * ls_agent_runs_per_task st)\<rparr>)) (\<lambda>_.
     op_bind (run_loop st ag g0 initial_run_vars) (\<lambda>(g, v).
     op_bind (gate_verdict st ag tasks g v) (\<lambda>gv.
     op_bind (exercised_verdict ag gv) (conclude tasks g v)))))"

definition run :: "loop_settings \<Rightarrow> 'w agents \<Rightarrow> ('w, run_result) op" where
  "run st ag =
     op_bind (op_modify (\<lambda>s. s\<lparr>o_baseline := ag_baseline ag (o_world s)\<rparr>)) (\<lambda>_.
     op_bind (plan_tasks st ag) (\<lambda>plan.
       case plan of Inl c \<Rightarrow> planning_failed c | Inr tasks \<Rightarrow> run_tasks st ag tasks))"

end
