(* ===== verification/Orchestrator_Correct.thy ===== *)
theory Orchestrator_Correct
  imports Orchestrator Allowance
begin

text \<open>
  What the autonomous loop guarantees, for every agent, shell and project: it always ends in
  a terminal state by legal moves, releases only verified work, and stays within its budgets.
  The proofs use the weakest precondition \<open>wp\<close> of an operation: it succeeds, and its result
  and state satisfy the postcondition.
\<close>

named_theorems wp_rules \<open>weakest preconditions of the operations\<close>

section \<open>Weakest preconditions\<close>

definition wp :: "('w, 'a) op \<Rightarrow> ('a \<Rightarrow> 'w orch \<Rightarrow> bool) \<Rightarrow> 'w orch \<Rightarrow> bool" where
  "wp m Q s = (case m s of (Inl e, s') \<Rightarrow> False | (Inr x, s') \<Rightarrow> Q x s')"

lemma wpI: "m s = (Inr x, s') \<Longrightarrow> Q x s' \<Longrightarrow> wp m Q s"
  by (simp add: wp_def)

lemma wpE: "wp m Q s \<Longrightarrow> (\<And>x s'. m s = (Inr x, s') \<Longrightarrow> Q x s' \<Longrightarrow> thesis) \<Longrightarrow> thesis"
  by (auto simp: wp_def split: prod.splits sum.splits)

lemma wp_mono: "wp m Q s \<Longrightarrow> (\<And>x s'. Q x s' \<Longrightarrow> R x s') \<Longrightarrow> wp m R s"
  by (auto simp: wp_def split: prod.splits sum.splits)

lemma wp_result: "wp m Q s \<Longrightarrow> (\<And>x s'. m s = (Inr x, s') \<Longrightarrow> R x) \<Longrightarrow> wp m (\<lambda>x s'. Q x s' \<and> R x) s"
  by (auto simp: wp_def split: prod.splits sum.splits)

lemma wp_bind [wp_rules]: "wp (op_bind m f) Q s = wp m (\<lambda>x. wp (f x) Q) s"
  by (simp add: wp_def op_bind_def split: prod.splits sum.splits)

lemma wp_return [wp_rules]: "wp (op_return x) Q s = Q x s"
  by (simp add: wp_def op_return_def)

lemma wp_modify [wp_rules]: "wp (op_modify f) Q s = Q () (f s)"
  by (simp add: wp_def op_modify_def)

lemma wp_get [wp_rules]: "wp (op_get f) Q s = Q (f s) s"
  by (simp add: wp_def op_get_def)

lemma wp_world [wp_rules]: "wp (op_world f) Q s = (case f (o_world s) of (x, w) \<Rightarrow> Q x (s\<lparr>o_world := w\<rparr>))"
  by (simp add: wp_def op_world_def split: prod.splits)

lemma wp_lift [wp_rules]: "wp (op_lift r) Q s = (case r of Inl e \<Rightarrow> False | Inr x \<Rightarrow> Q x s)"
  by (simp add: wp_def op_lift_def split: sum.splits)

lemma wp_transition [wp_rules]:
  "wp (record_transition target) Q s \<longleftrightarrow>
     project_can_transition (ex_state (o_execution s)) target \<and>
     Q () (s\<lparr>o_execution := (o_execution s)\<lparr>ex_state := target\<rparr>, o_transitions := o_transitions s @ [target]\<rparr>)"
  by (simp add: wp_def record_transition_def execution_transition_to_def)

lemma wp_failure [wp_rules]:
  "wp (record_failure t c a) Q s =
     Q () (s\<lparr>o_failures := o_failures s @ [\<lparr>fe_task = t, fe_category = c, fe_action = a\<rparr>]\<rparr>)"
  by (simp add: record_failure_def wp_modify)

lemma wp_call [wp_rules]:
  "wp (call_agent f) Q s =
     (case f (o_world s) of (x, w) \<Rightarrow>
        Q x (s\<lparr>o_model_calls := o_model_calls s + 1, o_world := w, o_runs := o_runs s + 1\<rparr>))"
  by (simp add: call_agent_def wp_rules split: prod.splits)

lemma wp_if [wp_rules]: "wp (if b then m else n) Q s = (if b then wp m Q s else wp n Q s)"
  by simp

section \<open>An attempt\<close>

abbreviation state_of :: "'w orch \<Rightarrow> project_state" where
  "state_of s \<equiv> ex_state (o_execution s)"

text \<open>The states between two attempts.\<close>

definition between :: "project_state set" where
  "between = {PLANNING, IMPLEMENTATION, REVIEW, REPAIRING}"

lemma can_moves [simp]:
  "p \<in> between \<Longrightarrow> project_can_transition p IMPLEMENTATION"
  "project_can_transition IMPLEMENTATION VERIFICATION" "project_can_transition VERIFICATION REVIEW"
  "project_can_transition REVIEW REPAIRING" "project_can_transition VERIFICATION REPAIRING"
  "project_can_transition REPAIRING IMPLEMENTATION" "project_can_transition REVIEW RELEASE"
  "p \<in> between \<Longrightarrow> project_can_transition p PS_FAILED" "project_can_transition VERIFICATION PS_FAILED"
  "p \<in> between \<Longrightarrow> p \<noteq> PLANNING \<Longrightarrow> project_can_transition p VERIFICATION"
  "IMPLEMENTATION \<in> between" "REVIEW \<in> between" "REPAIRING \<in> between" "PLANNING \<in> between"
  by (auto simp: between_def project_can_transition_def project_terminal_def)

text \<open>What the counters may do: at most so many agent runs, and repairs only up to the ceiling.
  The baseline of the integrity check stays.\<close>

definition spends :: "loop_settings \<Rightarrow> nat \<Rightarrow> nat \<Rightarrow> 'w orch \<Rightarrow> 'w orch \<Rightarrow> bool" where
  "spends st runs repairs s s' \<longleftrightarrow>
     o_baseline s' = o_baseline s \<and> o_runs s \<le> o_runs s' \<and> o_runs s' \<le> o_runs s + runs \<and>
     o_run_repairs s' = o_run_repairs s + repairs \<and>
     (repairs \<noteq> 0 \<longrightarrow> o_run_repairs s' \<le> ls_max_total_repairs st)"

lemma spends_refl [simp]: "spends st n 0 s s"
  by (simp add: spends_def)

lemma spends_trans:
  "spends st m i s s' \<Longrightarrow> spends st n j s' s'' \<Longrightarrow> spends st (m + n) (i + j) s s''"
  by (cases "j = 0") (auto simp: spends_def)

fun result_repairs :: "attempt_result \<Rightarrow> nat" where
  "result_repairs (Finished out) = to_repairs out"
| "result_repairs (GaveUp l) = av_repairs l"
| "result_repairs (TryAgain l) = av_repairs l"

lemma result_repairs_if:
  "result_repairs (if b then r else r') = (if b then result_repairs r else result_repairs r')"
  by simp

lemma repairs_outcome_of [simp]: "to_repairs (outcome_of v l) = av_repairs l"
  "to_verdict (outcome_of v l) = v" "to_changed_files (outcome_of v l) = av_changed l"
  by (simp_all add: outcome_of_def)

lemma coder_failed_spec:
  "wp (coder_failed t l f) (\<lambda>r s'. o_execution s' = o_execution s \<and> spends st 0 0 s s' \<and>
     result_repairs r = av_repairs l) s"
  by (auto simp: coder_failed_def Let_def wp_rules spends_def)

lemma repair_guidance_spec:
  assumes "state_of s = REVIEW"
  shows "wp (repair_guidance st ag t l action report out) (\<lambda>l' s'. state_of s' \<in> {REVIEW, REPAIRING} \<and>
     av_repairs l \<le> av_repairs l' \<and> spends st 1 (av_repairs l' - av_repairs l) s s' \<and>
     av_repairs l' \<le> max (av_repairs l) (ls_max_repair_attempts st)) s"
proof (cases "action = REPAIR \<and> av_repairs l < ls_max_repair_attempts st \<and> o_run_repairs s < ls_max_total_repairs st")
  case True
  then have "repair_guidance st ag t l action report out s =
      op_bind (diagnose_task ag t report (Some out)) (\<lambda>d.
           op_bind (op_modify (\<lambda>s. s\<lparr>o_run_repairs := o_run_repairs s + 1\<rparr>)) (\<lambda>_.
             op_return (l\<lparr>av_repairs := av_repairs l + 1,
                          av_guidance := (case d of None \<Rightarrow> [] | Some g \<Rightarrow> g)\<rparr>))) s"
    by (simp add: repair_guidance_def)
  then have "wp (repair_guidance st ag t l action report out) Q s = wp (op_bind (diagnose_task ag t report (Some out)) (\<lambda>d.
           op_bind (op_modify (\<lambda>s. s\<lparr>o_run_repairs := o_run_repairs s + 1\<rparr>)) (\<lambda>_.
             op_return (l\<lparr>av_repairs := av_repairs l + 1,
                          av_guidance := (case d of None \<Rightarrow> [] | Some g \<Rightarrow> g)\<rparr>)))) Q s" for Q
    by (simp add: wp_def)
  then show ?thesis
    using True assms by (auto simp: wp_rules diagnose_task_def spends_def split: prod.splits)
next
  case False
  then have "repair_guidance st ag t l action report out s = op_return (l\<lparr>av_guidance := []\<rparr>) s"
    by (auto simp: repair_guidance_def)
  then have "wp (repair_guidance st ag t l action report out) Q s = wp (op_return (l\<lparr>av_guidance := []\<rparr>)) Q s" for Q
    by (simp add: wp_def)
  then show ?thesis using assms by (simp add: wp_rules)
qed

definition attempt_post :: "loop_settings \<Rightarrow> nat \<Rightarrow> attempt_vars \<Rightarrow> 'w orch \<Rightarrow> attempt_result \<Rightarrow> 'w orch \<Rightarrow> bool" where
  "attempt_post st runs l s r s' \<longleftrightarrow>
     state_of s' \<in> between - {PLANNING} \<and> av_repairs l \<le> result_repairs r \<and>
     result_repairs r \<le> max (av_repairs l) (ls_max_repair_attempts st) \<and>
     spends st runs (result_repairs r - av_repairs l) s s'"

lemma attempt_post_vars [simp]:
  "attempt_post st n (l\<lparr>av_reason := r\<rparr>) = attempt_post st n l"
  "attempt_post st n (l\<lparr>av_category := c\<rparr>) = attempt_post st n l"
  "attempt_post st n (l\<lparr>av_changed := ch\<rparr>) = attempt_post st n l"
  by (simp_all add: attempt_post_def fun_eq_iff)

lemma attempt_post_finished:
  "state_of s' \<in> between - {PLANNING} \<Longrightarrow> o_baseline s' = o_baseline s \<Longrightarrow> o_runs s' = o_runs s \<Longrightarrow>
     o_run_repairs s' = o_run_repairs s \<Longrightarrow>
     result_repairs r = av_repairs l \<Longrightarrow> attempt_post st n l s r s'"
  by (simp add: attempt_post_def spends_def)

lemma wp_after_failure:
  "\<not> b \<Longrightarrow> \<not> c \<Longrightarrow>
     wp m Q (s\<lparr>o_failures := o_failures s @ [\<lparr>fe_task = t, fe_category = k, fe_action = a\<rparr>]\<rparr>) \<Longrightarrow>
     wp (if b then m' else op_bind (record_failure t k a) (\<lambda>_. if c then m'' else m)) Q s"
  by (simp add: wp_bind wp_failure)

lemma attempt_not_passed_spec:
  assumes "state_of s = REVIEW"
  shows "wp (attempt_not_passed st ag t l reason report out) (attempt_post st 1 l s) s"
proof -
  define cat where "cat = (case report_failure_category report of None \<Rightarrow> REQUIREMENT_FAILURE | Some c \<Rightarrow> c)"
  define action where "action = decide (Some cat) (nat (t_attempts t)) (nat (t_max_attempts t))"
  define l' where "l' = l\<lparr>av_reason := reason, av_category := Some cat\<rparr>"
  define s1 where "s1 = s\<lparr>o_failures := o_failures s @
      [\<lparr>fe_task = Some (t_id t), fe_category = cat, fe_action = str_action action\<rparr>]\<rparr>"
  have same: "attempt_post st 1 l' = attempt_post st 1 l" by (simp add: l'_def)
  have review: "state_of s1 = REVIEW" using assms by (simp add: s1_def)
  have repaired: "wp (op_bind (repair_guidance st ag t l' action report out) (\<lambda>l''.
      op_bind (op_get (budget_spent st)) (\<lambda>spent.
               op_return (let l3 = l''\<lparr>av_evidence := Some (report, co_remaining_concerns out)\<rparr> in
                          if spent then GaveUp (l3\<lparr>av_reason := RunBudgetExhausted\<rparr>) else TryAgain l3))))
        (attempt_post st 1 l s) s1"
    unfolding same [symmetric] wp_bind [of "repair_guidance st ag t l' action report out"]
    by (rule wp_mono [OF repair_guidance_spec [OF review]])
      (auto simp: wp_rules Let_def attempt_post_def spends_def between_def s1_def)
  have closed: "attempt_post st 1 l s r s1" if "result_repairs r = av_repairs l'" for r
    using that review unfolding same [symmetric]
    by (intro attempt_post_finished) (simp_all add: s1_def)
  note folds = cat_def [symmetric] action_def [symmetric] l'_def [symmetric]
  show ?thesis
  proof (cases "is_security_failure (Some cat)")
    case True
    then show ?thesis
      unfolding attempt_not_passed_def Let_def folds using assms
      by (auto simp: wp_rules l'_def intro!: attempt_post_finished)
  next
    case False
    show ?thesis
    proof (cases "action \<in> {ESCALATE, ABORT}")
      case True
      then show ?thesis
        unfolding attempt_not_passed_def Let_def folds using False closed [of "GaveUp l'"]
        by (simp add: wp_rules s1_def)
    next
      case repair: False
      then show ?thesis
        unfolding attempt_not_passed_def folds Let_def [of cat] Let_def [of l'] Let_def [of action]
        using False by (intro wp_after_failure) (use repaired in \<open>simp_all add: s1_def\<close>)
    qed
  qed
qed

lemma wp_enter_attempt:
  "project_can_transition (state_of s) IMPLEMENTATION \<Longrightarrow> f (o_world s) = (x, w) \<Longrightarrow>
     wp (k x) Q (s\<lparr>o_execution := (o_execution s)\<lparr>ex_state := IMPLEMENTATION\<rparr>,
        o_transitions := o_transitions s @ [IMPLEMENTATION], o_model_calls := o_model_calls s + 1,
        o_world := w, o_runs := o_runs s + 1\<rparr>) \<Longrightarrow>
     wp (op_bind (record_transition IMPLEMENTATION) (\<lambda>_. op_bind (call_agent f) k)) Q s"
  by (simp add: wp_rules)

lemma attempt_once_spec:
  assumes "state_of s \<in> between"
  shows "wp (attempt_once st ag t l) (attempt_post st 3 l s) s"
proof -
  define enter where "enter = s\<lparr>o_execution := (o_execution s)\<lparr>ex_state := IMPLEMENTATION\<rparr>,
      o_transitions := o_transitions s @ [IMPLEMENTATION]\<rparr>"
  obtain resp w where code: "ag_code ag (scoped_permissions coder_permissions t) t (av_evidence l) (av_guidance l) (o_world s) = (resp, w)"
    by fastforce
  define s1 where "s1 = enter\<lparr>o_model_calls := o_model_calls s + 1, o_world := w, o_runs := o_runs s + 1\<rparr>"
  have s1: "state_of s1 = IMPLEMENTATION" "spends st 1 0 s s1"
    by (simp_all add: s1_def enter_def spends_def)
  show ?thesis
  proof (cases resp)
    case (Inl f)
    have "wp (coder_failed t l f) (attempt_post st 3 l s) s1"
      by (rule wp_mono [OF coder_failed_spec [where t = t and l = l and f = f and st = st and s = s1]])
        (use s1 in \<open>auto simp: attempt_post_def spends_def between_def\<close>)
    then show ?thesis
      unfolding attempt_once_def implement_task_def using assms code Inl
      by (simp add: wp_rules s1_def enter_def)
  next
    case (Inr out)
    define l' where "l' = l\<lparr>av_changed := sorted_set (av_changed l @ co_changed_files out)\<rparr>"
    have np: "wp (attempt_not_passed st ag t l' reason report out) (attempt_post st 3 l s) s2"
      if "state_of s2 = REVIEW" "spends st 2 0 s s2" for reason report s2
    proof (rule wp_mono [OF attempt_not_passed_spec [OF that(1)]])
      fix r s' assume "attempt_post st 1 l' s2 r s'"
      then have "attempt_post st 1 l s2 r s'" by (simp add: l'_def)
      then show "attempt_post st 3 l s r s'"
        using spends_trans [OF that(2), of 1 "result_repairs r - av_repairs l" s'] by (simp add: attempt_post_def)
    qed
    have done_ok: "attempt_post st 3 l s (Finished out') s2"
      if "state_of s2 = REVIEW" "spends st 2 0 s s2" "to_repairs out' = av_repairs l" for out' s2
      using that by (auto simp: attempt_post_def spends_def)
    have rest: "wp (op_bind (if co_rejected_files out = [] then op_return ()
                     else record_failure (Some (t_id t)) SECURITY_FAILURE ''REPORTED'') (\<lambda>_.
            op_bind (verify_task st ag t) (\<lambda>report.
            op_bind (op_get (check_execution_integrity ag)) (\<lambda>integrity.
            op_bind (judge_task ag t out report integrity) (\<lambda>critic.
            (let adj = adjudicate critic report (co_changed_files out \<noteq> []) (Some integrity) in
             if fst adj = V_PASS
             then op_bind (op_get (unexercised ag (av_changed l'))) (\<lambda>un.
                    case un of
                      None \<Rightarrow> op_return (Finished (\<lparr>to_verdict = V_PASS, to_reason = Adjudicated (snd adj),
                                to_changed_files = av_changed l', to_repairs = av_repairs l',
                                to_failure_category = None\<rparr>))
                    | Some modules \<Rightarrow> attempt_not_passed st ag t l' (NeverImported modules) report out)
             else attempt_not_passed st ag t l' (Adjudicated (snd adj)) report out)))))) (attempt_post st 3 l s) s1"
      unfolding Let_def verify_task_def judge_task_def
      using s1 by (auto simp: wp_rules spends_def l'_def intro!: np [unfolded l'_def] done_ok split: prod.splits option.splits)
    show ?thesis
      unfolding attempt_once_def implement_task_def
    proof (rule wp_enter_attempt)
      show "project_can_transition (state_of s) IMPLEMENTATION" using assms by simp
      show "ag_code ag (scoped_permissions coder_permissions t) t (av_evidence l) (av_guidance l) (o_world s) = (resp, w)"
        by (rule code)
    qed (use rest in \<open>simp only: Inr sum.case l'_def Let_def s1_def enter_def\<close>)
  qed
qed

section \<open>A task\<close>

definition task_post :: "loop_settings \<Rightarrow> nat \<Rightarrow> attempt_vars \<Rightarrow> 'w orch \<Rightarrow> task_outcome \<Rightarrow> 'w orch \<Rightarrow> bool" where
  "task_post st runs l s out s' \<longleftrightarrow>
     state_of s' \<in> between \<and>
     (to_verdict out = V_PASS \<or> to_changed_files out \<noteq> [] \<or> state_of s \<noteq> PLANNING \<longrightarrow> state_of s' \<noteq> PLANNING) \<and>
     av_repairs l \<le> to_repairs out \<and> to_repairs out \<le> max (av_repairs l) (ls_max_repair_attempts st) \<and>
     spends st runs (to_repairs out - av_repairs l) s s'"

lemma task_post_attempt:
  "attempt_post st n l s r s' \<Longrightarrow> result_repairs r = to_repairs out \<Longrightarrow> task_post st n l s out s'"
  by (simp add: attempt_post_def task_post_def)

lemma task_post_again:
  assumes "attempt_post st m l s (TryAgain l') s1" "task_post st n l' s1 out s'"
  shows "task_post st (m + n) l s out s'"
proof -
  have "av_repairs l \<le> av_repairs l'" "av_repairs l' \<le> to_repairs out"
    using assms by (simp_all add: attempt_post_def task_post_def)
  then have "av_repairs l' - av_repairs l + (to_repairs out - av_repairs l') = to_repairs out - av_repairs l" by simp
  with assms spends_trans [of st m "av_repairs l' - av_repairs l" s s1 n "to_repairs out - av_repairs l'" s']
  show ?thesis by (auto simp: attempt_post_def task_post_def)
qed

lemma run_attempts_spec:
  "state_of s \<in> between \<Longrightarrow> av_changed l \<noteq> [] \<longrightarrow> state_of s \<noteq> PLANNING \<Longrightarrow>
     wp (run_attempts st ag t l) (\<lambda>(out, t') s'. task_post st (3 * nat (t_max_attempts t - t_attempts t)) l s out s') s"
proof (induction st ag t l s rule: run_attempts.induct)
  case (1 st ag t l s)
  let ?t = "t\<lparr>t_attempts := t_attempts t + 1\<rparr>"
  show ?case
  proof (cases "t_attempts t < t_max_attempts t")
    case False
    then have "run_attempts st ag t l s = (Inr (outcome_of V_FAIL l, t), s)"
      by (subst run_attempts.simps) simp
    with "1.prems" show ?thesis by (intro wpI) (auto simp: task_post_def)
  next
    case True
    then have left: "nat (t_max_attempts t - t_attempts t) = Suc (nat (t_max_attempts ?t - t_attempts ?t))" by simp
    obtain r s1 where r: "attempt_once st ag ?t l s = (Inr r, s1)" and post: "attempt_post st 3 l s r s1"
      using attempt_once_spec [OF "1.prems"(1), of st ag ?t l] by (rule wpE)
    have stop: "task_post st (3 * nat (t_max_attempts t - t_attempts t)) l s out s1" if "result_repairs r = to_repairs out" for out
    proof -
      have "task_post st 3 l s out s1" by (rule task_post_attempt [OF post that])
      then show ?thesis unfolding left by (auto simp: task_post_def spends_def)
    qed
    show ?thesis
    proof (cases r)
      case (Finished out)
      then have "run_attempts st ag t l s = (Inr (out, ?t), s1)"
        using True r by (subst run_attempts.simps) (simp add: Let_def)
      with stop [of out] Finished show ?thesis by (intro wpI) auto
    next
      case (GaveUp l')
      then have "run_attempts st ag t l s = (Inr (outcome_of V_FAIL l', ?t), s1)"
        using True r by (subst run_attempts.simps) (simp add: Let_def)
      with stop [of "outcome_of V_FAIL l'"] GaveUp show ?thesis by (intro wpI) auto
    next
      case (TryAgain l')
      then have eq: "run_attempts st ag t l s = run_attempts st ag ?t l' s1"
        using True r by (subst run_attempts.simps) (simp add: Let_def)
      have "state_of s1 \<in> between" "state_of s1 \<noteq> PLANNING" using post by (simp_all add: attempt_post_def)
      with "1.IH" [OF True refl r [symmetric] refl TryAgain]
      have "wp (run_attempts st ag ?t l') (\<lambda>(out, t') s'. task_post st (3 * nat (t_max_attempts ?t - t_attempts ?t)) l' s1 out s') s1"
        by simp
      then have "wp (run_attempts st ag ?t l')
          (\<lambda>(out, t') s'. task_post st (3 + 3 * nat (t_max_attempts ?t - t_attempts ?t)) l s out s') s1"
        by (rule wp_mono) (use post TryAgain in \<open>auto intro: task_post_again\<close>)
      then have "wp (run_attempts st ag ?t l')
          (\<lambda>(out, t') s'. task_post st (3 * nat (t_max_attempts t - t_attempts t)) l s out s') s1"
        unfolding left by simp
      then show ?thesis unfolding wp_def eq .
    qed
  qed
qed

lemma run_task_spec:
  assumes "state_of s \<in> between"
  shows "wp (run_task st ag t) (\<lambda>(out, t') s'.
     task_post st (3 * nat (t_max_attempts t - t_attempts t)) initial_vars s out s' \<and>
     (\<exists>k. t' = t\<lparr>t_attempts := k\<rparr> \<and> k \<le> max (t_attempts t) (t_max_attempts t))) s"
proof -
  have "wp (run_attempts st ag t initial_vars)
      (\<lambda>(out, t') s'. task_post st (3 * nat (t_max_attempts t - t_attempts t)) initial_vars s out s') s"
    by (rule run_attempts_spec [OF assms]) (simp add: initial_vars_def)
  then have "wp (run_attempts st ag t initial_vars) (\<lambda>r s'.
      (case r of (out, t') \<Rightarrow> task_post st (3 * nat (t_max_attempts t - t_attempts t)) initial_vars s out s') \<and>
      (\<exists>k. snd r = t\<lparr>t_attempts := k\<rparr> \<and> k \<le> max (t_attempts t) (t_max_attempts t))) s"
    by (intro wp_result) (auto dest!: run_attempts_task elim: wp_mono)
  then show ?thesis unfolding run_task_def by (rule wp_mono) auto
qed

section \<open>The final gate\<close>

text \<open>The project as it is now has just been verified and reviewed, with its tests intact.\<close>

definition verified_now :: "loop_settings \<Rightarrow> 'w agents \<Rightarrow> task \<Rightarrow> 'w orch \<Rightarrow> bool" where
  "verified_now st ag anchor s \<longleftrightarrow>
     (\<exists>w os. run_all (ls_profile st) (ag_local_modules ag w) (ag_shell ag) (task_requirements anchor) w =
        (os, o_world s) \<and> report_passed os) \<and>
     \<not> tampered (check_execution_integrity ag s) \<and>
     (\<exists>ts. o_transitions s = ts @ [VERIFICATION, REVIEW])"

definition gate_post :: "loop_settings \<Rightarrow> 'w agents \<Rightarrow> task \<Rightarrow> nat \<Rightarrow> nat \<Rightarrow> 'w orch \<Rightarrow> gate_result \<Rightarrow> 'w orch \<Rightarrow> bool" where
  "gate_post st ag anchor runs repairs s r s' \<longleftrightarrow>
     state_of s' \<in> {VERIFICATION, REVIEW} \<and> gr_verdict r \<in> {V_PASS, V_FAIL} \<and>
     (gr_verdict r = V_PASS \<longrightarrow> state_of s' = REVIEW \<and> verified_now st ag anchor s') \<and>
     gr_repairs r \<le> repairs \<and> spends st runs 0 s s'"

lemma gate_repair_spec:
  assumes "state_of s = VERIFICATION" "repairs < ls_max_repair_attempts st"
  shows "wp (gate_repair st ag anchor repairs report changed) (\<lambda>r s'. case r of
      GateDone g \<Rightarrow> gate_post st ag anchor 2 (ls_max_repair_attempts st) s g s'
    | GateAgain report' changed' \<Rightarrow> state_of s' = VERIFICATION \<and> spends st 2 0 s s') s"
  unfolding gate_repair_def diagnose_task_def implement_task_def verify_task_def Let_def
  using assms
  by (auto simp: wp_rules gate_post_def spends_def verified_now_def check_execution_integrity_def
      split: prod.splits intro: exI)

lemma gate_loop_spec:
  "state_of s = VERIFICATION \<Longrightarrow> repairs \<le> ls_max_repair_attempts st \<Longrightarrow>
     wp (gate_loop st ag anchor repairs report changed)
       (gate_post st ag anchor (2 * (ls_max_repair_attempts st - repairs)) (ls_max_repair_attempts st) s) s"
proof (induction st ag anchor repairs report changed s rule: gate_loop.induct)
  case (1 st ag anchor repairs report changed s)
  show ?case
  proof (cases "repairs < ls_max_repair_attempts st \<and> \<not> budget_spent st s")
    case False
    then obtain why where eq: "gate_loop st ag anchor repairs report changed s =
        (Inr (mk_gate_result V_FAIL why repairs changed), s)"
      by (cases "repairs < ls_max_repair_attempts st") (auto simp: gate_loop.simps [of st ag anchor repairs])
    show ?thesis unfolding wp_def eq using "1.prems" by (simp add: gate_post_def)
  next
    case True
    then have left: "2 + 2 * (ls_max_repair_attempts st - Suc repairs) = 2 * (ls_max_repair_attempts st - repairs)"
      by (elim conjE) arith
    obtain r s1 where r: "gate_repair st ag anchor repairs report changed s = (Inr r, s1)" and post: "case r of
      GateDone g \<Rightarrow> gate_post st ag anchor 2 (ls_max_repair_attempts st) s g s1
    | GateAgain report' changed' \<Rightarrow> state_of s1 = VERIFICATION \<and> spends st 2 0 s s1"
      using gate_repair_spec [OF "1.prems"(1), of repairs st ag anchor report changed] True by (auto elim: wpE)
    show ?thesis
    proof (cases r)
      case (GateDone g)
      then have "gate_loop st ag anchor repairs report changed s = (Inr g, s1)"
        using True r by (subst gate_loop.simps) simp
      moreover have "gate_post st ag anchor (2 * (ls_max_repair_attempts st - repairs)) (ls_max_repair_attempts st) s g s1"
        using post GateDone unfolding left [symmetric] by (simp add: gate_post_def spends_def)
      ultimately show ?thesis by (rule wpI)
    next
      case (GateAgain report' changed')
      then have eq: "gate_loop st ag anchor repairs report changed s = gate_loop st ag anchor (repairs + 1) report' changed' s1"
        using True r by (subst gate_loop.simps) simp
      have s1: "state_of s1 = VERIFICATION" "spends st 2 0 s s1" using post GateAgain by simp_all
      have "wp (gate_loop st ag anchor (repairs + 1) report' changed')
        (gate_post st ag anchor (2 * (ls_max_repair_attempts st - (repairs + 1))) (ls_max_repair_attempts st) s1) s1"
        using "1.IH" [OF _ _ r [symmetric] refl GateAgain s1(1)] True by simp
      then have "wp (gate_loop st ag anchor (repairs + 1) report' changed')
        (gate_post st ag anchor (2 * (ls_max_repair_attempts st - repairs)) (ls_max_repair_attempts st) s) s1"
        by (rule wp_mono) (use s1(2) left in \<open>auto simp: gate_post_def spends_def\<close>)
      then show ?thesis unfolding wp_def eq .
    qed
  qed
qed

lemma final_gate_spec:
  assumes "state_of s \<in> between - {PLANNING}"
  shows "wp (final_gate st ag anchor changed)
    (gate_post st ag anchor (2 * ls_max_repair_attempts st) (ls_max_repair_attempts st) s) s"
proof -
  define s1 where "s1 = (\<lambda>w. s\<lparr>o_execution := (o_execution s)\<lparr>ex_state := VERIFICATION\<rparr>,
      o_transitions := o_transitions s @ [VERIFICATION], o_world := w\<rparr>)"
  have loop: "wp (gate_loop st ag anchor 0 report changed)
    (gate_post st ag anchor (2 * ls_max_repair_attempts st) (ls_max_repair_attempts st) s) (s1 w)" for report w
    using gate_loop_spec [of "s1 w" 0 st ag anchor report changed]
    by (rule wp_mono) (auto simp: s1_def gate_post_def spends_def)
  show ?thesis
    unfolding final_gate_def verify_task_def using assms loop
    by (auto simp: wp_rules s1_def gate_post_def spends_def verified_now_def check_execution_integrity_def
        split: prod.splits intro: exI)
qed

section \<open>The run\<close>

definition attempts_left :: "task \<Rightarrow> nat" where
  "attempts_left t = 3 * nat (t_max_attempts t - t_attempts t)"

lemma attempts_left_free [simp]: "status_free attempts_left"
  by (simp add: status_free_def attempts_left_def)

definition some_unlocking :: "graph \<Rightarrow> bool" where
  "some_unlocking g \<longleftrightarrow> (\<exists>t \<in> set g. unlocking (t_status t))"

lemma some_unlocking_put: "some_unlocking (put_task g u) \<Longrightarrow> some_unlocking g \<or> unlocking (t_status u)"
  using set_put_task_subset [of g u] by (auto simp: some_unlocking_def)

lemma refresh_unlocking:
  assumes "wf_graph g" "refresh g = Inr g'" "some_unlocking g'"
  shows "some_unlocking g"
proof -
  have step: "some_unlocking h \<Longrightarrow> some_unlocking f" if "refresh_step f h" for f h
    using that by (induction rule: refresh_step.induct) (auto dest: some_unlocking_put simp: unlocking_def)
  show ?thesis
    using refresh_steps [OF assms(1,2)] assms(3) by (induction rule: converse_rtranclp_induct) (auto dest: step)
qed

text \<open>The tasks of a graph and what each must be verified by.\<close>

definition kept :: "graph \<Rightarrow> graph \<Rightarrow> bool" where
  "kept g h \<longleftrightarrow> map (\<lambda>t. (t_id t, t_verification t)) g = map (\<lambda>t. (t_id t, t_verification t)) h"

lemma kept_refl [simp]: "kept g g"
  and kept_trans: "kept g h \<Longrightarrow> kept h k \<Longrightarrow> kept g k"
  by (simp_all add: kept_def)

lemma kept_put:
  "find_task g (t_id u) = Some t \<Longrightarrow> t_verification u = t_verification t \<Longrightarrow> kept g (put_task g u)"
  by (induction g) (auto simp: kept_def split: if_splits)

lemma kept_status: "find_task g x = Some t \<Longrightarrow> kept g (put_task g (t\<lparr>t_status := s\<rparr>))"
  using kept_put [of g "t\<lparr>t_status := s\<rparr>" t] find_task_Some [of g x t] by simp

lemma kept_refresh:
  assumes "wf_graph g" "refresh g = Inr g'"
  shows "kept g g'"
proof -
  have step: "kept f h" if "refresh_step f h" for f h
    using that by (induction rule: refresh_step.induct) (auto intro: kept_status)
  show ?thesis
    using refresh_steps [OF assms] by (induction rule: rtranclp_induct) (auto intro: kept_trans step)
qed

lemma kept_find: "kept g h \<Longrightarrow> find_task g x = Some t \<Longrightarrow>
    \<exists>u. find_task h x = Some u \<and> t_verification u = t_verification t"
proof (induction g arbitrary: h)
  case (Cons a g)
  then show ?case by (cases h) (auto simp: kept_def split: if_splits)
qed simp

lemma finish_total:
  assumes "wf_graph g" "find_task g x = Some t" "t_status t = TS_RUNNING"
    and "s \<in> {TS_SUCCEEDED, TS_DEFERRED, TS_FAILED}" "keeps_task nt"
  shows "\<exists>g'. finish s nt g x = Inr g' \<and> wf_graph g' \<and> kept g g' \<and>
    (some_unlocking g' \<longrightarrow> some_unlocking g \<or> unlocking s)"
proof -
  let ?u = "nt (t\<lparr>t_status := s\<rparr>)"
  have id: "t_id ?u = x" "t_status ?u = s" using assms(5) find_task_Some [OF assms(2)] by (simp_all add: keeps_task_def)
  have tr: "transition_to t s = Inr (t\<lparr>t_status := s\<rparr>)"
    using assms(3,4) by (auto simp: transition_to_Inr task_can_transition_def)
  have sp: "same_plan g (put_task g ?u)"
    using assms(2,5) id by (intro same_plan_put [of g ?u t]) (simp_all add: keeps_task_def)
  then have wf: "wf_graph (put_task g ?u)" using assms(1) same_plan_wf by blast
  obtain g' where r: "refresh (put_task g ?u) = Inr g'" using refresh_total [OF wf] by blast
  have sp': "same_plan (put_task g ?u) g'" by (rule refresh_same_plan [OF wf r])
  have "finish s nt g x = Inr g'" using assms(2) tr r by (simp add: finish_def get_task_def)
  moreover have "wf_graph g'" using same_plan_wf [OF sp'] wf by simp
  moreover have "kept g (put_task g ?u)"
    using assms(2,5) id by (intro kept_put [of g ?u t]) (simp_all add: keeps_task_def)
  then have "kept g g'" using kept_refresh [OF wf r] by (rule kept_trans)
  moreover have "some_unlocking g' \<longrightarrow> some_unlocking g \<or> unlocking s"
    using refresh_unlocking [OF wf r] some_unlocking_put [of g ?u] unfolding id by blast
  ultimately show ?thesis by blast
qed

lemma settle_task_total:
  assumes "wf_graph g" "find_task g (t_id t) = Some u" "t_status u = TS_RUNNING"
  shows "\<exists>r. settle_task g v t out = Inr r"
proof -
  have "\<exists>g'. finish s nt g (t_id t) = Inr g'"
    if "s \<in> {TS_SUCCEEDED, TS_DEFERRED, TS_FAILED}" "keeps_task nt" for s nt
    using finish_total [OF assms that] by blast
  from this [OF _ notes_keep(1)] this [OF _ notes_keep(2)] this [OF _ notes_keep(3)] show ?thesis
    unfolding settle_task_def Let_def marks_finish by (fastforce simp: res_bind_Inr_iff)
qed

definition loop_inv :: "graph \<Rightarrow> 'w orch \<Rightarrow> bool" where
  "loop_inv g s \<longleftrightarrow> wf_graph g \<and> state_of s \<in> between \<and> (some_unlocking g \<longrightarrow> state_of s \<noteq> PLANNING)"

definition next_post :: "loop_settings \<Rightarrow> graph \<Rightarrow> run_vars \<Rightarrow> 'w orch \<Rightarrow> graph \<Rightarrow> run_vars \<Rightarrow> 'w orch \<Rightarrow> bool" where
  "next_post st g v s g' v' s' \<longleftrightarrow>
     loop_inv g' s' \<and> kept g g' \<and> rv_repairs v \<le> rv_repairs v' \<and>
     (\<exists>n. n + open_sum attempts_left g' \<le> open_sum attempts_left g \<and>
        spends st n (rv_repairs v' - rv_repairs v) s s')"

lemma next_post_trans:
  assumes "next_post st g v s g1 v1 s1" "next_post st g1 v1 s1 g' v' s'"
  shows "next_post st g v s g' v' s'"
proof -
  from assms obtain m n where mn:
    "m + open_sum attempts_left g1 \<le> open_sum attempts_left g" "spends st m (rv_repairs v1 - rv_repairs v) s s1"
    "n + open_sum attempts_left g' \<le> open_sum attempts_left g1" "spends st n (rv_repairs v' - rv_repairs v1) s1 s'"
    by (auto simp: next_post_def)
  have "rv_repairs v1 - rv_repairs v + (rv_repairs v' - rv_repairs v1) = rv_repairs v' - rv_repairs v"
    using assms by (simp add: next_post_def)
  with spends_trans [OF mn(2,4)] have "spends st (m + n) (rv_repairs v' - rv_repairs v) s s'" by simp
  moreover have "m + n + open_sum attempts_left g' \<le> open_sum attempts_left g" using mn by simp
  ultimately show ?thesis using assms by (auto simp: next_post_def intro: kept_trans)
qed

lemma next_task_wf:
  assumes "wf_graph g"
  obtains g1 offer where "next_task g = Inr (g1, offer)" "wf_graph g1" "kept g g1"
    "some_unlocking g1 \<Longrightarrow> some_unlocking g"
    "\<And>t. offer = Some t \<Longrightarrow> find_task g1 (t_id t) = Some t \<and> t_status t = TS_READY"
proof -
  obtain g1 where r: "refresh g = Inr g1" using refresh_total [OF assms] by blast
  let ?ready = "filter (\<lambda>t. t_status t = TS_READY) (tasks_in_order g1)"
  let ?offer = "case ?ready of [] \<Rightarrow> None | t # _ \<Rightarrow> Some t"
  have sp: "same_plan g g1" by (rule refresh_same_plan [OF assms r])
  then have wf: "wf_graph g1" using assms same_plan_wf by blast
  have offered: "t \<in> set g1 \<and> t_status t = TS_READY" if "?offer = Some t" for t
  proof -
    from that obtain ts where "?ready = t # ts" by (auto split: list.splits)
    then have "t \<in> set ?ready" by simp
    then show ?thesis by (auto simp: tasks_in_order_def)
  qed
  have "find_task g1 (t_id t) = Some t" if "t \<in> set g1" for t
    using that wf by (simp add: wf_graph_def find_task_mem)
  with offered have "\<And>t. ?offer = Some t \<Longrightarrow> find_task g1 (t_id t) = Some t \<and> t_status t = TS_READY" by blast
  moreover have "next_task g = Inr (g1, ?offer)" using r by (simp add: next_task_def ready_tasks_def)
  moreover note kept_refresh [OF assms r]
  ultimately show ?thesis using that wf refresh_unlocking [OF assms r] by blast
qed

text \<open>Settling a task that has run keeps the invariant and spends the attempts it had left.\<close>

lemma settle_task_post:
  assumes g1: "wf_graph g1" "find_task g1 (t_id t) = Some t" "t_status t = TS_READY"
    and t': "t' = t\<lparr>t_status := TS_RUNNING, t_attempts := k\<rparr>"
    and g3: "g3 = put_task (put_task g1 (t\<lparr>t_status := TS_RUNNING\<rparr>)) t'"
  obtains r where "settle_task g3 v t' out = Inr r" "wf_graph (step_graph r)" "kept g1 (step_graph r)"
    "some_unlocking (step_graph r) \<Longrightarrow> some_unlocking g1 \<or> to_verdict out = V_PASS \<or> to_changed_files out \<noteq> []"
    "rv_repairs (step_vars r) = rv_repairs v + to_repairs out"
    "attempts_left t + open_sum attempts_left (step_graph r) \<le> open_sum attempts_left g1"
proof -
  let ?t = "t\<lparr>t_status := TS_RUNNING\<rparr>" and ?g2 = "put_task g1 (t\<lparr>t_status := TS_RUNNING\<rparr>)"
  have id: "t_id t \<in> set (ids g1)" using g1(2) find_task_ids by blast
  have f2: "find_task ?g2 (t_id t) = Some ?t" using id by (simp add: find_put_task)
  have f3: "find_task g3 (t_id t') = Some t'" using id by (simp add: g3 t' find_put_task)
  have sp: "same_plan g1 g3"
    using same_plan_status [of g1 "t_id t" t TS_RUNNING] same_plan_put [of ?g2 t' ?t] g1(2) f2
    by (auto simp: g3 t' intro: same_plan_trans)
  then have wf3: "wf_graph g3" using g1(1) same_plan_wf by blast
  have k3: "kept g1 g3"
    using kept_status [OF g1(2), of TS_RUNNING] kept_put [of ?g2 t' ?t] f2 by (auto simp: g3 t' intro: kept_trans)
  obtain r where r: "settle_task g3 v t' out = Inr r"
    using settle_task_total [OF wf3 f3] t' by auto
  obtain x nt where fin: "finish x nt g3 (t_id t') = Inr (step_graph r)" "keeps_task nt"
      "unlocking x \<Longrightarrow> to_verdict out = V_PASS \<or> to_changed_files out \<noteq> []"
      "x \<in> {TS_SUCCEEDED, TS_DEFERRED, TS_FAILED}"
      "rv_repairs (step_vars r) = rv_repairs v + to_repairs out"
    using settle_task_finish [OF r] by metis
  have after: "wf_graph (step_graph r)" "kept g3 (step_graph r)"
      "some_unlocking (step_graph r) \<Longrightarrow> some_unlocking g3 \<or> unlocking x"
    using finish_total [OF wf3 f3 _ fin(4,2)] fin(1) t' by auto
  have "some_unlocking g3 \<Longrightarrow> some_unlocking g1"
    using some_unlocking_put [of ?g2 t'] some_unlocking_put [of g1 ?t] by (auto simp: g3 t' unlocking_def)
  with after(3) fin(3) have unl: "some_unlocking (step_graph r) \<Longrightarrow>
      some_unlocking g1 \<or> to_verdict out = V_PASS \<or> to_changed_files out \<noteq> []" by blast
  have "open_sum attempts_left ?g2 = open_sum attempts_left g1"
    using open_put_status(2) [OF attempts_left_free g1(2), of TS_RUNNING] g1(3) by (simp add: task_terminal_def)
  moreover have "open_sum attempts_left g3 + attempts_left ?t = open_sum attempts_left ?g2 + attempts_left t'"
    using open_put [of ?g2 t' ?t attempts_left] f2 by (simp add: g3 t' open_weight_def task_terminal_def)
  moreover have "open_sum attempts_left (step_graph r) + attempts_left t' \<le> open_sum attempts_left g3"
    using open_settle_task [OF r attempts_left_free] f3 by (metis option.sel)
  moreover have "attempts_left ?t = attempts_left t" by (simp add: attempts_left_def)
  ultimately have "attempts_left t + open_sum attempts_left (step_graph r) \<le> open_sum attempts_left g1" by simp
  then show ?thesis using that [OF r after(1) kept_trans [OF k3 after(2)] unl fin(5)] by blast
qed

lemma wp_run_next:
  assumes "next_task g = Inr (g1, offer)"
  shows "wp (run_next st ag g v) Q s =
      (case offer of None \<Rightarrow> Q (Settled g1 v) s
       | Some t \<Rightarrow> if budget_spent st s then Q (Settled g1 (v\<lparr>rv_aborted := Some RunBudgetExhausted\<rparr>)) s
                  else wp (op_bind (op_lift (start_task g1 (t_id t))) (\<lambda>g2.
                         op_bind (run_task st ag (t\<lparr>t_status := TS_RUNNING\<rparr>)) (\<lambda>(out, t').
                           op_lift (settle_task (put_task g2 t') v t' out)))) Q s)"
  unfolding run_next_def by (simp add: wp_bind wp_lift assms wp_return wp_get split: option.splits)

lemma run_next_spec:
  assumes "loop_inv g s"
  shows "wp (run_next st ag g v) (\<lambda>r s'. next_post st g v s (step_graph r) (step_vars r) s') s"
proof -
  have inv: "wf_graph g" "state_of s \<in> between" "some_unlocking g \<Longrightarrow> state_of s \<noteq> PLANNING"
    using assms by (simp_all add: loop_inv_def)
  obtain g1 offer where n: "next_task g = Inr (g1, offer)" and wf1: "wf_graph g1" and kept1: "kept g g1"
    and unl1: "some_unlocking g1 \<Longrightarrow> some_unlocking g"
    and offered: "\<And>t. offer = Some t \<Longrightarrow> find_task g1 (t_id t) = Some t \<and> t_status t = TS_READY"
    using next_task_wf [OF inv(1)] by metis
  have open1: "open_sum attempts_left g1 \<le> open_sum attempts_left g" by (rule open_next [OF _ n]) simp
  have idle: "next_post st g v s g1 v' s" if "rv_repairs v' = rv_repairs v" for v'
    using that inv wf1 kept1 unl1 open1 by (auto simp: next_post_def loop_inv_def intro: exI [of _ 0])
  show ?thesis
  proof (cases "\<exists>t. offer = Some t \<and> \<not> budget_spent st s")
    case False
    then show ?thesis unfolding wp_run_next [OF n] using idle by (cases offer) auto
  next
    case True
    then obtain t where t: "offer = Some t" "\<not> budget_spent st s" by blast
    note off = offered [OF t(1)]
    let ?t = "t\<lparr>t_status := TS_RUNNING\<rparr>" and ?g2 = "put_task g1 (t\<lparr>t_status := TS_RUNNING\<rparr>)"
    have g2: "start_task g1 (t_id t) = Inr ?g2" using off by (simp add: start_task_Inr)
    obtain out t' s2 k where rt: "run_task st ag ?t s = (Inr (out, t'), s2)"
      and post: "task_post st (attempts_left t) initial_vars s out s2" and t': "t' = ?t\<lparr>t_attempts := k\<rparr>"
      using run_task_spec [OF inv(2), of st ag ?t] by (auto simp: attempts_left_def elim!: wpE)
    have eq: "t' = t\<lparr>t_status := TS_RUNNING, t_attempts := k\<rparr>" using t' by simp
    obtain r where r: "settle_task (put_task ?g2 t') v t' out = Inr r"
      and post': "wf_graph (step_graph r)" "kept g1 (step_graph r)"
        "some_unlocking (step_graph r) \<Longrightarrow> some_unlocking g1 \<or> to_verdict out = V_PASS \<or> to_changed_files out \<noteq> []"
        "rv_repairs (step_vars r) = rv_repairs v + to_repairs out"
        "attempts_left t + open_sum attempts_left (step_graph r) \<le> open_sum attempts_left g1"
      using settle_task_post [OF wf1 conjunct1 [OF off] conjunct2 [OF off] eq refl, of v out] by metis
    have "loop_inv (step_graph r) s2"
      using post'(1,3) unl1 inv(3) post by (auto simp: loop_inv_def task_post_def)
    then have "next_post st g v s (step_graph r) (step_vars r) s2"
      using post'(4,5) post open1 kept_trans [OF kept1 post'(2)]
      by (auto simp: next_post_def task_post_def initial_vars_def intro!: exI [of _ "attempts_left t"])
    then show ?thesis
      unfolding wp_run_next [OF n] using t g2 rt r by (simp add: wp_bind wp_lift) (simp add: wp_def op_lift_def)
  qed
qed

lemma run_loop_spec:
  "loop_inv g s \<Longrightarrow> wp (run_loop st ag g v) (\<lambda>(g', v') s'. next_post st g v s g' v' s') s"
proof (induction st ag g v s rule: run_loop.induct)
  case (1 st ag g v s)
  obtain r s1 where r: "run_next st ag g v s = (Inr r, s1)"
    and post: "next_post st g v s (step_graph r) (step_vars r) s1"
    using run_next_spec [OF "1.prems", of st ag v] by (rule wpE)
  show ?case
  proof (cases r)
    case (Settled g' v')
    then have "run_loop st ag g v s = (Inr (g', v'), s1)" using r by (subst run_loop.simps) simp
    with post Settled show ?thesis by (simp add: wp_def)
  next
    case (NextTask g' v')
    then have eq: "run_loop st ag g v s = run_loop st ag g' v' s1" using r by (subst run_loop.simps) simp
    have "loop_inv g' s1" using post NextTask by (simp add: next_post_def)
    from "1.IH" [OF r [symmetric] refl NextTask this]
    have "wp (run_loop st ag g' v') (\<lambda>(g'', v'') s'. next_post st g v s g'' v'' s') s1"
      by (rule wp_mono) (use post NextTask in \<open>auto intro: next_post_trans\<close>)
    then show ?thesis unfolding wp_def eq .
  qed
qed

subsection \<open>The verdict\<close>

text \<open>What the state is when the execution is decided.\<close>

definition verdict_post ::
    "loop_settings \<Rightarrow> 'w agents \<Rightarrow> task \<Rightarrow> run_vars \<Rightarrow> 'w orch \<Rightarrow>
     verdict \<times> run_text \<times> nat \<times> string list \<Rightarrow> 'w orch \<Rightarrow> bool" where
  "verdict_post st ag anchor v s gv s' \<longleftrightarrow>
     (case gv of (verdict, text0, repairs, changed) \<Rightarrow>
        project_can_transition (state_of s') PS_FAILED \<and> verdict \<in> {V_PASS, V_FAIL} \<and>
        (verdict = V_PASS \<longrightarrow> state_of s' = REVIEW \<and> rv_aborted v = None \<and> verified_now st ag anchor s') \<and>
        repairs \<le> rv_repairs v + ls_max_repair_attempts st \<and>
        spends st (2 * ls_max_repair_attempts st) 0 s s')"

lemma gate_verdict_spec:
  assumes "loop_inv g s" "g \<noteq> []"
  shows "wp (gate_verdict st ag tasks g v) (\<lambda>gv s'.
     verdict_post st ag (the (find_task g (t_id (last tasks)))) v s gv s' \<and>
     (fst gv = V_PASS \<longrightarrow> settled_without_failure g)) s"
proof (cases "rv_aborted v = None \<and> settled_without_failure g")
  case True
  then have "some_unlocking g"
    using assms(2) by (cases g) (auto simp: some_unlocking_def settled_without_failure_def)
  then have "state_of s \<in> between - {PLANNING}" using assms(1) by (simp add: loop_inv_def)
  from final_gate_spec [OF this] show ?thesis
    unfolding gate_verdict_def if_P [OF True] wp_bind
    by (rule wp_mono) (use True in \<open>auto simp: wp_return gate_post_def verdict_post_def between_def\<close>)
next
  case False
  then have "gate_verdict st ag tasks g v = op_return (V_FAIL,
             (case rv_aborted v of
                Some r \<Rightarrow> AbortedBecause r
              | None \<Rightarrow> (case rv_last_failure v of Some r \<Rightarrow> TaskFailure r | None \<Rightarrow> SomeTaskFailed)),
             rv_repairs v, rv_changed v)" unfolding gate_verdict_def by (rule if_not_P)
  then show ?thesis using assms(1) by (simp add: wp_return verdict_post_def loop_inv_def)
qed

lemma exercised_verdict_spec:
  assumes "verdict_post st ag anchor v s0 gv s"
  shows "wp (exercised_verdict ag gv) (\<lambda>gv' s'. verdict_post st ag anchor v s0 gv' s' \<and> s' = s \<and>
     (fst gv' = V_PASS \<longrightarrow> fst gv = V_PASS \<and> unexercised ag (snd (snd (snd gv'))) s = None)) s"
  using assms
  by (cases gv) (auto simp: exercised_verdict_def wp_rules verdict_post_def split: option.splits)

end
