(* ===== verification/Autonomous_Run.thy ===== *)
theory Autonomous_Run
  imports Orchestrator_Correct
begin

text \<open>
  The whole autonomous run (\<open>Orchestrator.run\<close>), from an execution that may enter planning to
  its terminal state, and its properties. The bounds 1 and 10 on the attempts of a task are those
  of the configuration's schema.
\<close>

lemma verified_now_keeps:
  "t_verification t = t_verification u \<Longrightarrow> verified_now st ag t s = verified_now st ag u s"
  by (simp add: verified_now_def task_requirements_def)

lemma settled_no_failed:
  assumes "settled_without_failure g"
  shows "status_count g TS_FAILED = 0" "status_count g TS_BLOCKED = 0"
proof -
  have "x \<notin> set (map t_status g)" if "x \<in> {TS_FAILED, TS_BLOCKED}" for x
    using assms that by (auto simp: settled_without_failure_def unlocking_def list_all_iff)
  then show "status_count g TS_FAILED = 0" "status_count g TS_BLOCKED = 0"
    by (auto simp: status_count_def map_of_summary)
qed

text \<open>What a run guarantees once its plan is a graph of new tasks.\<close>

definition attempts_of :: "task list \<Rightarrow> nat" where
  "attempts_of ts = (\<Sum>t\<leftarrow>ts. 3 * nat (t_max_attempts t - t_attempts t))"

definition released_ok :: "loop_settings \<Rightarrow> 'w agents \<Rightarrow> task list \<Rightarrow> run_result \<Rightarrow> 'w orch \<Rightarrow> bool" where
  "released_ok st ag tasks r s' \<longleftrightarrow>
     (\<exists>w os. run_all (ls_profile st) (ag_local_modules ag w) (ag_shell ag) (task_requirements (last tasks)) w =
        (os, o_world s') \<and> report_passed os) \<and>
     \<not> tampered (check_execution_integrity ag s') \<and> unexercised ag (rr_changed_files r) s' = None \<and>
     rr_tasks_failed r = 0 \<and> (\<exists>ts. o_transitions s' = ts @ [VERIFICATION, REVIEW, RELEASE])"

definition decided :: "run_result \<Rightarrow> 'w orch \<Rightarrow> bool" where
  "decided r s' \<longleftrightarrow> rr_state r = state_of s' \<and> rr_state r \<in> {RELEASE, PS_FAILED} \<and>
     (rr_state r = RELEASE \<longleftrightarrow> rr_verdict r = V_PASS)"

definition run_budget_kept :: "loop_settings \<Rightarrow> nat \<Rightarrow> run_result \<Rightarrow> 'w orch \<Rightarrow> 'w orch \<Rightarrow> bool" where
  "run_budget_kept st runs r s s' \<longleftrightarrow>
     o_runs s' \<le> o_runs s + runs \<and> o_run_repairs s' \<le> max (o_run_repairs s) (ls_max_total_repairs st) \<and>
     o_run_repairs s \<le> o_run_repairs s' \<and>
     rr_repairs r \<le> (o_run_repairs s' - o_run_repairs s) + ls_max_repair_attempts st"

lemma conclude_spec:
  assumes "verdict_post st ag anchor v s0 gv s" "spends st m (rv_repairs v) s1 s0"
    and "fst gv = V_PASS \<longrightarrow> settled_without_failure g \<and> unexercised ag (snd (snd (snd gv))) s = None"
    and "t_verification anchor = t_verification (last tasks)"
  shows "wp (conclude tasks g v gv) (\<lambda>r s'. decided r s' \<and> (rr_state r = RELEASE \<longrightarrow> released_ok st ag tasks r s') \<and>
     run_budget_kept st (m + 2 * ls_max_repair_attempts st) r s1 s' \<and> o_baseline s' = o_baseline s1) s"
proof -
  obtain verdict text0 repairs changed where gv: "gv = (verdict, text0, repairs, changed)" by (metis prod.exhaust)
  have post: "project_can_transition (state_of s) PS_FAILED" "verdict \<in> {V_PASS, V_FAIL}"
    "repairs \<le> rv_repairs v + ls_max_repair_attempts st"
    using assms(1) by (simp_all add: verdict_post_def gv)
  have pass: "state_of s = REVIEW" "rv_aborted v = None" "verified_now st ag (last tasks) s" if "verdict = V_PASS"
    using assms(1) that verified_now_keeps [OF assms(4)] by (auto simp: verdict_post_def gv)
  have sp: "spends st (m + 2 * ls_max_repair_attempts st) (rv_repairs v) s1 s"
    using spends_trans [OF assms(2), of "2 * ls_max_repair_attempts st" 0 s] assms(1) by (simp add: verdict_post_def gv)
  show ?thesis
  proof (cases "verdict = V_PASS")
    case True
    have "settled_without_failure g" "unexercised ag changed s = None" using assms(3) True by (simp_all add: gv)
    then show ?thesis
      using True pass [OF True] sp post(3) settled_no_failed [of g]
      by (auto simp: conclude_def gv wp_rules decided_def released_ok_def run_budget_kept_def spends_def
          verified_now_def check_execution_integrity_def unexercised_def)
  next
    case False
    then show ?thesis
      using post sp
      by (auto simp: conclude_def gv wp_rules decided_def run_budget_kept_def spends_def)
  qed
qed

lemma op_bind_assoc: "op_bind (op_bind m f) k = op_bind m (\<lambda>x. op_bind (f x) k)"
  by (rule ext) (simp add: op_bind_def split: prod.splits sum.splits)

lemma exercised_after_gate:
  assumes "loop_inv g s" "g \<noteq> []"
  shows "wp (op_bind (gate_verdict st ag tasks g v) (exercised_verdict ag)) (\<lambda>gv s'.
     verdict_post st ag (the (find_task g (t_id (last tasks)))) v s gv s' \<and>
     (fst gv = V_PASS \<longrightarrow> settled_without_failure g \<and> unexercised ag (snd (snd (snd gv))) s' = None)) s"
  unfolding wp_bind
proof (rule wp_mono [OF gate_verdict_spec [OF assms]], elim conjE)
  fix gv s' assume post: "verdict_post st ag (the (find_task g (t_id (last tasks)))) v s gv s'"
    and settled: "fst gv = V_PASS \<longrightarrow> settled_without_failure g"
  show "wp (exercised_verdict ag gv) (\<lambda>gv s'.
     verdict_post st ag (the (find_task g (t_id (last tasks)))) v s gv s' \<and>
     (fst gv = V_PASS \<longrightarrow> settled_without_failure g \<and> unexercised ag (snd (snd (snd gv))) s' = None)) s'"
    by (rule wp_mono [OF exercised_verdict_spec [OF post]]) (use settled in auto)
qed

lemma open_sum_attempts: "open_sum attempts_left g \<le> attempts_of g"
  by (induction g) (auto simp: open_sum_def attempts_of_def attempts_left_def open_weight_def)

lemma pending_loop_inv:
  assumes "wf_graph tasks" "\<forall>t \<in> set tasks. t_status t = TS_PENDING" "refresh tasks = Inr g0" "state_of s \<in> between"
  shows "loop_inv g0 s"
proof -
  have "\<not> some_unlocking tasks" using assms(2) by (auto simp: some_unlocking_def unlocking_def)
  then have "\<not> some_unlocking g0" using refresh_unlocking [OF assms(1,3)] by blast
  moreover have "wf_graph g0" using same_plan_wf [OF refresh_same_plan [OF assms(1,3)]] assms(1) by simp
  ultimately show ?thesis using assms(4) by (simp add: loop_inv_def)
qed

lemma kept_anchor:
  assumes "kept tasks g" "wf_graph tasks" "tasks \<noteq> []"
  shows "t_verification (the (find_task g (t_id (last tasks)))) = t_verification (last tasks)"
proof -
  have "find_task tasks (t_id (last tasks)) = Some (last tasks)"
    using assms(2,3) by (intro find_task_mem) (simp_all add: wf_graph_def)
  then show ?thesis using kept_find [OF assms(1)] by fastforce
qed

lemma kept_Nil: "kept g h \<Longrightarrow> g \<noteq> [] \<Longrightarrow> h \<noteq> []"
  by (auto simp: kept_def)

lemma run_tasks_spec:
  assumes "task_graph tasks = Inr g" "tasks \<noteq> []" "\<forall>t \<in> set tasks. t_status t = TS_PENDING" "state_of s \<in> between"
  shows "wp (run_tasks st ag tasks) (\<lambda>r s'. decided r s' \<and> (rr_state r = RELEASE \<longrightarrow> released_ok st ag tasks r s') \<and>
     run_budget_kept st (attempts_of tasks + 2 * ls_max_repair_attempts st) r s s' \<and> o_baseline s' = o_baseline s) s"
proof -
  have graph: "g = tasks" "wf_graph tasks" using assms(1) by (simp_all add: task_graph_Inr)
  obtain g0 where r: "refresh tasks = Inr g0" using refresh_total [OF graph(2)] by blast
  let ?s = "s\<lparr>o_run_budget := max (ls_max_total_agent_runs st) (length tasks * ls_agent_runs_per_task st)\<rparr>"
  have inv: "loop_inv g0 ?s" using pending_loop_inv [OF graph(2) assms(3) r, of ?s] assms(4) by simp
  have bound: "open_sum attempts_left g0 \<le> attempts_of tasks"
    using open_refresh [OF attempts_left_free r] open_sum_attempts [of tasks] by simp
  have rest: "wp (op_bind (gate_verdict st ag tasks g v) (\<lambda>gv. op_bind (exercised_verdict ag gv) (conclude tasks g v)))
      (\<lambda>r s'. decided r s' \<and> (rr_state r = RELEASE \<longrightarrow> released_ok st ag tasks r s') \<and>
        run_budget_kept st (attempts_of tasks + 2 * ls_max_repair_attempts st) r s s' \<and> o_baseline s' = o_baseline s) s1"
    if post: "next_post st g0 initial_run_vars ?s g v s1" for g v s1
  proof -
    have inv1: "loop_inv g s1" and k: "kept tasks g"
      using post kept_refresh [OF graph(2) r] by (auto simp: next_post_def intro: kept_trans)
    have ne: "g \<noteq> []" using kept_Nil [OF k] assms(2) .
    have sp: "spends st (attempts_of tasks) (rv_repairs v) s s1"
      using post bound by (auto simp: next_post_def initial_run_vars_def spends_def)
    have "wp (op_bind (op_bind (gate_verdict st ag tasks g v) (exercised_verdict ag)) (conclude tasks g v))
      (\<lambda>r s'. decided r s' \<and> (rr_state r = RELEASE \<longrightarrow> released_ok st ag tasks r s') \<and>
        run_budget_kept st (attempts_of tasks + 2 * ls_max_repair_attempts st) r s s' \<and> o_baseline s' = o_baseline s) s1"
      unfolding wp_bind [of "op_bind m f" for m f]
      by (rule wp_mono [OF exercised_after_gate [OF inv1 ne]], elim conjE, rule conclude_spec [where anchor = "the (find_task g (t_id (last tasks)))", OF _ sp])
        (use kept_anchor [OF k graph(2) assms(2)] in auto)
    then show ?thesis unfolding op_bind_assoc .
  qed
  have "wp (run_loop st ag g0 initial_run_vars) (\<lambda>x. wp ((\<lambda>(g, v). op_bind (gate_verdict st ag tasks g v)
       (\<lambda>gv. op_bind (exercised_verdict ag gv) (conclude tasks g v))) x)
      (\<lambda>r s'. decided r s' \<and> (rr_state r = RELEASE \<longrightarrow> released_ok st ag tasks r s') \<and>
        run_budget_kept st (attempts_of tasks + 2 * ls_max_repair_attempts st) r s s' \<and> o_baseline s' = o_baseline s)) ?s"
    by (rule wp_mono [OF run_loop_spec [OF inv]]) (use rest in \<open>auto simp only: split_beta\<close>)
  then show ?thesis
    unfolding run_tasks_def by (simp add: wp_bind wp_lift wp_modify graph(1) assms(1) r)
qed

text \<open>The repairs of a run are an allowance.\<close>

interpretation run_repairs: allowance "\<lambda>s s'. \<exists>runs repairs. spends st runs repairs s s'" o_run_repairs
  "\<lambda>_. ls_max_total_repairs st" for st :: loop_settings
  by unfold_locales (auto simp: spends_def)

section \<open>From planning to the end\<close>

text \<open>The tasks of an accepted plan.\<close>

definition new_plan :: "int \<Rightarrow> task list \<Rightarrow> bool" where
  "new_plan mx tasks \<longleftrightarrow> tasks \<noteq> [] \<and> length tasks \<le> max_plan_steps \<and> (\<exists>g. task_graph tasks = Inr g) \<and>
     (\<forall>t \<in> set tasks. t_status t = TS_PENDING \<and> t_attempts t = 0 \<and> t_max_attempts t = mx \<and>
        task_requirements t = [(''tests'', None)])"

lemma plan_to_tasks_new:
  assumes "steps_ok (po_steps p)" "po_steps p \<noteq> []" "length (po_steps p) \<le> max_plan_steps" "1 \<le> mx" "mx \<le> 10"
  obtains tasks where "plan_to_tasks p mx = Inr tasks" "is_ok (task_graph tasks) \<longrightarrow> new_plan mx tasks"
proof -
  let ?ts = "plan_task_list (ordered_steps p) mx"
  have "plan_to_tasks p mx = Inr ?ts" by (rule plan_to_tasks_ok [OF assms(1,4,5)])
  moreover have "length ?ts = length (po_steps p)" by (simp add: plan_task_list_upt ordered_steps_def)
  then have "?ts \<noteq> []" "length ?ts \<le> max_plan_steps" using assms(2,3) by auto
  then have "is_ok (task_graph ?ts) \<longrightarrow> new_plan mx ?ts"
    by (auto simp: new_plan_def is_ok_iff plan_task_list_mem step_task_def task_requirements_def)
  ultimately show ?thesis by (rule that)
qed

lemma fan_out_plan_spec:
  assumes "steps_ok (po_steps p)" "po_steps p \<noteq> []" "length (po_steps p) \<le> max_plan_steps"
  shows "wp (fan_out_plan ag request p) (\<lambda>p' s'. state_of s' = state_of s \<and> spends st 0 0 s s' \<and>
     steps_ok (po_steps p') \<and> po_steps p' \<noteq> [] \<and> length (po_steps p') \<le> max_plan_steps) s"
  using assms fan_out_steps
  by (auto simp: fan_out_plan_def wp_rules spends_def split: prod.splits option.splits)

lemma plan_tasks_spec:
  assumes "project_can_transition (state_of s) PLANNING" "1 \<le> ls_max_task_attempts st" "ls_max_task_attempts st \<le> 10"
  shows "wp (plan_tasks st ag) (\<lambda>plan s'. state_of s' = PLANNING \<and> spends st 1 0 s s' \<and>
     (\<forall>tasks. plan = Inr tasks \<longrightarrow> new_plan (ls_max_task_attempts st) tasks)) s"
proof -
  let ?Q = "\<lambda>plan s'. state_of s' = PLANNING \<and> spends st 1 0 s s' \<and>
     (\<forall>tasks. plan = Inr tasks \<longrightarrow> new_plan (ls_max_task_attempts st) tasks)"
  have rest: "wp (op_bind (fan_out_plan ag request p) (\<lambda>p'.
           op_bind (op_lift (plan_to_tasks p' (ls_max_task_attempts st))) (\<lambda>tasks.
             op_return (if tasks = [] then Inl REQUIREMENT_FAILURE
                        else (case task_graph tasks of Inl e \<Rightarrow> Inl REQUIREMENT_FAILURE | Inr g \<Rightarrow> Inr tasks))))) ?Q s1"
    if that: "Option.bind answer validate_plan = Some p" "state_of s1 = PLANNING" "spends st 1 0 s s1"
    for request answer p s1
    unfolding wp_bind
  proof (rule wp_mono [OF fan_out_plan_spec [where st = st and s = s1]])
    show "steps_ok (po_steps p)" "po_steps p \<noteq> []" "length (po_steps p) \<le> max_plan_steps"
      using that(1) validate_plan_ok by (auto simp: bind_eq_Some_conv)
    fix p' :: planner_output and s2
    assume p': "state_of s2 = state_of s1 \<and> spends st 0 0 s1 s2 \<and>
     steps_ok (po_steps p') \<and> po_steps p' \<noteq> [] \<and> length (po_steps p') \<le> max_plan_steps"
    then obtain tasks where "plan_to_tasks p' (ls_max_task_attempts st) = Inr tasks"
      "is_ok (task_graph tasks) \<longrightarrow> new_plan (ls_max_task_attempts st) tasks"
      using assms(2,3) plan_to_tasks_new by metis
    then show "wp (op_lift (plan_to_tasks p' (ls_max_task_attempts st))) (\<lambda>tasks. wp (op_return
        (if tasks = [] then Inl REQUIREMENT_FAILURE
         else (case task_graph tasks of Inl e \<Rightarrow> Inl REQUIREMENT_FAILURE | Inr g \<Rightarrow> Inr tasks))) ?Q) s2"
      using p' that(2,3) by (auto simp: wp_rules spends_def is_ok_iff split: sum.splits)
  qed
  then show ?thesis
    unfolding plan_tasks_def using assms(1)
    by (auto simp: wp_lift wp_get wp_call wp_transition wp_return wp_bind [of "record_transition t" for t] wp_bind [of "op_get f" for f]
        wp_bind [of "call_agent f" for f] spends_def split: prod.splits option.splits intro!: rest)
qed

lemma planning_failed_spec:
  assumes "state_of s = PLANNING"
  shows "wp (planning_failed c) (\<lambda>r s'. decided r s' \<and> rr_state r = PS_FAILED \<and> rr_repairs r = 0 \<and>
     spends st 0 0 s s') s"
  unfolding planning_failed_def using assms
  by (auto simp: wp_rules decided_def spends_def project_can_transition_def project_terminal_def)

text \<open>At most 14 tasks, each with three agent runs for every attempt.\<close>

definition max_runs :: "loop_settings \<Rightarrow> nat" where
  "max_runs st = 1 + max_plan_steps * (3 * nat (ls_max_task_attempts st)) + 2 * ls_max_repair_attempts st"

lemma new_plan_attempts: "new_plan mx tasks \<Longrightarrow> attempts_of tasks \<le> max_plan_steps * (3 * nat mx)"
proof -
  assume new: "new_plan mx tasks"
  then have "attempts_of tasks = (\<Sum>t\<leftarrow>tasks. 3 * nat mx)"
    unfolding attempts_of_def by (intro arg_cong [of _ _ sum_list] map_cong) (auto simp: new_plan_def)
  also have "\<dots> = length tasks * (3 * nat mx)" by (simp add: sum_list_triv)
  also have "\<dots> \<le> max_plan_steps * (3 * nat mx)" using new by (simp add: new_plan_def)
  finally show ?thesis .
qed

lemma run_spec:
  assumes "project_can_transition (state_of s) PLANNING" "1 \<le> ls_max_task_attempts st" "ls_max_task_attempts st \<le> 10"
  shows "wp (run st ag) (\<lambda>r s'. decided r s' \<and>
     (rr_state r = RELEASE \<longrightarrow> (\<exists>tasks. new_plan (ls_max_task_attempts st) tasks \<and> released_ok st ag tasks r s')) \<and>
     run_budget_kept st (max_runs st) r s s' \<and> o_baseline s' = ag_baseline ag (o_world s)) s" (is "wp _ ?Q s")
proof -
  let ?s = "s\<lparr>o_baseline := ag_baseline ag (o_world s)\<rparr>"
  have "wp (case plan of Inl c \<Rightarrow> planning_failed c | Inr tasks \<Rightarrow> run_tasks st ag tasks) ?Q s1"
    if st: "state_of s1 = PLANNING" and sp: "spends st 1 0 ?s s1"
      and ok: "\<forall>tasks. plan = Inr tasks \<longrightarrow> new_plan (ls_max_task_attempts st) tasks"
    for plan s1
  proof (cases plan)
    case (Inl c)
    have "wp (planning_failed c) ?Q s1"
      by (rule wp_mono [OF planning_failed_spec [OF st, of c st]])
        (use sp in \<open>auto simp: run_budget_kept_def spends_def max_runs_def\<close>)
    with Inl show ?thesis by simp
  next
    case (Inr tasks)
    with ok have new: "new_plan (ls_max_task_attempts st) tasks" by blast
    then obtain g where graph: "task_graph tasks = Inr g" "tasks \<noteq> []" "\<forall>t \<in> set tasks. t_status t = TS_PENDING"
      by (auto simp: new_plan_def)
    have "wp (run_tasks st ag tasks) ?Q s1"
      by (rule wp_mono [OF run_tasks_spec [OF graph]])
        (use st sp new new_plan_attempts [OF new] in \<open>auto simp: run_budget_kept_def spends_def max_runs_def\<close>)
    with Inr show ?thesis by simp
  qed
  then have "wp (plan_tasks st ag) (\<lambda>plan. wp (case plan of Inl c \<Rightarrow> planning_failed c | Inr tasks \<Rightarrow> run_tasks st ag tasks) ?Q) ?s"
    using assms by (intro wp_mono [OF plan_tasks_spec [of ?s st ag]]) auto
  then show ?thesis unfolding run_def wp_bind wp_modify .
qed

section \<open>A small project\<close>

text \<open>One task; the coder writes a page, the checks answer with the exit code given.\<close>

definition page_plan :: planner_output where
  "page_plan = \<lparr>po_goal = ''a page'', po_steps = [\<lparr>ps_step = 1, ps_title = ''write the page'',
     ps_description = ''write index.html'', ps_files = [''index.html''], ps_depends_on = [], ps_acceptance = []\<rparr>]\<rparr>"

definition page_agents :: "int \<Rightarrow> unit agents" where
  "page_agents code = \<lparr>ag_plan = (\<lambda>request w. (Some page_plan, w)), ag_fan_out = (\<lambda>request w. (None, w)),
     ag_boundaries = (\<lambda>t i. []), ag_exists = (\<lambda>w f. False),
     ag_code = (\<lambda>p t e g w. (Inr \<lparr>co_changed_files = [''index.html''], co_rejected_files = [], co_remaining_concerns = []\<rparr>, w)),
     ag_judge = (\<lambda>t out os i w. (None, w)), ag_diagnose = (\<lambda>t os out w. (Some ''try again'', w)),
     ag_shell = sample_shell (\<lambda>c. code), ag_local_modules = (\<lambda>w. []), ag_integrity = (\<lambda>w. sample_gateway),
     ag_baseline = (\<lambda>w. None), ag_parse = (\<lambda>s. None), ag_root = [], ag_files = (\<lambda>w. [])\<rparr>"

definition page_settings :: loop_settings where
  "page_settings = \<lparr>ls_profile = sample_profile, ls_max_task_attempts = 2, ls_max_repair_attempts = 2,
     ls_max_total_repairs = 3, ls_max_total_agent_runs = 40, ls_agent_runs_per_task = 6\<rparr>"

definition page_start :: "unit orch" where
  "page_start = \<lparr>o_world = (), o_execution = \<lparr>execution_id = ''e'', ex_project_id = ''p'', ex_request = ''a page'',
       ex_state = RECEIVED, ex_result_summary = []\<rparr>,
     o_transitions = [], o_failures = [], o_runs = 0, o_run_budget = 0, o_model_calls = 0, o_run_repairs = 0,
     o_baseline = None\<rparr>"

lemma page_run_releases:
  "case run page_settings (page_agents 0) page_start of (Inr r, s') \<Rightarrow> rr_state r = RELEASE | (Inl e, s') \<Rightarrow> False"
  by code_simp

lemma page_run_fails:
  "case run page_settings (page_agents 1) page_start of (Inr r, s') \<Rightarrow> rr_state r = PS_FAILED \<and> o_runs s' = 6 | (Inl e, s') \<Rightarrow> False"
  by code_simp

lemma page_ok:
  "project_can_transition (ex_state (o_execution page_start)) PLANNING"
  "1 \<le> ls_max_task_attempts page_settings" "ls_max_task_attempts page_settings \<le> 10"
  by code_simp+

section \<open>Properties\<close>



text \<open>C1. Nothing is released that was not verified. When a run ends in RELEASE, the project has
  its final content from a run of its tests, and the report of that run passed; the tests are
  not tampered with, compared with the project at the start of the run; the tests import what
  was changed; no task failed or was blocked; and the last states of the execution are
  VERIFICATION, REVIEW, RELEASE.
\<close>

theorem released_is_verified:
  assumes "project_can_transition (ex_state (o_execution s)) PLANNING"
    and "1 \<le> ls_max_task_attempts st" "ls_max_task_attempts st \<le> 10"
    and "run st ag s = (Inr r, s')" "rr_state r = RELEASE"
  shows "(\<exists>w os. run_all (ls_profile st) (ag_local_modules ag w) (ag_shell ag) [(''tests'', None)] w = (os, o_world s') \<and>
        report_passed os) \<and>
     \<not> tampered (integrity_at ag (ag_baseline ag (o_world s)) (o_world s')) \<and>
     tests_exercise_changes (ag_parse ag) (ag_root ag) (ag_files ag (o_world s')) (rr_changed_files r) = None \<and>
     rr_tasks_failed r = 0 \<and> (\<exists>ts. o_transitions s' = ts @ [VERIFICATION, REVIEW, RELEASE])"
proof -
  obtain tasks where new: "new_plan (ls_max_task_attempts st) tasks" and ok: "released_ok st ag tasks r s'"
    and base: "o_baseline s' = ag_baseline ag (o_world s)"
    using run_spec [OF assms(1-3), of ag] assms(4,5) by (auto simp: wp_def)
  have "task_requirements (last tasks) = [(''tests'', None)]" using new by (auto simp: new_plan_def)
  with ok base show ?thesis
    by (simp add: released_ok_def check_execution_integrity_def unexercised_def)
qed

theorem released_is_verified_witness:
  "\<exists>r s'. run page_settings (page_agents 0) page_start = (Inr r, s') \<and> rr_tasks_failed r = 0 \<and>
     (\<exists>ts. o_transitions s' = ts @ [VERIFICATION, REVIEW, RELEASE])"
proof -
  obtain r s' where r: "run page_settings (page_agents 0) page_start = (Inr r, s')" "rr_state r = RELEASE"
    using page_run_releases by (auto split: prod.splits sum.splits)
  show ?thesis using released_is_verified [OF page_ok r] r(1) by blast
qed



text \<open>A change its tests never import is not repaired. The loop means to treat it as a test
  failure, to be repaired, but its copy of the report keeps the category of the checks, which
  all passed: the attempt counts as a requirement failure, is escalated at once and the task
  gives up, whatever repairs it has left; no agent is called.
\<close>

theorem never_imported_is_not_repaired:
  assumes "\<forall>r \<in> set report. outcome_ran r \<and> vo_passed r"
  shows "attempt_not_passed st ag t l (NeverImported modules) report out s =
     (Inr (GaveUp (l\<lparr>av_reason := NeverImported modules, av_category := Some REQUIREMENT_FAILURE\<rparr>)),
      s\<lparr>o_failures := o_failures s @
        [\<lparr>fe_task = Some (t_id t), fe_category = REQUIREMENT_FAILURE, fe_action = ''ESCALATE''\<rparr>]\<rparr>)"
proof -
  have "report_failures report = []"
    using assms by (auto simp: report_failures_def filter_empty_conv)
  moreover have "find (\<lambda>r. \<not> outcome_ran r \<and> vo_failure_category r \<noteq> None) report = None"
    using assms by (auto simp: find_None_iff)
  ultimately have "report_failure_category report = None" by (simp only: report_failure_category_def list.case option.case)
  moreover have "fr_action (rule_for (Some REQUIREMENT_FAILURE)) = ESCALATE" by code_simp
  then have "decide (Some REQUIREMENT_FAILURE) m n = ESCALATE" for m n by (simp add: decide_def)
  moreover have "\<not> is_security_failure (Some REQUIREMENT_FAILURE)" by (simp add: is_security_failure_def)
  ultimately show ?thesis
    by (simp add: attempt_not_passed_def Let_def op_bind_def record_failure_def op_modify_def op_return_def)
qed

theorem never_imported_is_not_repaired_witness:
  "fst (attempt_not_passed page_settings (page_agents 0) (step_task (\<lambda>n. Some ''t'') 2 0 (hd (po_steps page_plan)))
      initial_vars (NeverImported [''calc''])
      (fst (run_all sample_profile [] (sample_shell (\<lambda>c. 0)) [(''tests'', None)] ()))
      \<lparr>co_changed_files = [''calc.py''], co_rejected_files = [], co_remaining_concerns = []\<rparr> page_start) =
     Inr (GaveUp (initial_vars\<lparr>av_reason := NeverImported [''calc''], av_category := Some REQUIREMENT_FAILURE\<rparr>))"
proof -
  have "\<forall>r \<in> set (fst (run_all sample_profile [] (sample_shell (\<lambda>c. 0)) [(''tests'', None)] ())).
      outcome_ran r \<and> vo_passed r" by code_simp
  then show ?thesis by (simp only: never_imported_is_not_repaired fst_conv)
qed

end
