(* ===== verification/Generation.thy ===== *)
theory Generation
  imports Complex_Main Failure_Policy
begin

text \<open>
  What stands between an agent and the model runtime: the JSON object recovered from a reply
  and the bounded repair of invalid replies (\<open>edith/models/base.py\<close>), the bounded retry
  (\<open>edith/models/retry.py\<close>) and the envelope of an agent's work (\<open>edith/agents/base.py\<close>).

  The runtime is an argument over a state \<open>'w\<close>: what it replies to a conversation. Pydantic's
  validation of a reply is the argument \<open>sc_decode\<close>. Durations and logging are left out; the
  waits a retry asks for are part of its result.
\<close>

section \<open>Errors that are raised\<close>

text \<open>An \<open>EdithError\<close> with its category, its \<open>retryable\<close> flag and its message, or another
  exception.\<close>

datatype fault = EdithFault failure_category bool string | OtherFault string

fun fault_retryable :: "fault \<Rightarrow> bool" where
  "fault_retryable (EdithFault c r m) = r"
| "fault_retryable (OtherFault m) = False"

section \<open>The JSON object in a reply\<close>

text \<open>\<open>s.partition(pat)\<close>, nothing when the pattern does not occur.\<close>

fun cut_at :: "string \<Rightarrow> string \<Rightarrow> (string \<times> string) option" where
  "cut_at pat [] = (if pat = [] then Some ([], []) else None)"
| "cut_at pat (c # s) =
     (if starts_with (c # s) pat then Some ([], drop (length pat) (c # s))
      else map_option (\<lambda>(b, a). (c # b, a)) (cut_at pat s))"

definition fence_mark :: string where
  "fence_mark = ''```''"

text \<open>\<open>_FENCE_RE.search\<close>: the text between the first fence, with its language mark, and the next.\<close>

definition fenced_text :: "string \<Rightarrow> string option" where
  "fenced_text s =
     (case cut_at fence_mark s of
        None \<Rightarrow> None
      | Some (before, rest) \<Rightarrow>
          (let body = py_lstrip (if starts_with rest ''json'' \<or> starts_with rest ''JSON''
                                 then drop 4 rest else rest)
           in map_option fst (cut_at fence_mark body)))"

definition quote_char :: char where "quote_char = CHR 0x22"
definition backslash :: char where "backslash = CHR 0x5C"

text \<open>The scan for the closing delimiter: the depth, whether it is inside a string and whether
  the last character was a backslash. It returns the text up to the delimiter that brings the
  depth to zero.\<close>

fun scan_object :: "char \<Rightarrow> char \<Rightarrow> int \<Rightarrow> bool \<Rightarrow> bool \<Rightarrow> string \<Rightarrow> string option" where
  "scan_object opener closer depth in_string escaped [] = None"
| "scan_object opener closer depth in_string escaped (c # s) =
     (if in_string
      then map_option (Cons c)
             (if escaped then scan_object opener closer depth True False s
              else if c = backslash then scan_object opener closer depth True True s
              else if c = quote_char then scan_object opener closer depth False False s
              else scan_object opener closer depth True False s)
      else if c = quote_char then map_option (Cons c) (scan_object opener closer depth True False s)
      else if c = opener then map_option (Cons c) (scan_object opener closer (depth + 1) False False s)
      else if c = closer
      then (if depth - 1 = 0 then Some [c]
            else map_option (Cons c) (scan_object opener closer (depth - 1) False False s))
      else map_option (Cons c) (scan_object opener closer depth False False s))"

definition object_from :: "char \<Rightarrow> char \<Rightarrow> string \<Rightarrow> string option" where
  "object_from opener closer s =
     scan_object opener closer 0 False False (dropWhile (\<lambda>c. c \<noteq> opener) s)"

definition extract_json_object :: "string \<Rightarrow> string option" where
  "extract_json_object t =
     (let stripped = py_strip t;
          candidate = (case fenced_text stripped of Some inner \<Rightarrow> py_strip inner | None \<Rightarrow> stripped)
      in case object_from (CHR ''{'') (CHR ''}'') candidate of
           Some r \<Rightarrow> Some r
         | None \<Rightarrow> object_from (CHR ''['') (CHR '']'') candidate)"

section \<open>Structured generation\<close>

datatype message_role = R_SYSTEM | R_USER | R_ASSISTANT

type_synonym message = "message_role \<times> string"

record 'a reply_schema =
  sc_name :: string
  sc_instruction :: string
  sc_envelope_hint :: string
  sc_decode :: "string \<Rightarrow> (string, 'a) res"

type_synonym 'w runtime = "message list \<Rightarrow> 'w \<Rightarrow> (fault, string) res \<times> 'w"

definition read_reply :: "'a reply_schema \<Rightarrow> string \<Rightarrow> (string, 'a) res" where
  "read_reply sc t =
     (case extract_json_object t of
        None \<Rightarrow> Inl ''no balanced JSON object found in model output''
      | Some payload \<Rightarrow> sc_decode sc payload)"

definition repair_instruction :: "'a reply_schema \<Rightarrow> string \<Rightarrow> string" where
  "repair_instruction sc error =
     ''Your previous response was not valid against the required JSON schema.'' @ [CHR 0x0A] @
     ''Error: '' @ error @ [CHR 0x0A] @ sc_envelope_hint sc @
     ''Respond again with ONLY the corrected JSON object. No prose, no code fences.''"

definition structured_output_error :: "'a reply_schema \<Rightarrow> nat \<Rightarrow> string \<Rightarrow> fault" where
  "structured_output_error sc attempts error =
     EdithFault VALIDATION_FAILURE True
       (''model output failed '' @ sc_name sc @ '' validation after '' @ show_nat attempts @
        '' attempt(s): '' @ error)"

text \<open>\<open>left\<close> counts the repairs still allowed.\<close>

fun generate_loop ::
    "'w runtime \<Rightarrow> 'a reply_schema \<Rightarrow> nat \<Rightarrow> message list \<Rightarrow> nat \<Rightarrow> 'w \<Rightarrow> (fault, 'a) res \<times> 'w" where
  "generate_loop rt sc allowed conversation left w =
     (case rt conversation w of
        (Inl e, w') \<Rightarrow> (Inl e, w')
      | (Inr t, w') \<Rightarrow>
          (case read_reply sc t of
             Inr v \<Rightarrow> (Inr v, w')
           | Inl error \<Rightarrow>
               (case left of
                  0 \<Rightarrow> (Inl (structured_output_error sc allowed error), w')
                | Suc k \<Rightarrow>
                    generate_loop rt sc allowed
                      (conversation @ [(R_ASSISTANT, t), (R_USER, repair_instruction sc error)]) k w')))"

definition structured_generate ::
    "'w runtime \<Rightarrow> 'a reply_schema \<Rightarrow> int \<Rightarrow> message list \<Rightarrow> 'w \<Rightarrow> (fault, 'a) res \<times> 'w" where
  "structured_generate rt sc max_repair_attempts messages w =
     (if messages = [] then (Inl (OtherFault ''messages must not be empty''), w)
      else if max_repair_attempts < 0 then (Inl (OtherFault ''max_repair_attempts must be >= 0''), w)
      else generate_loop rt sc (nat max_repair_attempts + 1)
             (messages @ [(R_SYSTEM, sc_instruction sc)]) (nat max_repair_attempts) w)"

section \<open>Retry\<close>

record retry_config =
  rt_max_attempts :: nat
  rt_initial_backoff :: rat
  rt_multiplier :: rat
  rt_max_backoff :: rat

fun delays_from :: "nat \<Rightarrow> rat \<Rightarrow> rat \<Rightarrow> rat \<Rightarrow> rat list" where
  "delays_from 0 delay multiplier cap = []"
| "delays_from (Suc n) delay multiplier cap =
     min delay cap # delays_from n (delay * multiplier) multiplier cap"

definition backoff_delays :: "retry_config \<Rightarrow> rat list" where
  "backoff_delays cfg =
     delays_from (rt_max_attempts cfg - 1) (rt_initial_backoff cfg) (rt_multiplier cfg) (rt_max_backoff cfg)"

text \<open>The outcome, the number of attempts made, the waits between them and the state left.
  Falling through the loop raises.\<close>

type_synonym ('a, 'w) retried = "(fault, 'a) res \<times> nat \<times> rat list \<times> 'w"

function retry_loop ::
    "retry_config \<Rightarrow> ('w \<Rightarrow> (fault, 'a) res \<times> 'w) \<Rightarrow> nat \<Rightarrow> rat list \<Rightarrow> 'w \<Rightarrow> ('a, 'w) retried" where
  "retry_loop cfg operation attempt slept w =
     (if rt_max_attempts cfg < attempt
      then (Inl (OtherFault ''retry loop terminated unexpectedly''), attempt - 1, slept, w)
      else (case operation w of
              (Inr v, w') \<Rightarrow> (Inr v, attempt, slept, w')
            | (Inl e, w') \<Rightarrow>
                if \<not> fault_retryable e \<or> attempt = rt_max_attempts cfg
                then (Inl e, attempt, slept, w')
                else retry_loop cfg operation (attempt + 1)
                       (slept @ [backoff_delays cfg ! (attempt - 1)]) w'))"
  by pat_completeness auto
termination
  by (relation "measure (\<lambda>(cfg, op, n, sl, w). Suc (rt_max_attempts cfg) - n)") auto

declare retry_loop.simps [simp del]

definition with_retry :: "retry_config \<Rightarrow> ('w \<Rightarrow> (fault, 'a) res \<times> 'w) \<Rightarrow> 'w \<Rightarrow> ('a, 'w) retried" where
  "with_retry cfg operation w = retry_loop cfg operation 1 [] w"

section \<open>The envelope\<close>

datatype agent_status = AS_SUCCESS | AS_FAILURE | AS_REJECTED

record 'o agent_response =
  ar_status :: agent_status
  ar_output :: "'o option"
  ar_error :: "string option"
  ar_failure_category :: "failure_category option"
  ar_attempts :: nat

definition response_ok :: "'o agent_response \<Rightarrow> bool" where
  "response_ok r \<longleftrightarrow> ar_status r = AS_SUCCESS"

definition agent_failure ::
    "agent_status \<Rightarrow> failure_category \<Rightarrow> string \<Rightarrow> nat \<Rightarrow> 'o agent_response" where
  "agent_failure st cat msg attempts = \<lparr>ar_status = st, ar_output = None, ar_error = Some msg,
     ar_failure_category = Some cat, ar_attempts = attempts\<rparr>"

text \<open>A run either returns the output schema's own instance, so that its validation is the
  identity, or raises. An input that does not validate is rejected before the first attempt.\<close>

definition agent_execute ::
    "string \<Rightarrow> retry_config \<Rightarrow> ('i \<Rightarrow> bool) \<Rightarrow> ('i \<Rightarrow> 'w \<Rightarrow> (fault, 'o) res \<times> 'w) \<Rightarrow> 'i \<Rightarrow> 'w \<Rightarrow>
     'o agent_response \<times> 'w" where
  "agent_execute name cfg valid run payload w =
     (if \<not> valid payload
      then (agent_failure AS_REJECTED VALIDATION_FAILURE (''input to agent '' @ name @ '' failed validation'') 0, w)
      else (case with_retry cfg (run payload) w of
              (Inr out, attempts, slept, w') \<Rightarrow>
                (\<lparr>ar_status = AS_SUCCESS, ar_output = Some out, ar_error = None, ar_failure_category = None,
                  ar_attempts = attempts\<rparr>, w')
            | (Inl (EdithFault cat r msg), attempts, slept, w') \<Rightarrow>
                (agent_failure AS_FAILURE cat msg attempts, w')
            | (Inl (OtherFault msg), attempts, slept, w') \<Rightarrow>
                (agent_failure AS_FAILURE UNKNOWN (''agent '' @ name @ '' raised '' @ msg) attempts, w')))"

section \<open>Retrying ends, with the first final outcome\<close>

fun state_after :: "('w \<Rightarrow> (fault, 'a) res \<times> 'w) \<Rightarrow> nat \<Rightarrow> 'w \<Rightarrow> 'w" where
  "state_after operation 0 w = w"
| "state_after operation (Suc n) w = state_after operation n (snd (operation w))"

definition outcome_at :: "('w \<Rightarrow> (fault, 'a) res \<times> 'w) \<Rightarrow> nat \<Rightarrow> 'w \<Rightarrow> (fault, 'a) res" where
  "outcome_at operation n w = fst (operation (state_after operation n w))"

definition final_outcome :: "(fault, 'a) res \<Rightarrow> bool" where
  "final_outcome r \<longleftrightarrow> (case r of Inl e \<Rightarrow> \<not> fault_retryable e | Inr v \<Rightarrow> True)"

lemma outcome_at_Suc [simp]: "outcome_at operation (Suc n) w = outcome_at operation n (snd (operation w))"
  by (simp add: outcome_at_def)

lemma length_delays_from [simp]: "length (delays_from n d m cap) = n"
  by (induction n arbitrary: d) auto

lemma nth_delays_from: "i < n \<Longrightarrow> delays_from n d m cap ! i = min (d * m ^ i) cap"
proof (induction n arbitrary: d i)
  case (Suc n)
  then show ?case by (cases i) (simp_all add: mult.assoc)
qed simp

lemma backoff_delays_facts:
  "length (backoff_delays cfg) = rt_max_attempts cfg - 1"
  "i < rt_max_attempts cfg - 1 \<Longrightarrow>
     backoff_delays cfg ! i = min (rt_initial_backoff cfg * rt_multiplier cfg ^ i) (rt_max_backoff cfg)"
  by (simp_all add: backoff_delays_def nth_delays_from)

lemma retry_loop_spec:
  assumes "retry_loop cfg operation a slept w = (r, k, sl, w')" "1 \<le> a" "a \<le> rt_max_attempts cfg"
    "slept = take (a - 1) (backoff_delays cfg)"
  shows "a \<le> k \<and> k \<le> rt_max_attempts cfg \<and> r = outcome_at operation (k - a) w \<and>
    w' = state_after operation (Suc (k - a)) w \<and> sl = take (k - 1) (backoff_delays cfg) \<and>
    (\<forall>j < k - a. \<not> final_outcome (outcome_at operation j w)) \<and>
    (final_outcome r \<or> k = rt_max_attempts cfg)"
  using assms
proof (induction cfg operation a slept w rule: retry_loop.induct)
  case (1 cfg operation a slept w)
  obtain x w1 where op: "operation w = (x, w1)" by fastforce
  show ?case
  proof (cases "final_outcome x \<or> a = rt_max_attempts cfg")
    case True
    then have "r = x" "k = a" "sl = slept" "w' = w1"
      using "1.prems"(1,3) op
      by (auto simp: retry_loop.simps [of cfg operation a slept w] final_outcome_def split: sum.splits if_splits)
    then show ?thesis using True "1.prems" op by (auto simp: outcome_at_def)
  next
    case False
    then obtain e where x: "x = Inl e" "fault_retryable e"
      by (cases x) (auto simp: final_outcome_def)
    have lt: "a < rt_max_attempts cfg" using False "1.prems"(3) by simp
    have rec: "retry_loop cfg operation (a + 1) (slept @ [backoff_delays cfg ! (a - 1)]) w1 = (r, k, sl, w')"
      using "1.prems"(1) op x lt by (simp add: retry_loop.simps [of cfg operation a slept w])
    have sl: "slept @ [backoff_delays cfg ! (a - 1)] = take (a + 1 - 1) (backoff_delays cfg)"
      using "1.prems"(2,4) lt backoff_delays_facts(1) [of cfg]
        take_Suc_conv_app_nth [of "a - 1" "backoff_delays cfg"] by simp
    have IH: "a + 1 \<le> k \<and> k \<le> rt_max_attempts cfg \<and> r = outcome_at operation (k - (a + 1)) w1 \<and>
        w' = state_after operation (Suc (k - (a + 1))) w1 \<and> sl = take (k - 1) (backoff_delays cfg) \<and>
        (\<forall>j < k - (a + 1). \<not> final_outcome (outcome_at operation j w1)) \<and>
        (final_outcome r \<or> k = rt_max_attempts cfg)"
      by (rule "1.IH" [OF _ op [symmetric] x(1) _ rec]) (use x lt sl "1.prems"(2) in auto)
    then have k: "k - a = Suc (k - (a + 1))" by linarith
    have "\<not> final_outcome (outcome_at operation j w)" if "j < k - a" for j
      using that IH k op False by (cases j) (auto simp: outcome_at_def)
    then show ?thesis using IH k op by auto
  qed
qed

text \<open>C24. Retrying ends: between one and the configured number of attempts are made, the result and
  the state are those of the last one, every earlier attempt ended in a retryable error, and
  the last is final unless the attempts are used up. The waits in between are the first delays
  of the policy.
\<close>

theorem retry_ends_at_first_final:
  assumes "1 \<le> rt_max_attempts cfg"
  shows "\<exists>k. with_retry cfg operation w =
      (outcome_at operation k w, Suc k, take k (backoff_delays cfg), state_after operation (Suc k) w) \<and>
    k < rt_max_attempts cfg \<and> (\<forall>j<k. \<not> final_outcome (outcome_at operation j w)) \<and>
    (final_outcome (outcome_at operation k w) \<or> Suc k = rt_max_attempts cfg)"
proof -
  obtain r k sl w' where r: "with_retry cfg operation w = (r, k, sl, w')" using prod_cases4 by blast
  note spec = retry_loop_spec [OF r [unfolded with_retry_def] _ assms]
  then obtain n where "k = Suc n" by (cases k) auto
  then show ?thesis using r spec by (intro exI [of _ n]) auto
qed

text \<open>The third attempt is the last of three, whatever it returns.\<close>

definition flaky :: "nat \<Rightarrow> (fault, nat) res \<times> nat" where
  "flaky n = (if n = 0 then (Inr 7, 0) else (Inl (EdithFault TIMEOUT True ''slow''), n - 1))"

definition three_attempts :: retry_config where
  "three_attempts = \<lparr>rt_max_attempts = 3, rt_initial_backoff = 1/2, rt_multiplier = 2, rt_max_backoff = 8\<rparr>"

theorem retry_ends_at_first_final_witness:
  "with_retry three_attempts flaky 2 = (Inr 7, 3, [1/2, 1], 0)"
proof -
  have "1 \<le> rt_max_attempts three_attempts" by (simp add: three_attempts_def)
  then obtain k where w: "with_retry three_attempts flaky 2 =
      (outcome_at flaky k 2, Suc k, take k (backoff_delays three_attempts), state_after flaky (Suc k) 2)"
    and k: "k < 3" "\<forall>j<k. \<not> final_outcome (outcome_at flaky j 2)"
    and f: "final_outcome (outcome_at flaky k 2) \<or> Suc k = 3"
    using retry_ends_at_first_final [of three_attempts flaky 2] by (auto simp: three_attempts_def)
  have o: "\<not> final_outcome (outcome_at flaky 0 2)" "\<not> final_outcome (outcome_at flaky 1 2)"
    by (simp_all add: outcome_at_def flaky_def final_outcome_def)
  then have "k = 2" using k(1) f by (cases "k = 0"; cases "k = 1") auto
  then show ?thesis using w
    by (simp add: outcome_at_def flaky_def backoff_delays_def three_attempts_def numeral_2_eq_2 numeral_3_eq_3)
qed

section \<open>JSON written out is found again\<close>

datatype json =
  JNull | JBool bool | JNumber string | JString string | JArray "json list" | JObject "(string \<times> json) list"

definition hex_digit :: "nat \<Rightarrow> char" where
  "hex_digit n = char_of (if n < 10 then n + 48 else n + 87)"

definition json_char :: "char \<Rightarrow> string" where
  "json_char c =
     (let n = (of_char c :: nat) in
      if c = quote_char then [backslash, quote_char]
      else if c = backslash then [backslash, backslash]
      else if n = 10 then [backslash, CHR ''n''] else if n = 13 then [backslash, CHR ''r'']
      else if n = 9 then [backslash, CHR ''t''] else if n = 8 then [backslash, CHR ''b'']
      else if n = 12 then [backslash, CHR ''f'']
      else if n < 32 \<or> 126 < n
      then [backslash, CHR ''u'', CHR ''0'', CHR ''0'', hex_digit (n div 16), hex_digit (n mod 16)]
      else [c])"

definition json_string :: "string \<Rightarrow> string" where
  "json_string s = [quote_char] @ concat (map json_char s) @ [quote_char]"

text \<open>\<open>json.dumps\<close>, the numbers given as the text they are written with.\<close>

fun json_dumps :: "json \<Rightarrow> string" where
  "json_dumps JNull = ''null''"
| "json_dumps (JBool b) = (if b then ''true'' else ''false'')"
| "json_dumps (JNumber s) = s"
| "json_dumps (JString s) = json_string s"
| "json_dumps (JArray vs) = ''['' @ join '', '' (map json_dumps vs) @ '']''"
| "json_dumps (JObject kvs) =
     ''{'' @ join '', '' (map (\<lambda>(k, v). json_string k @ '': '' @ json_dumps v) kvs) @ ''}''"

fun numbers_ok :: "json \<Rightarrow> bool" where
  "numbers_ok (JNumber s) = list_all (\<lambda>c. c \<in> set ''0123456789+-.eE'') s"
| "numbers_ok (JArray vs) = list_all numbers_ok vs"
| "numbers_ok (JObject kvs) = list_all (\<lambda>(k, v). numbers_ok v) kvs"
| "numbers_ok j = True"

abbreviation scan_braces :: "int \<Rightarrow> bool \<Rightarrow> bool \<Rightarrow> string \<Rightarrow> string option" where
  "scan_braces \<equiv> scan_object (CHR ''{'') (CHR ''}'')"

text \<open>Text the scan passes over inside an object, and inside a string.\<close>

definition passes :: "string \<Rightarrow> bool" where
  "passes s \<longleftrightarrow> (\<forall>d rest. 1 \<le> d \<longrightarrow>
     scan_braces d False False (s @ rest) = map_option (append s) (scan_braces d False False rest))"

definition passes_quoted :: "string \<Rightarrow> bool" where
  "passes_quoted s \<longleftrightarrow> (\<forall>d rest.
     scan_braces d True False (s @ rest) = map_option (append s) (scan_braces d True False rest))"

lemma map_option_append [simp]:
  "map_option ((@) []) x = x"
  "map_option ((@) s) (map_option ((@) t) x) = map_option ((@) (s @ t)) x"
  "map_option (Cons c) (map_option ((@) s) x) = map_option ((@) (c # s)) x"
  "map_option (Cons c) (map_option (Cons d) x) = map_option ((@) [c, d]) x"
  "map_option (Cons c) x = map_option ((@) [c]) x"
  by (cases x; simp)+

lemma passes_Nil [simp]: "passes []"
  by (simp add: passes_def)

lemma passes_append [intro]: "passes s \<Longrightarrow> passes t \<Longrightarrow> passes (s @ t)"
  by (simp add: passes_def)

lemma passes_quoted_append: "passes_quoted s \<Longrightarrow> passes_quoted t \<Longrightarrow> passes_quoted (s @ t)"
  by (simp add: passes_quoted_def)

definition plain_char :: "char \<Rightarrow> bool" where
  "plain_char c \<longleftrightarrow> c \<noteq> quote_char \<and> c \<noteq> CHR ''{'' \<and> c \<noteq> CHR ''}''"

lemma passes_plain: "list_all plain_char s \<Longrightarrow> passes s"
proof (induction s)
  case (Cons c s)
  have "passes [c]" using Cons.prems by (auto simp: passes_def plain_char_def)
  then show ?case using Cons passes_append [of "[c]" s] by simp
qed simp

lemma quote_not_backslash [simp]: "quote_char \<noteq> backslash" "backslash \<noteq> quote_char"
  by (simp_all add: quote_char_def backslash_def)

lemma hex_digit_plain: "n < 16 \<Longrightarrow> hex_digit n \<noteq> quote_char \<and> hex_digit n \<noteq> backslash"
proof -
  have "list_all (\<lambda>n. hex_digit n \<noteq> quote_char \<and> hex_digit n \<noteq> backslash) [0..<16]" by code_simp
  then show "n < 16 \<Longrightarrow> hex_digit n \<noteq> quote_char \<and> hex_digit n \<noteq> backslash" by (auto simp: list_all_iff)
qed

lemma passes_quoted_json_char: "passes_quoted (json_char c)"
proof -
  have one: "passes_quoted [x]" if "x \<noteq> quote_char" "x \<noteq> backslash" for x
    using that by (simp add: passes_quoted_def)
  have esc: "passes_quoted [backslash, x]" for x
    by (simp add: passes_quoted_def)
  have hex: "passes_quoted [hex_digit n]" if "n < 16" for n using one hex_digit_plain [OF that] by blast
  have "(of_char c :: nat) < 16 * 16" using nat_of_char_less_256 [of c] by simp
  then have "(of_char c :: nat) div 16 < 16" "(of_char c :: nat) mod 16 < 16"
    by (simp_all add: less_mult_imp_div_less)
  then have u: "passes_quoted ([backslash, CHR ''u''] @ [CHR ''0''] @ [CHR ''0''] @
      [hex_digit (of_char c div 16)] @ [hex_digit (of_char c mod 16)])"
    by (intro passes_quoted_append esc one hex) (simp_all add: quote_char_def backslash_def)
  show ?thesis unfolding json_char_def Let_def using esc one u by (simp add: if_splits)
qed

lemma passes_quoted_chars: "passes_quoted (concat (map json_char s))"
proof (induction s)
  case (Cons c s)
  then show ?case using passes_quoted_append [OF passes_quoted_json_char] by simp
qed (simp add: passes_quoted_def)

lemma passes_json_string: "passes (json_string s)"
  using passes_quoted_chars [of s]
  by (simp add: passes_def json_string_def passes_quoted_def)

lemma passes_join: "(\<And>x. x \<in> set xs \<Longrightarrow> passes x) \<Longrightarrow> passes sep \<Longrightarrow> passes (join sep xs)"
  by (induction xs) (auto simp: join_Cons)

lemma passes_braces: "passes s \<Longrightarrow> passes (''{'' @ s @ ''}'')"
  by (auto simp: passes_def quote_char_def)

lemma passes_marks: "passes '': ''" "passes '', ''" "passes ''[''" "passes '']''" "passes ''null''"
    "passes ''true''" "passes ''false''"
  by (rule passes_plain, code_simp)+

lemma number_plain:
  assumes "list_all (\<lambda>c. c \<in> set ''0123456789+-.eE'') s"
  shows "list_all plain_char s"
proof -
  have "list_all plain_char ''0123456789+-.eE''" by code_simp
  then have "\<And>c. c \<in> set ''0123456789+-.eE'' \<Longrightarrow> plain_char c" unfolding list_all_iff by blast
  then show ?thesis using assms unfolding list_all_iff by blast
qed

definition json_member :: "string \<times> json \<Rightarrow> string" where
  "json_member kv = (case kv of (k, v) \<Rightarrow> json_string k @ '': '' @ json_dumps v)"

lemma passes_members:
  assumes "\<And>k v. (k, v) \<in> set kvs \<Longrightarrow> passes (json_dumps v)"
  shows "passes (join '', '' (map json_member kvs))"
proof (rule passes_join)
  fix x assume "x \<in> set (map json_member kvs)"
  then obtain k v where kv: "(k, v) \<in> set kvs" and x: "x = json_member (k, v)" by auto
  have "passes (json_string k @ '': '' @ json_dumps v)"
    by (intro passes_append passes_json_string passes_marks assms [OF kv])
  then show "passes x" unfolding x json_member_def prod.case .
qed (rule passes_marks)

lemma json_dumps_object: "json_dumps (JObject kvs) = ''{'' @ join '', '' (map json_member kvs) @ ''}''"
  by (simp add: json_member_def cong: map_cong)

lemma passes_json_dumps: "numbers_ok j \<Longrightarrow> passes (json_dumps j)"
proof (induction j rule: json_dumps.induct)
  case (3 s)
  then show ?case using passes_plain number_plain by simp
next
  case (5 vs)
  have "passes (join '', '' (map json_dumps vs))"
    using 5 by (intro passes_join passes_marks) (auto simp: list_all_iff)
  then show ?case unfolding json_dumps.simps by (intro passes_append passes_marks)
next
  case (6 kvs)
  have "\<And>k v. (k, v) \<in> set kvs \<Longrightarrow> passes (json_dumps v)"
    using 6 by (auto simp: list_all_iff)
  then show ?case unfolding json_dumps_object by (intro passes_braces passes_members)
qed (simp_all add: passes_json_string passes_marks)

lemma object_from_dumps:
  assumes "numbers_ok (JObject kvs)" "CHR ''{'' \<notin> set before"
  shows "object_from (CHR ''{'') (CHR ''}'') (before @ json_dumps (JObject kvs) @ after) =
    Some (json_dumps (JObject kvs))"
proof -
  define body where "body = join '', '' (map json_member kvs)"
  have "passes body" unfolding body_def
    using assms(1) by (intro passes_members passes_json_dumps) (auto simp: list_all_iff)
  then have "scan_braces 1 False False (body @ ''}'' @ after) = Some (body @ ''}'')"
    by (simp add: passes_def quote_char_def)
  moreover have "dropWhile (\<lambda>c. c \<noteq> CHR ''{'') (before @ json_dumps (JObject kvs) @ after) =
      ''{'' @ body @ ''}'' @ after"
    unfolding json_dumps_object body_def [symmetric] using assms(2) by (subst dropWhile_append2) auto
  ultimately show ?thesis unfolding object_from_def json_dumps_object body_def [symmetric]
    by (simp add: quote_char_def)
qed

definition solid :: "string \<Rightarrow> bool" where
  "solid d \<longleftrightarrow> d \<noteq> [] \<and> \<not> is_space (hd d) \<and> \<not> is_space (last d)"

lemma lstrip_solid: "d \<noteq> [] \<Longrightarrow> \<not> is_space (hd d) \<Longrightarrow> py_lstrip (a @ d @ b) = dropWhile is_space a @ d @ b"
  unfolding py_lstrip_def by (cases d; induction a) auto

lemma rstrip_solid:
  assumes "d \<noteq> []" "\<not> is_space (last d)"
  shows "py_rstrip (a @ d @ b) = a @ d @ rev (dropWhile is_space (rev b))"
proof -
  have "dropWhile is_space (rev b @ rev d @ rev a) = dropWhile is_space (rev b) @ rev d @ rev a"
    using lstrip_solid [of "rev d" "rev b" "rev a"] assms by (simp add: py_lstrip_def hd_rev)
  then show ?thesis by (simp add: py_rstrip_def)
qed

lemma strip_solid:
  assumes "solid d"
  obtains a' b' where "py_strip (a @ d @ b) = a' @ d @ b'" "set a' \<subseteq> set a" "set b' \<subseteq> set b"
proof -
  have "py_strip (a @ d @ b) = dropWhile is_space a @ d @ rev (dropWhile is_space (rev b))"
    using assms by (simp add: py_strip_def solid_def lstrip_solid rstrip_solid)
  moreover have "set (dropWhile is_space a) \<subseteq> set a" "set (rev (dropWhile is_space (rev b))) \<subseteq> set b"
    using set_dropWhileD by fastforce+
  ultimately show thesis using that by blast
qed

definition backtick :: char where "backtick = CHR 0x60"

lemma fence_mark_eq: "fence_mark = [backtick, backtick, backtick]"
  by (simp add: fence_mark_def backtick_def)

lemma cut_at_none: "backtick \<notin> set s \<Longrightarrow> cut_at fence_mark s = None"
  by (induction s) (auto simp: starts_with_def prefix_Cons fence_mark_eq)

lemma cut_at_fence: "backtick \<notin> set a \<Longrightarrow> cut_at fence_mark (a @ fence_mark @ r) = Some (a, r)"
  by (induction a) (auto simp: starts_with_def fence_mark_eq)

lemma solid_dumps: "solid (json_dumps (JObject kvs))"
  unfolding json_dumps_object solid_def by (simp add: is_space_def last_append)

lemma extract_plain:
  assumes "numbers_ok (JObject kvs)" "CHR ''{'' \<notin> set before"
    "backtick \<notin> set (before @ json_dumps (JObject kvs) @ after)"
  shows "extract_json_object (before @ json_dumps (JObject kvs) @ after) = Some (json_dumps (JObject kvs))"
proof -
  define d where "d = json_dumps (JObject kvs)"
  obtain a b where ab: "py_strip (before @ d @ after) = a @ d @ b" "set a \<subseteq> set before" "set b \<subseteq> set after"
    using strip_solid [OF solid_dumps] unfolding d_def by blast
  have "backtick \<notin> set (a @ d @ b)" using ab(2,3) assms(3) unfolding d_def [symmetric] by auto
  then have "fenced_text (a @ d @ b) = None" using cut_at_none [of "a @ d @ b"] by (simp add: fenced_text_def)
  moreover have "object_from (CHR ''{'') (CHR ''}'') (a @ d @ b) = Some d"
    unfolding d_def using assms(1,2) ab(2) by (intro object_from_dumps) auto
  ultimately show ?thesis unfolding d_def [symmetric] extract_json_object_def Let_def ab(1) by simp
qed

definition fence_json :: "string \<Rightarrow> string" where
  "fence_json d = fence_mark @ ''json'' @ [CHR 0x0A] @ d @ [CHR 0x0A] @ fence_mark"

lemma extract_fenced:
  assumes "numbers_ok (JObject kvs)" "backtick \<notin> set (before @ json_dumps (JObject kvs))"
  shows "extract_json_object (before @ fence_json (json_dumps (JObject kvs)) @ after) =
    Some (json_dumps (JObject kvs))"
proof -
  define d where "d = json_dumps (JObject kvs)"
  have so: "solid d" unfolding d_def by (rule solid_dumps)
  have "solid (fence_json d)" by (simp add: solid_def fence_json_def fence_mark_eq backtick_def is_space_def)
  then obtain a b where ab: "py_strip (before @ fence_json d @ after) = a @ fence_json d @ b" "set a \<subseteq> set before"
    using strip_solid by metis
  have no: "backtick \<notin> set a" "backtick \<notin> set (d @ [CHR 0x0A])"
    using ab(2) assms(2) unfolding d_def [symmetric] by (auto simp: backtick_def)
  have one: "cut_at fence_mark (a @ fence_json d @ b) =
      Some (a, ''json'' @ [CHR 0x0A] @ d @ [CHR 0x0A] @ fence_mark @ b)"
    using cut_at_fence [OF no(1)] unfolding fence_json_def by simp
  have body: "py_lstrip ([CHR 0x0A] @ d @ [CHR 0x0A] @ fence_mark @ b) = (d @ [CHR 0x0A]) @ fence_mark @ b"
    using lstrip_solid [of d "[CHR 0x0A]" "[CHR 0x0A] @ fence_mark @ b"] so
    by (simp add: solid_def is_space_def)
  have "fenced_text (a @ fence_json d @ b) = Some (d @ [CHR 0x0A])"
    unfolding fenced_text_def one using body cut_at_fence [OF no(2), of b] by (simp add: starts_with_def)
  moreover have "py_strip (d @ [CHR 0x0A]) = d"
    using lstrip_solid [of d "[]" "[CHR 0x0A]"] rstrip_solid [of d "[]" "[CHR 0x0A]"] so
    by (simp add: py_strip_def solid_def is_space_def)
  moreover have "object_from (CHR ''{'') (CHR ''}'') d = Some d"
    using object_from_dumps [OF assms(1), of "[]" "[]"] by (simp add: d_def)
  ultimately show ?thesis unfolding d_def [symmetric] extract_json_object_def Let_def ab(1) by simp
qed



text \<open>With two fences inside a string of the object, the object is not found.\<close>

lemma fences_inside_lose_the_object:
  "extract_json_object (json_dumps (JObject [(''content'', JString ''```python x = 1```'')])) = None"
  by code_simp

end
