(* ===== verification/Coder.thy ===== *)
theory Coder
  imports Complex_Main Generation Tool_Gateway
begin

text \<open>
  The coding agent's route to disk (\<open>edith/agents/coder.py\<close>), which every engineering agent
  inherits: cleaning the content a model returned, resolving an edit against the existing
  file, the syntax gate, the gate against dropped definitions, and the write through the tool
  gateway.

  \<open>ast.parse\<close> is an argument: the error it reports, or the statements at the top level of the
  module with their line numbers. The prompt, the summary and the size of the git diff are
  left out.
\<close>

section \<open>Cleaning content\<close>

fun unix_newlines :: "string \<Rightarrow> string" where
  "unix_newlines (a # b # s) =
     (if a = CHR 0x0D \<and> b = CHR 0x0A then CHR 0x0A # unix_newlines s else a # unix_newlines (b # s))"
| "unix_newlines s = s"

definition newline :: char where "newline = CHR 0x0A"

definition lang_char :: "char \<Rightarrow> bool" where
  "lang_char c \<longleftrightarrow> word_char c \<or> c = CHR ''+'' \<or> c = CHR ''-''"

text \<open>\<open>_FENCE_RE.match\<close> on stripped text: the language mark is followed by white space with a
  line feed; the content starts after the last line feed of it and ends before the closing
  fence, without the white space in front of that.\<close>

definition fence_content :: "string \<Rightarrow> string option" where
  "fence_content s =
     (if \<not> starts_with s fence_mark then None
      else (let r = dropWhile lang_char (drop 3 s);
                space = takeWhile is_space r;
                u = rev (takeWhile (\<lambda>c. c \<noteq> newline) (rev space)) @ dropWhile is_space r in
            if newline \<notin> set space \<or> \<not> ends_with u fence_mark then None
            else Some (py_rstrip (drop_last 3 u))))"

text \<open>\<open>_MARKER_RE\<close> on one line.\<close>

definition is_marker :: "string \<Rightarrow> bool" where
  "is_marker line =
     (let l = py_lstrip line; dashes = takeWhile (\<lambda>c. c = CHR ''-'') l;
          r = py_lstrip (dropWhile (\<lambda>c. c = CHR ''-'') l); low = py_lower r;
          ends = (\<lambda>n. starts_with low n \<and> ends_with (py_rstrip (drop (length n) r)) ''--'') in
      starts_with l ''==='' \<or>
      (2 \<le> length dashes \<and> (ends ''file'' \<or> ends ''begin file'' \<or> ends ''end file'')))"

definition droppable :: "string \<Rightarrow> bool" where
  "droppable line \<longleftrightarrow> py_strip line = [] \<or> is_marker line"

definition sanitize_content :: "string \<Rightarrow> string" where
  "sanitize_content raw =
     (let t0 = unix_newlines raw;
          t1 = (case fence_content (py_strip t0) of Some inner \<Rightarrow> inner | None \<Rightarrow> t0);
          lines = rev (dropWhile droppable (rev (dropWhile droppable (split_on newline t1))));
          body = join [newline] lines
      in if body = [] then [] else body @ [newline])"

section \<open>The gates\<close>

text \<open>A function has its line, the lines of its decorators and its last line, when that is
  known.\<close>

datatype top_level = TopFunction string nat "nat list" "nat option" | TopClass string | TopOther

type_synonym module_parser = "string \<Rightarrow> (string, top_level list) res"

definition check_syntax :: "module_parser \<Rightarrow> string \<Rightarrow> string \<Rightarrow> string option" where
  "check_syntax parse path content =
     (if \<not> ends_with path ''.py'' then None
      else (case parse content of Inl msg \<Rightarrow> Some msg | Inr m \<Rightarrow> None))"

fun symbols_of :: "top_level list \<Rightarrow> string list" where
  "symbols_of [] = []"
| "symbols_of (TopFunction n l ds e # ts) = n # symbols_of ts"
| "symbols_of (TopClass n # ts) = n # symbols_of ts"
| "symbols_of (TopOther # ts) = symbols_of ts"

definition top_level_symbols :: "module_parser \<Rightarrow> string \<Rightarrow> string list" where
  "top_level_symbols parse content =
     (case parse content of Inl msg \<Rightarrow> [] | Inr m \<Rightarrow> symbols_of m)"

definition check_preserved_symbols ::
    "module_parser \<Rightarrow> string \<Rightarrow> string \<Rightarrow> string \<Rightarrow> string list \<Rightarrow> string list option" where
  "check_preserved_symbols parse path existing new_content declared =
     (if \<not> ends_with path ''.py'' \<or> py_strip existing = [] then None
      else (let missing = sorted_set (filter (\<lambda>n. n \<notin> set (top_level_symbols parse new_content) \<and> n \<notin> set declared)
                            (top_level_symbols parse existing))
            in if missing = [] then None else Some missing))"

fun first_function :: "top_level list \<Rightarrow> string" where
  "first_function [] = []"
| "first_function (TopFunction n l ds e # ts) = n"
| "first_function (t # ts) = first_function ts"

definition first_function_name :: "module_parser \<Rightarrow> string \<Rightarrow> string" where
  "first_function_name parse content =
     (case parse content of Inl msg \<Rightarrow> [] | Inr m \<Rightarrow> first_function m)"

fun find_function :: "string \<Rightarrow> top_level list \<Rightarrow> (nat \<times> nat) option" where
  "find_function name [] = None"
| "find_function name (TopFunction n l ds e # ts) =
     (if n = name
      then Some (foldr min ds l - 1, case e of None \<Rightarrow> l | Some k \<Rightarrow> if k = 0 then l else k)
      else find_function name ts)"
| "find_function name (t # ts) = find_function name ts"

definition replace_function :: "module_parser \<Rightarrow> string \<Rightarrow> string \<Rightarrow> string \<Rightarrow> string option" where
  "replace_function parse existing name replacement =
     (case parse existing of
        Inl msg \<Rightarrow> None
      | Inr m \<Rightarrow>
          (case find_function name m of
             None \<Rightarrow> None
           | Some (start, finish) \<Rightarrow>
               (let lines = split_on newline existing;
                    body = split_on newline (rstrip_chars [newline] replacement)
                in Some (join [newline] (take start lines @ body @ drop finish lines)))))"

section \<open>Edits\<close>

datatype edit_mode = APPEND_FILE | REPLACE_FUNCTION | REPLACE_FILE

record file_edit =
  fe_path :: string
  fe_mode :: edit_mode
  fe_content :: string
  fe_function_name :: string
  fe_removes_definitions :: "string list"

definition file_edit_valid :: "file_edit \<Rightarrow> bool" where
  "file_edit_valid e \<longleftrightarrow>
     1 \<le> length (fe_path e) \<and> length (fe_path e) \<le> 300 \<and> length (fe_content e) \<le> 60000 \<and>
     length (fe_function_name e) \<le> 200 \<and> length (fe_removes_definitions e) \<le> 20"

definition model_edits_valid :: "file_edit list \<Rightarrow> bool" where
  "model_edits_valid es \<longleftrightarrow> 1 \<le> length es \<and> length es \<le> 6 \<and> list_all file_edit_valid es"

datatype edit_error = DoesNotExistYet edit_mode | NoFunctionGiven | NoSuchFunction string "string list"

definition append_separator :: "string \<Rightarrow> string" where
  "append_separator existing =
     (if ends_with existing [newline, newline] then []
      else if ends_with existing [newline] then [newline] else [newline, newline])"

definition resolve_content :: "module_parser \<Rightarrow> file_edit \<Rightarrow> string \<Rightarrow> (edit_error, string) res" where
  "resolve_content parse e existing =
     (if fe_mode e = REPLACE_FILE then Inr (fe_content e)
      else if py_strip existing = []
      then (if fe_mode e = APPEND_FILE then Inr (fe_content e) else Inl (DoesNotExistYet (fe_mode e)))
      else if fe_mode e = APPEND_FILE
      then Inr (existing @ append_separator existing @ lstrip_chars [newline] (fe_content e))
      else (let named = py_strip (fe_function_name e);
                target = (if named = [] then first_function_name parse (fe_content e) else named) in
            if target = [] then Inl NoFunctionGiven
            else (case replace_function parse existing target (fe_content e) of
                    None \<Rightarrow> Inl (NoSuchFunction target (sorted_set (top_level_symbols parse existing)))
                  | Some s \<Rightarrow> Inr s)))"

datatype concern =
    Unresolved string edit_error | NotValidPython string string | DropsDefinitions string "string list"
  | WriteRefused string tool_error

record coder_result =
  cr_changed_files :: "string list"
  cr_rejected_files :: "string list"
  cr_denied_files :: "string list"
  cr_concerns :: "concern list"

definition no_edits :: coder_result where
  "no_edits = \<lparr>cr_changed_files = [], cr_rejected_files = [], cr_denied_files = [], cr_concerns = []\<rparr>"

definition reject_edit :: "string \<Rightarrow> concern \<Rightarrow> coder_result \<Rightarrow> coder_result" where
  "reject_edit path c r =
     r\<lparr>cr_rejected_files := cr_rejected_files r @ [path], cr_concerns := cr_concerns r @ [c]\<rparr>"

text \<open>A gateway over the file tools, for one principal and one root.\<close>

record coder_tools =
  ct_policy :: path_policy
  ct_permissions :: agent_permissions
  ct_refuses :: "abs_path \<Rightarrow> bool"

definition tools_execute :: "coder_tools \<Rightarrow> string \<Rightarrow> tool_arguments \<Rightarrow> file_system \<Rightarrow> tool_result \<times> file_system" where
  "tools_execute ct tool args fs =
     gateway_execute (ct_permissions ct) (file_tools (ct_policy ct) (ct_permissions ct) (ct_refuses ct))
       \<lparr>tc_call_id = [], tc_tool = tool, tc_arguments = args\<rparr> fs"

definition read_arguments :: "string \<Rightarrow> tool_arguments" where
  "read_arguments path = ReadArgs \<lparr>ri_path = path, ri_start_line = None, ri_max_lines = None\<rparr>"

definition output_content :: "tool_result \<Rightarrow> string" where
  "output_content r = (case tr_output r of Some (ReadOutput p s a b c d e) \<Rightarrow> s | _ \<Rightarrow> [])"

definition read_existing :: "coder_tools \<Rightarrow> string \<Rightarrow> file_system \<Rightarrow> string" where
  "read_existing ct path fs =
     (let r = fst (tools_execute ct ''filesystem.read'' (read_arguments path) fs)
      in if tr_ok r then output_content r else [])"

definition apply_write :: "coder_tools \<Rightarrow> string \<Rightarrow> string \<Rightarrow> file_system \<Rightarrow> tool_result \<times> file_system" where
  "apply_write ct path content fs =
     tools_execute ct ''filesystem.write''
       (WriteArgs \<lparr>wi_path = path, wi_content = content, wi_overwrite = True, wi_create_parents = True\<rparr>) fs"

definition note_write :: "string \<Rightarrow> tool_result \<Rightarrow> coder_result \<Rightarrow> coder_result" where
  "note_write path result r =
     (if tr_ok result then r\<lparr>cr_changed_files := cr_changed_files r @ [path]\<rparr>
      else reject_edit path (WriteRefused path (the (tr_error result)))
             (if result_denied result then r\<lparr>cr_denied_files := cr_denied_files r @ [path]\<rparr> else r))"

text \<open>What an edit resolves to, unless a gate refuses it.\<close>

definition gate_edit :: "module_parser \<Rightarrow> file_edit \<Rightarrow> string \<Rightarrow> (concern, string) res" where
  "gate_edit parse e existing =
     (case resolve_content parse e existing of
        Inl err \<Rightarrow> Inl (Unresolved (fe_path e) err)
      | Inr resolved \<Rightarrow>
          (case check_syntax parse (fe_path e) resolved of
             Some msg \<Rightarrow> Inl (NotValidPython (fe_path e) msg)
           | None \<Rightarrow>
               (case check_preserved_symbols parse (fe_path e) existing resolved (fe_removes_definitions e) of
                  Some missing \<Rightarrow> Inl (DropsDefinitions (fe_path e) missing)
                | None \<Rightarrow> Inr resolved)))"

definition apply_edit ::
    "module_parser \<Rightarrow> coder_tools \<Rightarrow> file_edit \<Rightarrow> coder_result \<times> file_system \<Rightarrow> coder_result \<times> file_system" where
  "apply_edit parse ct raw st =
     (case st of (r, fs) \<Rightarrow>
        let e = raw\<lparr>fe_content := sanitize_content (fe_content raw)\<rparr> in
        (case gate_edit parse e (read_existing ct (fe_path e) fs) of
           Inl c \<Rightarrow> (reject_edit (fe_path e) c r, fs)
         | Inr resolved \<Rightarrow>
             (case apply_write ct (fe_path e) resolved fs of
                (result, fs') \<Rightarrow> (note_write (fe_path e) result r, fs'))))"

definition apply_edits ::
    "module_parser \<Rightarrow> coder_tools \<Rightarrow> file_edit list \<Rightarrow> file_system \<Rightarrow> coder_result \<times> file_system" where
  "apply_edits parse ct es fs = foldl (\<lambda>st e. apply_edit parse ct e st) (no_edits, fs) es"

section \<open>The agent's run\<close>

record coder_input =
  ci_title :: string
  ci_description :: string
  ci_context :: string
  ci_acceptance_criteria :: "string list"
  ci_failure_evidence :: string

definition coder_input_valid :: "coder_input \<Rightarrow> bool" where
  "coder_input_valid i \<longleftrightarrow>
     1 \<le> length (ci_title i) \<and> length (ci_title i) \<le> 200 \<and>
     1 \<le> length (ci_description i) \<and> length (ci_description i) \<le> 4000 \<and>
     length (ci_context i) \<le> 40000 \<and> length (ci_acceptance_criteria i) \<le> 10 \<and>
     length (ci_failure_evidence i) \<le> 8000"

text \<open>The model is asked for edits through \<open>structured_generate\<close>, with two repairs; the file
  system and the runtime's state are the two halves of the world.\<close>

definition coder_run ::
    "module_parser \<Rightarrow> coder_tools \<Rightarrow> 'w runtime \<Rightarrow> file_edit list reply_schema \<Rightarrow> message list \<Rightarrow>
     file_system \<times> 'w \<Rightarrow> (fault, coder_result) res \<times> (file_system \<times> 'w)" where
  "coder_run parse ct rt sc messages fw =
     (case fw of (fs, w) \<Rightarrow>
        (case structured_generate rt sc 2 messages w of
           (Inl e, w') \<Rightarrow> (Inl e, (fs, w'))
         | (Inr es, w') \<Rightarrow>
             (case apply_edits parse ct es fs of (r, fs') \<Rightarrow> (Inr r, (fs', w')))))"

section \<open>What a write changes\<close>

lemma confined_trans:
  assumes "confined pol perms fs0 fs1" "confined pol perms fs1 fs2"
  shows "confined pol perms fs0 fs2"
  unfolding confined_def
proof (intro allI impI)
  fix p assume d: "node_at fs2 p \<noteq> node_at fs0 p"
  show "(may_access pol perms WRITE p \<and> (\<exists>s. node_at fs2 p = Some (TextFile s))) \<or>
      (node_at fs0 p = None \<and> node_at fs2 p = Some Directory \<and> (\<exists>q. may_access pol perms WRITE q \<and> prefix p q))"
  proof (cases "node_at fs2 p = node_at fs1 p")
    case True
    then show ?thesis using assms(1) d by (simp add: confined_def)
  next
    case False
    then show ?thesis using assms d unfolding confined_def by (metis option.distinct(1))
  qed
qed

lemma tools_execute_confined:
  "tools_execute ct tool args fs = (r, fs') \<Longrightarrow> confined (ct_policy ct) (ct_permissions ct) fs fs'"
  unfolding tools_execute_def confined_def using gateway_writes_frame by blast

lemma write_tool_text:
  assumes "write_tool pol perms refuses a fs = (res, fs')" "node_at fs' p \<noteq> node_at fs p"
    "node_at fs' p = Some (TextFile s)"
  shows "workspace_resolve pol perms fs (wi_path a) WRITE = Inr p \<and> s = wi_content a \<and> (\<exists>out. res = Inr out)"
proof -
  from assms(1) obtain q where q: "workspace_resolve pol perms fs (wi_path a) WRITE = Inr q"
    using assms(2) by (auto simp: write_tool_def split: sum.splits)
  have "fs' \<noteq> fs" using assms(2) by auto
  then obtain fs1 out where w: "open_and_write refuses q (wi_path a) (wi_content a) out fs1 = (res, fs')"
    and m: "fs1 = fs \<or> make_dirs fs (butlast q) = Inr fs1"
    using assms(1) q by (auto simp: write_tool_def Let_def split: if_splits sum.splits)
  have d: "node_at fs1 p = node_at fs p \<or> node_at fs1 p = Some Directory"
    using m by (auto simp: make_dirs_nodes)
  have "(\<exists>out. res = Inr out) \<and> fs' = alist_put q (TextFile (wi_content a)) fs1"
    using w assms(2,3) d by (auto simp: open_and_write_def split: if_splits)
  then show ?thesis using q assms(2,3) d by (auto simp: node_at_put split: if_splits)
qed

lemma apply_write_text:
  assumes "apply_write ct path content fs = (res, fs')" "node_at fs' p \<noteq> node_at fs p"
    "node_at fs' p = Some (TextFile s)"
  shows "tr_ok res \<and> s = content \<and> workspace_resolve (ct_policy ct) (ct_permissions ct) fs path WRITE = Inr p"
  using assms(1) unfolding apply_write_def tools_execute_def
proof (cases rule: gateway_execute_cases)
  case (failed t e)
  then show ?thesis using assms(2,3) write_tool_text
    by (fastforce simp: file_tools_def run_write_def split: if_splits)
next
  case (succeeded t out)
  then show ?thesis using assms(2,3) write_tool_text
    by (fastforce simp: file_tools_def run_write_def split: if_splits)
qed (use assms(2) in auto)

section \<open>What a run leaves behind\<close>

lemma gate_edit_Inr:
  assumes "gate_edit parse e existing = Inr s"
  shows "check_syntax parse (fe_path e) s = None"
    "check_preserved_symbols parse (fe_path e) existing s (fe_removes_definitions e) = None"
    "resolve_content parse e existing = Inr s"
  using assms by (auto simp: gate_edit_def split: sum.splits option.splits)

lemma apply_edit_cases:
  assumes "apply_edit parse ct raw (r, fs) = (r', fs')"
  obtains (refused) c where "r' = reject_edit (fe_path raw) c r" "fs' = fs"
    | (tried) s res where
        "gate_edit parse (raw\<lparr>fe_content := sanitize_content (fe_content raw)\<rparr>) (read_existing ct (fe_path raw) fs) = Inr s"
        "apply_write ct (fe_path raw) s fs = (res, fs')" "r' = note_write (fe_path raw) res r"
proof -
  let ?g = "gate_edit parse (raw\<lparr>fe_content := sanitize_content (fe_content raw)\<rparr>) (read_existing ct (fe_path raw) fs)"
  show thesis
  proof (cases ?g)
    case (Inl c)
    then show thesis using assms by (intro refused [of c]) (simp_all add: apply_edit_def)
  next
    case (Inr s)
    obtain res fs1 where w: "apply_write ct (fe_path raw) s fs = (res, fs1)" by fastforce
    then show thesis using assms Inr by (intro tried [of s res]) (simp_all add: apply_edit_def)
  qed
qed

lemma note_write_lists:
  "set (cr_changed_files (note_write path res r)) = set (cr_changed_files r) \<union> (if tr_ok res then {path} else {})"
  "length (cr_changed_files (note_write path res r)) + length (cr_rejected_files (note_write path res r)) =
     Suc (length (cr_changed_files r) + length (cr_rejected_files r))"
  "set (cr_denied_files r) \<subseteq> set (cr_rejected_files r) \<Longrightarrow>
     set (cr_denied_files (note_write path res r)) \<subseteq> set (cr_rejected_files (note_write path res r))"
  by (auto simp: note_write_def reject_edit_def)

lemma reject_edit_lists [simp]:
  "cr_changed_files (reject_edit path c r) = cr_changed_files r"
  "cr_rejected_files (reject_edit path c r) = cr_rejected_files r @ [path]"
  "cr_denied_files (reject_edit path c r) = cr_denied_files r"
  by (simp_all add: reject_edit_def)

definition coder_ok ::
    "module_parser \<Rightarrow> coder_tools \<Rightarrow> file_edit list \<Rightarrow> file_system \<Rightarrow> coder_result \<Rightarrow> file_system \<Rightarrow> bool" where
  "coder_ok parse ct es fs r fs' \<longleftrightarrow>
     confined (ct_policy ct) (ct_permissions ct) fs fs' \<and>
     length (cr_changed_files r) + length (cr_rejected_files r) = length es \<and>
     set (cr_denied_files r) \<subseteq> set (cr_rejected_files r) \<and>
     (\<forall>p s. node_at fs' p \<noteq> node_at fs p \<and> node_at fs' p = Some (TextFile s) \<longrightarrow>
        (\<exists>e \<in> set es. fe_path e \<in> set (cr_changed_files r) \<and> check_syntax parse (fe_path e) s = None \<and>
           (\<exists>fs1. workspace_resolve (ct_policy ct) (ct_permissions ct) fs1 (fe_path e) WRITE = Inr p)))"

lemma apply_edit_ok:
  assumes "coder_ok parse ct es fs0 r fs" "apply_edit parse ct e (r, fs) = (r', fs')"
  shows "coder_ok parse ct (es @ [e]) fs0 r' fs'"
  using assms(2)
proof (cases rule: apply_edit_cases)
  case (refused c)
  then show ?thesis using assms(1) by (auto simp: coder_ok_def)
next
  case (tried s res)
  have c: "confined (ct_policy ct) (ct_permissions ct) fs0 fs'"
    using assms(1) tools_execute_confined tried(2) confined_trans unfolding coder_ok_def apply_write_def by blast
  have texts: "\<exists>f \<in> set (es @ [e]). fe_path f \<in> set (cr_changed_files r') \<and> check_syntax parse (fe_path f) x = None \<and>
      (\<exists>fs1. workspace_resolve (ct_policy ct) (ct_permissions ct) fs1 (fe_path f) WRITE = Inr p)"
    if d: "node_at fs' p \<noteq> node_at fs0 p" "node_at fs' p = Some (TextFile x)" for p x
  proof (cases "node_at fs' p = node_at fs p")
    case True
    then obtain f where "f \<in> set es" "fe_path f \<in> set (cr_changed_files r)" "check_syntax parse (fe_path f) x = None"
      "\<exists>fs1. workspace_resolve (ct_policy ct) (ct_permissions ct) fs1 (fe_path f) WRITE = Inr p"
      using assms(1) d unfolding coder_ok_def by metis
    then show ?thesis using tried(3) note_write_lists(1) [of "fe_path e" res r] by auto
  next
    case False
    from apply_write_text [OF tried(2) False d(2)] show ?thesis
      using gate_edit_Inr(1) [OF tried(1)] tried(3) note_write_lists(1) [of "fe_path e" res r] by auto
  qed
  have "length (cr_changed_files r') + length (cr_rejected_files r') = length (es @ [e])"
    "set (cr_denied_files r') \<subseteq> set (cr_rejected_files r')"
    using assms(1) tried(3) note_write_lists(2,3) [where path = "fe_path e" and res = res and r = r] by (auto simp: coder_ok_def)
  then show ?thesis unfolding coder_ok_def using c texts by blast
qed

lemma apply_edits_ok:
  assumes "apply_edits parse ct es fs = (r, fs')"
  shows "coder_ok parse ct es fs r fs'"
  using assms
proof (induction es arbitrary: r fs' rule: rev_induct)
  case Nil
  then show ?case by (auto simp: apply_edits_def coder_ok_def no_edits_def)
next
  case (snoc e es)
  obtain r1 fs1 where one: "apply_edits parse ct es fs = (r1, fs1)" by fastforce
  then have "apply_edit parse ct e (r1, fs1) = (r', fs'')" if "apply_edits parse ct (es @ [e]) fs = (r', fs'')" for r' fs''
    using that by (simp add: apply_edits_def)
  then show ?case using snoc one apply_edit_ok by blast
qed


definition sample_parser :: module_parser where
  "sample_parser s =
     (if starts_with s ''def f('' then Inr [TopFunction ''f'' 1 [] None]
      else if starts_with s ''x = 1'' then Inr [TopOther] else Inl ''invalid syntax'')"

definition sample_tools :: coder_tools where
  "sample_tools = \<lparr>ct_policy = sample_policy, ct_permissions = sample_perms, ct_refuses = (\<lambda>p. False)\<rparr>"

definition sample_edit :: "string \<Rightarrow> edit_mode \<Rightarrow> string \<Rightarrow> file_edit" where
  "sample_edit path mode content = \<lparr>fe_path = path, fe_mode = mode, fe_content = content,
     fe_function_name = [], fe_removes_definitions = []\<rparr>"

definition sample_run :: "coder_result \<times> file_system" where
  "sample_run = apply_edits sample_parser sample_tools
     [sample_edit ''src/b.py'' REPLACE_FILE ''def f(): pass'', sample_edit ''src/a.py'' REPLACE_FILE ''(''] sample_fs"


section \<open>Definitions are kept\<close>

text \<open>A single edit under a path ending in .py that is written keeps every top-level definition of
  the text the read tool showed, except those it declares; when that text was not blank, an
  edit that appends keeps all of it in front.
\<close>

theorem coder_edit_keeps_definitions:
  assumes "apply_edit parse ct e (r, fs) = (r', fs')" "fe_path e \<in> set (cr_changed_files r') - set (cr_changed_files r)"
    "py_strip (read_existing ct (fe_path e) fs) \<noteq> []"
  shows "\<exists>s result. apply_write ct (fe_path e) s fs = (result, fs') \<and> tr_ok result \<and>
    (ends_with (fe_path e) ''.py'' \<longrightarrow>
       set (top_level_symbols parse (read_existing ct (fe_path e) fs)) \<subseteq>
         set (top_level_symbols parse s) \<union> set (fe_removes_definitions e)) \<and>
    (fe_mode e = APPEND_FILE \<longrightarrow> prefix (read_existing ct (fe_path e) fs) s)"
  using assms(1)
proof (cases rule: apply_edit_cases)
  case (refused c)
  then show ?thesis using assms(2) by simp
next
  case (tried s res)
  note g = gate_edit_Inr [OF tried(1)]
  have ok: "tr_ok res" using assms(2) tried(3) by (auto simp: note_write_lists split: if_splits)
  have keep: "set (top_level_symbols parse (read_existing ct (fe_path e) fs)) \<subseteq>
      set (top_level_symbols parse s) \<union> set (fe_removes_definitions e)" if "ends_with (fe_path e) ''.py''"
  proof
    fix n assume n: "n \<in> set (top_level_symbols parse (read_existing ct (fe_path e) fs))"
    have "sorted_set (filter (\<lambda>n. n \<notin> set (top_level_symbols parse s) \<and> n \<notin> set (fe_removes_definitions e))
        (top_level_symbols parse (read_existing ct (fe_path e) fs))) = []"
      using g(2) that assms(3) by (simp add: check_preserved_symbols_def Let_def split: if_splits)
    then have "set (filter (\<lambda>n. n \<notin> set (top_level_symbols parse s) \<and> n \<notin> set (fe_removes_definitions e))
        (top_level_symbols parse (read_existing ct (fe_path e) fs))) = {}" by (metis empty_set set_sorted_set)
    then show "n \<in> set (top_level_symbols parse s) \<union> set (fe_removes_definitions e)" using n by auto
  qed
  have "prefix (read_existing ct (fe_path e) fs) s" if "fe_mode e = APPEND_FILE"
    using g(3) that assms(3) by (auto simp: resolve_content_def)
  then show ?thesis using tried(2) ok keep by blast
qed

theorem coder_edit_keeps_definitions_witness:
  "\<exists>fs' result. apply_write sample_tools ''src/a.py'' (''x = 1'' @ [newline, newline] @ ''y = 2'' @ [newline]) sample_fs =
     (result, fs') \<and> tr_ok result"
proof -
  let ?e = "sample_edit ''src/a.py'' APPEND_FILE ''y = 2''"
  obtain r' fs' where a: "apply_edit sample_parser sample_tools ?e (no_edits, sample_fs) = (r', fs')" by fastforce
  have "fst (apply_edit sample_parser sample_tools ?e (no_edits, sample_fs)) = no_edits\<lparr>cr_changed_files := [''src/a.py'']\<rparr>"
    by code_simp
  then have c: "fe_path ?e \<in> set (cr_changed_files r') - set (cr_changed_files no_edits)"
    using a by (simp add: sample_edit_def no_edits_def)
  have x: "read_existing sample_tools (fe_path ?e) sample_fs = ''x = 1''"
    "py_strip (read_existing sample_tools (fe_path ?e) sample_fs) \<noteq> []" by code_simp+
  obtain s result where s: "apply_write sample_tools (fe_path ?e) s sample_fs = (result, fs')" "tr_ok result"
    using coder_edit_keeps_definitions [OF a c x(2)] by blast
  have "node_at (snd (apply_edit sample_parser sample_tools ?e (no_edits, sample_fs))) [''ws'', ''src'', ''a.py''] =
      Some (TextFile (''x = 1'' @ [newline, newline] @ ''y = 2'' @ [newline]))" by code_simp
  moreover have "node_at sample_fs [''ws'', ''src'', ''a.py''] = Some (TextFile ''x = 1'')" by code_simp
  ultimately have "s = ''x = 1'' @ [newline, newline] @ ''y = 2'' @ [newline]"
    using apply_write_text [OF s(1), of "[''ws'', ''src'', ''a.py'']"] a by (auto simp: newline_def)
  then show ?thesis using s by (auto simp: sample_edit_def)
qed

section \<open>Gaps in the gates\<close>

text \<open>Both gates look at the path as the model wrote it: with a slash at its end the same file is
  rewritten unchecked.\<close>

lemma trailing_slash_skips_the_gates:
  "cr_changed_files (fst (apply_edits sample_parser sample_tools [sample_edit ''src/a.py/'' REPLACE_FILE ''(''] sample_fs))
     = [''src/a.py/''] \<and>
   node_at (snd (apply_edits sample_parser sample_tools [sample_edit ''src/a.py/'' REPLACE_FILE ''(''] sample_fs))
     [''ws'', ''src'', ''a.py''] = Some (TextFile (''('' @ [newline]))"
  by code_simp

text \<open>A file the read tool refuses counts as absent: appending to it replaces it.\<close>

lemma append_replaces_what_it_cannot_read:
  "node_at (snd (apply_edits sample_parser sample_tools [sample_edit ''src/data.txt'' APPEND_FILE ''tail'']
       (sample_fs @ [([''ws'', ''src'', ''data.txt''], BinaryFile 9)]))) [''ws'', ''src'', ''data.txt''] =
     Some (TextFile (''tail'' @ [newline]))"
  by code_simp

text \<open>Appending rewrites the lines before it: a form feed inside them becomes a line feed.\<close>

lemma append_changes_form_feeds:
  "node_at (snd (apply_edits sample_parser sample_tools [sample_edit ''src/n.txt'' APPEND_FILE ''z'']
       (sample_fs @ [([''ws'', ''src'', ''n.txt''], TextFile (''a'' @ [CHR 0x0C] @ ''b''))]))) [''ws'', ''src'', ''n.txt''] =
     Some (TextFile (''a'' @ [newline] @ ''b'' @ [newline, newline] @ ''z'' @ [newline]))"
  by code_simp

end
