(* ===== verification/Quality_Pipeline.thy ===== *)
theory Quality_Pipeline
  imports Scanners Verification Isolation
begin

text \<open>
  The quality pipeline (\<open>edith/quality/pipeline.py\<close>), the conversion of a model's findings
  (\<open>edith/quality/agents.py\<close>) and the review the executor runs over a task's changed files
  (\<open>_quality\<close> of \<open>edith/engineering/executor.py\<close>).

  The reviewing agents and the judge are arguments over a state \<open>'w\<close>: what they answer, \<open>None\<close>
  when they fail. So are \<open>ast.parse\<close>, the wording of an integrity finding and the rendering of
  a verification report.
\<close>

section \<open>Names\<close>

fun str_failure_category :: "failure_category \<Rightarrow> string" where
  "str_failure_category MODEL_ERROR = ''MODEL_ERROR''"
| "str_failure_category TOOL_ERROR = ''TOOL_ERROR''"
| "str_failure_category BUILD_ERROR = ''BUILD_ERROR''"
| "str_failure_category TEST_FAILURE = ''TEST_FAILURE''"
| "str_failure_category REQUIREMENT_FAILURE = ''REQUIREMENT_FAILURE''"
| "str_failure_category ARCHITECTURE_FAILURE = ''ARCHITECTURE_FAILURE''"
| "str_failure_category SECURITY_FAILURE = ''SECURITY_FAILURE''"
| "str_failure_category ENVIRONMENT_FAILURE = ''ENVIRONMENT_FAILURE''"
| "str_failure_category DEPENDENCY_FAILURE = ''DEPENDENCY_FAILURE''"
| "str_failure_category CODE_FAILURE = ''CODE_FAILURE''"
| "str_failure_category VALIDATION_FAILURE = ''VALIDATION_FAILURE''"
| "str_failure_category CONFIGURATION_ERROR = ''CONFIGURATION_ERROR''"
| "str_failure_category TIMEOUT = ''TIMEOUT''"
| "str_failure_category UNKNOWN = ''UNKNOWN''"

fun str_severity :: "severity \<Rightarrow> string" where
  "str_severity SEV_INFO = ''INFO''"
| "str_severity SEV_LOW = ''LOW''"
| "str_severity SEV_MEDIUM = ''MEDIUM''"
| "str_severity SEV_HIGH = ''HIGH''"
| "str_severity SEV_CRITICAL = ''CRITICAL''"

definition repairable_failures :: "failure_category list" where
  "repairable_failures = [CODE_FAILURE, TEST_FAILURE, BUILD_ERROR, VALIDATION_FAILURE]"

section \<open>The gates\<close>

record quality_gate =
  qg_name :: string
  qg_findings :: "quality_finding list"
  qg_ran :: bool

definition gate_blocking :: "quality_gate \<Rightarrow> bool" where
  "gate_blocking g = list_ex is_blocking (qg_findings g)"

record quality_pipeline =
  pl_task_id :: string
  pl_gates :: "quality_gate list"

definition new_pipeline :: "string \<Rightarrow> quality_pipeline" where
  "new_pipeline task_id = \<lparr>pl_task_id = task_id, pl_gates = []\<rparr>"

definition record_gate :: "string \<Rightarrow> quality_finding list \<Rightarrow> bool \<Rightarrow> quality_pipeline \<Rightarrow> quality_pipeline" where
  "record_gate name fs executed pl =
     pl\<lparr>pl_gates := pl_gates pl @ [\<lparr>qg_name = name, qg_findings = fs, qg_ran = executed\<rparr>]\<rparr>"

definition import_gate :: "bool \<Rightarrow> string \<Rightarrow> quality_pipeline \<Rightarrow> (quality_error, quality_pipeline) res" where
  "import_gate importable error pl =
     (if importable then Inr (record_gate ''import'' [] True pl)
      else res_bind (build_finding
             \<lparr>qf_category = ''build'', qf_severity = SEV_CRITICAL,
              qf_summary = ''the generated code does not import'',
              qf_evidence = [\<lparr>ev_source = ''import'',
                 ev_detail = (if error = [] then ''import failed'' else error), ev_file = [], ev_line = None\<rparr>],
              qf_affected_files = [], qf_task_id = [], qf_origin = DETERMINISTIC,
              qf_failure_category = None, qf_repairable = True, qf_confidence = 1\<rparr>)
           (\<lambda>f. Inr (record_gate ''import'' [f] True pl)))"

definition test_gate ::
    "(verification_outcome list \<Rightarrow> string) \<Rightarrow> verification_outcome list option \<Rightarrow> quality_pipeline \<Rightarrow>
     (quality_error, quality_pipeline) res" where
  "test_gate render report pl =
     (case report of
        None \<Rightarrow> Inr (record_gate ''tests'' [] False pl)
      | Some r \<Rightarrow>
          if report_passed r then Inr (record_gate ''tests'' [] True pl)
          else (let cat = report_failure_category r in
            res_bind (build_finding
             \<lparr>qf_category = ''tests'', qf_severity = SEV_HIGH,
              qf_summary = ''verification failed ('' @
                (case cat of None \<Rightarrow> ''unknown'' | Some c \<Rightarrow> str_failure_category c) @ '')'',
              qf_evidence = [\<lparr>ev_source = ''verification'',
                 ev_detail = (if render r = [] then ''no output'' else render r), ev_file = [], ev_line = None\<rparr>],
              qf_affected_files = [], qf_task_id = [], qf_origin = DETERMINISTIC,
              qf_failure_category = cat,
              qf_repairable = (case cat of None \<Rightarrow> False | Some c \<Rightarrow> c \<in> set repairable_failures),
              qf_confidence = 1\<rparr>)
             (\<lambda>f. Inr (record_gate ''tests'' [f] True pl))))"

definition integrity_quality_finding ::
    "(integrity_finding \<Rightarrow> string \<times> string) \<Rightarrow> integrity_finding \<Rightarrow> (quality_error, quality_finding) res" where
  "integrity_quality_finding describe item =
     (let (detail, evidence) = describe item in
      build_finding
       \<lparr>qf_category = ''test-integrity'', qf_severity = if_severity item, qf_summary = detail,
        qf_evidence = [\<lparr>ev_source = ''integrity:ast'',
           ev_detail = (if evidence = [] then detail else evidence), ev_file = if_path item, ev_line = None\<rparr>],
        qf_affected_files = (if if_path item = [] then [] else [if_path item]), qf_task_id = [],
        qf_origin = DETERMINISTIC, qf_failure_category = None, qf_repairable = True, qf_confidence = 1\<rparr>)"

definition integrity_gate ::
    "(string \<Rightarrow> py_node list option) \<Rightarrow> (integrity_finding \<Rightarrow> string \<times> string) \<Rightarrow>
     (string \<times> string) list \<Rightarrow> (string \<times> string) list \<Rightarrow> string list \<Rightarrow> bool \<Rightarrow> quality_pipeline \<Rightarrow>
     (quality_error, quality_pipeline) res" where
  "integrity_gate parse describe baseline current changed unavailable_baseline pl =
     (let report = build_report parse baseline current changed [] unavailable_baseline in
      if ir_findings report = [] then Inr (record_gate ''test-integrity'' [] True pl)
      else res_bind (all_results (map (integrity_quality_finding describe) (ir_findings report)))
             (\<lambda>fs. Inr (record_gate ''test-integrity'' fs True pl)))"

text \<open>\<open>sorted(sources.items())\<close>, scanned one after the other.\<close>

definition scan_all ::
    "(string \<Rightarrow> string \<Rightarrow> (quality_error, quality_finding list) res) \<Rightarrow> (string \<times> string) list \<Rightarrow>
     (quality_error, quality_finding list) res" where
  "scan_all scan sources =
     res_bind (all_results (map (\<lambda>(p, c). scan p c) (sort sources))) (\<lambda>fss. Inr (concat fss))"

definition security_gate ::
    "(string \<Rightarrow> q_parse) \<Rightarrow> (string \<times> string) list \<Rightarrow> quality_pipeline \<Rightarrow> (quality_error, quality_pipeline) res" where
  "security_gate parse sources pl =
     res_bind (scan_all (scan_security parse) sources) (\<lambda>fs. Inr (record_gate ''security'' fs True pl))"

definition review_gate ::
    "(string \<Rightarrow> q_parse) \<Rightarrow> (string \<times> string) list \<Rightarrow> quality_pipeline \<Rightarrow> (quality_error, quality_pipeline) res" where
  "review_gate parse sources pl =
     res_bind (scan_all (scan_review parse) sources) (\<lambda>fs. Inr (record_gate ''review'' fs True pl))"

definition model_findings_gate :: "string \<Rightarrow> quality_finding list \<Rightarrow> quality_pipeline \<Rightarrow> quality_pipeline" where
  "model_findings_gate name fs pl = record_gate name (map (\<lambda>f. f\<lparr>qf_origin := MODEL\<rparr>) fs) True pl"

definition pipeline_findings :: "quality_pipeline \<Rightarrow> quality_finding list" where
  "pipeline_findings pl = concat (map (\<lambda>g. map normalise_finding (qg_findings g)) (pl_gates pl))"

definition pipeline_report ::
    "quality_pipeline \<Rightarrow> quality_verdict option \<Rightarrow> string \<Rightarrow> (quality_error, quality_report) res" where
  "pipeline_report pl judge rationale =
     (let r = \<lparr>qr_task_id = pl_task_id pl, qr_findings = pipeline_findings pl,
               qr_judge_verdict = judge, qr_judge_rationale = rationale\<rparr> in
      if report_valid r then Inr r else Inl InvalidReport)"

definition pipeline_blocked :: "quality_pipeline \<Rightarrow> bool" where
  "pipeline_blocked pl = list_ex gate_blocking (pl_gates pl)"

text \<open>\<open>(root / relative).read_text()\<close> of each path; what cannot be read as text is left out.\<close>

definition read_source :: "path_policy \<Rightarrow> (abs_path \<Rightarrow> bool) \<Rightarrow> file_system \<Rightarrow> abs_path \<Rightarrow> string \<Rightarrow> string option" where
  "read_source pol refuses fs base relative =
     (case lib_resolve pol fs (path_join base relative) of
        None \<Rightarrow> None
      | Some p \<Rightarrow>
          (case node_at fs p of
             Some (TextFile s) \<Rightarrow> if refuses p then None else Some (universal_newlines s)
           | _ \<Rightarrow> None))"

definition read_sources ::
    "path_policy \<Rightarrow> (abs_path \<Rightarrow> bool) \<Rightarrow> file_system \<Rightarrow> abs_path \<Rightarrow> string list \<Rightarrow> (string \<times> string) list" where
  "read_sources pol refuses fs base paths =
     foldl (\<lambda>d p. case read_source pol refuses fs base p of None \<Rightarrow> d | Some s \<Rightarrow> alist_put p s d) [] paths"

section \<open>Findings of a model\<close>

record model_finding =
  mf_category :: string
  mf_severity :: severity
  mf_description :: string
  mf_quoted_line :: string

definition model_finding_valid :: "model_finding \<Rightarrow> bool" where
  "model_finding_valid m \<longleftrightarrow>
     1 \<le> length (mf_category m) \<and> length (mf_category m) \<le> 60 \<and>
     1 \<le> length (mf_description m) \<and> length (mf_description m) \<le> 400 \<and> length (mf_quoted_line m) \<le> 300"

definition max_findings :: nat where
  "max_findings = 5"

definition review_output_valid :: "model_finding list \<Rightarrow> bool" where
  "review_output_valid ms \<longleftrightarrow> length ms \<le> max_findings \<and> list_all model_finding_valid ms"

definition review_input_valid :: "string \<Rightarrow> string \<Rightarrow> string \<Rightarrow> bool" where
  "review_input_valid path source task \<longleftrightarrow>
     1 \<le> length path \<and> length path \<le> 400 \<and> source \<noteq> [] \<and> length task \<le> 600"

definition supported :: "string \<Rightarrow> model_finding \<Rightarrow> bool" where
  "supported source m \<longleftrightarrow>
     py_strip (mf_quoted_line m) = [] \<or> infix_of (py_strip (mf_quoted_line m)) source"

definition finding_of_model ::
    "string \<Rightarrow> string \<Rightarrow> string \<Rightarrow> model_finding \<Rightarrow> (quality_error, quality_finding) res" where
  "finding_of_model path agent task_id m =
     build_finding
      \<lparr>qf_category = mf_category m, qf_severity = mf_severity m, qf_summary = mf_description m,
       qf_evidence = [\<lparr>ev_source = ''model:'' @ agent,
          ev_detail = (let q = py_strip (mf_quoted_line m) in if q = [] then mf_description m else q),
          ev_file = path, ev_line = None\<rparr>],
       qf_affected_files = [path], qf_task_id = task_id, qf_origin = MODEL, qf_failure_category = None,
       qf_repairable = True, qf_confidence = 1/2\<rparr>"

definition to_findings ::
    "model_finding list \<Rightarrow> string \<Rightarrow> string \<Rightarrow> string \<Rightarrow> string \<Rightarrow> (quality_error, quality_finding list) res" where
  "to_findings ms path source agent task_id =
     all_results (map (finding_of_model path agent task_id) (filter (supported source) ms))"

type_synonym 'w reviewer = "string \<Rightarrow> string \<Rightarrow> string \<Rightarrow> 'w \<Rightarrow> model_finding list option \<times> 'w"

fun review_files ::
    "'w reviewer \<Rightarrow> string \<Rightarrow> string \<Rightarrow> string \<Rightarrow> (string \<times> string) list \<Rightarrow> 'w \<Rightarrow>
     (quality_error, quality_finding list) res \<times> 'w" where
  "review_files rv name task_id task [] w = (Inr [], w)"
| "review_files rv name task_id task ((path, source) # rest) w =
     (if py_strip source = [] \<or> \<not> review_input_valid path source task
      then review_files rv name task_id task rest w
      else (case rv path source task w of
              (None, w') \<Rightarrow> review_files rv name task_id task rest w'
            | (Some ms, w') \<Rightarrow>
                if \<not> review_output_valid ms then review_files rv name task_id task rest w'
                else (case to_findings ms path source name task_id of
                        Inl e \<Rightarrow> (Inl e, w')
                      | Inr fs \<Rightarrow>
                          (case review_files rv name task_id task rest w' of
                             (Inl e, w'') \<Rightarrow> (Inl e, w'')
                           | (Inr gs, w'') \<Rightarrow> (Inr (fs @ gs), w'')))))"

definition run_model_review ::
    "'w reviewer \<Rightarrow> string \<Rightarrow> (string \<times> string) list \<Rightarrow> string \<Rightarrow> quality_pipeline \<Rightarrow> 'w \<Rightarrow>
     (quality_error, quality_pipeline) res \<times> 'w" where
  "run_model_review rv name sources task pl w =
     (if pipeline_blocked pl then (Inr (record_gate name [] False pl), w)
      else (case review_files rv name (pl_task_id pl) task (sort sources) w of
              (Inl e, w') \<Rightarrow> (Inl e, w')
            | (Inr fs, w') \<Rightarrow> (Inr (model_findings_gate name fs pl), w')))"

section \<open>The review of a task\<close>

definition render_findings :: "quality_finding list \<Rightarrow> string list \<times> nat" where
  "render_findings fs =
     (map (\<lambda>f. ''- ['' @ str_severity (qf_severity f) @ ''] '' @ qf_category f @ '': '' @ take 160 (qf_summary f))
        (take 8 fs), length fs - 8)"

record judge_input =
  ji_task :: string
  ji_tests_passed :: bool
  ji_findings :: "string list \<times> nat"
  ji_changed_files :: string

text \<open>The findings shown to the judge are eight lines of at most 240 characters, below their
  limit.\<close>

definition judge_input_valid :: "judge_input \<Rightarrow> bool" where
  "judge_input_valid i \<longleftrightarrow> length (ji_task i) \<le> 600 \<and> length (ji_changed_files i) \<le> 1000"

record 'w quality_settings =
  qs_parse :: "string \<Rightarrow> q_parse"
  qs_model_review :: bool
  qs_security :: "'w reviewer"
  qs_review :: "'w reviewer"
  qs_judge :: "judge_input \<Rightarrow> 'w \<Rightarrow> (quality_verdict \<times> string) option \<times> 'w"

definition ask_judge ::
    "'w quality_settings \<Rightarrow> string \<Rightarrow> string list \<Rightarrow> bool \<Rightarrow> quality_pipeline \<Rightarrow> 'w \<Rightarrow>
     (quality_verdict option \<times> string) \<times> 'w" where
  "ask_judge qs task_id changed tests_passed pl w =
     (if pipeline_blocked pl then ((None, []), w)
      else (case pipeline_report pl None [] of
              Inl e \<Rightarrow> ((None, []), w)
            | Inr r \<Rightarrow>
                (let i = \<lparr>ji_task = task_id, ji_tests_passed = tests_passed,
                          ji_findings = render_findings (qr_findings r),
                          ji_changed_files = join '', '' (take 20 changed)\<rparr> in
                 if \<not> judge_input_valid i then ((None, []), w)
                 else (case qs_judge qs i w of
                         (None, w') \<Rightarrow> ((None, []), w')
                       | (Some (v, rationale), w') \<Rightarrow>
                           if length rationale \<le> 800 then ((Some v, rationale), w') else ((None, []), w')))))"

definition deterministic_gates ::
    "(string \<Rightarrow> q_parse) \<Rightarrow> string \<Rightarrow> (string \<times> string) list \<Rightarrow> (quality_error, quality_pipeline) res" where
  "deterministic_gates parse task_id sources =
     res_bind (security_gate parse sources (new_pipeline task_id)) (review_gate parse sources)"

definition model_gates ::
    "'w quality_settings \<Rightarrow> string \<Rightarrow> (string \<times> string) list \<Rightarrow> quality_pipeline \<Rightarrow> 'w \<Rightarrow>
     (quality_error, quality_pipeline) res \<times> 'w" where
  "model_gates qs task_id sources pl w =
     (case run_model_review (qs_security qs) ''model-security'' sources task_id pl w of
        (Inl e, w1) \<Rightarrow> (Inl e, w1)
      | (Inr pl1, w1) \<Rightarrow> run_model_review (qs_review qs) ''model-review'' sources task_id pl1 w1)"

definition quality_review ::
    "'w quality_settings \<Rightarrow> string \<Rightarrow> string list \<Rightarrow> bool \<Rightarrow> (string \<times> string) list \<Rightarrow> 'w \<Rightarrow>
     (quality_error, quality_report option) res \<times> 'w" where
  "quality_review qs task_id changed tests_passed sources w =
     (if sources = [] then (Inr None, w)
      else (case deterministic_gates (qs_parse qs) task_id sources of
              Inl e \<Rightarrow> (Inl e, w)
            | Inr pl \<Rightarrow>
                if \<not> qs_model_review qs
                then (res_bind (pipeline_report pl None []) (\<lambda>r. Inr (Some r)), w)
                else (case model_gates qs task_id sources pl w of
                        (Inl e, w1) \<Rightarrow> (Inl e, w1)
                      | (Inr pl2, w1) \<Rightarrow>
                          (case ask_judge qs task_id changed tests_passed pl2 w1 of
                             ((v, rationale), w2) \<Rightarrow>
                               (res_bind (pipeline_report pl2 v rationale) (\<lambda>r. Inr (Some r)), w2)))))"

section \<open>What the gates collect\<close>

lemma normalise_facts [simp]:
  "qf_severity (normalise_finding f) = qf_severity f" "qf_origin (normalise_finding f) = qf_origin f"
  "qf_repairable (normalise_finding f) = qf_repairable f"
  "is_blocking (normalise_finding f) = is_blocking f"
  by (simp_all add: normalise_finding_def is_blocking_def)

lemma pipeline_findings_record:
  "pipeline_findings (record_gate name fs e pl) = pipeline_findings pl @ map normalise_finding fs"
  by (simp add: pipeline_findings_def record_gate_def)

lemma pipeline_new [simp]: "pipeline_findings (new_pipeline t) = []"
  by (simp add: pipeline_findings_def new_pipeline_def)

lemma pipeline_task [simp]:
  "pl_task_id (record_gate name fs e pl) = pl_task_id pl"
  "pl_task_id (model_findings_gate name fs pl) = pl_task_id pl"
  by (simp_all add: record_gate_def model_findings_gate_def)

lemma pipeline_blocked_iff: "pipeline_blocked pl \<longleftrightarrow> (\<exists>f \<in> set (pipeline_findings pl). is_blocking f)"
  by (auto simp: pipeline_blocked_def gate_blocking_def pipeline_findings_def list_ex_iff)

definition blocking_of :: "quality_pipeline \<Rightarrow> quality_finding list" where
  "blocking_of pl = filter is_blocking (pipeline_findings pl)"

lemma model_findings_never_block [simp]: "blocking_of (model_findings_gate name fs pl) = blocking_of pl"
  by (induction fs)
    (simp_all add: blocking_of_def model_findings_gate_def pipeline_findings_record is_blocking_def)

lemma empty_gate_blocking [simp]: "blocking_of (record_gate name [] e pl) = blocking_of pl"
  by (simp add: blocking_of_def pipeline_findings_record)

lemma run_model_review_blocking:
  assumes "run_model_review rv name sources task pl w = (Inr pl', w')"
  shows "blocking_of pl' = blocking_of pl"
  using assms by (auto simp: run_model_review_def split: if_splits prod.splits sum.splits)

lemma run_model_review_task:
  assumes "run_model_review rv name sources task pl w = (Inr pl', w')"
  obtains fs where "pipeline_findings pl' = pipeline_findings pl @ fs"
  using assms by (auto simp: run_model_review_def model_findings_gate_def pipeline_findings_record
      split: if_splits prod.splits sum.splits)

lemma model_gates_Inr:
  assumes "model_gates qs t sources pl w = (Inr pl', w')"
  obtains pl1 w1 where "run_model_review (qs_security qs) ''model-security'' sources t pl w = (Inr pl1, w1)"
    "run_model_review (qs_review qs) ''model-review'' sources t pl1 w1 = (Inr pl', w')"
proof -
  obtain x w1 where r: "run_model_review (qs_security qs) ''model-security'' sources t pl w = (x, w1)" by fastforce
  then show thesis using assms that by (cases x) (simp_all add: model_gates_def)
qed

lemma model_gates_blocking:
  assumes "model_gates qs t sources pl w = (Inr pl', w')"
  shows "blocking_of pl' = blocking_of pl" "length (pipeline_findings pl) \<le> length (pipeline_findings pl')"
proof -
  obtain pl1 w1 where a: "run_model_review (qs_security qs) ''model-security'' sources t pl w = (Inr pl1, w1)"
    and b: "run_model_review (qs_review qs) ''model-review'' sources t pl1 w1 = (Inr pl', w')"
    using model_gates_Inr [OF assms] by blast
  show "blocking_of pl' = blocking_of pl"
    using run_model_review_blocking [OF a] run_model_review_blocking [OF b] by simp
  show "length (pipeline_findings pl) \<le> length (pipeline_findings pl')"
    by (rule run_model_review_task [OF a], rule run_model_review_task [OF b]) simp
qed

lemma scan_all_each:
  assumes "scan_all scan sources = Inr fs" "(p, c) \<in> set sources"
  shows "\<exists>gs. scan p c = Inr gs"
proof -
  obtain fss where r: "map (\<lambda>(p, c). scan p c) (sort sources) = map Inr fss"
    using assms(1) by (auto simp: scan_all_def res_simps all_results_Inr)
  have "scan p c \<in> set (map (\<lambda>(p, c). scan p c) (sort sources))" using assms(2) by force
  then show ?thesis unfolding r by auto
qed

lemma scan_all_Inr:
  assumes "scan_all scan sources = Inr fs"
  shows "(\<exists>f \<in> set fs. P f) \<longleftrightarrow> (\<exists>(p, c) \<in> set sources. \<exists>gs. scan p c = Inr gs \<and> (\<exists>f \<in> set gs. P f))"
proof -
  obtain fss where r: "map (\<lambda>(p, c). scan p c) (sort sources) = map Inr fss" and fs: "fs = concat fss"
    using assms by (auto simp: scan_all_def res_simps all_results_Inr)
  have all: "\<forall>(p, c) \<in> set sources. \<exists>gs \<in> set fss. scan p c = Inr gs"
  proof safe
    fix p c assume "(p, c) \<in> set sources"
    then have "scan p c \<in> set (map (\<lambda>(p, c). scan p c) (sort sources))" by force
    then show "\<exists>gs \<in> set fss. scan p c = Inr gs" unfolding r by auto
  qed
  have origin: "\<forall>gs \<in> set fss. \<exists>(p, c) \<in> set sources. scan p c = Inr gs"
  proof
    fix gs assume "gs \<in> set fss"
    then have "Inr gs \<in> set (map (\<lambda>(p, c). scan p c) (sort sources))" unfolding r by simp
    then show "\<exists>(p, c) \<in> set sources. scan p c = Inr gs" by force
  qed
  show ?thesis unfolding fs using all origin by fastforce
qed

text \<open>Some scan of some source found a defect of this severity.\<close>

definition scanned_at :: "(string \<Rightarrow> q_parse) \<Rightarrow> (string \<times> string) list \<Rightarrow> severity \<Rightarrow> bool" where
  "scanned_at parse sources sev \<longleftrightarrow>
     (\<exists>(p, c) \<in> set sources. \<exists>fs.
        (scan_security parse p c = Inr fs \<or> scan_review parse p c = Inr fs) \<and> (\<exists>f \<in> set fs. qf_severity f = sev))"

lemma scan_all_deterministic:
  assumes "scan_all scan sources = Inr fs" "f \<in> set fs"
    "\<And>p c gs g. scan p c = Inr gs \<Longrightarrow> g \<in> set gs \<Longrightarrow> qf_origin g = DETERMINISTIC \<and> qf_repairable g"
  shows "qf_origin f = DETERMINISTIC \<and> qf_repairable f"
  using scan_all_Inr [OF assms(1), of "\<lambda>g. g = f"] assms(2,3) by blast

lemma deterministic_gates_findings:
  assumes "deterministic_gates parse t sources = Inr pl"
  shows "(\<exists>f \<in> set (pipeline_findings pl). qf_severity f = sev) \<longleftrightarrow> scanned_at parse sources sev"
    "f \<in> set (pipeline_findings pl) \<Longrightarrow> qf_origin f = DETERMINISTIC \<and> qf_repairable f"
proof -
  obtain fs gs where fs: "scan_all (scan_security parse) sources = Inr fs"
    and gs: "scan_all (scan_review parse) sources = Inr gs"
    and pl: "pipeline_findings pl = map normalise_finding fs @ map normalise_finding gs"
    using assms by (auto simp: deterministic_gates_def security_gate_def review_gate_def res_simps
        pipeline_findings_record)
  have "(\<exists>f \<in> set (pipeline_findings pl). qf_severity f = sev) \<longleftrightarrow>
      (\<exists>f \<in> set fs. qf_severity f = sev) \<or> (\<exists>f \<in> set gs. qf_severity f = sev)"
    unfolding pl set_append set_map bex_Un bex_simps(7) normalise_facts ..
  also have "\<dots> \<longleftrightarrow> scanned_at parse sources sev"
    unfolding scan_all_Inr [OF fs] scan_all_Inr [OF gs] scanned_at_def by fast
  finally show "(\<exists>f \<in> set (pipeline_findings pl). qf_severity f = sev) \<longleftrightarrow> scanned_at parse sources sev" .
  assume "f \<in> set (pipeline_findings pl)"
  then obtain g where g: "g \<in> set fs \<or> g \<in> set gs" "f = normalise_finding g" unfolding pl by auto
  then have "qf_origin g = DETERMINISTIC \<and> qf_repairable g"
    using scan_all_deterministic [OF fs] scan_all_deterministic [OF gs] scan_security_deterministic
      scan_review_deterministic by blast
  then show "qf_origin f = DETERMINISTIC \<and> qf_repairable f" using g(2) by simp
qed

lemma unparsable_is_critical:
  assumes "deterministic_gates parse t sources = Inr pl" "(p, c) \<in> set sources" "parse c = SyntaxErr l msg"
  shows "scanned_at parse sources SEV_CRITICAL"
proof -
  obtain fs where fs: "scan_all (scan_security parse) sources = Inr fs"
    using assms(1) by (auto simp: deterministic_gates_def security_gate_def res_simps)
  from scan_all_each [OF fs assms(2)] obtain gs where g: "scan_security parse p c = Inr gs" ..
  from scan_security_unparsable [OF assms(3) g] have "\<exists>f \<in> set gs. qf_severity f = SEV_CRITICAL" by auto
  with g assms(2) show ?thesis unfolding scanned_at_def by blast
qed

lemma quality_review_report:
  assumes "quality_review qs t changed passed sources w = (Inr (Some r), w')"
  obtains pl where "deterministic_gates (qs_parse qs) t sources = Inr pl" "report_blocking r = blocking_of pl"
    "qr_findings r = [] \<Longrightarrow> pipeline_findings pl = []"
    "\<not> qs_model_review qs \<Longrightarrow> qr_judge_verdict r = None \<and> qr_findings r = pipeline_findings pl"
    "report_valid r"
proof -
  obtain pl where pl: "deterministic_gates (qs_parse qs) t sources = Inr pl"
    using assms by (auto simp: quality_review_def split: if_splits sum.splits)
  have rep: "pipeline_report q v x = Inr r \<Longrightarrow>
      qr_findings r = pipeline_findings q \<and> qr_judge_verdict r = v \<and> report_valid r" for q v x
    by (auto simp: pipeline_report_def Let_def split: if_splits)
  show thesis
  proof (cases "qs_model_review qs")
    case False
    then have "pipeline_report pl None [] = Inr r"
      using assms pl by (simp add: quality_review_def res_simps split: if_splits)
    note r = rep [OF this]
    show thesis by (rule that [OF pl]) (use r False in \<open>simp_all add: report_blocking_def blocking_of_def\<close>)
  next
    case True
    obtain x w1 where m: "model_gates qs t sources pl w = (x, w1)" by fastforce
    obtain pl2 where x: "x = Inr pl2"
      using assms pl True m by (cases x) (simp_all add: quality_review_def split: if_splits)
    obtain v txt' w2 where j: "ask_judge qs t changed passed pl2 w1 = ((v, txt'), w2)" by (metis surj_pair)
    have "pipeline_report pl2 v txt' = Inr r"
      using assms pl True m x j by (simp add: quality_review_def res_simps split: if_splits)
    note r = rep [OF this]
    show thesis
      by (rule that [OF pl])
        (use r model_gates_blocking [OF m [unfolded x]] True in \<open>simp_all add: report_blocking_def blocking_of_def\<close>)
  qed
qed

section \<open>What the review of a task decides\<close>

definition sample_tree :: "string \<Rightarrow> q_parse" where
  "sample_tree c =
     (if c = ''eval(x)'' then Parsed (QOther [QStatement 1 [QCall 1 (QName ''eval'') [QName ''x''] []]])
      else if c = ''<p>'' then SyntaxErr (Some 1) ''invalid syntax'' else Parsed (QOther []))"

definition sample_quality :: "unit quality_settings" where
  "sample_quality = \<lparr>qs_parse = sample_tree, qs_model_review = True,
     qs_security = (\<lambda>p s t w. (Some [\<lparr>mf_category = ''auth'', mf_severity = SEV_CRITICAL,
       mf_description = ''no check'', mf_quoted_line = ''x''\<rparr>], w)),
     qs_review = (\<lambda>p s t w. (None, w)), qs_judge = (\<lambda>i w. (Some (QV_PASS, ''fine''), w))\<rparr>"

definition sample_finding :: quality_finding where
  "sample_finding = \<lparr>qf_category = ''code-injection'', qf_severity = SEV_CRITICAL,
     qf_summary = ''eval() executes arbitrary code'',
     qf_evidence = [\<lparr>ev_source = ''ast:dangerous-call'', ev_detail = ''eval(x)'', ev_file = ''a.py'', ev_line = Some 1\<rparr>],
     qf_affected_files = [''a.py''], qf_task_id = [], qf_origin = DETERMINISTIC, qf_failure_category = None,
     qf_repairable = True, qf_confidence = 1\<rparr>"

definition advisory_finding :: quality_finding where
  "advisory_finding = \<lparr>qf_category = ''auth'', qf_severity = SEV_CRITICAL, qf_summary = ''no check'',
     qf_evidence = [\<lparr>ev_source = ''model:model-security'', ev_detail = ''x'', ev_file = ''a.py'', ev_line = None\<rparr>],
     qf_affected_files = [''a.py''], qf_task_id = ''t'', qf_origin = MODEL, qf_failure_category = None,
     qf_repairable = True, qf_confidence = 1/2\<rparr>"

lemma sample_review_blocked:
  "quality_review sample_quality ''t'' [''a.py''] True [(''a.py'', ''eval(x)'')] () =
     (Inr (Some \<lparr>qr_task_id = ''t'', qr_findings = [sample_finding], qr_judge_verdict = None, qr_judge_rationale = []\<rparr>), ())"
  by code_simp

lemma sample_review_merged:
  "quality_review sample_quality ''t'' [''a.py''] True [(''a.py'', ''x'')] () =
     (Inr (Some \<lparr>qr_task_id = ''t'', qr_findings = [advisory_finding], qr_judge_verdict = Some QV_PASS,
        qr_judge_rationale = ''fine''\<rparr>), ())"
  by code_simp

lemma sample_review_models_off:
  "quality_review (sample_quality\<lparr>qs_model_review := False\<rparr>) ''t'' [''a.py''] True [(''a.py'', ''x'')] () =
     (Inr (Some \<lparr>qr_task_id = ''t'', qr_findings = [], qr_judge_verdict = None, qr_judge_rationale = []\<rparr>), ())"
  by code_simp

text \<open>C6. The deterministic scans decide: a critical defect in any changed file is BLOCKED, a
  high one alone asks for a repair, and with neither the change is accepted unless a judge was
  heard who declines. No finding of a reviewing model enters. A file that is not Python is a
  critical defect, whatever it holds: the scans parse every changed file.\<close>

theorem quality_review_verdict:
  assumes "quality_review qs task_id changed passed sources w = (Inr (Some r), w')"
  shows "quality_adjudicate r =
     (if scanned_at (qs_parse qs) sources SEV_CRITICAL then QV_BLOCKED
      else if scanned_at (qs_parse qs) sources SEV_HIGH then QV_REPAIR_REQUIRED
      else (case qr_judge_verdict r of
              Some v \<Rightarrow> if verdict_merges v
                        then (if qr_findings r = [] then QV_PASS else QV_PASS_WITH_ADVISORIES) else v
            | None \<Rightarrow> if qr_findings r = [] then QV_PASS else QV_PASS_WITH_ADVISORIES)) \<and>
    (\<forall>p c l msg. (p, c) \<in> set sources \<and> qs_parse qs c = SyntaxErr l msg \<longrightarrow> quality_adjudicate r = QV_BLOCKED)"
proof -
  obtain pl where pl: "deterministic_gates (qs_parse qs) task_id sources = Inr pl"
    and b: "report_blocking r = blocking_of pl" using quality_review_report [OF assms] by metis
  note det = deterministic_gates_findings [OF pl]
  have mem: "f \<in> set (report_blocking r) \<longleftrightarrow>
      f \<in> set (pipeline_findings pl) \<and> qf_severity f \<in> {SEV_HIGH, SEV_CRITICAL}" for f
    unfolding b blocking_of_def using det(2) by (auto simp: is_blocking_def)
  have crit: "list_ex (\<lambda>f. qf_severity f = SEV_CRITICAL) (report_blocking r) \<longleftrightarrow>
      scanned_at (qs_parse qs) sources SEV_CRITICAL"
    unfolding det(1) [symmetric] list_ex_iff using mem by auto
  have any: "report_blocking r \<noteq> [] \<longleftrightarrow>
      scanned_at (qs_parse qs) sources SEV_CRITICAL \<or> scanned_at (qs_parse qs) sources SEV_HIGH"
    unfolding det(1) [symmetric] using mem by (metis hd_in_set insert_iff list.set(1) empty_iff singletonD)
  have rep: "list_all qf_repairable (report_blocking r)" unfolding list_all_iff using mem det(2) by blast
  have adv: "report_blocking r = [] \<Longrightarrow> report_advisories r = qr_findings r"
    by (simp add: report_blocking_empty report_advisories_def filter_id_conv)
  have verdict: "quality_adjudicate r =
     (if scanned_at (qs_parse qs) sources SEV_CRITICAL then QV_BLOCKED
      else if scanned_at (qs_parse qs) sources SEV_HIGH then QV_REPAIR_REQUIRED
      else (case qr_judge_verdict r of
              Some v \<Rightarrow> if verdict_merges v
                        then (if qr_findings r = [] then QV_PASS else QV_PASS_WITH_ADVISORIES) else v
            | None \<Rightarrow> if qr_findings r = [] then QV_PASS else QV_PASS_WITH_ADVISORIES))"
  proof (cases "report_blocking r = []")
    case True
    then show ?thesis using crit any adv by (auto simp: quality_adjudicate_def Let_def split: option.splits)
  next
    case False
    then show ?thesis using crit any rep by (auto simp: quality_adjudicate_def Let_def)
  qed
  then show ?thesis using unparsable_is_critical [OF pl] by auto
qed

theorem quality_review_verdict_witness:
  "quality_adjudicate \<lparr>qr_task_id = ''t'', qr_findings = [sample_finding], qr_judge_verdict = None, qr_judge_rationale = []\<rparr>
     = QV_BLOCKED \<and>
   quality_adjudicate \<lparr>qr_task_id = ''t'', qr_findings = [advisory_finding], qr_judge_verdict = Some QV_PASS,
        qr_judge_rationale = ''fine''\<rparr> = QV_PASS_WITH_ADVISORIES"
proof -
  have crit: "scanned_at (qs_parse sample_quality) [(''a.py'', ''eval(x)'')] SEV_CRITICAL"
  proof -
    have "scan_security (qs_parse sample_quality) ''a.py'' ''eval(x)'' = Inr [sample_finding]"
      "qf_severity sample_finding = SEV_CRITICAL" by code_simp+
    then show ?thesis unfolding scanned_at_def by (simp, blast intro: list.set_intros)
  qed
  have none: "\<not> scanned_at (qs_parse sample_quality) [(''a.py'', ''x'')] sev" for sev
  proof -
    have "scan_security (qs_parse sample_quality) ''a.py'' ''x'' = Inr []"
      "scan_review (qs_parse sample_quality) ''a.py'' ''x'' = Inr []" by code_simp+
    then show ?thesis by (simp add: scanned_at_def)
  qed
  show ?thesis
    using quality_review_verdict [OF sample_review_blocked] quality_review_verdict [OF sample_review_merged] crit none
    by (simp add: verdict_merges_def)
qed

text \<open>C28. Models only lower: what is merged with the reviewers and the judge would be merged
  without them.\<close>

theorem models_only_lower:
  assumes "quality_review qs task_id changed passed sources w = (Inr (Some r), w')"
    "quality_review (qs\<lparr>qs_model_review := False\<rparr>) task_id changed passed sources w = (Inr (Some r0), w0)"
    "verdict_merges (quality_adjudicate r)"
  shows "verdict_merges (quality_adjudicate r0) \<and> w0 = w \<and> qr_judge_verdict r0 = None"
proof -
  obtain pl where pl: "deterministic_gates (qs_parse qs) task_id sources = Inr pl" "report_blocking r = blocking_of pl"
    using quality_review_report [OF assms(1)] by metis
  obtain pl0 where pl0: "deterministic_gates (qs_parse qs) task_id sources = Inr pl0"
    "report_blocking r0 = blocking_of pl0" "qr_judge_verdict r0 = None"
    using quality_review_report [OF assms(2)] by (metis quality_settings.select_convs(1,2)
        quality_settings.surjective quality_settings.update_convs(2))
  have "report_blocking r = []" using assms(3) by (simp add: merges_iff report_blocking_empty)
  then have "report_blocking r0 = []" using pl pl0 by simp
  moreover have "w0 = w" using assms(2) by (auto simp: quality_review_def split: if_splits sum.splits)
  ultimately show ?thesis using pl0(3) by (simp add: merges_iff report_blocking_empty)
qed

theorem models_only_lower_witness:
  "verdict_merges (quality_adjudicate
     \<lparr>qr_task_id = ''t'', qr_findings = [], qr_judge_verdict = None, qr_judge_rationale = []\<rparr>)"
proof -
  have "verdict_merges (quality_adjudicate \<lparr>qr_task_id = ''t'', qr_findings = [advisory_finding],
      qr_judge_verdict = Some QV_PASS, qr_judge_rationale = ''fine''\<rparr>)" by code_simp
  then show ?thesis
    using models_only_lower [OF sample_review_merged sample_review_models_off] by blast
qed

text \<open>A finding of a model whose description is blank and that quotes nothing raises: the
  review is lost with it instead of degrading to no findings.\<close>

lemma blank_description_raises:
  assumes "py_strip (mf_description m) = []" "py_strip (mf_quoted_line m) = []"
  shows "finding_of_model path agent task_id m = Inl (InvalidFinding (mf_category m))"
  using assms by (simp add: finding_of_model_def build_finding_def finding_valid_def evidence_valid_def Let_def)

end
