(* ===== verification/Executor.thy ===== *)
theory Executor
  imports Complex_Main Coder Quality_Pipeline Conflicts
begin

text \<open>
  The engineering executor (\<open>edith/engineering/executor.py\<close>): the order tasks run in, one
  attempt at a task, its bounded repair, the workspace it runs in, and the execution of a plan.

  The world is the file system and a state \<open>'w\<close> for the model runtime and the shell. Git, the
  shell, the model, \<open>ast.parse\<close>, pydantic's validation and the prompts are arguments; the
  agent itself is \<open>Coder\<close> within \<open>Generation\<close>'s envelope, the review is
  \<open>Quality_Pipeline\<close>'s and the workspaces are \<open>Isolation\<close>'s. The text of a detail is a
  value that says what it reports; its wording is an argument.
\<close>

section \<open>Records\<close>

datatype exec_outcome =
  EX_COMPLETED | EX_FAILED | EX_BLOCKED | EX_UNASSIGNED | EX_REJECTED | EX_REPAIR_EXHAUSTED

datatype quality_state = QS_GENERATED | QS_TASK_COMPLETE | QS_VERIFIED | QS_INTEGRATED

fun quality_rank :: "quality_state \<Rightarrow> nat" where
  "quality_rank QS_GENERATED = 0"
| "quality_rank QS_TASK_COMPLETE = 1"
| "quality_rank QS_VERIFIED = 2"
| "quality_rank QS_INTEGRATED = 3"

datatype task_detail =
    NoDetail
  | AgentError string
  | NothingChanged "string list" "concern list"
  | NotImportable string
  | ChecksFailed "verification_outcome list"
  | QualityRejected quality_report
  | FilesChanged nat
  | RaisedError
  | NotRepairable "failure_category option" task_detail
  | RepairsExhausted nat task_detail
  | AssignmentRejected "rejection option"
  | PrerequisitesUnmet "string list"
  | WorkspaceUnavailable workspace_error
  | MergeRefused merge_refusal

record task_execution =
  te_task_id :: string
  te_role :: engineering_role
  te_outcome :: exec_outcome
  te_quality :: "quality_state option"
  te_workspace_id :: string
  te_base_revision :: string
  te_changed_files :: "string list"
  te_rejected_files :: "string list"
  te_out_of_scope :: "string list"
  te_verification :: "verification_outcome list option"
  te_model_calls :: nat
  te_repair_attempts :: nat
  te_quality_report :: "quality_report option"
  te_detail :: task_detail
  te_failure_category :: "failure_category option"

definition new_execution :: "assignment \<Rightarrow> exec_outcome \<Rightarrow> task_execution" where
  "new_execution a out = \<lparr>te_task_id = pt_task_id (a_task a), te_role = a_role a, te_outcome = out,
     te_quality = None, te_workspace_id = [], te_base_revision = [], te_changed_files = [],
     te_rejected_files = [], te_out_of_scope = [], te_verification = None, te_model_calls = 0,
     te_repair_attempts = 0, te_quality_report = None, te_detail = NoDetail, te_failure_category = None\<rparr>"

definition execution_ok :: "task_execution \<Rightarrow> bool" where
  "execution_ok e \<longleftrightarrow> te_outcome e = EX_COMPLETED"

record execution_report =
  er_executions :: "task_execution list"
  er_conflicts :: "task_conflict list"

definition report_completed :: "execution_report \<Rightarrow> nat" where
  "report_completed r = length (filter execution_ok (er_executions r))"

definition report_failed :: "execution_report \<Rightarrow> nat" where
  "report_failed r =
     length (filter (\<lambda>e. te_outcome e \<in> {EX_FAILED, EX_REJECTED, EX_REPAIR_EXHAUSTED}) (er_executions r))"

definition report_blocked :: "execution_report \<Rightarrow> nat" where
  "report_blocked r = length (filter (\<lambda>e. te_outcome e = EX_BLOCKED) (er_executions r))"

definition report_model_calls :: "execution_report \<Rightarrow> nat" where
  "report_model_calls r = sum_list (map te_model_calls (er_executions r))"

definition report_changed_files :: "execution_report \<Rightarrow> string list" where
  "report_changed_files r =
     foldl (\<lambda>seen p. if p \<in> set seen then seen else seen @ [p]) []
       (concat (map te_changed_files (er_executions r)))"

definition scope_violations :: "execution_report \<Rightarrow> nat" where
  "scope_violations r = sum_list (map (\<lambda>e. length (te_out_of_scope e)) (er_executions r))"

section \<open>The order of the tasks\<close>

definition task_id_of :: "assignment \<Rightarrow> string" where
  "task_id_of a = pt_task_id (a_task a)"

definition by_id :: "assignment list \<Rightarrow> (string \<times> assignment) list" where
  "by_id xs = foldl (\<lambda>d a. alist_put (task_id_of a) a d) [] xs"

definition pending_of :: "assignment list \<Rightarrow> (string \<times> string list) list" where
  "pending_of xs =
     foldl (\<lambda>d a. alist_put (task_id_of a)
        (filter (\<lambda>t. t \<in> fst ` set (by_id xs)) (remdups (pt_depends_on (a_task a)))) d) [] xs"

definition ready_ids :: "(string \<times> string list) list \<Rightarrow> string list" where
  "ready_ids pending = sort (map fst (filter (\<lambda>(t, ds). ds = []) pending))"

definition discard_ids :: "string list \<Rightarrow> (string \<times> string list) list \<Rightarrow> (string \<times> string list) list" where
  "discard_ids ready pending =
     map (\<lambda>(t, ds). (t, filter (\<lambda>d. d \<notin> set ready) ds)) (filter (\<lambda>(t, ds). t \<notin> set ready) pending)"

lemma discard_ids_shorter: "ready_ids pending \<noteq> [] \<Longrightarrow> length (discard_ids (ready_ids pending) pending) < length pending"
proof -
  assume "ready_ids pending \<noteq> []"
  then obtain t where "t \<in> set (ready_ids pending)" by (cases "ready_ids pending") auto
  then obtain ds where "(t, ds) \<in> set pending" "t \<in> set (ready_ids pending)" by (auto simp: ready_ids_def)
  then have "length (filter (\<lambda>(t, ds). t \<notin> set (ready_ids pending)) pending) < length pending"
    by (intro length_filter_less [where x = "(t, ds)"]) auto
  then show ?thesis by (simp add: discard_ids_def)
qed

text \<open>Kahn's algorithm in sorted batches; what a cycle leaves is sorted at the end.\<close>

function order_ids :: "(string \<times> string list) list \<Rightarrow> string list" where
  "order_ids pending =
     (let ready = ready_ids pending in
      if ready = [] then sort (map fst pending) else ready @ order_ids (discard_ids ready pending))"
  by pat_completeness auto
termination
  by (relation "measure length") (use discard_ids_shorter in auto)

declare order_ids.simps [simp del]

definition dependency_order :: "assignment list \<Rightarrow> assignment list" where
  "dependency_order xs = map (\<lambda>t. the (map_of (by_id xs) t)) (order_ids (pending_of xs))"

section \<open>What the executor is given\<close>

record engineering_input = coder_input +
  ei_requirements :: string
  ei_architecture :: string
  ei_ux :: string
  ei_scope :: string

record requirement =
  rq_id :: string
  rq_title :: string
  rq_statement :: string

record design_text =
  dt_prd :: "requirement list option"
  dt_ux :: "string option"
  dt_architecture :: string

record 'w executor =
  ex_policy :: path_policy
  ex_refuses :: "abs_path \<Rightarrow> bool"
  ex_project_id :: string
  ex_isolate :: bool
  ex_git :: worktree_gateway
  ex_head :: "file_system \<Rightarrow> string"
  ex_runtime :: "engineering_role \<Rightarrow> 'w runtime"
  ex_schema :: "file_edit list reply_schema"
  ex_messages :: "engineering_role \<Rightarrow> engineering_input \<Rightarrow> message list"
  ex_retry :: "engineering_role \<Rightarrow> retry_config"
  ex_parse :: module_parser
  ex_shell :: "abs_path \<Rightarrow> (file_system \<times> 'w) shell"
  ex_profile :: verification_profile
  ex_max_repair_attempts :: nat
  ex_quality :: "'w quality_settings"
  ex_wording :: "task_detail \<Rightarrow> string"

definition policy_at :: "'w executor \<Rightarrow> abs_path \<Rightarrow> path_policy" where
  "policy_at ex base = (ex_policy ex)\<lparr>pp_root := base\<rparr>"

definition base_of :: "'w executor \<Rightarrow> abs_path option \<Rightarrow> abs_path" where
  "base_of ex base = (case base of None \<Rightarrow> pp_root (ex_policy ex) | Some r \<Rightarrow> r)"

section \<open>What an agent is shown\<close>

definition requirements_for :: "requirement list option \<Rightarrow> string list \<Rightarrow> string" where
  "requirements_for prd wanted =
     (case prd of
        None \<Rightarrow> []
      | Some rs \<Rightarrow> join [newline]
          (map (\<lambda>r. rq_id r @ '' '' @ rq_title r @ '': '' @ rq_statement r)
             (filter (\<lambda>r. rq_id r \<in> set wanted) rs)))"

definition ux_for :: "string option \<Rightarrow> engineering_role \<Rightarrow> string" where
  "ux_for ux role = (case ux of None \<Rightarrow> [] | Some s \<Rightarrow> if role \<noteq> FRONTEND then [] else take 4000 s)"

definition read_context :: "coder_tools \<Rightarrow> string list \<Rightarrow> file_system \<Rightarrow> string" where
  "read_context ct paths fs =
     join [newline, newline]
       (concat (map (\<lambda>p. let r = fst (tools_execute ct ''filesystem.read'' (read_arguments p) fs) in
                      if tr_ok r then [''--- '' @ p @ '' ---'' @ [newline] @ take 4000 (output_content r)] else [])
          (take 6 paths)))"

definition engineering_payload ::
    "assignment \<Rightarrow> design_text \<Rightarrow> coder_tools \<Rightarrow> string \<Rightarrow> file_system \<Rightarrow> engineering_input" where
  "engineering_payload a dt ct evidence fs =
     \<lparr>ci_title = pt_title (a_task a), ci_description = pt_description (a_task a),
      ci_context = read_context ct (pt_paths (a_task a)) fs,
      ci_acceptance_criteria = pt_acceptance_criteria (a_task a),
      ci_failure_evidence = take 8000 evidence,
      ei_requirements = requirements_for (dt_prd dt) (pt_implements (a_task a)),
      ei_architecture = take 4000 (dt_architecture dt), ei_ux = ux_for (dt_ux dt) (a_role a),
      ei_scope = join [newline] (a_write_paths a)\<rparr>"

definition engineering_input_valid :: "engineering_input \<Rightarrow> bool" where
  "engineering_input_valid i \<longleftrightarrow>
     coder_input_valid (coder_input.truncate i) \<and> length (ei_requirements i) \<le> 4000 \<and>
     length (ei_architecture i) \<le> 4000 \<and> length (ei_ux i) \<le> 4000 \<and> length (ei_scope i) \<le> 1000"

section \<open>The checks of an attempt\<close>

definition out_of_scope :: "string list \<Rightarrow> string list \<Rightarrow> string list" where
  "out_of_scope changed declared =
     (if declared = [] then []
      else filter (\<lambda>p. fwd_slashes p \<notin> set (map fwd_slashes declared)) changed)"

definition import_modules :: "string list \<Rightarrow> string list" where
  "import_modules changed =
     map (\<lambda>p. map (\<lambda>c. if c = CHR ''/'' then CHR ''.'' else c) (fwd_slashes (drop_last 3 p)))
       (filter (\<lambda>p. ends_with p ''.py'' \<and> \<not> ends_with p ''__init__.py'') changed)"

definition last_chars :: "nat \<Rightarrow> string \<Rightarrow> string" where
  "last_chars n s = drop (length s - n) s"

definition check_importable ::
    "'s shell \<Rightarrow> string list \<Rightarrow> 's \<Rightarrow> (bool \<times> string) \<times> 's" where
  "check_importable sh changed w =
     (let modules = import_modules changed in
      if modules = [] then ((True, []), w)
      else (case sh [''python'', ''-c'', join ''; '' (map (\<lambda>m. ''import '' @ m) modules)] w of
              (r, w') \<Rightarrow>
                ((if \<not> sr_ok r \<or> sr_exit_code r = 0 then (True, [])
                  else (False, last_chars 400 (py_strip (if sr_stderr r = [] then sr_stdout r else sr_stderr r)))), w')))"

definition verify_checks ::
    "verification_profile \<Rightarrow> 's shell \<Rightarrow> string list \<Rightarrow> 's \<Rightarrow> verification_outcome list \<times> 's" where
  "verify_checks pr sh kinds w =
     run_all pr [] sh (map (\<lambda>k. (k, None)) (if kinds = [] then [''tests''] else kinds)) w"

section \<open>One attempt\<close>

type_synonym 'w ex_world = "file_system \<times> 'w"

text \<open>The review of the files a task changed, read where it ran.\<close>

definition review_task ::
    "'w executor \<Rightarrow> abs_path \<Rightarrow> string \<Rightarrow> string list \<Rightarrow> verification_outcome list option \<Rightarrow> 'w ex_world \<Rightarrow>
     (quality_error, quality_report option) res \<times> 'w ex_world" where
  "review_task ex base task_id changed report fw =
     (case fw of (fs, w) \<Rightarrow>
        (case quality_review (ex_quality ex) task_id changed
                (case report of None \<Rightarrow> False | Some r \<Rightarrow> report_passed r)
                (read_sources (policy_at ex base) (ex_refuses ex) fs base changed) w of
           (r, w') \<Rightarrow> (r, (fs, w'))))"

definition judge_quality :: "quality_report option \<Rightarrow> nat \<Rightarrow> task_execution \<Rightarrow> task_execution" where
  "judge_quality q n e =
     (let e1 = e\<lparr>te_quality_report := q\<rparr> in
      case q of
        Some r \<Rightarrow>
          if \<not> verdict_merges (quality_adjudicate r)
          then e1\<lparr>te_outcome := EX_REJECTED, te_detail := QualityRejected r,
                  te_failure_category :=
                    Some (if quality_adjudicate r = QV_REPAIR_REQUIRED then CODE_FAILURE else SECURITY_FAILURE)\<rparr>
          else e1\<lparr>te_outcome := EX_COMPLETED, te_quality := Some QS_VERIFIED, te_detail := FilesChanged n\<rparr>
      | None \<Rightarrow> e1\<lparr>te_outcome := EX_COMPLETED, te_quality := Some QS_VERIFIED, te_detail := FilesChanged n\<rparr>)"

text \<open>From the review on; an exception there leaves the execution failed.\<close>

definition finish_attempt ::
    "'w executor \<Rightarrow> abs_path \<Rightarrow> assignment \<Rightarrow> task_execution \<Rightarrow> 'w ex_world \<Rightarrow> task_execution \<times> 'w ex_world" where
  "finish_attempt ex base a e fw =
     (case review_task ex base (task_id_of a) (te_changed_files e) (te_verification e) fw of
        (Inl err, fw') \<Rightarrow> (e\<lparr>te_detail := RaisedError, te_failure_category := Some UNKNOWN\<rparr>, fw')
      | (Inr q, fw') \<Rightarrow> (judge_quality q (length (te_changed_files e)) e, fw'))"

definition verify_attempt ::
    "'w executor \<Rightarrow> abs_path \<Rightarrow> assignment \<Rightarrow> bool \<Rightarrow> task_execution \<Rightarrow> 'w ex_world \<Rightarrow>
     task_execution \<times> 'w ex_world" where
  "verify_attempt ex base a verify e fw =
     (if \<not> verify then finish_attempt ex base a e fw
      else (case verify_checks (ex_profile ex) (ex_shell ex base) (pt_verification (a_task a)) fw of
              (report, fw') \<Rightarrow>
                (let e1 = e\<lparr>te_verification := Some report\<rparr> in
                 if \<not> report_passed report
                 then (e1\<lparr>te_outcome := EX_REJECTED, te_detail := ChecksFailed report,
                          te_failure_category := report_failure_category report\<rparr>, fw')
                 else finish_attempt ex base a e1 fw')))"

definition check_changes ::
    "'w executor \<Rightarrow> abs_path \<Rightarrow> assignment \<Rightarrow> bool \<Rightarrow> task_execution \<Rightarrow> 'w ex_world \<Rightarrow>
     task_execution \<times> 'w ex_world" where
  "check_changes ex base a verify e fw =
     (let e1 = e\<lparr>te_quality := Some QS_TASK_COMPLETE,
                te_out_of_scope := out_of_scope (te_changed_files e) (pt_paths (a_task a))\<rparr> in
      case check_importable (ex_shell ex base) (te_changed_files e) fw of
        ((importable, error), fw') \<Rightarrow>
          if \<not> importable
          then (e1\<lparr>te_outcome := EX_REJECTED, te_detail := NotImportable error,
                   te_failure_category := Some CODE_FAILURE\<rparr>, fw')
          else verify_attempt ex base a verify e1 fw')"

text \<open>An agent that answered but changed nothing.\<close>

definition nothing_changed :: "coder_result \<Rightarrow> task_execution \<Rightarrow> task_execution" where
  "nothing_changed out e =
     (let e1 = e\<lparr>te_detail := NothingChanged (cr_rejected_files out) (cr_concerns out)\<rparr> in
      if cr_rejected_files out \<noteq> [] \<and> cr_denied_files out = []
      then e1\<lparr>te_outcome := EX_REJECTED, te_failure_category := Some CODE_FAILURE\<rparr>
      else if cr_denied_files out \<noteq> [] then e1\<lparr>te_failure_category := Some SECURITY_FAILURE\<rparr>
      else e1)"

definition agent_name :: "engineering_role \<Rightarrow> string" where
  "agent_name role = str_role role @ ''_engineer''"

definition agent_attempt ::
    "'w executor \<Rightarrow> assignment \<Rightarrow> coder_tools \<Rightarrow> engineering_input \<Rightarrow> 'w ex_world \<Rightarrow>
     coder_result agent_response \<times> 'w ex_world" where
  "agent_attempt ex a ct payload fw =
     agent_execute (agent_name (a_role a)) (ex_retry ex (a_role a)) engineering_input_valid
       (\<lambda>i. coder_run (ex_parse ex) ct (ex_runtime ex (a_role a)) (ex_schema ex) (ex_messages ex (a_role a) i))
       payload fw"

definition settle_response ::
    "'w executor \<Rightarrow> abs_path \<Rightarrow> assignment \<Rightarrow> bool \<Rightarrow> coder_result agent_response \<Rightarrow> 'w ex_world \<Rightarrow>
     task_execution \<times> 'w ex_world" where
  "settle_response ex base a verify response fw =
     (let e = (new_execution a EX_FAILED)\<lparr>te_model_calls := ar_attempts response\<rparr>;
          failed = e\<lparr>te_detail := AgentError (case ar_error response of
                        None \<Rightarrow> ''the agent failed'' | Some m \<Rightarrow> if m = [] then ''the agent failed'' else m),
                     te_failure_category := ar_failure_category response\<rparr> in
      if \<not> response_ok response then (failed, fw)
      else (case ar_output response of
              None \<Rightarrow> (failed, fw)
            | Some out \<Rightarrow>
                (let e1 = e\<lparr>te_changed_files := cr_changed_files out,
                            te_rejected_files := cr_rejected_files out, te_quality := Some QS_GENERATED\<rparr> in
                 if cr_changed_files out = [] then (nothing_changed out e1, fw)
                 else check_changes ex base a verify e1 fw)))"

definition raised_execution :: "assignment \<Rightarrow> task_execution" where
  "raised_execution a =
     (new_execution a EX_FAILED)\<lparr>te_detail := RaisedError, te_failure_category := Some UNKNOWN\<rparr>"

definition tools_for :: "'w executor \<Rightarrow> abs_path \<Rightarrow> agent_permissions \<Rightarrow> coder_tools" where
  "tools_for ex base perms =
     \<lparr>ct_policy = policy_at ex base, ct_permissions = perms, ct_refuses = ex_refuses ex\<rparr>"

definition attempt_task ::
    "'w executor \<Rightarrow> design_text \<Rightarrow> bool \<Rightarrow> abs_path option \<Rightarrow> assignment \<Rightarrow> string \<Rightarrow> 'w ex_world \<Rightarrow>
     task_execution \<times> 'w ex_world" where
  "attempt_task ex dt verify base a evidence fw =
     (case assignment_permissions a of
        Inl err \<Rightarrow> (raised_execution a, fw)
      | Inr perms \<Rightarrow>
          (let ct = tools_for ex (base_of ex base) perms;
               payload = engineering_payload a dt ct evidence (fst fw) in
           if \<not> engineering_input_valid payload then (raised_execution a, fw)
           else (case agent_attempt ex a ct payload fw of
                   (response, fw') \<Rightarrow> settle_response ex (base_of ex base) a verify response fw')))"

section \<open>Repair\<close>

definition repairable_execution :: "task_execution \<Rightarrow> bool" where
  "repairable_execution e \<longleftrightarrow>
     (case te_failure_category e of None \<Rightarrow> False | Some c \<Rightarrow> c \<in> set repairable_failures)"

text \<open>\<open>left\<close> attempts remain, of \<open>allowed\<close>; with none at all the execution is the initial one.\<close>

fun repair_loop ::
    "'w executor \<Rightarrow> design_text \<Rightarrow> bool \<Rightarrow> abs_path option \<Rightarrow> assignment \<Rightarrow> nat \<Rightarrow> nat \<Rightarrow> nat \<Rightarrow> string \<Rightarrow> 'w ex_world \<Rightarrow>
     task_execution \<times> 'w ex_world" where
  "repair_loop ex dt verify base a allowed 0 attempt evidence fw = (new_execution a EX_FAILED, fw)"
| "repair_loop ex dt verify base a allowed (Suc left) attempt evidence fw =
     (case attempt_task ex dt verify base a evidence fw of
        (e0, fw') \<Rightarrow>
          (let e = e0\<lparr>te_repair_attempts := attempt\<rparr> in
           if te_outcome e \<noteq> EX_REJECTED then (e, fw')
           else if \<not> repairable_execution e
           then (e\<lparr>te_outcome := EX_FAILED, te_detail := NotRepairable (te_failure_category e) (te_detail e)\<rparr>, fw')
           else if left = 0
           then (e\<lparr>te_outcome := EX_REPAIR_EXHAUSTED, te_detail := RepairsExhausted allowed (te_detail e)\<rparr>, fw')
           else repair_loop ex dt verify base a allowed left (attempt + 1) (ex_wording ex (te_detail e)) fw'))"

definition allowed_attempts :: "'w executor \<Rightarrow> nat" where
  "allowed_attempts ex = max 1 (ex_max_repair_attempts ex)"

definition run_plan_task ::
    "'w executor \<Rightarrow> design_text \<Rightarrow> bool \<Rightarrow> abs_path option \<Rightarrow> assignment \<Rightarrow> 'w ex_world \<Rightarrow>
     task_execution \<times> 'w ex_world" where
  "run_plan_task ex dt verify base a fw =
     repair_loop ex dt verify base a (allowed_attempts ex) (allowed_attempts ex) 0 [] fw"

section \<open>Workspaces\<close>

definition open_workspace ::
    "'w executor \<Rightarrow> string \<Rightarrow> workspace_ledger \<Rightarrow> file_system \<Rightarrow>
     (workspace_error, task_workspace option \<times> workspace_ledger) res \<times> file_system" where
  "open_workspace ex task_id led fs =
     (if \<not> ex_isolate ex then (Inr (None, led), fs)
      else (case create_workspace (ex_policy ex) (ex_git ex) task_id (ex_project_id ex) (ex_head ex fs) led fs of
              (r, fs') \<Rightarrow> (res_bind r (\<lambda>(w, led'). Inr (Some w, led')), fs')))"

text \<open>The workspace and the execution as they are afterwards. An error is a \<open>WorkspaceError\<close> or an
  \<open>OSError\<close> nobody catches.\<close>

definition resolve_workspace ::
    "'w executor \<Rightarrow> task_workspace \<Rightarrow> task_execution \<Rightarrow> file_system \<Rightarrow>
     (workspace_error, task_workspace \<times> task_execution) res \<times> file_system" where
  "resolve_workspace ex w e fs =
     (case workspace_transition w WS_EXECUTING of
        Inl err \<Rightarrow> (Inl err, fs)
      | Inr w1 \<Rightarrow>
          if \<not> execution_ok e
          then (case workspace_transition w1 WS_REJECTED of
                  Inl err \<Rightarrow> (Inl err, fs)
                | Inr w2 \<Rightarrow>
                    (case discard_workspace (ex_git ex) w2 fs of
                       (Inl err, fs') \<Rightarrow> (Inl err, fs')
                     | (Inr (removed, w3), fs') \<Rightarrow> (Inr (w3, e), fs')))
          else (case workspace_transition w1 WS_VERIFIED of
                  Inl err \<Rightarrow> (Inl err, fs)
                | Inr w2 \<Rightarrow>
                    (case merge_workspace (ex_policy ex) (ex_refuses ex) w2 (te_task_id e) True 0
                            (Some (pp_root (ex_policy ex))) (te_changed_files e) fs of
                       (Inl err, fs') \<Rightarrow> (Inl err, fs')
                     | (Inr (Some refusal, w3), fs') \<Rightarrow>
                         (Inr (w3, e\<lparr>te_outcome := EX_FAILED, te_detail := MergeRefused refusal,
                                     te_failure_category := Some TOOL_ERROR\<rparr>), fs')
                     | (Inr (None, w3), fs') \<Rightarrow> (Inr (w3, e\<lparr>te_quality := Some QS_INTEGRATED\<rparr>), fs'))))"

section \<open>Executing a plan\<close>

record 'w plan_state =
  ps_executions :: "task_execution list"
  ps_succeeded :: "string list"
  ps_ledger :: workspace_ledger
  ps_world :: "'w ex_world"

definition add_execution :: "task_execution \<Rightarrow> 'w plan_state \<Rightarrow> 'w plan_state" where
  "add_execution e s =
     s\<lparr>ps_executions := ps_executions s @ [e],
       ps_succeeded := (if execution_ok e then te_task_id e # ps_succeeded s else ps_succeeded s)\<rparr>"

definition is_workspace_error :: "workspace_error \<Rightarrow> bool" where
  "is_workspace_error e \<longleftrightarrow> (case e of OsFailure m \<Rightarrow> False | _ \<Rightarrow> True)"

definition unmet_dependencies :: "assignment \<Rightarrow> string list \<Rightarrow> string list" where
  "unmet_dependencies a succeeded = filter (\<lambda>t. t \<notin> set succeeded) (pt_depends_on (a_task a))"

definition run_in_workspace ::
    "'w executor \<Rightarrow> design_text \<Rightarrow> bool \<Rightarrow> assignment \<Rightarrow> task_workspace option \<Rightarrow> 'w plan_state \<Rightarrow>
     (workspace_error, 'w plan_state) res" where
  "run_in_workspace ex dt verify a w s =
     (case run_plan_task ex dt verify (map_option w_path w) a (ps_world s) of
        (e, (fs, st)) \<Rightarrow>
          (case w of
             None \<Rightarrow> Inr (add_execution e (s\<lparr>ps_world := (fs, st)\<rparr>))
           | Some ws \<Rightarrow>
               (let e1 = e\<lparr>te_workspace_id := w_workspace_id ws, te_base_revision := w_base_revision ws\<rparr> in
                case resolve_workspace ex ws e1 fs of
                  (Inl err, fs') \<Rightarrow> Inl err
                | (Inr (ws', e2), fs') \<Rightarrow>
                    Inr (add_execution e2 (s\<lparr>ps_world := (fs', st),
                                             ps_ledger := alist_put (w_task_id ws) ws' (ps_ledger s)\<rparr>)))))"

definition plan_step ::
    "'w executor \<Rightarrow> design_text \<Rightarrow> bool \<Rightarrow> assignment \<Rightarrow> 'w plan_state \<Rightarrow> (workspace_error, 'w plan_state) res" where
  "plan_step ex dt verify a s =
     (if \<not> assigned a
      then Inr (add_execution ((new_execution a EX_UNASSIGNED)\<lparr>te_detail := AssignmentRejected (a_rejection a),
                                 te_failure_category := Some CONFIGURATION_ERROR\<rparr>) s)
      else (let unmet = unmet_dependencies a (ps_succeeded s) in
        if unmet \<noteq> []
        then Inr (add_execution ((new_execution a EX_BLOCKED)\<lparr>te_detail := PrerequisitesUnmet unmet\<rparr>) s)
        else (case open_workspace ex (task_id_of a) (ps_ledger s) (fst (ps_world s)) of
                (Inl err, fs') \<Rightarrow>
                  (if is_workspace_error err
                   then Inr (add_execution ((new_execution a EX_FAILED)\<lparr>te_detail := WorkspaceUnavailable err,
                                              te_failure_category := Some TOOL_ERROR\<rparr>)
                               (s\<lparr>ps_world := (fs', snd (ps_world s))\<rparr>))
                   else Inl err)
              | (Inr (w, led'), fs') \<Rightarrow>
                  run_in_workspace ex dt verify a w
                    (s\<lparr>ps_ledger := led', ps_world := (fs', snd (ps_world s))\<rparr>))))"

fun plan_loop ::
    "'w executor \<Rightarrow> design_text \<Rightarrow> bool \<Rightarrow> assignment list \<Rightarrow> 'w plan_state \<Rightarrow> (workspace_error, 'w plan_state) res" where
  "plan_loop ex dt verify [] s = Inr s"
| "plan_loop ex dt verify (a # as) s = res_bind (plan_step ex dt verify a s) (plan_loop ex dt verify as)"

text \<open>\<open>assign_plan\<close> has run; what it could not assign is an assignment with a rejection.\<close>

definition execute_plan ::
    "'w executor \<Rightarrow> design_text \<Rightarrow> bool \<Rightarrow> assignment list \<Rightarrow> 'w ex_world \<Rightarrow>
     (workspace_error, execution_report \<times> 'w ex_world) res" where
  "execute_plan ex dt verify assignments fw =
     (let conflicts = detect_conflicts assignments;
          ordered = dependency_order (serialise assignments conflicts) in
      res_bind (plan_loop ex dt verify ordered
                  \<lparr>ps_executions = [], ps_succeeded = [], ps_ledger = [], ps_world = fw\<rparr>) (\<lambda>s.
      let report = \<lparr>er_executions = ps_executions s, er_conflicts = conflicts\<rparr> in
      if \<not> ex_isolate ex then Inr (report, ps_world s)
      else (case cleanup (ex_git ex) (ps_ledger s) (fst (ps_world s)) of
              (Inl err, fs') \<Rightarrow> Inl err
            | (Inr c, fs') \<Rightarrow> Inr (report, (fs', snd (ps_world s))))))"

end
