(* ===== verification/Executor_Correct.thy ===== *)
theory Executor_Correct
  imports Executor
begin

text \<open>
  What holds of the executor: the order of the tasks, the sound outcomes of an attempt, of a
  repaired task and of a plan, and the failures a plan ends with.
\<close>

section \<open>Every task once, prerequisites first\<close>

lemma sort_mset_eq: "mset xs = mset ys \<Longrightarrow> sort xs = sort (ys :: string list)"
  by (metis mset_sort properties_for_sort sorted_sort)

lemma set_ready_ids: "t \<in> set (ready_ids P) \<longleftrightarrow> (t, []) \<in> set P"
  by (force simp: ready_ids_def)

lemma ready_ids_mem:
  assumes "distinct (map fst P)" "(t, ds) \<in> set P"
  shows "t \<in> set (ready_ids P) \<longleftrightarrow> ds = []"
  using assms by (metis eq_key_imp_eq_value set_ready_ids)

lemma fst_discard_ids: "map fst (discard_ids r P) = filter (\<lambda>t. t \<notin> set r) (map fst P)"
  by (induction P) (auto simp: discard_ids_def split: prod.splits)

lemma ready_ids_mset:
  assumes "distinct (map fst P)"
  shows "mset (ready_ids P) = mset (filter (\<lambda>t. t \<in> set (ready_ids P)) (map fst P))"
proof -
  have "filter (\<lambda>x. fst x \<in> set (ready_ids P)) P = filter (\<lambda>(t, ds). ds = []) P"
    using ready_ids_mem [OF assms] by (intro filter_cong) auto
  then have "filter (\<lambda>t. t \<in> set (ready_ids P)) (map fst P) = map fst (filter (\<lambda>(t, ds). ds = []) P)"
    by (simp add: filter_map comp_def)
  then show ?thesis by (simp add: ready_ids_def)
qed

lemma distinct_discard: "distinct (map fst P) \<Longrightarrow> distinct (map fst (discard_ids r P))"
  by (simp add: fst_discard_ids)

lemma mset_order_ids: "distinct (map fst P) \<Longrightarrow> mset (order_ids P) = mset (map fst P)"
proof (induction P rule: order_ids.induct)
  case (1 P)
  show ?case
  proof (cases "ready_ids P = []")
    case True
    then show ?thesis by (subst order_ids.simps) (simp add: Let_def)
  next
    case False
    have "mset (order_ids P) = mset (ready_ids P) + mset (order_ids (discard_ids (ready_ids P) P))"
      using False by (subst order_ids.simps) (simp add: Let_def)
    also have "\<dots> = mset (filter (\<lambda>t. t \<in> set (ready_ids P)) (map fst P)) +
        mset (filter (\<lambda>t. t \<notin> set (ready_ids P)) (map fst P))"
      using "1.IH" [OF refl False distinct_discard [OF "1.prems"]] ready_ids_mset [OF "1.prems"]
      unfolding fst_discard_ids by (simp only:)
    also have "\<dots> = mset (map fst P)" using multiset_partition [of "mset (map fst P)" "\<lambda>t. t \<in> set (ready_ids P)"]
      by (simp only: mset_filter)
    finally show ?thesis .
  qed
qed

definition ranked :: "(string \<Rightarrow> nat) \<Rightarrow> (string \<times> string list) list \<Rightarrow> bool" where
  "ranked rk P \<longleftrightarrow> (\<forall>(t, ds) \<in> set P. \<forall>d \<in> set ds. d \<in> set (map fst P) \<and> rk d < rk t)"

lemma ranked_ready:
  assumes "ranked rk P" "ready_ids P = []"
  shows "P = []"
proof (rule ccontr)
  assume "P \<noteq> []"
  then obtain t where t: "t \<in> set (map fst P)" and least: "\<And>u. u \<in> set (map fst P) \<Longrightarrow> rk t \<le> rk u"
    using ex_is_arg_min_if_finite [of "set (map fst P)" rk]
    by (auto simp: is_arg_min_def not_less)
  then obtain ds where ds: "(t, ds) \<in> set P" by auto
  have "ds \<noteq> []" using assms(2) ds set_ready_ids [of t P] by auto
  then obtain d where "d \<in> set ds" by (cases ds) auto
  then have "d \<in> set (map fst P)" "rk d < rk t" using assms(1) ds by (auto simp: ranked_def)
  then show False using least by fastforce
qed

lemma ranked_discard: "ranked rk P \<Longrightarrow> ranked rk (discard_ids r P)"
  unfolding ranked_def by (auto simp: fst_discard_ids set_map [symmetric] simp del: set_map) (auto simp: discard_ids_def)

lemma order_ids_prerequisites:
  assumes "distinct (map fst P)" "ranked rk P" "order_ids P = us @ t # vs" "(t, ds) \<in> set P"
  shows "set ds \<subseteq> set us"
  using assms
proof (induction P arbitrary: us ds rule: order_ids.induct)
  case (1 P)
  have ne: "ready_ids P \<noteq> []" using ranked_ready [OF "1.prems"(2)] "1.prems"(4) by auto
  have split: "us @ t # vs = ready_ids P @ order_ids (discard_ids (ready_ids P) P)"
    using "1.prems"(3) ne by (subst (asm) order_ids.simps) (simp add: Let_def)
  show ?case
  proof (cases "ds = []")
    case False
    then have nr: "t \<notin> set (ready_ids P)" using ready_ids_mem "1.prems"(1,4) by blast
    then obtain us' where us: "us = ready_ids P @ us'" "us' @ t # vs = order_ids (discard_ids (ready_ids P) P)"
      using split by (auto simp: append_eq_append_conv2 Cons_eq_append_conv) (metis in_set_conv_decomp)
    have "(t, filter (\<lambda>d. d \<notin> set (ready_ids P)) ds) \<in> set (discard_ids (ready_ids P) P)"
      using "1.prems"(4) nr by (force simp: discard_ids_def)
    then have "set (filter (\<lambda>d. d \<notin> set (ready_ids P)) ds) \<subseteq> set us'"
      using "1.IH" [OF refl ne distinct_discard [OF "1.prems"(1)] ranked_discard [OF "1.prems"(2)]] us(2) by metis
    then show ?thesis using us(1) by auto
  qed simp
qed

lemma order_ids_cong: "mset P = mset Q \<Longrightarrow> order_ids P = order_ids Q"
proof (induction P arbitrary: Q rule: order_ids.induct)
  case (1 P)
  have ready: "ready_ids P = ready_ids Q"
    unfolding ready_ids_def by (rule sort_mset_eq) (simp add: "1.prems")
  have "mset (discard_ids (ready_ids Q) P) = mset (discard_ids (ready_ids Q) Q)"
    unfolding discard_ids_def using "1.prems" by simp
  then have "ready_ids Q \<noteq> [] \<Longrightarrow> order_ids (discard_ids (ready_ids Q) P) = order_ids (discard_ids (ready_ids Q) Q)"
    using "1.IH" [OF refl] unfolding ready by blast
  moreover have "sort (map fst P) = sort (map fst Q)"
    by (rule sort_mset_eq) (simp add: "1.prems")
  ultimately show ?case
    using ready by (subst (1 2) order_ids.simps) (simp add: Let_def)
qed

definition unique_ids :: "assignment list \<Rightarrow> bool" where
  "unique_ids xs \<longleftrightarrow> distinct (map task_id_of xs)"

lemma alist_put_new: "map_of d k = None \<Longrightarrow> alist_put k v d = d @ [(k, v)]"
  by (induction d) (auto split: if_splits)

lemma fold_alist_put:
  assumes "distinct (map fst d @ map key xs)"
  shows "foldl (\<lambda>d a. alist_put (key a) (val a) d) d xs = d @ map (\<lambda>a. (key a, val a)) xs"
  using assms
proof (induction xs arbitrary: d)
  case (Cons a xs)
  then have "map_of d (key a) = None" by (auto simp: map_of_eq_None_iff)
  then show ?case using Cons by (simp add: alist_put_new)
qed simp

lemma by_id_unique: "unique_ids xs \<Longrightarrow> by_id xs = map (\<lambda>a. (task_id_of a, a)) xs"
  using fold_alist_put [of "[]" task_id_of xs "\<lambda>a. a"] by (simp add: by_id_def unique_ids_def)

definition known_deps :: "assignment list \<Rightarrow> assignment \<Rightarrow> string list" where
  "known_deps xs a = filter (\<lambda>t. t \<in> task_id_of ` set xs) (remdups (pt_depends_on (a_task a)))"

lemma pending_of_unique: "unique_ids xs \<Longrightarrow> pending_of xs = map (\<lambda>a. (task_id_of a, known_deps xs a)) xs"
  using fold_alist_put [of "[]" task_id_of xs "known_deps xs"]
  by (simp add: pending_of_def known_deps_def by_id_unique unique_ids_def image_image)

lemma by_id_lookup: "unique_ids xs \<Longrightarrow> a \<in> set xs \<Longrightarrow> map_of (by_id xs) (task_id_of a) = Some a"
  by (simp add: by_id_unique unique_ids_def comp_def)

lemma order_ids_of:
  assumes "unique_ids xs"
  shows "mset (order_ids (pending_of xs)) = mset (map task_id_of xs)"
proof -
  have "map fst (pending_of xs) = map task_id_of xs" using assms by (simp add: pending_of_unique comp_def)
  then show ?thesis using assms mset_order_ids [of "pending_of xs"] by (simp add: unique_ids_def)
qed

lemma dependency_order_ids:
  assumes "unique_ids xs"
  shows "map task_id_of (dependency_order xs) = order_ids (pending_of xs)" "mset (dependency_order xs) = mset xs"
proof -
  have ids: "t \<in> task_id_of ` set xs" if "t \<in> set (order_ids (pending_of xs))" for t
    using that mset_eq_setD [OF order_ids_of [OF assms]] by simp
  have home: "task_id_of (the (map_of (by_id xs) t)) = t" if "t \<in> set (order_ids (pending_of xs))" for t
    using ids [OF that] by_id_lookup [OF assms] by auto
  then show "map task_id_of (dependency_order xs) = order_ids (pending_of xs)"
    by (simp add: dependency_order_def map_idI)
  have "mset (dependency_order xs) = image_mset (\<lambda>t. the (map_of (by_id xs) t)) (mset (map task_id_of xs))"
    unfolding dependency_order_def mset_map order_ids_of [OF assms, unfolded mset_map] ..
  also have "\<dots> = image_mset (\<lambda>a. the (map_of (by_id xs) (task_id_of a))) (mset xs)"
    by (simp add: image_mset.compositionality comp_def)
  also have "\<dots> = image_mset (\<lambda>a. a) (mset xs)"
    using by_id_lookup [OF assms] by (intro image_mset_cong) auto
  finally show "mset (dependency_order xs) = mset xs" by simp
qed

lemma dependency_order_cong:
  assumes "mset xs = mset ys" "unique_ids xs"
  shows "dependency_order xs = dependency_order ys"
proof -
  have st: "set xs = set ys" using assms(1) by (rule mset_eq_setD)
  have u: "unique_ids ys"
    using assms unfolding unique_ids_def by (metis mset_map mset_eq_imp_distinct_iff)
  have "known_deps xs = known_deps ys" by (simp add: fun_eq_iff known_deps_def st)
  then have "mset (pending_of xs) = mset (pending_of ys)"
    using assms(1) by (simp add: pending_of_unique [OF assms(2)] pending_of_unique [OF u])
  then have o: "order_ids (pending_of xs) = order_ids (pending_of ys)" by (rule order_ids_cong)
  have "map_of (by_id xs) t = map_of (by_id ys) t" if "t \<in> set (order_ids (pending_of ys))" for t
  proof -
    have "t \<in> task_id_of ` set ys" using that mset_eq_setD [OF order_ids_of [OF u]] by simp
    then show ?thesis using by_id_lookup [OF assms(2)] by_id_lookup [OF u] st by auto
  qed
  then show ?thesis unfolding dependency_order_def o by (intro map_cong) auto
qed

lemma alist_put_all_distinct: "distinct (map fst (foldl (\<lambda>d a. alist_put (key a) (val a) d) [] xs))"
  by (induction xs rule: rev_induct) (simp_all add: distinct_alist_put)

lemma alist_put_all_keys: "fst ` set (foldl (\<lambda>d a. alist_put (key a) (val a) d) [] xs) = key ` set xs"
  by (induction xs rule: rev_induct) (simp_all add: keys_alist_put)

lemma alist_put_all_value:
  "t \<in> key ` set xs \<Longrightarrow> \<exists>a \<in> set xs. map_of (foldl (\<lambda>d a. alist_put (key a) (val a) d) [] xs) t = Some (val a)"
proof (induction xs rule: rev_induct)
  case (snoc x xs)
  then show ?case by (cases "t = key x") auto
qed simp

lemma dependency_order_subset: "set (dependency_order xs) \<subseteq> set xs"
proof
  fix a assume "a \<in> set (dependency_order xs)"
  then obtain t where t: "t \<in> set (order_ids (pending_of xs))" and a: "a = the (map_of (by_id xs) t)"
    by (auto simp: dependency_order_def)
  have d: "distinct (map fst (pending_of xs))" and k: "fst ` set (pending_of xs) = task_id_of ` set xs"
    unfolding pending_of_def by (rule alist_put_all_distinct, rule alist_put_all_keys)
  have "t \<in> task_id_of ` set xs" using t mset_eq_setD [OF mset_order_ids [OF d]] k by simp
  from alist_put_all_value [OF this, of "\<lambda>a. a"] show "a \<in> set xs" using a by (auto simp: by_id_def)
qed

lemma serialise_permutes: "mset (serialise xs cs) = mset xs"
  by (auto simp: serialise_def Let_def)

section \<open>What an attempt establishes\<close>

text \<open>What a completed attempt has shown.\<close>

definition attempt_verified :: "bool \<Rightarrow> task_execution \<Rightarrow> bool" where
  "attempt_verified verify e \<longleftrightarrow>
     te_changed_files e \<noteq> [] \<and>
     (verify \<longrightarrow> (\<exists>r. te_verification e = Some r \<and> report_passed r)) \<and>
     (case te_quality_report e of None \<Rightarrow> True | Some r \<Rightarrow> verdict_merges (quality_adjudicate r))"

definition attempt_ok :: "assignment \<Rightarrow> bool \<Rightarrow> task_execution \<Rightarrow> bool" where
  "attempt_ok a verify e \<longleftrightarrow>
     te_task_id e = task_id_of a \<and> te_role e = a_role a \<and>
     te_outcome e \<in> {EX_COMPLETED, EX_FAILED, EX_REJECTED} \<and>
     (te_outcome e = EX_COMPLETED \<longrightarrow> attempt_verified verify e \<and> te_quality e = Some QS_VERIFIED) \<and>
     (te_outcome e \<noteq> EX_COMPLETED \<longrightarrow> te_quality e \<in> {None, Some QS_GENERATED, Some QS_TASK_COMPLETE})"

text \<open>The execution before the outcome is decided.\<close>

definition undecided :: "assignment \<Rightarrow> task_execution \<Rightarrow> bool" where
  "undecided a e \<longleftrightarrow>
     te_task_id e = task_id_of a \<and> te_role e = a_role a \<and> te_outcome e = EX_FAILED \<and>
     te_quality e \<in> {None, Some QS_GENERATED, Some QS_TASK_COMPLETE}"

lemma undecided_ok: "undecided a e \<Longrightarrow> attempt_ok a verify e"
  by (simp add: undecided_def attempt_ok_def)

lemma finish_attempt_ok:
  assumes "finish_attempt ex base a e fw = (e', fw')" "undecided a e" "te_changed_files e \<noteq> []"
    "verify \<Longrightarrow> \<exists>r. te_verification e = Some r \<and> report_passed r"
  shows "attempt_ok a verify e'"
proof -
  obtain x fw1 where r: "review_task ex base (task_id_of a) (te_changed_files e) (te_verification e) fw = (x, fw1)"
    by (meson surj_pair)
  show ?thesis
  proof (cases x)
    case (Inl err)
    then show ?thesis using assms(1,2) r by (auto simp: finish_attempt_def undecided_def attempt_ok_def)
  next
    case (Inr q)
    then have "e' = judge_quality q (length (te_changed_files e)) e" using assms(1) r by (simp add: finish_attempt_def)
    then show ?thesis
      using assms(2-4) by (auto simp: judge_quality_def Let_def undecided_def attempt_ok_def attempt_verified_def
          split: option.splits)
  qed
qed

lemma verify_attempt_ok:
  assumes "verify_attempt ex base a verify e fw = (e', fw')" "undecided a e" "te_changed_files e \<noteq> []"
  shows "attempt_ok a verify e'"
proof (cases verify)
  case False
  then have "finish_attempt ex base a e fw = (e', fw')" using assms(1) by (simp add: verify_attempt_def)
  then show ?thesis by (rule finish_attempt_ok) (use assms(2,3) False in simp_all)
next
  case True
  obtain report fw1 where r: "verify_checks (ex_profile ex) (ex_shell ex base) (pt_verification (a_task a)) fw = (report, fw1)"
    by (meson surj_pair)
  show ?thesis
  proof (cases "report_passed report")
    case False
    then show ?thesis using assms(1,2) True r by (auto simp: verify_attempt_def undecided_def attempt_ok_def)
  next
    case passed: True
    then have "finish_attempt ex base a (e\<lparr>te_verification := Some report\<rparr>) fw1 = (e', fw')"
      using assms(1) True r by (simp add: verify_attempt_def)
    then show ?thesis
      by (rule finish_attempt_ok) (use assms(2,3) passed in \<open>simp_all add: undecided_def\<close>)
  qed
qed

lemma check_changes_ok:
  assumes "check_changes ex base a verify e fw = (e', fw')" "undecided a e" "te_changed_files e \<noteq> []"
  shows "attempt_ok a verify e'"
proof -
  obtain importable error fw1 where
    i: "check_importable (ex_shell ex base) (te_changed_files e) fw = ((importable, error), fw1)" by (metis surj_pair)
  show ?thesis
  proof (cases importable)
    case False
    then show ?thesis using assms(1,2) i by (auto simp: check_changes_def undecided_def attempt_ok_def Let_def)
  next
    case True
    then have "verify_attempt ex base a verify (e\<lparr>te_quality := Some QS_TASK_COMPLETE,
        te_out_of_scope := out_of_scope (te_changed_files e) (pt_paths (a_task a))\<rparr>) fw1 = (e', fw')"
      using assms(1) i by (simp add: check_changes_def Let_def)
    then show ?thesis by (rule verify_attempt_ok) (use assms(2,3) in \<open>simp_all add: undecided_def\<close>)
  qed
qed

lemma undecided_new: "undecided a (new_execution a EX_FAILED)"
  by (simp add: undecided_def new_execution_def task_id_of_def)

lemma nothing_changed_ok: "undecided a e \<Longrightarrow> attempt_ok a verify (nothing_changed out e)"
  by (auto simp: nothing_changed_def undecided_def attempt_ok_def Let_def)

lemma settle_response_ok:
  assumes "settle_response ex base a verify response fw = (e, fw')"
  shows "attempt_ok a verify e"
proof -
  define e0 where "e0 = (new_execution a EX_FAILED)\<lparr>te_model_calls := ar_attempts response\<rparr>"
  have u0: "undecided a e0" using undecided_new by (simp add: e0_def undecided_def)
  show ?thesis
  proof (cases "response_ok response \<and> ar_output response \<noteq> None")
    case False
    then show ?thesis using assms undecided_new
      by (auto simp: settle_response_def Let_def undecided_def split: option.splits intro!: undecided_ok)
  next
    case True
    then obtain out where out: "response_ok response" "ar_output response = Some out" by blast
    define e1 where "e1 = e0\<lparr>te_changed_files := cr_changed_files out,
        te_rejected_files := cr_rejected_files out, te_quality := Some QS_GENERATED\<rparr>"
    have u1: "undecided a e1" using u0 by (simp add: e1_def undecided_def)
    show ?thesis
    proof (cases "cr_changed_files out = []")
      case True
      then have "e = nothing_changed out e1" using assms out by (simp add: settle_response_def e1_def e0_def Let_def)
      then show ?thesis using nothing_changed_ok [OF u1] by simp
    next
      case False
      then have "check_changes ex base a verify e1 fw = (e, fw')"
        using assms out by (simp add: settle_response_def e1_def e0_def Let_def)
      moreover have "te_changed_files e1 = cr_changed_files out" unfolding e1_def by simp
      ultimately show ?thesis using u1 False check_changes_ok by metis
    qed
  qed
qed

lemma attempt_task_ok:
  assumes "attempt_task ex dt verify base a evidence fw = (e, fw')"
  shows "attempt_ok a verify e"
proof -
  have raised: "attempt_ok a verify (raised_execution a)"
    using undecided_new by (intro undecided_ok) (simp add: raised_execution_def undecided_def)
  show ?thesis
  proof (cases "e = raised_execution a")
    case False
    then obtain base' response fw1 where "settle_response ex base' a verify response fw1 = (e, fw')"
      using assms by (auto simp: attempt_task_def Let_def split: sum.splits if_splits prod.splits)
    then show ?thesis by (rule settle_response_ok)
  qed (use raised in simp)
qed

section \<open>Repair is bounded, and only for what can be repaired\<close>

definition repaired_ok :: "'w executor \<Rightarrow> assignment \<Rightarrow> bool \<Rightarrow> task_execution \<Rightarrow> bool" where
  "repaired_ok ex a verify e \<longleftrightarrow>
     te_task_id e = task_id_of a \<and> te_role e = a_role a \<and> te_repair_attempts e < allowed_attempts ex \<and>
     te_outcome e \<in> {EX_COMPLETED, EX_FAILED, EX_REPAIR_EXHAUSTED} \<and>
     (te_outcome e = EX_COMPLETED \<longrightarrow> attempt_verified verify e \<and> te_quality e = Some QS_VERIFIED) \<and>
     (te_outcome e \<noteq> EX_COMPLETED \<longrightarrow> te_quality e \<in> {None, Some QS_GENERATED, Some QS_TASK_COMPLETE}) \<and>
     (te_outcome e = EX_REPAIR_EXHAUSTED \<longrightarrow>
        repairable_execution e \<and> Suc (te_repair_attempts e) = allowed_attempts ex)"

lemma repair_loop_ok:
  assumes "repair_loop ex dt verify base a allowed n k evidence fw = (e, fw')" "0 < n"
    "k + n = allowed_attempts ex"
  shows "repaired_ok ex a verify e"
  using assms
proof (induction n arbitrary: k evidence fw)
  case (Suc n)
  obtain e0 fw1 where at: "attempt_task ex dt verify base a evidence fw = (e0, fw1)" by (meson surj_pair)
  define e1 where "e1 = e0\<lparr>te_repair_attempts := k\<rparr>"
  have ok: "attempt_ok a verify e1"
    using attempt_task_ok [OF at] by (simp add: e1_def attempt_ok_def attempt_verified_def)
  have k: "k < allowed_attempts ex" "te_repair_attempts e1 = k" using Suc.prems by (simp_all add: e1_def)
  have step: "(e, fw') =
     (if te_outcome e1 \<noteq> EX_REJECTED then (e1, fw1)
      else if \<not> repairable_execution e1
      then (e1\<lparr>te_outcome := EX_FAILED, te_detail := NotRepairable (te_failure_category e1) (te_detail e1)\<rparr>, fw1)
      else if n = 0
      then (e1\<lparr>te_outcome := EX_REPAIR_EXHAUSTED, te_detail := RepairsExhausted allowed (te_detail e1)\<rparr>, fw1)
      else repair_loop ex dt verify base a allowed n (k + 1) (ex_wording ex (te_detail e1)) fw1)"
    using Suc.prems(1) unfolding repair_loop.simps at prod.case Let_def e1_def [symmetric] by (rule sym)
  consider "te_outcome e1 \<noteq> EX_REJECTED" | "te_outcome e1 = EX_REJECTED" "\<not> repairable_execution e1"
    | "te_outcome e1 = EX_REJECTED" "repairable_execution e1" "n = 0"
    | "te_outcome e1 = EX_REJECTED" "repairable_execution e1" "n \<noteq> 0" by blast
  then show ?case
  proof cases
    case 1
    then show ?thesis using step ok k by (auto simp: repaired_ok_def attempt_ok_def)
  next
    case 2
    then show ?thesis using step ok k by (auto simp: repaired_ok_def attempt_ok_def)
  next
    case 3
    then show ?thesis using step ok k Suc.prems(3)
      by (auto simp: repaired_ok_def attempt_ok_def repairable_execution_def)
  next
    case 4
    then show ?thesis using step Suc.IH [of "k + 1" "ex_wording ex (te_detail e1)" fw1] Suc.prems(3) by simp
  qed
qed simp

lemma run_plan_task_ok:
  assumes "run_plan_task ex dt verify base a fw = (e, fw')"
  shows "repaired_ok ex a verify e"
  using assms unfolding run_plan_task_def
  by (rule repair_loop_ok) (simp_all add: allowed_attempts_def)

section \<open>Workspaces of a plan\<close>

lemma transfer_loop_error:
  "transfer_loop pol refuses base dest rels fs = (Inl err, fs') \<Longrightarrow> \<exists>m. err = OsFailure m"
proof (induction rels arbitrary: fs)
  case (Cons rel rels)
  have copy: "copy_file refuses target n fs0 = (Inl e, fs1) \<Longrightarrow> \<exists>m. e = OsFailure m" for target n fs0 e fs1
    by (auto simp: copy_file_def split: sum.splits if_splits)
  from Cons show ?case
    by (auto split: option.splits if_splits sum.splits prod.splits dest: copy)
qed simp

lemma transfer_error:
  "transfer pol refuses w d changed fs = (Inl err, fs') \<Longrightarrow> \<exists>m. err = OsFailure m"
  by (auto simp: transfer_def split: option.splits if_splits dest: transfer_loop_error)

lemma workspace_steps [simp]:
  "w_state w = WS_CREATED \<Longrightarrow> workspace_transition w WS_EXECUTING = Inr (w\<lparr>w_state := WS_EXECUTING\<rparr>)"
  "w_state w = WS_EXECUTING \<Longrightarrow> workspace_transition w WS_REJECTED = Inr (w\<lparr>w_state := WS_REJECTED\<rparr>)"
  "w_state w = WS_EXECUTING \<Longrightarrow> workspace_transition w WS_VERIFIED = Inr (w\<lparr>w_state := WS_VERIFIED\<rparr>)"
  "w_state w = WS_VERIFIED \<Longrightarrow> workspace_transition w WS_MERGED = Inr (w\<lparr>w_state := WS_MERGED\<rparr>)"
  by (simp_all add: workspace_transition_def)

lemma merge_verified:
  assumes "merge_workspace pol refuses w t v n d changed fs = (r, fs')" "w_state w = WS_VERIFIED"
  shows "(\<exists>m. r = Inl (OsFailure m)) \<or> (\<exists>x w'. r = Inr (x, w'))"
proof (cases "may_merge w t v n")
  case None
  then show ?thesis using assms transfer_error
    by (auto simp: merge_workspace_def split: sum.splits prod.splits)
next
  case (Some refusal)
  then show ?thesis using assms by (auto simp: merge_workspace_def)
qed

lemma resolve_workspace_cases:
  assumes "resolve_workspace ex w e fs = (r, fs')" "w_state w = WS_CREATED"
  shows "(\<exists>m. r = Inl (OsFailure m)) \<or>
    (\<exists>w' e'. r = Inr (w', e') \<and>
       (if \<not> execution_ok e then e' = e
        else e' = e\<lparr>te_quality := Some QS_INTEGRATED\<rparr> \<or>
          (\<exists>refusal. e' = e\<lparr>te_outcome := EX_FAILED, te_detail := MergeRefused refusal,
                           te_failure_category := Some TOOL_ERROR\<rparr>)))"
proof (cases "execution_ok e")
  case False
  have "workspace_active (w\<lparr>w_state := WS_REJECTED\<rparr>)" by (simp add: workspace_active_def workspace_terminal_def)
  then obtain ok fs1 where "discard_workspace (ex_git ex) (w\<lparr>w_state := WS_REJECTED\<rparr>) fs =
      (Inr (ok, w\<lparr>w_state := WS_REJECTED, w_state := WS_DISCARDED\<rparr>), fs1)" using discard_active by blast
  then show ?thesis using assms False by (auto simp: resolve_workspace_def)
next
  case True
  obtain x fs1 where m: "merge_workspace (ex_policy ex) (ex_refuses ex) (w\<lparr>w_state := WS_VERIFIED\<rparr>) (te_task_id e)
      True 0 (Some (pp_root (ex_policy ex))) (te_changed_files e) fs = (x, fs1)" by (meson surj_pair)
  have "(\<exists>m. x = Inl (OsFailure m)) \<or> (\<exists>y w'. x = Inr (y, w'))" using merge_verified [OF m] by simp
  then consider m where "x = Inl (OsFailure m)" | w' where "x = Inr (None, w')" | refusal w' where "x = Inr (Some refusal, w')"
    by (metis option.exhaust)
  then show ?thesis
    by cases (use assms True m in \<open>auto simp: resolve_workspace_def\<close>)
qed

lemma create_workspace_state:
  "create_workspace pol gw t proj base led fs = (Inr (w, led'), fs') \<Longrightarrow> w_state w = WS_CREATED"
  by (auto simp: create_workspace_def Let_def res_bind_Inr_iff split: prod.splits if_splits option.splits)

lemma open_workspace_state:
  assumes "open_workspace ex t led fs = (Inr (w, led'), fs')"
  shows "w = None \<longleftrightarrow> \<not> ex_isolate ex" "w = Some ws \<Longrightarrow> w_state ws = WS_CREATED"
  using assms create_workspace_state
  by (auto simp: open_workspace_def res_bind_Inr_iff split: if_splits prod.splits)

section \<open>What a plan's report says\<close>

definition plan_entry :: "'w executor \<Rightarrow> bool \<Rightarrow> assignment \<Rightarrow> string set \<Rightarrow> task_execution \<Rightarrow> bool" where
  "plan_entry ex verify a finished e \<longleftrightarrow>
     te_task_id e = task_id_of a \<and> te_role e = a_role a \<and> te_outcome e \<noteq> EX_REJECTED \<and>
     te_repair_attempts e < allowed_attempts ex \<and>
     (te_outcome e = EX_COMPLETED \<longrightarrow>
        assigned a \<and> set (pt_depends_on (a_task a)) \<subseteq> finished \<and> attempt_verified verify e \<and>
        te_quality e = Some (if ex_isolate ex then QS_INTEGRATED else QS_VERIFIED)) \<and>
     (te_outcome e \<noteq> EX_COMPLETED \<longrightarrow> te_quality e \<noteq> Some QS_INTEGRATED)"

lemma entry_of_new:
  "out \<notin> {EX_COMPLETED, EX_REJECTED} \<Longrightarrow> plan_entry ex verify a S ((new_execution a out)\<lparr>te_detail := d\<rparr>)"
  "out \<notin> {EX_COMPLETED, EX_REJECTED} \<Longrightarrow>
     plan_entry ex verify a S ((new_execution a out)\<lparr>te_detail := d, te_failure_category := c\<rparr>)"
  by (auto simp: plan_entry_def new_execution_def task_id_of_def allowed_attempts_def)

lemma entry_of_repaired:
  assumes "repaired_ok ex a verify e" "assigned a" "set (pt_depends_on (a_task a)) \<subseteq> S" "\<not> ex_isolate ex"
  shows "plan_entry ex verify a S e"
  using assms by (auto simp: repaired_ok_def plan_entry_def)

lemma entry_of_resolved:
  assumes "repaired_ok ex a verify e" "assigned a" "set (pt_depends_on (a_task a)) \<subseteq> S" "ex_isolate ex"
    "if \<not> execution_ok e then e' = e
     else e' = e\<lparr>te_quality := Some QS_INTEGRATED\<rparr> \<or>
       (\<exists>refusal. e' = e\<lparr>te_outcome := EX_FAILED, te_detail := MergeRefused refusal,
                        te_failure_category := Some TOOL_ERROR\<rparr>)"
  shows "plan_entry ex verify a S e'"
  using assms by (auto simp: repaired_ok_def plan_entry_def execution_ok_def attempt_verified_def split: if_splits)

lemma run_in_workspace_cases:
  assumes "run_in_workspace ex dt verify a w s = r" "assigned a"
    "set (pt_depends_on (a_task a)) \<subseteq> set (ps_succeeded s)"
    "w = None \<longleftrightarrow> \<not> ex_isolate ex" "\<And>ws. w = Some ws \<Longrightarrow> w_state ws = WS_CREATED"
  shows "(\<exists>m. r = Inl (OsFailure m)) \<or>
    (\<exists>e world led. r = Inr (add_execution e (s\<lparr>ps_world := world, ps_ledger := led\<rparr>)) \<and>
       plan_entry ex verify a (set (ps_succeeded s)) e)"
proof -
  obtain e fs st where run: "run_plan_task ex dt verify (map_option w_path w) a (ps_world s) = (e, (fs, st))"
    by (metis surj_pair)
  have ok: "repaired_ok ex a verify e" using run_plan_task_ok [OF run] .
  show ?thesis
  proof (cases w)
    case None
    then have "r = Inr (add_execution e (s\<lparr>ps_world := (fs, st), ps_ledger := ps_ledger s\<rparr>))"
      using assms(1) run by (simp add: run_in_workspace_def)
    then show ?thesis using entry_of_repaired [OF ok assms(2,3)] assms(4) None by blast
  next
    case (Some ws)
    define e1 where "e1 = e\<lparr>te_workspace_id := w_workspace_id ws, te_base_revision := w_base_revision ws\<rparr>"
    have ok1: "repaired_ok ex a verify e1"
      using ok by (simp add: e1_def repaired_ok_def attempt_verified_def repairable_execution_def)
    obtain x fs' where res: "resolve_workspace ex ws e1 fs = (x, fs')" by (meson surj_pair)
    from resolve_workspace_cases [OF res assms(5) [OF Some]] show ?thesis
    proof
      assume "\<exists>m. x = Inl (OsFailure m)"
      then show ?thesis using assms(1) run res Some by (auto simp: run_in_workspace_def e1_def)
    next
      assume "\<exists>w' e'. x = Inr (w', e') \<and>
         (if \<not> execution_ok e1 then e' = e1
          else e' = e1\<lparr>te_quality := Some QS_INTEGRATED\<rparr> \<or>
            (\<exists>refusal. e' = e1\<lparr>te_outcome := EX_FAILED, te_detail := MergeRefused refusal,
                             te_failure_category := Some TOOL_ERROR\<rparr>))"
      then obtain w' e2 where x: "x = Inr (w', e2)" and e2: "if \<not> execution_ok e1 then e2 = e1
          else e2 = e1\<lparr>te_quality := Some QS_INTEGRATED\<rparr> \<or>
            (\<exists>refusal. e2 = e1\<lparr>te_outcome := EX_FAILED, te_detail := MergeRefused refusal,
                             te_failure_category := Some TOOL_ERROR\<rparr>)" by blast
      have "r = Inr (add_execution e2 (s\<lparr>ps_world := (fs', st), ps_ledger := alist_put (w_task_id ws) w' (ps_ledger s)\<rparr>))"
        using assms(1) run res Some x by (simp add: run_in_workspace_def e1_def)
      then show ?thesis using entry_of_resolved [OF ok1 assms(2,3) _ e2] assms(4) Some by blast
    qed
  qed
qed

lemma plan_step_cases:
  assumes "plan_step ex dt verify a s = r"
  shows "(\<exists>m. r = Inl (OsFailure m)) \<or>
    (\<exists>e s'. r = Inr s' \<and> ps_executions s' = ps_executions s @ [e] \<and>
       ps_succeeded s' = (if execution_ok e then te_task_id e # ps_succeeded s else ps_succeeded s) \<and>
       plan_entry ex verify a (set (ps_succeeded s)) e)"
proof -
  have add: ?thesis if "r = Inr (add_execution x t)" "plan_entry ex verify a (set (ps_succeeded s)) x"
    "ps_executions t = ps_executions s" "ps_succeeded t = ps_succeeded s" for x and t :: "'a plan_state"
  proof -
    have "ps_executions (add_execution x t) = ps_executions s @ [x]"
      "ps_succeeded (add_execution x t) = (if execution_ok x then te_task_id x # ps_succeeded s else ps_succeeded s)"
      using that(3,4) by (simp_all add: add_execution_def)
    then show ?thesis using that(1,2) by blast
  qed
  consider "\<not> assigned a" | "assigned a" "unmet_dependencies a (ps_succeeded s) \<noteq> []"
    | "assigned a" "unmet_dependencies a (ps_succeeded s) = []" by blast
  then show ?thesis
  proof cases
    case 1
    then have "r = Inr (add_execution ((new_execution a EX_UNASSIGNED)\<lparr>te_detail := AssignmentRejected (a_rejection a),
        te_failure_category := Some CONFIGURATION_ERROR\<rparr>) s)" using assms by (simp add: plan_step_def)
    then show ?thesis by (rule add) (simp_all add: entry_of_new)
  next
    case 2
    then have "r = Inr (add_execution ((new_execution a EX_BLOCKED)\<lparr>te_detail :=
        PrerequisitesUnmet (unmet_dependencies a (ps_succeeded s))\<rparr>) s)" using assms by (simp add: plan_step_def Let_def)
    then show ?thesis by (rule add) (simp_all add: entry_of_new)
  next
    case 3
    then have deps: "set (pt_depends_on (a_task a)) \<subseteq> set (ps_succeeded s)"
      by (auto simp: unmet_dependencies_def filter_empty_conv)
    obtain x fs' where o: "open_workspace ex (task_id_of a) (ps_ledger s) (fst (ps_world s)) = (x, fs')"
      by (meson surj_pair)
    show ?thesis
    proof (cases x)
      case (Inl err)
      show ?thesis
      proof (cases "is_workspace_error err")
        case True
        then have "r = Inr (add_execution ((new_execution a EX_FAILED)\<lparr>te_detail := WorkspaceUnavailable err,
            te_failure_category := Some TOOL_ERROR\<rparr>) (s\<lparr>ps_world := (fs', snd (ps_world s))\<rparr>))"
          using assms 3 o Inl by (simp add: plan_step_def Let_def)
        then show ?thesis by (rule add) (simp_all add: entry_of_new)
      next
        case False
        then show ?thesis using assms 3 o Inl
          by (cases err) (auto simp: plan_step_def Let_def is_workspace_error_def)
      qed
    next
      case (Inr y)
      obtain w led' where y: "y = (w, led')" by (meson surj_pair)
      define t where "t = s\<lparr>ps_ledger := led', ps_world := (fs', snd (ps_world s))\<rparr>"
      have "run_in_workspace ex dt verify a w t = r" using assms 3 o Inr y by (simp add: plan_step_def Let_def t_def)
      from run_in_workspace_cases [OF this 3(1)] have "(\<exists>m. r = Inl (OsFailure m)) \<or>
        (\<exists>e world led. r = Inr (add_execution e (t\<lparr>ps_world := world, ps_ledger := led\<rparr>)) \<and>
           plan_entry ex verify a (set (ps_succeeded t)) e)"
        using deps open_workspace_state [OF o [unfolded Inr y]] by (auto simp: t_def)
      then show ?thesis
      proof
        assume "\<exists>e world led. r = Inr (add_execution e (t\<lparr>ps_world := world, ps_ledger := led\<rparr>)) \<and>
          plan_entry ex verify a (set (ps_succeeded t)) e"
        then obtain e world led where "r = Inr (add_execution e (t\<lparr>ps_world := world, ps_ledger := led\<rparr>))"
          "plan_entry ex verify a (set (ps_succeeded t)) e" by blast
        moreover have "plan_entry ex verify a (set (ps_succeeded s)) e"
          using calculation(2) by (simp add: t_def)
        ultimately show ?thesis by (intro add [where t = "t\<lparr>ps_world := world, ps_ledger := led\<rparr>"]) (simp_all add: t_def)
      qed blast
    qed
  qed
qed

definition finished_ids :: "task_execution list \<Rightarrow> string set" where
  "finished_ids es = te_task_id ` {e \<in> set es. execution_ok e}"

lemma finished_ids_simps [simp]:
  "finished_ids [] = {}"
  "finished_ids (e # es) = (if execution_ok e then insert (te_task_id e) (finished_ids es) else finished_ids es)"
  by (auto simp: finished_ids_def)

lemma plan_loop_cases:
  "(\<exists>m. plan_loop ex dt verify as s = Inl (OsFailure m)) \<or>
   (\<exists>s' es. plan_loop ex dt verify as s = Inr s' \<and> ps_executions s' = ps_executions s @ es \<and>
      list_all2 (\<lambda>a e. te_task_id e = task_id_of a) as es \<and>
      (\<forall>us e vs. es = us @ e # vs \<longrightarrow>
         plan_entry ex verify (as ! length us) (set (ps_succeeded s) \<union> finished_ids us) e))"
proof (induction as arbitrary: s)
  case (Cons a as)
  obtain r where r: "plan_step ex dt verify a s = r" by blast
  from plan_step_cases [OF r] show ?case
  proof
    assume "\<exists>m. r = Inl (OsFailure m)"
    then show ?case using r by auto
  next
    assume "\<exists>e s'. r = Inr s' \<and> ps_executions s' = ps_executions s @ [e] \<and>
       ps_succeeded s' = (if execution_ok e then te_task_id e # ps_succeeded s else ps_succeeded s) \<and>
       plan_entry ex verify a (set (ps_succeeded s)) e"
    then obtain e s1 where s1: "r = Inr s1" "ps_executions s1 = ps_executions s @ [e]"
      "set (ps_succeeded s1) = set (ps_succeeded s) \<union> finished_ids [e]"
      and e: "plan_entry ex verify a (set (ps_succeeded s)) e" by auto
    have step: "plan_loop ex dt verify (a # as) s = plan_loop ex dt verify as s1" using r s1(1) by simp
    from Cons.IH [of s1] show ?case
    proof
      assume "\<exists>m. plan_loop ex dt verify as s1 = Inl (OsFailure m)"
      then show ?case using step by simp
    next
      assume "\<exists>s' es. plan_loop ex dt verify as s1 = Inr s' \<and> ps_executions s' = ps_executions s1 @ es \<and>
        list_all2 (\<lambda>a e. te_task_id e = task_id_of a) as es \<and>
        (\<forall>us e vs. es = us @ e # vs \<longrightarrow>
           plan_entry ex verify (as ! length us) (set (ps_succeeded s1) \<union> finished_ids us) e)"
      then obtain s' es where rest: "plan_loop ex dt verify as s1 = Inr s'" "ps_executions s' = ps_executions s1 @ es"
        "list_all2 (\<lambda>a e. te_task_id e = task_id_of a) as es"
        and entries: "\<And>us e vs. es = us @ e # vs \<Longrightarrow>
           plan_entry ex verify (as ! length us) (set (ps_succeeded s1) \<union> finished_ids us) e" by blast
      have "plan_entry ex verify ((a # as) ! length us) (set (ps_succeeded s) \<union> finished_ids us) x"
        if "e # es = us @ x # vs" for us x vs
      proof (cases us)
        case Nil
        then show ?thesis using that e by simp
      next
        case (Cons u us')
        then have "u = e" "es = us' @ x # vs" using that by simp_all
        then show ?thesis using entries [of us' x vs] s1(3) Cons by (auto simp: Un_assoc)
      qed
      then have "ps_executions s' = ps_executions s @ (e # es) \<and>
        list_all2 (\<lambda>a e. te_task_id e = task_id_of a) (a # as) (e # es) \<and>
        (\<forall>us x vs. e # es = us @ x # vs \<longrightarrow>
           plan_entry ex verify ((a # as) ! length us) (set (ps_succeeded s) \<union> finished_ids us) x)"
        using rest s1(2) e by (simp add: plan_entry_def)
      then show ?case using step rest(1) by metis
    qed
  qed
qed simp

definition start_state :: "'w ex_world \<Rightarrow> 'w plan_state" where
  "start_state fw = \<lparr>ps_executions = [], ps_succeeded = [], ps_ledger = [], ps_world = fw\<rparr>"

lemma execute_plan_eq:
  "execute_plan ex dt verify xs fw =
     (let conflicts = detect_conflicts xs in
      res_bind (plan_loop ex dt verify (dependency_order (serialise xs conflicts)) (start_state fw)) (\<lambda>s.
      let report = \<lparr>er_executions = ps_executions s, er_conflicts = conflicts\<rparr> in
      if \<not> ex_isolate ex then Inr (report, ps_world s)
      else (case cleanup (ex_git ex) (ps_ledger s) (fst (ps_world s)) of
              (Inl err, fs') \<Rightarrow> Inl err
            | (Inr c, fs') \<Rightarrow> Inr (report, (fs', snd (ps_world s))))))"
  by (simp add: execute_plan_def start_state_def Let_def)

lemma cleanup_total: "\<exists>c fs'. cleanup gw led fs = (Inr c, fs')"
  using cleanup_loop_total [of "ledger_active led" 0 gw led fs]
  by (auto simp: cleanup_def ledger_active_def list_all_iff)

text \<open>What executing a plan comes to: an operating-system failure, or a report with one
  execution for each task, in the order of the plan, each an entry over the tasks finished
  before it.\<close>

lemma execute_plan_cases:
  "(\<exists>m. execute_plan ex dt verify xs fw = Inl (OsFailure m)) \<or>
   (\<exists>rep fw'. execute_plan ex dt verify xs fw = Inr (rep, fw') \<and>
      list_all2 (\<lambda>a e. te_task_id e = task_id_of a)
        (dependency_order (serialise xs (detect_conflicts xs))) (er_executions rep) \<and>
      (\<forall>us e vs. er_executions rep = us @ e # vs \<longrightarrow>
         plan_entry ex verify (dependency_order (serialise xs (detect_conflicts xs)) ! length us) (finished_ids us) e))"
proof -
  let ?o = "dependency_order (serialise xs (detect_conflicts xs))"
  from plan_loop_cases [of ex dt verify ?o "start_state fw"] show ?thesis
  proof
    assume "\<exists>m. plan_loop ex dt verify ?o (start_state fw) = Inl (OsFailure m)"
    then show ?thesis by (auto simp: execute_plan_eq Let_def)
  next
    assume "\<exists>s' es. plan_loop ex dt verify ?o (start_state fw) = Inr s' \<and>
        ps_executions s' = ps_executions (start_state fw) @ es \<and>
        list_all2 (\<lambda>a e. te_task_id e = task_id_of a) ?o es \<and>
        (\<forall>us e vs. es = us @ e # vs \<longrightarrow>
           plan_entry ex verify (?o ! length us) (set (ps_succeeded (start_state fw)) \<union> finished_ids us) e)"
    then obtain s where l: "plan_loop ex dt verify ?o (start_state fw) = Inr s"
      and es: "list_all2 (\<lambda>a e. te_task_id e = task_id_of a) ?o (ps_executions s)"
      and en: "\<And>us e vs. ps_executions s = us @ e # vs \<Longrightarrow> plan_entry ex verify (?o ! length us) (finished_ids us) e"
      by (auto simp: start_state_def)
    obtain c fs' where "cleanup (ex_git ex) (ps_ledger s) (fst (ps_world s)) = (Inr c, fs')"
      using cleanup_total by blast
    then have "\<exists>fw'. execute_plan ex dt verify xs fw =
        Inr (\<lparr>er_executions = ps_executions s, er_conflicts = detect_conflicts xs\<rparr>, fw')"
      using l by (simp add: execute_plan_eq Let_def)
    then show ?thesis using es en by auto
  qed
qed

end
