(* ===== verification/Executor_Properties.thy ===== *)
theory Executor_Properties
  imports Complex_Main Executor_Correct
begin

text \<open>
  What the executor guarantees of a plan, and a small executor the guarantees are applied to: a
  model that always answers with one file, a shell whose commands succeed, and worktrees that
  are directories below \<open>.edith\<close>.
\<close>

section \<open>A small executor\<close>

definition sample_worktrees :: worktree_gateway where
  "sample_worktrees =
     \<lparr>wg_add = (\<lambda>name fs.
        (\<lparr>wr_ok = True, wr_error = [], wr_created_path = ''.edith/'' @ name\<rparr>,
         fs @ [([''ws'', ''.edith''], Directory), ([''ws'', ''.edith'', name], Directory),
               ([''ws'', ''.edith'', name, ''src''], Directory)])),
      wg_remove = (\<lambda>name fs. (\<lparr>wr_ok = True, wr_error = [], wr_created_path = []\<rparr>, fs))\<rparr>"

definition sample_review_settings :: "nat quality_settings" where
  "sample_review_settings = \<lparr>qs_parse = (\<lambda>c. Parsed (QOther [])), qs_model_review = False,
     qs_security = (\<lambda>a b c w. (None, w)), qs_review = (\<lambda>a b c w. (None, w)), qs_judge = (\<lambda>i w. (None, w))\<rparr>"

definition sample_executor :: "bool \<Rightarrow> int \<Rightarrow> nat executor" where
  "sample_executor isolate code =
     \<lparr>ex_policy = sample_policy, ex_refuses = (\<lambda>p. False), ex_project_id = ''p'', ex_isolate = isolate,
      ex_git = sample_worktrees, ex_head = (\<lambda>fs. ''abc''),
      ex_runtime = (\<lambda>role ms w. (Inr ''{}'', w + 1)),
      ex_schema = \<lparr>sc_name = ''Edits'', sc_instruction = ''i'', sc_envelope_hint = ''h'',
        sc_decode = (\<lambda>t. Inr [sample_edit ''src/backend/b.py'' REPLACE_FILE ''def f(): pass''])\<rparr>,
      ex_messages = (\<lambda>role i. [(R_USER, ci_title i)]),
      ex_retry = (\<lambda>role. \<lparr>rt_max_attempts = 1, rt_initial_backoff = 1, rt_multiplier = 2, rt_max_backoff = 4\<rparr>),
      ex_parse = sample_parser,
      ex_shell = (\<lambda>base argv w. (\<lparr>sr_ok = True, sr_denied = False, sr_failure_category = None, sr_error = [],
        sr_exit_code = (if argv = [''pytest''] then code else 0), sr_stdout = ''assert 1 == 2'', sr_stderr = []\<rparr>, w)),
      ex_profile = \<lparr>vp_tests = [''pytest''], vp_lint = [], vp_typecheck = [], vp_build = []\<rparr>,
      ex_max_repair_attempts = 2, ex_quality = sample_review_settings, ex_wording = (\<lambda>d. ''the checks failed'')\<rparr>"

definition sample_design :: design_text where
  "sample_design = \<lparr>dt_prd = None, dt_ux = None, dt_architecture = []\<rparr>"

definition sample_task :: assignment where
  "sample_task = assign (sample_planned_task ''T-1'' ''backend'' [''src/backend/b.py''])"

definition sample_late_task :: assignment where
  "sample_late_task = assign ((sample_planned_task ''T-0'' ''backend'' [''src/backend/c.py''])\<lparr>pt_depends_on := [''T-1'']\<rparr>)"

text \<open>The steps of a run in which the only task succeeds.\<close>

definition sample_base :: abs_path where
  "sample_base = [''ws'', ''.edith'', ''task-t-1'']"

definition sample_opened :: task_workspace where
  "sample_opened = \<lparr>w_workspace_id = ''task-t-1'', w_task_id = ''T-1'', w_execution_id = ''p'',
     w_path = sample_base, w_base_revision = ''abc'', w_state = WS_CREATED\<rparr>"

definition sample_opened_fs :: file_system where
  "sample_opened_fs = snd (wg_add sample_worktrees ''task-t-1'' sample_fs)"

definition sample_grant :: agent_permissions where
  "sample_grant = (case assignment_permissions sample_task of Inl e \<Rightarrow> sample_perms | Inr p \<Rightarrow> p)"

definition sample_output :: coder_result where
  "sample_output = no_edits\<lparr>cr_changed_files := [''src/backend/b.py'']\<rparr>"

definition sample_coded_fs :: file_system where
  "sample_coded_fs = sample_opened_fs @ [(sample_base @ [''src'', ''backend''], Directory),
     (sample_base @ [''src'', ''backend'', ''b.py''], TextFile (''def f(): pass'' @ [newline]))]"

definition sample_check :: verification_outcome where
  "sample_check = \<lparr>vo_kind = ''tests'', vo_command = [''pytest''], vo_exit_code = 0, vo_passed = True,
     vo_stdout = ''assert 1 == 2'', vo_stderr = [], vo_tests_passed = None, vo_tests_failed = None,
     vo_failure_category = None, vo_diagnosis = None, vo_code_executed = True, vo_unavailable = None\<rparr>"

definition sample_execution :: task_execution where
  "sample_execution = (new_execution sample_task EX_COMPLETED)\<lparr>te_quality := Some QS_VERIFIED,
     te_changed_files := [''src/backend/b.py''], te_verification := Some [sample_check], te_model_calls := 1,
     te_quality_report := Some \<lparr>qr_task_id = ''T-1'', qr_findings = [], qr_judge_verdict = None, qr_judge_rationale = []\<rparr>,
     te_detail := FilesChanged 1\<rparr>"

lemma sample_permissions: "assignment_permissions sample_task = Inr sample_grant"
  by code_simp

lemma sample_opening:
  "open_workspace (sample_executor True 0) ''T-1'' [] sample_fs =
     (Inr (Some sample_opened, [(''T-1'', sample_opened)]), sample_opened_fs)"
  by code_simp

lemma sample_coding:
  "coder_run sample_parser (tools_for (sample_executor True 0) sample_base sample_grant)
     (ex_runtime (sample_executor True 0) BACKEND) (ex_schema (sample_executor True 0)) [(R_USER, ''t'')]
     (sample_opened_fs, 0) = (Inr sample_output, (sample_coded_fs, 1))"
  by code_simp

lemma sample_payload:
  "engineering_input_valid (engineering_payload sample_task sample_design
     (tools_for (sample_executor True 0) sample_base sample_grant) [] sample_opened_fs)"
  by code_simp

lemma sample_settled:
  "settle_response (sample_executor True 0) sample_base sample_task True
     \<lparr>ar_status = AS_SUCCESS, ar_output = Some sample_output, ar_error = None, ar_failure_category = None, ar_attempts = 1\<rparr>
     (sample_coded_fs, 1) = (sample_execution, (sample_coded_fs, 1))"
  by code_simp

definition sample_merged :: task_execution where
  "sample_merged = sample_execution\<lparr>te_workspace_id := ''task-t-1'', te_base_revision := ''abc'',
     te_quality := Some QS_INTEGRATED\<rparr>"

definition sample_resolution :: "(workspace_error, task_workspace \<times> task_execution) res \<times> file_system" where
  "sample_resolution = resolve_workspace (sample_executor True 0) sample_opened
     (sample_execution\<lparr>te_workspace_id := ''task-t-1'', te_base_revision := ''abc''\<rparr>) sample_coded_fs"

lemma sample_resolved: "\<exists>w fs'. sample_resolution = (Inr (w, sample_merged), fs')"
proof -
  have m: "map_sum id snd (fst sample_resolution) = Inr sample_merged" by code_simp
  obtain x fs' where r: "sample_resolution = (x, fs')" by (meson surj_pair)
  then have "map_sum id snd x = Inr sample_merged" using m by (metis fst_conv)
  then obtain w where "x = Inr (w, sample_merged)" by (cases x) auto
  with r show ?thesis by blast
qed

lemma agent_execute_first:
  assumes "valid payload" "run payload w = (Inr out, w')" "1 \<le> rt_max_attempts cfg"
  shows "agent_execute name cfg valid run payload w =
    (\<lparr>ar_status = AS_SUCCESS, ar_output = Some out, ar_error = None, ar_failure_category = None, ar_attempts = 1\<rparr>, w')"
  using assms by (simp add: agent_execute_def with_retry_def retry_loop.simps)

lemma sample_fields:
  "ex_parse (sample_executor i c) = sample_parser" "rt_max_attempts (ex_retry (sample_executor i c) r) = 1"
  "ex_messages (sample_executor i c) r p = [(R_USER, ci_title p)]" "ex_isolate (sample_executor i c) = i"
  "ex_git (sample_executor i c) = sample_worktrees" "allowed_attempts (sample_executor i c) = 2"
  "a_role sample_task = BACKEND" "task_id_of sample_task = ''T-1''" "pt_title (a_task sample_task) = ''t''"
  "assigned sample_task" "pt_depends_on (a_task sample_task) = []"
proof -
  show "ex_parse (sample_executor i c) = sample_parser" "rt_max_attempts (ex_retry (sample_executor i c) r) = 1"
    "ex_messages (sample_executor i c) r p = [(R_USER, ci_title p)]" "ex_isolate (sample_executor i c) = i"
    "ex_git (sample_executor i c) = sample_worktrees" "allowed_attempts (sample_executor i c) = 2"
    by (simp_all add: sample_executor_def allowed_attempts_def)
qed code_simp+

lemma sample_attempt:
  "attempt_task (sample_executor True 0) sample_design True (Some sample_base) sample_task [] (sample_opened_fs, 0) =
     (sample_execution, (sample_coded_fs, 1))"
proof -
  let ?i = "engineering_payload sample_task sample_design
     (tools_for (sample_executor True 0) sample_base sample_grant) [] sample_opened_fs"
  have t: "ci_title ?i = ''t''" by (simp add: engineering_payload_def sample_fields)
  have "agent_attempt (sample_executor True 0) sample_task
      (tools_for (sample_executor True 0) sample_base sample_grant) ?i (sample_opened_fs, 0) =
      (\<lparr>ar_status = AS_SUCCESS, ar_output = Some sample_output, ar_error = None, ar_failure_category = None,
        ar_attempts = 1\<rparr>, (sample_coded_fs, 1))"
    unfolding agent_attempt_def
    by (rule agent_execute_first) (simp_all add: sample_payload sample_fields sample_coding t)
  then show ?thesis
    by (simp add: attempt_task_def sample_permissions base_of_def sample_payload sample_settled del: One_nat_def)
qed

lemma sample_task_runs:
  "run_plan_task (sample_executor True 0) sample_design True (Some sample_base) sample_task (sample_opened_fs, 0) =
     (sample_execution, (sample_coded_fs, 1))"
proof -
  have "te_outcome sample_execution = EX_COMPLETED" "sample_execution\<lparr>te_repair_attempts := 0\<rparr> = sample_execution"
    by (simp_all add: sample_execution_def new_execution_def)
  then show ?thesis by (simp add: run_plan_task_def sample_fields sample_attempt numeral_2_eq_2)
qed

lemma sample_plan_runs:
  "\<exists>cs fw'. execute_plan (sample_executor True 0) sample_design True [sample_task] (sample_fs, 0) =
     Inr (\<lparr>er_executions = [sample_merged], er_conflicts = cs\<rparr>, fw')"
proof -
  obtain w fs' where "sample_resolution = (Inr (w, sample_merged), fs')" using sample_resolved by blast
  then have res: "resolve_workspace (sample_executor True 0) sample_opened
     (sample_execution\<lparr>te_workspace_id := ''task-t-1'', te_base_revision := ''abc''\<rparr>) sample_coded_fs =
     (Inr (w, sample_merged), fs')" by (simp add: sample_resolution_def)
  have o: "dependency_order (serialise [sample_task] (detect_conflicts [sample_task])) = [sample_task]" by code_simp
  have w: "w_path sample_opened = sample_base" "w_workspace_id sample_opened = ''task-t-1''"
    "w_base_revision sample_opened = ''abc''" "w_task_id sample_opened = ''T-1''" by (simp_all add: sample_opened_def)
  have step: "plan_step (sample_executor True 0) sample_design True sample_task (start_state (sample_fs, 0)) =
      Inr (add_execution sample_merged
        ((start_state (sample_fs, 0))\<lparr>ps_world := (fs', 1), ps_ledger := [(''T-1'', w)]\<rparr>))"
    by (simp add: plan_step_def run_in_workspace_def start_state_def sample_fields unmet_dependencies_def
        sample_opening sample_task_runs res w)
  obtain c fs2 where "cleanup sample_worktrees [(''T-1'', w)] fs' = (Inr c, fs2)" using cleanup_total by blast
  moreover have "plan_loop (sample_executor True 0) sample_design True [sample_task] (start_state (sample_fs, 0)) =
      Inr (add_execution sample_merged ((start_state (sample_fs, 0))\<lparr>ps_world := (fs', 1), ps_ledger := [(''T-1'', w)]\<rparr>))"
    by (simp add: step)
  ultimately show ?thesis
    unfolding execute_plan_eq Let_def o by (simp add: sample_fields add_execution_def start_state_def)
qed

section \<open>The order\<close>

text \<open>C23. The order the plan runs in. Every task appears in it once, and when the prerequisites among
  the tasks admit a ranking (there is no cycle) each task comes after all of them. It does not
  depend on the order the tasks are given in; in particular moving the conflicting tasks to
  the end beforehand, as \<open>serialise\<close> does, changes nothing.
\<close>

theorem dependency_order_correct:
  assumes "unique_ids xs"
  shows "mset (dependency_order xs) = mset xs \<and>
    (\<forall>rk :: string \<Rightarrow> nat. (\<forall>a \<in> set xs. \<forall>d \<in> set (known_deps xs a). rk d < rk (task_id_of a)) \<longrightarrow>
       (\<forall>us a vs. dependency_order xs = us @ a # vs \<longrightarrow> set (known_deps xs a) \<subseteq> task_id_of ` set us)) \<and>
    (\<forall>ys. mset ys = mset xs \<longrightarrow> dependency_order ys = dependency_order xs) \<and>
    dependency_order (serialise xs (detect_conflicts xs)) = dependency_order xs"
proof (intro conjI allI impI)
  show perm: "mset (dependency_order xs) = mset xs" using dependency_order_ids [OF assms] by blast
  have same: "dependency_order ys = dependency_order xs" if "mset ys = mset xs" for ys
    using dependency_order_cong [OF that [symmetric] assms] by (rule sym)
  show "mset ys = mset xs \<Longrightarrow> dependency_order ys = dependency_order xs" for ys by (rule same)
  show "dependency_order (serialise xs (detect_conflicts xs)) = dependency_order xs"
    by (rule same) (rule serialise_permutes)
  fix rk :: "string \<Rightarrow> nat" and us a vs
  assume rk: "\<forall>a \<in> set xs. \<forall>d \<in> set (known_deps xs a). rk d < rk (task_id_of a)"
    and o: "dependency_order xs = us @ a # vs"
  have P: "pending_of xs = map (\<lambda>a. (task_id_of a, known_deps xs a)) xs" by (rule pending_of_unique [OF assms])
  have d: "distinct (map fst (pending_of xs))" using assms by (simp add: P unique_ids_def comp_def)
  have r: "ranked rk (pending_of xs)"
    using rk by (auto simp: ranked_def P known_deps_def)
  have "a \<in> set xs" using perm o by (metis in_set_conv_decomp mset_eq_setD)
  then have m: "(task_id_of a, known_deps xs a) \<in> set (pending_of xs)" by (auto simp: P)
  have "order_ids (pending_of xs) = map task_id_of us @ task_id_of a # map task_id_of vs"
    using dependency_order_ids(1) [OF assms] o by simp
  from order_ids_prerequisites [OF d r this m] show "set (known_deps xs a) \<subseteq> task_id_of ` set us" by simp
qed

section \<open>Completed tasks\<close>

text \<open>C5. What a completed task stands for. In the report of a plan, a task is COMPLETED only when
  it was assigned to a role, every task it depends on was completed before it, it changed
  files, its checks ran and passed (when verification is on), the quality review, where it
  had anything to read, merges, and its work has reached the main tree (when tasks are
  isolated). No other task's work counts as integrated, and none is left as merely rejected.
\<close>

theorem completed_tasks_are_verified:
  assumes "execute_plan ex dt verify xs fw = Inr (rep, fw')" "er_executions rep = us @ e # vs"
  shows "(\<exists>a \<in> set xs. te_task_id e = task_id_of a \<and> te_role e = a_role a \<and>
      (te_outcome e = EX_COMPLETED \<longrightarrow>
         assigned a \<and>
         (\<forall>d \<in> set (pt_depends_on (a_task a)). \<exists>p \<in> set us. te_task_id p = d \<and> te_outcome p = EX_COMPLETED) \<and>
         te_changed_files e \<noteq> [] \<and>
         (verify \<longrightarrow> (\<exists>r. te_verification e = Some r \<and> report_passed r)) \<and>
         (\<forall>r. te_quality_report e = Some r \<longrightarrow> verdict_merges (quality_adjudicate r)) \<and>
         te_quality e = Some (if ex_isolate ex then QS_INTEGRATED else QS_VERIFIED))) \<and>
    (te_outcome e \<noteq> EX_COMPLETED \<longrightarrow> te_quality e \<noteq> Some QS_INTEGRATED) \<and>
    te_outcome e \<noteq> EX_REJECTED \<and> te_repair_attempts e < allowed_attempts ex"
proof -
  let ?o = "dependency_order (serialise xs (detect_conflicts xs))"
  have en: "plan_entry ex verify (?o ! length us) (finished_ids us) e"
    and len: "length ?o = length (er_executions rep)"
    using execute_plan_cases [of ex dt verify xs fw] assms by (auto dest: list_all2_lengthD)
  have "?o ! length us \<in> set ?o" using len assms(2) by simp
  moreover have "set ?o \<subseteq> set xs"
  proof -
    have "set ?o \<subseteq> set (serialise xs (detect_conflicts xs))" by (rule dependency_order_subset)
    then show ?thesis using serialise_permutes by (metis mset_eq_setD)
  qed
  ultimately have "?o ! length us \<in> set xs" by blast
  moreover have "\<forall>d \<in> finished_ids us. \<exists>p \<in> set us. te_task_id p = d \<and> te_outcome p = EX_COMPLETED"
    by (auto simp: finished_ids_def execution_ok_def)
  ultimately show ?thesis
    using en unfolding plan_entry_def attempt_verified_def
    by (intro conjI bexI [of _ "?o ! length us"]) (auto split: option.splits)
qed


theorem completed_tasks_are_verified_witness:
  "te_outcome sample_merged = EX_COMPLETED \<and> te_changed_files sample_merged \<noteq> [] \<and>
   te_quality sample_merged = Some QS_INTEGRATED \<and>
   (\<exists>r. te_verification sample_merged = Some r \<and> report_passed r)"
proof -
  obtain cs fw' where r: "execute_plan (sample_executor True 0) sample_design True [sample_task] (sample_fs, 0) =
     Inr (\<lparr>er_executions = [sample_merged], er_conflicts = cs\<rparr>, fw')" using sample_plan_runs by blast
  have c: "te_outcome sample_merged = EX_COMPLETED"
    by (simp add: sample_merged_def sample_execution_def new_execution_def)
  from completed_tasks_are_verified [OF r, of "[]" sample_merged "[]"] c show ?thesis
    by (simp add: sample_fields)
qed

theorem dependency_order_correct_witness:
  "map task_id_of (dependency_order [sample_late_task, sample_task]) = [''T-1'', ''T-0''] \<and>
   mset (dependency_order [sample_late_task, sample_task]) = {#sample_late_task, sample_task#}"
proof -
  have "unique_ids [sample_late_task, sample_task]" by code_simp
  from conjunct1 [OF dependency_order_correct [OF this]] have
    "mset (dependency_order [sample_late_task, sample_task]) = {#sample_late_task, sample_task#}" by simp
  moreover have "map task_id_of (dependency_order [sample_late_task, sample_task]) = [''T-1'', ''T-0'']" by code_simp
  ultimately show ?thesis by blast
qed

section \<open>The report\<close>

lemma execute_plan_conflicts:
  assumes "execute_plan ex dt verify xs fw = Inr (rep, fw')"
  shows "er_conflicts rep = detect_conflicts xs"
proof (cases "plan_loop ex dt verify (dependency_order (serialise xs (detect_conflicts xs))) (start_state fw)")
  case (Inr s)
  obtain c fs' where "cleanup (ex_git ex) (ps_ledger s) (fst (ps_world s)) = (Inr c, fs')" using cleanup_total by blast
  with Inr assms show ?thesis by (auto simp: execute_plan_eq Let_def split: if_splits)
qed (use assms in \<open>simp add: execute_plan_eq Let_def\<close>)

text \<open>C27. Executing a plan either stops with an operating-system failure or reports on every task, once
  and in the order of the plan, with the conflicts of the plan; each execution is counted in
  exactly one of completed, failed, blocked and unassigned, and none is left open for repair.
\<close>

theorem plan_reports_every_task:
  "(\<exists>m. execute_plan ex dt verify xs fw = Inl (OsFailure m)) \<or>
   (\<exists>rep fw'. execute_plan ex dt verify xs fw = Inr (rep, fw') \<and>
      map te_task_id (er_executions rep) =
        map task_id_of (dependency_order (serialise xs (detect_conflicts xs))) \<and>
      er_conflicts rep = detect_conflicts xs \<and> EX_REJECTED \<notin> te_outcome ` set (er_executions rep) \<and>
      report_completed rep + report_failed rep + report_blocked rep +
        length (filter (\<lambda>e. te_outcome e = EX_UNASSIGNED) (er_executions rep)) = length (er_executions rep))"
proof -
  let ?o = "dependency_order (serialise xs (detect_conflicts xs))"
  have sums: "report_completed r + report_failed r + report_blocked r +
      length (filter (\<lambda>e. te_outcome e = EX_UNASSIGNED) (er_executions r)) = length (er_executions r)" for r
  proof -
    have "length (filter execution_ok es) +
        length (filter (\<lambda>e. te_outcome e \<in> {EX_FAILED, EX_REJECTED, EX_REPAIR_EXHAUSTED}) es) +
        length (filter (\<lambda>e. te_outcome e = EX_BLOCKED) es) +
        length (filter (\<lambda>e. te_outcome e = EX_UNASSIGNED) es) = length es" for es
    proof (induction es)
      case (Cons e es)
      then show ?case by (cases "te_outcome e") (simp_all add: execution_ok_def)
    qed simp
    then show ?thesis by (simp only: report_completed_def report_failed_def report_blocked_def)
  qed
  from execute_plan_cases [of ex dt verify xs fw] show ?thesis
  proof
    assume "\<exists>rep fw'. execute_plan ex dt verify xs fw = Inr (rep, fw') \<and>
      list_all2 (\<lambda>a e. te_task_id e = task_id_of a) ?o (er_executions rep) \<and>
      (\<forall>us e vs. er_executions rep = us @ e # vs \<longrightarrow> plan_entry ex verify (?o ! length us) (finished_ids us) e)"
    then obtain rep fw' where r: "execute_plan ex dt verify xs fw = Inr (rep, fw')"
      and l: "list_all2 (\<lambda>a e. te_task_id e = task_id_of a) ?o (er_executions rep)"
      and en: "\<And>us e vs. er_executions rep = us @ e # vs \<Longrightarrow> plan_entry ex verify (?o ! length us) (finished_ids us) e"
      by blast
    have "map te_task_id (er_executions rep) = map task_id_of ?o"
      using l by (induction rule: list_all2_induct) auto
    moreover have "EX_REJECTED \<notin> te_outcome ` set (er_executions rep)"
      using en by (force dest!: split_list simp: plan_entry_def)
    moreover have "er_conflicts rep = detect_conflicts xs" using r by (rule execute_plan_conflicts)
    ultimately show ?thesis using r sums by blast
  qed blast
qed

end
