(* ===== verification/Product_Properties.thy ===== *)
theory Product_Properties
  imports Edith_Prelude
begin

text \<open>
  Structural claims about a product (\<open>edith/product/properties.py\<close>): the closed vocabulary, the
  pairs that exclude each other, the implications between them, and the two searches, for
  conflicts between declared sets and for hints in prose. A set of properties is a list whose
  order carries no meaning.
\<close>

datatype product_property =
    OFFLINE_CAPABLE | REQUIRES_NETWORK | CLOUD_DEPENDENT | LOCAL_ONLY
  | AUTHENTICATION_REQUIRED | NO_AUTHENTICATION | AUTHORIZATION_REQUIRED
  | MULTI_USER | SINGLE_USER | MULTI_TENANT
  | MOBILE_RESPONSIVE | DESKTOP_ONLY | ACCESSIBLE | HEADLESS
  | PERSISTENT_STORAGE | EPHEMERAL_STORAGE | SENSITIVE_DATA | DATA_RESIDENCY
  | REAL_TIME | ASYNCHRONOUS | HIGH_AVAILABILITY | RESOURCE_CONSTRAINED

fun str_property :: "product_property \<Rightarrow> string" where
  "str_property OFFLINE_CAPABLE = ''OFFLINE_CAPABLE''"
| "str_property REQUIRES_NETWORK = ''REQUIRES_NETWORK''"
| "str_property CLOUD_DEPENDENT = ''CLOUD_DEPENDENT''"
| "str_property LOCAL_ONLY = ''LOCAL_ONLY''"
| "str_property AUTHENTICATION_REQUIRED = ''AUTHENTICATION_REQUIRED''"
| "str_property NO_AUTHENTICATION = ''NO_AUTHENTICATION''"
| "str_property AUTHORIZATION_REQUIRED = ''AUTHORIZATION_REQUIRED''"
| "str_property MULTI_USER = ''MULTI_USER''"
| "str_property SINGLE_USER = ''SINGLE_USER''"
| "str_property MULTI_TENANT = ''MULTI_TENANT''"
| "str_property MOBILE_RESPONSIVE = ''MOBILE_RESPONSIVE''"
| "str_property DESKTOP_ONLY = ''DESKTOP_ONLY''"
| "str_property ACCESSIBLE = ''ACCESSIBLE''"
| "str_property HEADLESS = ''HEADLESS''"
| "str_property PERSISTENT_STORAGE = ''PERSISTENT_STORAGE''"
| "str_property EPHEMERAL_STORAGE = ''EPHEMERAL_STORAGE''"
| "str_property SENSITIVE_DATA = ''SENSITIVE_DATA''"
| "str_property DATA_RESIDENCY = ''DATA_RESIDENCY''"
| "str_property REAL_TIME = ''REAL_TIME''"
| "str_property ASYNCHRONOUS = ''ASYNCHRONOUS''"
| "str_property HIGH_AVAILABILITY = ''HIGH_AVAILABILITY''"
| "str_property RESOURCE_CONSTRAINED = ''RESOURCE_CONSTRAINED''"

definition all_properties :: "product_property list" where
  "all_properties =
     [OFFLINE_CAPABLE, REQUIRES_NETWORK, CLOUD_DEPENDENT, LOCAL_ONLY, AUTHENTICATION_REQUIRED,
      NO_AUTHENTICATION, AUTHORIZATION_REQUIRED, MULTI_USER, SINGLE_USER, MULTI_TENANT,
      MOBILE_RESPONSIVE, DESKTOP_ONLY, ACCESSIBLE, HEADLESS, PERSISTENT_STORAGE, EPHEMERAL_STORAGE,
      SENSITIVE_DATA, DATA_RESIDENCY, REAL_TIME, ASYNCHRONOUS, HIGH_AVAILABILITY, RESOURCE_CONSTRAINED]"

lemma all_properties_complete [simp]: "p \<in> set all_properties"
  by (cases p) (simp_all add: all_properties_def)

definition contradictory_pairs :: "(product_property \<times> product_property) list" where
  "contradictory_pairs =
     [(OFFLINE_CAPABLE, REQUIRES_NETWORK), (OFFLINE_CAPABLE, CLOUD_DEPENDENT),
      (LOCAL_ONLY, CLOUD_DEPENDENT), (LOCAL_ONLY, MULTI_TENANT),
      (AUTHENTICATION_REQUIRED, NO_AUTHENTICATION), (AUTHORIZATION_REQUIRED, NO_AUTHENTICATION),
      (MULTI_USER, SINGLE_USER), (MULTI_TENANT, SINGLE_USER), (MOBILE_RESPONSIVE, DESKTOP_ONLY),
      (HEADLESS, MOBILE_RESPONSIVE), (HEADLESS, ACCESSIBLE),
      (PERSISTENT_STORAGE, EPHEMERAL_STORAGE), (DATA_RESIDENCY, CLOUD_DEPENDENT)]"

fun implications :: "product_property \<Rightarrow> product_property list" where
  "implications MULTI_TENANT = [MULTI_USER, AUTHENTICATION_REQUIRED]"
| "implications AUTHORIZATION_REQUIRED = [AUTHENTICATION_REQUIRED]"
| "implications CLOUD_DEPENDENT = [REQUIRES_NETWORK]"
| "implications REAL_TIME = [REQUIRES_NETWORK]"
| "implications DATA_RESIDENCY = [SENSITIVE_DATA]"
| "implications p = []"

text \<open>\<open>expand\<close> adds what is implied and not yet present until nothing is.\<close>

definition additions :: "product_property list \<Rightarrow> product_property list" where
  "additions ps = remdups (filter (\<lambda>q. q \<notin> set ps) (concat (map implications ps)))"

function expand :: "product_property list \<Rightarrow> product_property list" where
  "expand ps = (if additions ps = [] then ps else expand (ps @ additions ps))"
  by pat_completeness auto
termination
proof (relation "measure (\<lambda>ps. card (set all_properties - set ps))")
  fix ps assume ne: "additions ps \<noteq> []"
  then obtain q where q: "q \<in> set (additions ps)" by (cases "additions ps") auto
  then have "q \<notin> set ps" by (auto simp: additions_def)
  with q have "set all_properties - set (ps @ additions ps) \<subset> set all_properties - set ps"
    unfolding set_append using all_properties_complete [of q] by blast
  then have "card (set all_properties - set (ps @ additions ps)) < card (set all_properties - set ps)"
    by (rule psubset_card_mono [rotated]) (rule finite_Diff, rule finite_set)
  then show "(ps @ additions ps, ps) \<in> measure (\<lambda>ps. card (set all_properties - set ps))"
    by (simp only: in_measure)
qed simp

declare expand.simps [simp del]

definition conflicts_with :: "product_property \<Rightarrow> product_property \<Rightarrow> bool" where
  "conflicts_with p q \<longleftrightarrow> (p, q) \<in> set contradictory_pairs \<or> (q, p) \<in> set contradictory_pairs"

definition find_conflicts ::
    "product_property list \<Rightarrow> product_property list \<Rightarrow> (product_property \<times> product_property) list" where
  "find_conflicts left right =
     sort_key (\<lambda>(p, q). (str_property p, str_property q))
       (remdups (filter (\<lambda>(p, q). conflicts_with p q) (List.product (expand left) (expand right))))"

fun property_hints :: "product_property \<Rightarrow> string list" where
  "property_hints OFFLINE_CAPABLE =
     [''offline'', ''no internet'', ''without connectivity'', ''air-gapped'', ''airgapped'']"
| "property_hints REQUIRES_NETWORK = [''requires internet'', ''online only'', ''network required'']"
| "property_hints CLOUD_DEPENDENT =
     [''cloud-only'', ''cloud only'', ''hosted service'', ''saas'', ''managed service'']"
| "property_hints LOCAL_ONLY = [''local-only'', ''local only'', ''on-device'', ''on device'']"
| "property_hints AUTHENTICATION_REQUIRED =
     [''authentication'', ''sign in'', ''log in'', ''login'', ''credentials'']"
| "property_hints NO_AUTHENTICATION =
     [''no authentication'', ''no login'', ''anonymous access'', ''without signing in'']"
| "property_hints MULTI_USER = [''multiple users'', ''multi-user'', ''collaborators'', ''team'']"
| "property_hints SINGLE_USER = [''single user'', ''single-user'', ''one user'']"
| "property_hints MOBILE_RESPONSIVE = [''responsive'', ''mobile'', ''small screen'', ''tablet'']"
| "property_hints DESKTOP_ONLY = [''desktop-only'', ''desktop only'', ''fixed layout'']"
| "property_hints ACCESSIBLE = [''accessible'', ''wcag'', ''screen reader'', ''a11y'']"
| "property_hints PERSISTENT_STORAGE = [''persist'', ''saved'', ''database'', ''durable'']"
| "property_hints SENSITIVE_DATA =
     [''personal data'', ''pii'', ''medical'', ''financial'', ''confidential'']"
| "property_hints REAL_TIME = [''real-time'', ''real time'', ''live updates'', ''instantly'']"
| "property_hints HIGH_AVAILABILITY = [''high availability'', ''always available'', ''uptime'']"
| "property_hints p = []"

definition hints_in :: "string \<Rightarrow> product_property list" where
  "hints_in s = filter (\<lambda>p. list_ex (\<lambda>phrase. sublist phrase (py_lower s)) (property_hints p)) all_properties"

section \<open>The closure\<close>

definition implies_step :: "(product_property \<times> product_property) set" where
  "implies_step = {(p, q). q \<in> set (implications p)}"

lemma additions_Nil: "additions ps = [] \<longleftrightarrow> (\<forall>p \<in> set ps. set (implications p) \<subseteq> set ps)"
  by (auto simp: additions_def filter_empty_conv)

lemma set_expand: "set (expand ps) = implies_step\<^sup>* `` set ps"
proof (induction ps rule: expand.induct)
  case (1 ps)
  show ?case
  proof (cases "additions ps = []")
    case True
    then have "implies_step `` set ps \<subseteq> set ps" by (auto simp: additions_Nil implies_step_def)
    then have "implies_step\<^sup>* `` set ps = set ps" by (rule Image_closed_trancl)
    with True show ?thesis by (subst expand.simps) simp
  next
    case False
    have new: "set (additions ps) \<subseteq> implies_step\<^sup>* `` set ps"
      by (auto simp: additions_def implies_step_def)
    have "implies_step\<^sup>* `` set (ps @ additions ps) = implies_step\<^sup>* `` set ps"
    proof
      show "implies_step\<^sup>* `` set (ps @ additions ps) \<subseteq> implies_step\<^sup>* `` set ps"
        using new by (auto intro: rtrancl_trans)
    qed auto
    with False 1 show ?thesis by (subst expand.simps) simp
  qed
qed

lemma str_property_inject [simp]: "str_property p = str_property q \<longleftrightarrow> p = q"
  by (cases p; cases q; simp)

lemma conflicts_with_sym: "conflicts_with p q \<longleftrightarrow> conflicts_with q p"
  by (auto simp: conflicts_with_def)

lemma conflicts_irrefl: "\<not> conflicts_with p p"
  by (cases p) (simp_all add: conflicts_with_def contradictory_pairs_def)

lemma set_find_conflicts:
  "set (find_conflicts left right) = {(p, q). p \<in> set (expand left) \<and> q \<in> set (expand right) \<and> conflicts_with p q}"
  by (auto simp: find_conflicts_def)

lemma find_conflicts_mono:
  "set l \<subseteq> set l' \<Longrightarrow> set r \<subseteq> set r' \<Longrightarrow> set (find_conflicts l r) \<subseteq> set (find_conflicts l' r')"
  unfolding set_find_conflicts set_expand by blast

lemma find_conflicts_swap: "(p, q) \<in> set (find_conflicts l r) \<longleftrightarrow> (q, p) \<in> set (find_conflicts r l)"
  unfolding set_find_conflicts using conflicts_with_sym by blast

text \<open>The conflicts reported between two declared sets are exactly the excluding pairs among all
  they imply, each once, in the order of the names. The search is symmetric in the two sets,
  never pairs a property with itself, and a larger declaration never loses a conflict.
\<close>

theorem find_conflicts_exact:
  "set (find_conflicts l r) = {(p, q). (\<exists>a \<in> set l. (a, p) \<in> implies_step\<^sup>*) \<and>
       (\<exists>b \<in> set r. (b, q) \<in> implies_step\<^sup>*) \<and> conflicts_with p q} \<and>
   distinct (find_conflicts l r) \<and>
   sorted (map (\<lambda>(p, q). (str_property p, str_property q)) (find_conflicts l r)) \<and>
   set (find_conflicts r l) = (\<lambda>(p, q). (q, p)) ` set (find_conflicts l r) \<and>
   (p, p) \<notin> set (find_conflicts l r) \<and>
   set (find_conflicts l r) \<subseteq> set (find_conflicts (l @ l') (r @ r'))"
proof (intro conjI)
  show "set (find_conflicts l r) = {(p, q). (\<exists>a \<in> set l. (a, p) \<in> implies_step\<^sup>*) \<and>
       (\<exists>b \<in> set r. (b, q) \<in> implies_step\<^sup>*) \<and> conflicts_with p q}"
    unfolding set_find_conflicts set_expand by auto
  show "distinct (find_conflicts l r)" by (simp add: find_conflicts_def)
  show "sorted (map (\<lambda>(p, q). (str_property p, str_property q)) (find_conflicts l r))"
    by (simp add: find_conflicts_def)
  show "set (find_conflicts r l) = (\<lambda>(p, q). (q, p)) ` set (find_conflicts l r)"
    using find_conflicts_swap by (auto simp: image_iff)
  show "(p, p) \<notin> set (find_conflicts l r)" by (simp add: set_find_conflicts conflicts_irrefl)
  show "set (find_conflicts l r) \<subseteq> set (find_conflicts (l @ l') (r @ r'))"
    by (rule find_conflicts_mono) auto
qed

end
