(* ===== verification/Product_Artifacts.thy ===== *)
theory Product_Artifacts
  imports Product_Properties Authority Lifecycle Ownership
begin

text \<open>
  The documents of the product stages (\<open>edith/product/artifacts.py\<close>, \<open>prd.py\<close>, \<open>ux.py\<close>,
  \<open>architecture.py\<close>): element identifiers, the four typed documents with their validators and
  the identifiers each defines and refers to, and the artifact envelope with its lifecycle.

  A body is the typed document, or \<open>None\<close> where the JSON does not validate; the limits on the
  lengths of prose fields, and prose no operation reads, are left out. The
  body of a review (\<open>review.py\<close>) is no document here: no operation stores one. \<open>now\<close> is the clock.
\<close>

section \<open>Identifiers\<close>

definition digit_like :: "char \<Rightarrow> bool" where
  "digit_like c \<longleftrightarrow> (48 \<le> char_code c \<and> char_code c \<le> 57) \<or> char_code c \<in> {178, 179, 185}"

definition id_prefixes :: "string list" where
  "id_prefixes = [''REQ'', ''AC'', ''PER'', ''US'', ''RISK'', ''KPI'', ''Q'', ''UX'', ''SCR'', ''CMP'', ''TOK'',
     ''ARCH'', ''ADR'', ''ENT'', ''API'', ''THR'', ''TASK'', ''FND'']"

definition pad_three :: "nat \<Rightarrow> string" where
  "pad_three n = replicate (3 - length (show_nat n)) (CHR ''0'') @ show_nat n"

definition element_id :: "string \<Rightarrow> nat \<Rightarrow> string" where
  "element_id pre n = pre @ ''-'' @ pad_three n"

definition id_head :: "string \<Rightarrow> string" where
  "id_head s = takeWhile (\<lambda>c. c \<noteq> CHR ''-'') s"

definition id_tail :: "string \<Rightarrow> string" where
  "id_tail s = drop 1 (dropWhile (\<lambda>c. c \<noteq> CHR ''-'') s)"

definition is_element_id :: "string \<Rightarrow> string option \<Rightarrow> bool" where
  "is_element_id s pre \<longleftrightarrow>
     CHR ''-'' \<in> set s \<and> id_tail s \<noteq> [] \<and> list_all digit_like (id_tail s) \<and>
     (case pre of Some p \<Rightarrow> id_head s = p | None \<Rightarrow> id_head s \<in> set id_prefixes)"

definition matches_id :: "string \<Rightarrow> string \<Rightarrow> bool" where
  "matches_id pre s \<longleftrightarrow>
     starts_with s (pre @ ''-'') \<and> 3 \<le> length (drop (length pre + 1) s) \<and>
     list_all (\<lambda>c. 48 \<le> char_code c \<and> char_code c \<le> 57) (drop (length pre + 1) s)"

definition requirement_ids_ok :: "string list \<Rightarrow> bool" where
  "requirement_ids_ok ids = list_all (\<lambda>i. is_element_id i (Some ''REQ'')) ids"

section \<open>The requirements document\<close>

datatype requirement_kind = FUNCTIONAL | NON_FUNCTIONAL | CONSTRAINT
datatype priority = MUST | SHOULD | COULD | WONT

record product_requirement =
  pr_id :: string
  pr_title :: string
  pr_statement :: string
  pr_kind :: requirement_kind
  pr_priority :: priority
  pr_properties :: "product_property list"
  pr_authority :: authority_level
  pr_related_to :: "string list"

definition requirement_valid :: "product_requirement \<Rightarrow> bool" where
  "requirement_valid r \<longleftrightarrow>
     matches_id ''REQ'' (pr_id r) \<and> requirement_ids_ok (pr_related_to r) \<and> pr_id r \<notin> set (pr_related_to r)"

definition requirement_binding :: "product_requirement \<Rightarrow> bool" where
  "requirement_binding r \<longleftrightarrow>
     pr_priority r = MUST \<and> pr_authority r \<in> {USER_APPROVED_REQUIREMENT, AGENT_RECOMMENDATION}"

record acceptance_criterion =
  ac_id :: string
  ac_verifies :: "string list"

definition criterion_valid :: "acceptance_criterion \<Rightarrow> bool" where
  "criterion_valid c \<longleftrightarrow> matches_id ''AC'' (ac_id c) \<and> ac_verifies c \<noteq> [] \<and> requirement_ids_ok (ac_verifies c)"

record user_story =
  us_id :: string
  us_persona :: string
  us_implements :: "string list"

record open_question =
  oq_id :: string
  oq_owner :: string

text \<open>Personas are their identifiers; risks and metrics are pairs of an identifier and what it points at.\<close>

record prd_document =
  pd_problem :: string
  pd_goals :: "string list"
  pd_constraints :: "string list"
  pd_non_goals :: "string list"
  pd_personas :: "string list"
  pd_stories :: "user_story list"
  pd_requirements :: "product_requirement list"
  pd_risks :: "(string \<times> string list) list"
  pd_metrics :: "(string \<times> string list) list"
  pd_criteria :: "acceptance_criterion list"
  pd_questions :: "open_question list"

definition prd_element_ids :: "prd_document \<Rightarrow> string list" where
  "prd_element_ids d =
     map pr_id (pd_requirements d) @ map ac_id (pd_criteria d) @ pd_personas d @ map us_id (pd_stories d) @
     map fst (pd_risks d) @ map fst (pd_metrics d) @ map oq_id (pd_questions d)"

definition prd_referenced_ids :: "prd_document \<Rightarrow> string list" where
  "prd_referenced_ids d =
     concat (map pr_related_to (pd_requirements d)) @ concat (map ac_verifies (pd_criteria d)) @
     concat (map (\<lambda>s. us_implements s @ (if us_persona s = [] then [] else [us_persona s])) (pd_stories d)) @
     concat (map snd (pd_risks d)) @ concat (map snd (pd_metrics d))"

definition prd_valid :: "prd_document \<Rightarrow> bool" where
  "prd_valid d \<longleftrightarrow>
     list_all requirement_valid (pd_requirements d) \<and> list_all criterion_valid (pd_criteria d) \<and>
     list_all (matches_id ''PER'') (pd_personas d) \<and>
     list_all (\<lambda>s. matches_id ''US'' (us_id s) \<and> requirement_ids_ok (us_implements s)) (pd_stories d) \<and>
     list_all (matches_id ''RISK'' \<circ> fst) (pd_risks d) \<and> list_all (matches_id ''KPI'' \<circ> fst) (pd_metrics d) \<and>
     list_all (matches_id ''Q'' \<circ> oq_id) (pd_questions d) \<and> distinct (prd_element_ids d)"

definition find_requirement :: "prd_document \<Rightarrow> string \<Rightarrow> product_requirement option" where
  "find_requirement d i = find (\<lambda>r. pr_id r = i) (pd_requirements d)"

definition declared_properties :: "prd_document \<Rightarrow> product_property list" where
  "declared_properties d = remdups (concat (map pr_properties (pd_requirements d)))"

definition unverified_requirements :: "prd_document \<Rightarrow> string list" where
  "unverified_requirements d =
     filter (\<lambda>i. i \<notin> set (concat (map ac_verifies (pd_criteria d)))) (map pr_id (pd_requirements d))"

section \<open>The interface specification\<close>

datatype screen_state =
  SS_DEFAULT | SS_LOADING | SS_EMPTY | SS_ERROR | SS_SUCCESS | SS_PARTIAL | SS_READ_ONLY | SS_UNAUTHORIZED | SS_BUSY

definition required_states :: "screen_state list" where
  "required_states = [SS_DEFAULT, SS_ERROR, SS_LOADING]"

datatype step_kind = SK_VIEW | SK_INPUT | SK_ACTION | SK_DECISION | SK_SYSTEM | SK_TERMINAL | SK_ABORT

record flow_step =
  st_id :: string
  st_name :: string
  st_kind :: step_kind
  st_screen :: string
  st_next :: "string list"
  st_error :: "string list"

definition step_terminal :: "flow_step \<Rightarrow> bool" where
  "step_terminal s \<longleftrightarrow> st_kind s \<in> {SK_TERMINAL, SK_ABORT}"

definition dead_end :: "flow_step \<Rightarrow> bool" where
  "dead_end s \<longleftrightarrow> \<not> step_terminal s \<and> st_next s = [] \<and> st_error s = []"

record flow =
  fl_id :: string
  fl_name :: string
  fl_persona :: string
  fl_entry :: string
  fl_steps :: "flow_step list"
  fl_satisfies :: "string list"

definition step_targets :: "flow_step \<Rightarrow> string list" where
  "step_targets s = st_next s @ st_error s"

definition flow_step_ids :: "flow \<Rightarrow> string list" where
  "flow_step_ids f = map st_id (fl_steps f)"

definition flow_valid :: "flow \<Rightarrow> bool" where
  "flow_valid f \<longleftrightarrow>
     matches_id ''UX'' (fl_id f) \<and> fl_steps f \<noteq> [] \<and> requirement_ids_ok (fl_satisfies f) \<and>
     distinct (flow_step_ids f) \<and> fl_entry f \<in> set (flow_step_ids f) \<and>
     list_all (\<lambda>s. list_all (\<lambda>t. t \<in> set (flow_step_ids f)) (step_targets s)) (fl_steps f)"

definition dead_ends :: "flow \<Rightarrow> string list" where
  "dead_ends f = map st_id (filter dead_end (fl_steps f))"

text \<open>\<open>by_id\<close>: of two steps with one identifier the later one.\<close>

definition targets_of :: "flow_step list \<Rightarrow> string \<Rightarrow> string list" where
  "targets_of ss i = (case find (\<lambda>s. st_id s = i) (rev ss) of None \<Rightarrow> [] | Some s \<Rightarrow> step_targets s)"

definition all_targets :: "flow_step list \<Rightarrow> string set" where
  "all_targets ss = set (concat (map step_targets ss))"

lemma targets_of_all: "set (targets_of ss i) \<subseteq> all_targets ss"
proof (cases "find (\<lambda>s. st_id s = i) (rev ss)")
  case (Some s)
  then have "s \<in> set ss" by (metis find_Some_iff nth_mem set_rev)
  then show ?thesis using Some by (auto simp: targets_of_def all_targets_def)
qed (simp add: targets_of_def)

text \<open>The walk from the entry: the frontier is a stack, its top the last element.\<close>

function reach_loop :: "flow_step list \<Rightarrow> string list \<Rightarrow> string list \<Rightarrow> string list" where
  "reach_loop ss reached [] = reached"
| "reach_loop ss reached (v # va) =
     (let current = last (v # va); rest = butlast (v # va) in
      if current \<in> set reached then reach_loop ss reached rest
      else reach_loop ss (current # reached) (rest @ targets_of ss current))"
  by pat_completeness auto
termination
proof (relation "measures [\<lambda>(ss, reached, fr). card ((set fr \<union> all_targets ss) - set reached), \<lambda>(ss, reached, fr). length fr]")
  fix ss :: "flow_step list" and reached xa va :: "string list" and x v :: string
  assume x: "x = last (v # va)" "xa = butlast (v # va)"
  have fin: "finite (all_targets ss)" for ss by (simp add: all_targets_def)
  have fr: "set (v # va) = insert x (set xa)" unfolding x by (metis append_butlast_last_id list.distinct(1) set_append
      list.simps(15) empty_set Un_insert_right sup_bot_right)
  {
    assume "x \<in> set reached"
    then have "(set xa \<union> all_targets ss) - set reached \<subseteq> (set (v # va) \<union> all_targets ss) - set reached"
      unfolding fr by blast
    then have "card ((set xa \<union> all_targets ss) - set reached) \<le> card ((set (v # va) \<union> all_targets ss) - set reached)"
      by (rule card_mono [rotated]) (simp add: fin)
    moreover have "length xa < length (v # va)" by (simp add: x)
    ultimately show "((ss, reached, xa), ss, reached, v # va) \<in> measures
        [\<lambda>(ss, reached, fr). card ((set fr \<union> all_targets ss) - set reached), \<lambda>(ss, reached, fr). length fr]"
      by auto
  }
  assume new: "x \<notin> set reached"
  have "(set (xa @ targets_of ss x) \<union> all_targets ss) - set (x # reached) \<subset> (set (v # va) \<union> all_targets ss) - set reached"
    unfolding fr using targets_of_all [of ss x] new by auto
  then have "card ((set (xa @ targets_of ss x) \<union> all_targets ss) - set (x # reached)) <
      card ((set (v # va) \<union> all_targets ss) - set reached)"
    by (rule psubset_card_mono [rotated]) (simp add: fin)
  then show "((ss, x # reached, xa @ targets_of ss x), ss, reached, v # va) \<in> measures
      [\<lambda>(ss, reached, fr). card ((set fr \<union> all_targets ss) - set reached), \<lambda>(ss, reached, fr). length fr]"
    by simp
qed simp

definition unreachable_steps :: "flow \<Rightarrow> string list" where
  "unreachable_steps f =
     sorted_set (filter (\<lambda>i. i \<notin> set (reach_loop (fl_steps f) [] [fl_entry f])) (flow_step_ids f))"

definition has_error_path :: "flow \<Rightarrow> bool" where
  "has_error_path f \<longleftrightarrow>
     list_ex (\<lambda>s. st_error s \<noteq> []) (fl_steps f) \<or> list_ex (\<lambda>s. st_kind s = SK_ABORT) (fl_steps f)"

record screen =
  sn_id :: string
  sn_name :: string
  sn_components :: "string list"
  sn_states :: "screen_state list"
  sn_navigates :: "string list"
  sn_satisfies :: "string list"

definition missing_states :: "screen \<Rightarrow> screen_state list" where
  "missing_states s = filter (\<lambda>x. x \<notin> set (sn_states s)) required_states"

text \<open>Components are pairs of an identifier and what they compose; tokens are identifiers and
  accessibility obligations what they apply to.\<close>

record ux_document =
  ux_overview :: string
  ux_patterns :: "string list"
  ux_flows :: "flow list"
  ux_screens :: "screen list"
  ux_components :: "(string \<times> string list) list"
  ux_tokens :: "string list"
  ux_accessibility :: "string list list"
  ux_properties :: "product_property list"

definition ux_element_ids :: "ux_document \<Rightarrow> string list" where
  "ux_element_ids d = map fl_id (ux_flows d) @ map sn_id (ux_screens d) @ map fst (ux_components d) @ ux_tokens d"

definition ux_referenced_ids :: "ux_document \<Rightarrow> string list" where
  "ux_referenced_ids d =
     concat (map (\<lambda>f. fl_satisfies f @ (if fl_persona f = [] then [] else [fl_persona f]) @
        filter (\<lambda>s. s \<noteq> []) (map st_screen (fl_steps f))) (ux_flows d)) @
     concat (map (\<lambda>s. sn_satisfies s @ sn_components s @ sn_navigates s) (ux_screens d)) @
     concat (map snd (ux_components d)) @ concat (ux_accessibility d)"

definition ux_valid :: "ux_document \<Rightarrow> bool" where
  "ux_valid d \<longleftrightarrow>
     list_all flow_valid (ux_flows d) \<and>
     list_all (\<lambda>s. matches_id ''SCR'' (sn_id s) \<and> requirement_ids_ok (sn_satisfies s)) (ux_screens d) \<and>
     list_all (matches_id ''CMP'' \<circ> fst) (ux_components d) \<and> list_all (matches_id ''TOK'') (ux_tokens d) \<and>
     distinct (ux_element_ids d)"

definition ux_covered :: "ux_document \<Rightarrow> string list" where
  "ux_covered d = concat (map fl_satisfies (ux_flows d)) @ concat (map sn_satisfies (ux_screens d))"

definition screens_missing_states :: "ux_document \<Rightarrow> (string \<times> screen_state list) list" where
  "screens_missing_states d =
     foldl (\<lambda>m s. if missing_states s = [] then m else alist_put (sn_id s) (missing_states s) m) [] (ux_screens d)"

definition flows_without_error_paths :: "ux_document \<Rightarrow> string list" where
  "flows_without_error_paths d = map fl_id (filter (\<lambda>f. \<not> has_error_path f) (ux_flows d))"

section \<open>The architecture and the plan\<close>

datatype component_kind = CK_UI | CK_SERVICE | CK_LIBRARY | CK_DATASTORE | CK_JOB | CK_EXTERNAL | CK_CLI

record arch_component =
  am_id :: string
  am_name :: string
  am_kind :: component_kind
  am_depends :: "string list"
  am_satisfies :: "string list"

definition component_valid :: "arch_component \<Rightarrow> bool" where
  "component_valid c \<longleftrightarrow>
     matches_id ''ARCH'' (am_id c) \<and> requirement_ids_ok (am_satisfies c) \<and> am_id c \<notin> set (am_depends c)"

record arch_decision =
  ad_id :: string
  ad_title :: string
  ad_alternatives :: "string list"
  ad_consequences :: "string list"
  ad_requirements :: "string list"
  ad_components :: "string list"

definition decision_valid :: "arch_decision \<Rightarrow> bool" where
  "decision_valid d \<longleftrightarrow>
     matches_id ''ADR'' (ad_id d) \<and> ad_alternatives d \<noteq> [] \<and> ad_consequences d \<noteq> [] \<and> requirement_ids_ok (ad_requirements d)"

record technology =
  tc_name :: string
  tc_decision :: string
  tc_alternatives :: "string list"

record data_entity =
  en_id :: string
  en_name :: string
  en_sensitive :: bool
  en_satisfies :: "string list"

record api_endpoint =
  ep_id :: string
  ep_path :: string
  ep_authenticated :: bool
  ep_satisfies :: "string list"
  ep_component :: string

record threat =
  th_id :: string
  th_mitigation :: string
  th_components :: "string list"

record arch_document =
  ar_overview :: string
  ar_constraints :: "string list"
  ar_components :: "arch_component list"
  ar_decisions :: "arch_decision list"
  ar_technologies :: "technology list"
  ar_entities :: "data_entity list"
  ar_endpoints :: "api_endpoint list"
  ar_flows :: "(string \<times> string) list"
  ar_threats :: "threat list"
  ar_properties :: "product_property list"

definition arch_element_ids :: "arch_document \<Rightarrow> string list" where
  "arch_element_ids d =
     map am_id (ar_components d) @ map ad_id (ar_decisions d) @ map en_id (ar_entities d) @
     map ep_id (ar_endpoints d) @ map th_id (ar_threats d)"

definition arch_referenced_ids :: "arch_document \<Rightarrow> string list" where
  "arch_referenced_ids d =
     concat (map (\<lambda>c. am_depends c @ am_satisfies c) (ar_components d)) @
     concat (map (\<lambda>x. ad_requirements x @ ad_components x) (ar_decisions d)) @
     filter (\<lambda>s. s \<noteq> []) (map tc_decision (ar_technologies d)) @ concat (map en_satisfies (ar_entities d)) @
     concat (map (\<lambda>e. ep_satisfies e @ (if ep_component e = [] then [] else [ep_component e])) (ar_endpoints d)) @
     concat (map (\<lambda>(s, t). [s, t]) (ar_flows d)) @ concat (map th_components (ar_threats d))"

definition arch_valid :: "arch_document \<Rightarrow> bool" where
  "arch_valid d \<longleftrightarrow>
     list_all component_valid (ar_components d) \<and> list_all decision_valid (ar_decisions d) \<and>
     list_all (matches_id ''ENT'' \<circ> en_id) (ar_entities d) \<and> list_all (matches_id ''API'' \<circ> ep_id) (ar_endpoints d) \<and>
     list_all (matches_id ''THR'' \<circ> th_id) (ar_threats d) \<and> distinct (arch_element_ids d)"

definition arch_covered :: "arch_document \<Rightarrow> string list" where
  "arch_covered d =
     concat (map am_satisfies (ar_components d)) @ concat (map en_satisfies (ar_entities d)) @
     concat (map ep_satisfies (ar_endpoints d)) @ concat (map ad_requirements (ar_decisions d))"

definition unmitigated_threats :: "arch_document \<Rightarrow> string list" where
  "unmitigated_threats d = map th_id (filter (\<lambda>t. py_strip (th_mitigation t) = []) (ar_threats d))"

definition unjustified_technologies :: "arch_document \<Rightarrow> string list" where
  "unjustified_technologies d = map tc_name (filter (\<lambda>t. tc_alternatives t = []) (ar_technologies d))"

definition planned_task_valid :: "planned_task \<Rightarrow> bool" where
  "planned_task_valid t \<longleftrightarrow>
     matches_id ''TASK'' (pt_task_id t) \<and> requirement_ids_ok (pt_implements t) \<and>
     list_all (\<lambda>k. k \<in> {''tests'', ''lint'', ''typecheck'', ''build''}) (pt_verification t) \<and>
     pt_task_id t \<notin> set (pt_depends_on t) \<and> distinct (pt_depends_on t)"

record plan_document =
  pl_tasks :: "planned_task list"
  pl_milestones :: "(string \<times> string list) list"

definition plan_task_ids :: "plan_document \<Rightarrow> string list" where
  "plan_task_ids d = map pt_task_id (pl_tasks d)"

definition plan_referenced_ids :: "plan_document \<Rightarrow> string list" where
  "plan_referenced_ids d =
     concat (map (\<lambda>t. pt_depends_on t @ pt_implements t @ pt_components t) (pl_tasks d)) @
     concat (map snd (pl_milestones d))"

definition plan_valid :: "plan_document \<Rightarrow> bool" where
  "plan_valid d \<longleftrightarrow> list_all planned_task_valid (pl_tasks d) \<and> distinct (plan_task_ids d)"

definition plan_covered :: "plan_document \<Rightarrow> string list" where
  "plan_covered d = concat (map pt_implements (pl_tasks d))"

section \<open>The envelope\<close>

datatype artifact_kind =
    AK_PRD | AK_UX_SPEC | AK_SYSTEM_ARCHITECTURE | AK_DATA_FLOW | AK_API_CONTRACT | AK_DATA_MODEL
  | AK_THREAT_MODEL | AK_TECHNOLOGY_DECISIONS | AK_IMPLEMENTATION_PLAN | AK_ADR | AK_REVIEW

datatype artifact_status = AS_DRAFT | AS_REVIEW | AS_APPROVED | AS_SUPERSEDED | AS_REJECTED

definition status_terminal :: "artifact_status \<Rightarrow> bool" where
  "status_terminal s \<longleftrightarrow> s \<in> {AS_SUPERSEDED, AS_REJECTED}"

fun artifact_transitions :: "artifact_status \<Rightarrow> artifact_status list" where
  "artifact_transitions AS_DRAFT = [AS_REVIEW, AS_APPROVED, AS_REJECTED]"
| "artifact_transitions AS_REVIEW = [AS_APPROVED, AS_REJECTED, AS_DRAFT]"
| "artifact_transitions AS_APPROVED = [AS_SUPERSEDED, AS_REJECTED]"
| "artifact_transitions AS_SUPERSEDED = []"
| "artifact_transitions AS_REJECTED = []"

definition artifact_can_transition :: "artifact_status \<Rightarrow> artifact_status \<Rightarrow> bool" where
  "artifact_can_transition s t \<longleftrightarrow> t \<in> set (artifact_transitions s)"

datatype validation_state = VS_UNVALIDATED | VS_VALID | VS_INVALID

record validation_issue =
  vi_code :: string
  vi_element :: string
  vi_blocking :: bool

record validation_outcome =
  ao_state :: validation_state
  ao_issues :: "validation_issue list"

definition outcome_valid :: "validation_outcome \<Rightarrow> bool" where
  "outcome_valid v \<longleftrightarrow> ao_state v = VS_VALID"

definition blocking_issues :: "validation_outcome \<Rightarrow> validation_issue list" where
  "blocking_issues v = filter vi_blocking (ao_issues v)"

datatype product_document =
  Prd prd_document | Ux ux_document | Arch arch_document | Plan plan_document

fun document_kind :: "product_document \<Rightarrow> artifact_kind" where
  "document_kind (Prd d) = AK_PRD"
| "document_kind (Ux d) = AK_UX_SPEC"
| "document_kind (Arch d) = AK_SYSTEM_ARCHITECTURE"
| "document_kind (Plan d) = AK_IMPLEMENTATION_PLAN"

fun element_ids :: "product_document \<Rightarrow> string list" where
  "element_ids (Prd d) = prd_element_ids d"
| "element_ids (Ux d) = ux_element_ids d"
| "element_ids (Arch d) = arch_element_ids d"
| "element_ids (Plan d) = plan_task_ids d"

fun referenced_ids :: "product_document \<Rightarrow> string list" where
  "referenced_ids (Prd d) = prd_referenced_ids d"
| "referenced_ids (Ux d) = ux_referenced_ids d"
| "referenced_ids (Arch d) = arch_referenced_ids d"
| "referenced_ids (Plan d) = plan_referenced_ids d"

record artifact_ref =
  rf_id :: string
  rf_kind :: artifact_kind
  rf_version :: nat
  rf_title :: string

record artifact =
  af_id :: string
  af_kind :: artifact_kind
  af_version :: nat
  af_project :: string
  af_title :: string
  af_author :: string
  af_status :: artifact_status
  af_authority :: authority_level
  af_depends_on :: "artifact_ref list"
  af_sources :: "string list"
  af_body :: "product_document option"
  af_validation :: validation_outcome
  af_supersedes :: "string option"
  af_superseded_by :: "string option"
  af_created :: nat

definition elevated_authority :: "authority_level \<Rightarrow> bool" where
  "elevated_authority l \<longleftrightarrow> l \<in> {APPROVED_ARCHITECTURE_DECISION, USER_APPROVED_REQUIREMENT}"

definition artifact_valid :: "artifact \<Rightarrow> bool" where
  "artifact_valid a \<longleftrightarrow>
     (af_status a = AS_APPROVED \<longrightarrow> outcome_valid (af_validation a)) \<and>
     (elevated_authority (af_authority a) \<longrightarrow> af_status a = AS_APPROVED)"

definition artifact_ref_of :: "artifact \<Rightarrow> artifact_ref" where
  "artifact_ref_of a = \<lparr>rf_id = af_id a, rf_kind = af_kind a, rf_version = af_version a, rf_title = af_title a\<rparr>"

definition ref_matches :: "artifact_ref \<Rightarrow> artifact \<Rightarrow> bool" where
  "ref_matches r a \<longleftrightarrow> rf_id r = af_id a \<and> rf_version r = af_version a"

definition artifact_is_current :: "artifact \<Rightarrow> bool" where
  "artifact_is_current a \<longleftrightarrow> af_status a \<in> {AS_DRAFT, AS_REVIEW, AS_APPROVED}"

datatype artifact_error =
  NoSchema artifact_kind | BodyInvalid artifact_kind | IllegalArtifactTransition artifact_status artifact_status
| InvalidArtifact | WrongDocument

definition has_schema :: "artifact_kind \<Rightarrow> bool" where
  "has_schema k \<longleftrightarrow> k \<in> {AK_PRD, AK_UX_SPEC, AK_SYSTEM_ARCHITECTURE, AK_IMPLEMENTATION_PLAN}"

definition artifact_document :: "artifact \<Rightarrow> (artifact_error, product_document) res" where
  "artifact_document a =
     (if \<not> has_schema (af_kind a) then Inl (NoSchema (af_kind a))
      else (case af_body a of
              Some d \<Rightarrow> if document_kind d = af_kind a then Inr d else Inl (BodyInvalid (af_kind a))
            | None \<Rightarrow> Inl (BodyInvalid (af_kind a))))"

text \<open>\<open>model_copy\<close> runs no validator.\<close>

definition artifact_transition_to :: "artifact_status \<Rightarrow> artifact \<Rightarrow> (artifact_error, artifact) res" where
  "artifact_transition_to t a =
     (if artifact_can_transition (af_status a) t then Inr (a\<lparr>af_status := t\<rparr>)
      else Inl (IllegalArtifactTransition (af_status a) t))"

definition unvalidated :: validation_outcome where
  "unvalidated = \<lparr>ao_state = VS_UNVALIDATED, ao_issues = []\<rparr>"

definition revise_artifact ::
    "nat \<Rightarrow> product_document option \<Rightarrow> string \<Rightarrow> string option \<Rightarrow> string list \<Rightarrow> artifact \<Rightarrow> artifact" where
  "revise_artifact now body author title sources a =
     \<lparr>af_id = af_id a, af_kind = af_kind a, af_version = af_version a + 1, af_project = af_project a,
      af_title = (case title of None \<Rightarrow> af_title a | Some t \<Rightarrow> if t = [] then af_title a else t), af_author = author,
      af_status = AS_DRAFT, af_authority = AGENT_RECOMMENDATION, af_depends_on = af_depends_on a,
      af_sources = (if sources = [] then af_sources a else sources), af_body = body, af_validation = unvalidated,
      af_supersedes = Some (af_id a @ ''@'' @ show_nat (af_version a)), af_superseded_by = None, af_created = now\<rparr>"

definition build_artifact ::
    "nat \<Rightarrow> string \<Rightarrow> artifact_kind \<Rightarrow> string \<Rightarrow> string \<Rightarrow> string \<Rightarrow> product_document \<Rightarrow> artifact_ref list \<Rightarrow> string list \<Rightarrow>
     (artifact_error, artifact) res" where
  "build_artifact now fresh k project title author d deps sources =
     (if has_schema k \<and> document_kind d \<noteq> k then Inl WrongDocument
      else Inr \<lparr>af_id = fresh, af_kind = k, af_version = 1, af_project = project, af_title = title, af_author = author,
        af_status = AS_DRAFT, af_authority = AGENT_RECOMMENDATION, af_depends_on = deps, af_sources = sources,
        af_body = Some d, af_validation = unvalidated, af_supersedes = None, af_superseded_by = None, af_created = now\<rparr>)"

end
