(* ===== verification/Product_Store.thy ===== *)
theory Product_Store
  imports Product_Artifacts
begin

text \<open>
  Durable versions of artifacts (\<open>edith/product/store.py\<close>): the table \<open>artifacts\<close> as a list of
  rows in insertion order, one row per version, and the operations on it. A row keeps the
  columns a query reads beside the artifact the payload holds; a payload is decoded through the
  validators of the artifact, so one they refuse raises. Every statement commits on its own: an
  operation that raises half-way keeps what it wrote.
\<close>

record artifact_row =
  rw_id :: string
  rw_version :: nat
  rw_project :: string
  rw_kind :: artifact_kind
  rw_status :: artifact_status
  rw_created :: nat
  rw_payload :: artifact

type_synonym artifact_table = "artifact_row list"

datatype store_error =
    Undecodable
  | VersionExists string nat
  | MoveRefused artifact_error
  | NotValid string
  | NotApprovable artifact_status
  | NoArtifact string

section \<open>Reading\<close>

definition decode_artifact :: "artifact_row \<Rightarrow> (store_error, artifact) res" where
  "decode_artifact r = (if artifact_valid (rw_payload r) then Inr (rw_payload r) else Inl Undecodable)"

fun decode_all :: "artifact_row list \<Rightarrow> (store_error, artifact list) res" where
  "decode_all [] = Inr []"
| "decode_all (r # rs) = res_bind (decode_artifact r) (\<lambda>a. res_bind (decode_all rs) (\<lambda>as. Inr (a # as)))"

definition id_rows :: "artifact_table \<Rightarrow> string \<Rightarrow> artifact_row list" where
  "id_rows s i = sort_key rw_version (filter (\<lambda>r. rw_id r = i) s)"

definition get_artifact :: "artifact_table \<Rightarrow> string \<Rightarrow> nat option \<Rightarrow> (store_error, artifact option) res" where
  "get_artifact s i v =
     (case (case v of
              None \<Rightarrow> (case rev (id_rows s i) of [] \<Rightarrow> None | r # _ \<Rightarrow> Some r)
            | Some n \<Rightarrow> find (\<lambda>r. rw_id r = i \<and> rw_version r = n) s) of
        None \<Rightarrow> Inr None
      | Some r \<Rightarrow> res_bind (decode_artifact r) (\<lambda>a. Inr (Some a)))"

definition artifact_versions :: "artifact_table \<Rightarrow> string \<Rightarrow> (store_error, artifact list) res" where
  "artifact_versions s i = decode_all (id_rows s i)"

definition artifact_history :: "artifact_table \<Rightarrow> string \<Rightarrow> (store_error, artifact list) res" where
  "artifact_history s i = res_bind (artifact_versions s i) (\<lambda>as. Inr (rev as))"

text \<open>Rows that tie in the order of a query come as they were inserted.\<close>

definition artifacts_by_kind ::
    "artifact_table \<Rightarrow> string \<Rightarrow> artifact_kind \<Rightarrow> artifact_status option \<Rightarrow> (store_error, artifact list) res" where
  "artifacts_by_kind s p k st =
     decode_all (sort_key (\<lambda>r. (rw_created r, rw_version r))
       (filter (\<lambda>r. rw_project r = p \<and> rw_kind r = k \<and> (case st of None \<Rightarrow> True | Some t \<Rightarrow> rw_status r = t)) s))"

definition latest_artifact ::
    "artifact_table \<Rightarrow> string \<Rightarrow> artifact_kind \<Rightarrow> artifact_status option \<Rightarrow> (store_error, artifact option) res" where
  "latest_artifact s p k st =
     res_bind (artifacts_by_kind s p k st) (\<lambda>as. Inr (if as = [] then None else Some (last as)))"

fun str_kind :: "artifact_kind \<Rightarrow> string" where
  "str_kind AK_PRD = ''PRD''"
| "str_kind AK_UX_SPEC = ''UX_SPEC''"
| "str_kind AK_SYSTEM_ARCHITECTURE = ''SYSTEM_ARCHITECTURE''"
| "str_kind AK_DATA_FLOW = ''DATA_FLOW''"
| "str_kind AK_API_CONTRACT = ''API_CONTRACT''"
| "str_kind AK_DATA_MODEL = ''DATA_MODEL''"
| "str_kind AK_THREAT_MODEL = ''THREAT_MODEL''"
| "str_kind AK_TECHNOLOGY_DECISIONS = ''TECHNOLOGY_DECISIONS''"
| "str_kind AK_IMPLEMENTATION_PLAN = ''IMPLEMENTATION_PLAN''"
| "str_kind AK_ADR = ''ADR''"
| "str_kind AK_REVIEW = ''REVIEW''"

definition current_artifacts :: "artifact_table \<Rightarrow> string \<Rightarrow> (store_error, artifact list) res" where
  "current_artifacts s p =
     decode_all (sort_key (\<lambda>r. (str_kind (rw_kind r), rw_created r, rw_version r))
       (filter (\<lambda>r. rw_project r = p \<and> rw_status r \<in> {AS_DRAFT, AS_REVIEW, AS_APPROVED}) s))"

definition count_artifacts :: "artifact_table \<Rightarrow> string option \<Rightarrow> nat" where
  "count_artifacts s p =
     (case p of None \<Rightarrow> length s | Some q \<Rightarrow> length (filter (\<lambda>r. rw_project r = q) s))"

definition artifact_projects :: "artifact_table \<Rightarrow> string list" where
  "artifact_projects s = sorted_set (map rw_project s)"

definition next_version :: "artifact_table \<Rightarrow> string \<Rightarrow> nat" where
  "next_version s i = fold (\<lambda>r m. max (rw_version r + 1) m) (filter (\<lambda>r. rw_id r = i) s) 1"

section \<open>Writing\<close>

definition version_row :: "artifact \<Rightarrow> artifact_row" where
  "version_row a = \<lparr>rw_id = af_id a, rw_version = af_version a, rw_project = af_project a, rw_kind = af_kind a,
     rw_status = af_status a, rw_created = af_created a, rw_payload = a\<rparr>"

definition save_artifact :: "artifact \<Rightarrow> artifact_table \<Rightarrow> (store_error, artifact) res \<times> artifact_table" where
  "save_artifact a s =
     (case get_artifact s (af_id a) (Some (af_version a)) of
        Inl e \<Rightarrow> (Inl e, s)
      | Inr (Some _) \<Rightarrow> (Inl (VersionExists (af_id a) (af_version a)), s)
      | Inr None \<Rightarrow> (Inr a, s @ [version_row a]))"

definition write_status :: "artifact \<Rightarrow> artifact_table \<Rightarrow> artifact_table" where
  "write_status a s =
     map (\<lambda>r. if rw_id r = af_id a \<and> rw_version r = af_version a
              then r\<lparr>rw_status := af_status a, rw_payload := a\<rparr> else r) s"

definition record_validation :: "artifact \<Rightarrow> artifact_table \<Rightarrow> artifact \<times> artifact_table" where
  "record_validation a s = (a, write_status a s)"

definition retired :: "artifact \<Rightarrow> artifact \<Rightarrow> artifact" where
  "retired u p = p\<lparr>af_status := AS_SUPERSEDED, af_superseded_by := Some (af_id u @ ''@'' @ show_nat (af_version u))\<rparr>"

definition retire_previous :: "artifact \<Rightarrow> artifact list \<Rightarrow> artifact_table \<Rightarrow> artifact_table" where
  "retire_previous u vs s =
     fold (\<lambda>p s. if af_version p \<noteq> af_version u \<and> af_status p = AS_APPROVED then write_status (retired u p) s else s) vs s"

definition set_status ::
    "artifact \<Rightarrow> artifact_status \<Rightarrow> artifact_table \<Rightarrow> (store_error, artifact) res \<times> artifact_table" where
  "set_status a t s =
     (case artifact_transition_to t a of
        Inl e \<Rightarrow> (Inl (MoveRefused e), s)
      | Inr u \<Rightarrow>
          (let s1 = write_status u s in
           if t = AS_APPROVED then
             (case artifact_versions s1 (af_id a) of
                Inl e \<Rightarrow> (Inl e, s1)
              | Inr vs \<Rightarrow> (Inr u, retire_previous u vs s1))
           else (Inr u, s1)))"

definition approve :: "artifact \<Rightarrow> artifact_table \<Rightarrow> (store_error, artifact) res \<times> artifact_table" where
  "approve a s =
     (if \<not> outcome_valid (af_validation a) then (Inl (NotValid (af_id a)), s)
      else if \<not> artifact_can_transition (af_status a) AS_APPROVED then (Inl (NotApprovable (af_status a)), s)
      else set_status a AS_APPROVED s)"

text \<open>\<open>ProductService.approve_artifact\<close> approves what the store holds.\<close>

definition approve_stored ::
    "string \<Rightarrow> nat option \<Rightarrow> artifact_table \<Rightarrow> (store_error, artifact) res \<times> artifact_table" where
  "approve_stored i v s =
     (case get_artifact s i v of
        Inl e \<Rightarrow> (Inl e, s)
      | Inr None \<Rightarrow> (Inl (NoArtifact i), s)
      | Inr (Some a) \<Rightarrow> approve a s)"

definition purge_artifacts :: "string \<Rightarrow> artifact_table \<Rightarrow> nat \<times> artifact_table" where
  "purge_artifacts p s = (length (filter (\<lambda>r. rw_project r = p) s), filter (\<lambda>r. rw_project r \<noteq> p) s)"

section \<open>The table\<close>

definition row_key :: "artifact_row \<Rightarrow> string \<times> nat" where
  "row_key r = (rw_id r, rw_version r)"

text \<open>A row agrees with its payload, the payload decodes, and no authority was raised in it.\<close>

definition version_row_ok :: "artifact_row \<Rightarrow> bool" where
  "version_row_ok r \<longleftrightarrow> r = version_row (rw_payload r) \<and> artifact_valid (rw_payload r) \<and>
     \<not> elevated_authority (af_authority (rw_payload r))"

definition table_ok :: "artifact_table \<Rightarrow> bool" where
  "table_ok s \<longleftrightarrow> distinct (map row_key s) \<and> (\<forall>r \<in> set s. version_row_ok r)"

definition approved_rows :: "artifact_table \<Rightarrow> string \<Rightarrow> artifact_row list" where
  "approved_rows s i = filter (\<lambda>r. rw_id r = i \<and> rw_status r = AS_APPROVED) s"

lemma decode_all_ok: "(\<forall>r \<in> set rs. version_row_ok r) \<Longrightarrow> decode_all rs = Inr (map rw_payload rs)"
  by (induction rs) (simp_all add: decode_artifact_def version_row_ok_def)

lemma set_id_rows [simp]: "set (id_rows s i) = {r \<in> set s. rw_id r = i}"
  by (auto simp: id_rows_def)

lemma version_row_fields [simp]:
  "rw_id (version_row a) = af_id a" "rw_version (version_row a) = af_version a" "rw_status (version_row a) = af_status a"
  "rw_payload (version_row a) = a" "rw_project (version_row a) = af_project a" "rw_kind (version_row a) = af_kind a"
  by (simp_all add: version_row_def)

lemma map_key_write [simp]: "map row_key (write_status a s) = map row_key s"
  by (auto simp: write_status_def row_key_def)

lemma get_artifact_stored:
  assumes "table_ok s" "get_artifact s i v = Inr (Some a)"
  shows "version_row a \<in> set s" "af_id a = i" "artifact_valid a" "\<not> elevated_authority (af_authority a)"
proof -
  obtain r where r: "decode_artifact r = Inr a" "r \<in> set s" "rw_id r = i"
  proof (cases v)
    case None
    then obtain r rs where "rev (id_rows s i) = r # rs" "decode_artifact r = Inr a"
      using assms(2) by (auto simp: get_artifact_def res_simps split: list.splits)
    then have "r \<in> set (id_rows s i)" by (metis list.set_intros(1) set_rev)
    with that \<open>decode_artifact r = Inr a\<close> show ?thesis by simp
  next
    case (Some n)
    then obtain r where "find (\<lambda>r. rw_id r = i \<and> rw_version r = n) s = Some r" "decode_artifact r = Inr a"
      using assms(2) by (auto simp: get_artifact_def res_simps split: option.splits)
    with that show ?thesis by (auto simp: find_Some_iff)
  qed
  have "version_row_ok r" using assms(1) r by (simp add: table_ok_def)
  then have "r = version_row (rw_payload r)" "artifact_valid (rw_payload r)" "\<not> elevated_authority (af_authority (rw_payload r))"
    by (simp_all add: version_row_ok_def)
  moreover have "rw_payload r = a" using r(1) by (auto simp: decode_artifact_def split: if_splits)
  ultimately show "version_row a \<in> set s" "af_id a = i" "artifact_valid a" "\<not> elevated_authority (af_authority a)"
    using r by auto
qed

text \<open>Writing a list of artifacts with distinct keys touches each row once.\<close>

definition put_row :: "(artifact \<Rightarrow> bool) \<Rightarrow> (artifact \<Rightarrow> artifact) \<Rightarrow> artifact \<Rightarrow> artifact_row \<Rightarrow> artifact_row" where
  "put_row P f p r =
     (if P p \<and> rw_id r = af_id p \<and> rw_version r = af_version p
      then r\<lparr>rw_status := af_status (f p), rw_payload := f p\<rparr> else r)"

definition artifact_key :: "artifact \<Rightarrow> string \<times> nat" where
  "artifact_key a = (af_id a, af_version a)"

lemma put_row_key [simp]: "row_key (put_row P f p r) = row_key r"
  by (simp add: put_row_def row_key_def)

lemma put_row_miss: "artifact_key p \<noteq> row_key r \<Longrightarrow> put_row P f p r = r"
  by (auto simp: put_row_def row_key_def artifact_key_def)

lemma put_rows_other:
  "row_key r \<notin> artifact_key ` set vs \<Longrightarrow> fold (put_row P f) vs r = r"
  by (induction vs) (auto simp: put_row_miss)

lemma put_rows_own:
  assumes "distinct (map artifact_key vs)" "p \<in> set vs" "artifact_key p = row_key r"
  shows "fold (put_row P f) vs r = put_row P f p r"
  using assms
proof (induction vs arbitrary: r)
  case (Cons q vs)
  show ?case
  proof (cases "q = p")
    case True
    have "fold (put_row P f) vs (put_row P f p r) = put_row P f p r"
      using Cons.prems True by (intro put_rows_other) simp
    then show ?thesis using True by simp
  next
    case False
    then have p: "p \<in> set vs" using Cons.prems by simp
    have "artifact_key q \<noteq> artifact_key p" using Cons.prems(1) p by (metis distinct.simps(2) image_eqI list.set_map list.simps(9))
    then have "put_row P f q r = r" using Cons.prems(3) by (simp add: put_row_miss)
    then show ?thesis using Cons p by simp
  qed
qed simp

definition retire_row :: "artifact \<Rightarrow> artifact_row \<Rightarrow> artifact_row" where
  "retire_row u r =
     (if rw_id r = af_id u \<and> rw_version r \<noteq> af_version u \<and> rw_status r = AS_APPROVED
      then version_row (retired u (rw_payload r)) else r)"

lemma retire_previous_rows:
  assumes "table_ok s"
  shows "retire_previous u (map rw_payload (id_rows s (af_id u))) s = map (retire_row u) s"
proof -
  let ?P = "\<lambda>p. af_version p \<noteq> af_version u \<and> af_status p = AS_APPROVED"
  let ?vs = "map rw_payload (id_rows s (af_id u))"
  have step: "(if ?P p then write_status (retired u p) t else t) = map (put_row ?P (retired u) p) t" for p t
    by (auto simp: write_status_def put_row_def retired_def map_idI)
  have "fold (\<lambda>p t. if ?P p then write_status (retired u p) t else t) vs t = map (fold (put_row ?P (retired u)) vs) t" for vs t
    by (induction vs arbitrary: t) (simp_all add: step comp_def)
  then have all: "retire_previous u ?vs s = map (fold (put_row ?P (retired u)) ?vs) s" by (simp add: retire_previous_def)
  have key: "artifact_key (rw_payload r) = row_key r" if "r \<in> set s" for r
    using assms that by (metis artifact_key_def row_key_def version_row_fields(1,2) version_row_ok_def table_ok_def)
  then have "map artifact_key ?vs = map row_key (id_rows s (af_id u))" by simp
  moreover have "distinct (map row_key (id_rows s (af_id u)))"
    using assms by (auto simp: table_ok_def id_rows_def distinct_map intro: inj_on_subset)
  ultimately have d: "distinct (map artifact_key ?vs)" by metis
  have "fold (put_row ?P (retired u)) ?vs r = retire_row u r" if r: "r \<in> set s" for r
  proof (cases "rw_id r = af_id u")
    case True
    have same: "version_row (rw_payload r) = r" using assms r by (simp add: table_ok_def version_row_ok_def)
    have "rw_payload r \<in> set ?vs" using r True by simp
    from put_rows_own [OF d this key [OF r]] show ?thesis
      using same True by (cases r) (auto simp: put_row_def retire_row_def retired_def version_row_def)
  next
    case False
    then have "row_key r \<notin> artifact_key ` set ?vs" using key by (auto simp: row_key_def)
    then have "fold (put_row ?P (retired u)) ?vs r = r" by (rule put_rows_other)
    then show ?thesis using False by (simp add: retire_row_def)
  qed
  then show ?thesis unfolding all by simp
qed

lemma write_status_row:
  "version_row a \<in> set s \<Longrightarrow> table_ok s \<Longrightarrow> af_id u = af_id a \<Longrightarrow> af_version u = af_version a \<Longrightarrow>
     af_project u = af_project a \<Longrightarrow> af_kind u = af_kind a \<Longrightarrow> af_created u = af_created a \<Longrightarrow>
     write_status u s = map (\<lambda>r. if r = version_row a then version_row u else r) s"
proof (unfold write_status_def, rule map_cong [OF refl])
  fix r assume h: "version_row a \<in> set s" "table_ok s" "af_id u = af_id a" "af_version u = af_version a"
    "af_project u = af_project a" "af_kind u = af_kind a" "af_created u = af_created a" and r: "r \<in> set s"
  have "rw_id r = af_id a \<and> rw_version r = af_version a \<longleftrightarrow> r = version_row a"
  proof
    assume "rw_id r = af_id a \<and> rw_version r = af_version a"
    then have "row_key r = row_key (version_row a)" by (simp add: row_key_def)
    then show "r = version_row a" using h(1,2) r by (auto simp: table_ok_def distinct_map dest: inj_onD)
  qed simp
  then show "(if rw_id r = af_id u \<and> rw_version r = af_version u
      then r\<lparr>rw_status := af_status u, rw_payload := u\<rparr> else r) = (if r = version_row a then version_row u else r)"
    using h by (auto simp: version_row_def)
qed

lemma table_ok_map:
  assumes "table_ok s" "\<And>r. r \<in> set s \<Longrightarrow> row_key (g r) = row_key r" "\<And>r. r \<in> set s \<Longrightarrow> version_row_ok (g r)"
  shows "table_ok (map g s)"
proof -
  have "map row_key (map g s) = map row_key s" using assms(2) by simp
  moreover have "distinct (map row_key s)" using assms(1) by (simp add: table_ok_def)
  ultimately have "distinct (map row_key (map g s))" by metis
  then show ?thesis using assms(3) by (simp add: table_ok_def)
qed

lemma row_unique:
  assumes "table_ok s" "r \<in> set s" "version_row a \<in> set s" "rw_id r = af_id a" "rw_version r = af_version a"
  shows "r = version_row a"
proof -
  have "inj_on row_key (set s)" using assms(1) by (simp add: table_ok_def distinct_map)
  moreover have "row_key r = row_key (version_row a)" using assms(4,5) by (simp add: row_key_def)
  ultimately show ?thesis using assms(2,3) by (simp add: inj_onD)
qed

lemma version_row_ok_iff: "version_row_ok (version_row a) \<longleftrightarrow> artifact_valid a \<and> \<not> elevated_authority (af_authority a)"
  by (simp add: version_row_ok_def)

lemma version_row_ok_retire: "version_row_ok r \<Longrightarrow> version_row_ok (retire_row u r)"
  by (auto simp: retire_row_def version_row_ok_iff) (auto simp: version_row_ok_def retired_def artifact_valid_def)

lemma row_key_retire: "version_row_ok r \<Longrightarrow> row_key (retire_row u r) = row_key r"
proof -
  assume "version_row_ok r"
  then have "row_key r = artifact_key (rw_payload r)" by (metis artifact_key_def row_key_def version_row_fields(1,2) version_row_ok_def)
  then show ?thesis by (auto simp: retire_row_def row_key_def retired_def artifact_key_def)
qed

text \<open>What approval does to a row.\<close>

definition approved_copy :: "artifact \<Rightarrow> artifact" where
  "approved_copy a = a\<lparr>af_status := AS_APPROVED\<rparr>"

definition approve_row :: "artifact \<Rightarrow> artifact_row \<Rightarrow> artifact_row" where
  "approve_row a r = (if r = version_row a then version_row (approved_copy a) else retire_row (approved_copy a) r)"

lemma approved_copy_fields [simp]:
  "af_id (approved_copy a) = af_id a" "af_version (approved_copy a) = af_version a"
  "af_status (approved_copy a) = AS_APPROVED" "af_body (approved_copy a) = af_body a"
  by (simp_all add: approved_copy_def)

lemma approve_stored_succeeds:
  assumes s: "table_ok s" and a: "get_artifact s i v = Inr (Some a)"
    and v: "outcome_valid (af_validation a)" and t: "artifact_can_transition (af_status a) AS_APPROVED"
  shows "approve_stored i v s = (Inr (approved_copy a), map (approve_row a) s)" "table_ok (map (approve_row a) s)"
proof -
  note g = get_artifact_stored [OF s a]
  let ?u = "approved_copy a"
  let ?g = "\<lambda>r. if r = version_row a then version_row ?u else r"
  have u: "artifact_valid ?u" "\<not> elevated_authority (af_authority ?u)"
    using g(3,4) v by (simp_all add: artifact_valid_def approved_copy_def)
  have w: "write_status ?u s = map ?g s" by (rule write_status_row [OF g(1) s]) (simp_all add: approved_copy_def)
  have ok1: "table_ok (map ?g s)"
    using s u by (intro table_ok_map) (auto simp: row_key_def version_row_ok_iff table_ok_def)
  then have "artifact_versions (map ?g s) (af_id ?u) = Inr (map rw_payload (id_rows (map ?g s) (af_id ?u)))"
    unfolding artifact_versions_def by (intro decode_all_ok) (auto simp: table_ok_def)
  then have "set_status a AS_APPROVED s = (Inr ?u, map (retire_row ?u) (map ?g s))"
    using t w retire_previous_rows [OF ok1, of ?u]
    by (simp add: set_status_def artifact_transition_to_def approved_copy_def [symmetric])
  moreover have "map (retire_row ?u) (map ?g s) = map (approve_row a) s"
    by (auto simp: approve_row_def retire_row_def)
  ultimately show "approve_stored i v s = (Inr ?u, map (approve_row a) s)"
    using a v t by (simp add: approve_stored_def approve_def)
  show "table_ok (map (approve_row a) s)"
  proof (rule table_ok_map [OF s])
    fix r assume "r \<in> set s"
    then have r: "version_row_ok r" using s by (simp add: table_ok_def)
    then show "version_row_ok (approve_row a r)" using u by (simp add: approve_row_def version_row_ok_iff version_row_ok_retire)
    show "row_key (approve_row a r) = row_key r"
      using r by (simp add: approve_row_def row_key_retire) (simp add: row_key_def)
  qed
qed

lemma approve_stored_refused:
  assumes "get_artifact s i v = Inr (Some a)"
    "\<not> outcome_valid (af_validation a) \<or> \<not> artifact_can_transition (af_status a) AS_APPROVED"
  shows "\<not> is_ok (fst (approve_stored i v s))" "snd (approve_stored i v s) = s"
  using assms by (auto simp: approve_stored_def approve_def)

lemma approve_row_body: "version_row_ok r \<Longrightarrow> af_body (rw_payload (approve_row a r)) = af_body (rw_payload r)"
  by (auto simp: approve_row_def retire_row_def retired_def)

lemma distinct_filter_single: "distinct xs \<Longrightarrow> x \<in> set xs \<Longrightarrow> filter (\<lambda>y. y = x) xs = [x]"
  by (induction xs) (auto simp: filter_empty_conv)

lemma approved_after:
  assumes s: "table_ok s" and a: "version_row a \<in> set s"
  shows "approved_rows (map (approve_row a) s) (af_id a) = [version_row (approved_copy a)]"
    "i \<noteq> af_id a \<Longrightarrow> approved_rows (map (approve_row a) s) i = approved_rows s i"
proof -
  have key: "r = version_row a" if "r \<in> set s" "rw_id r = af_id a" "rw_version r = af_version a" for r
    using row_unique [OF s _ a] that by blast
  have img: "rw_id (approve_row a r) = rw_id r" if "r \<in> set s" for r
    using s that row_key_retire [of r "approved_copy a"] by (auto simp: approve_row_def table_ok_def row_key_def)
  have only: "rw_id (approve_row a r) = af_id a \<and> rw_status (approve_row a r) = AS_APPROVED \<longleftrightarrow> r = version_row a"
    if r: "r \<in> set s" for r
  proof (cases "r = version_row a")
    case False
    then have "rw_id r \<noteq> af_id a \<or> rw_version r \<noteq> af_version a" using key [OF r] by blast
    then show ?thesis using False img [OF r] by (auto simp: approve_row_def retire_row_def retired_def)
  qed (simp add: approve_row_def)
  have "distinct s" using s by (simp add: table_ok_def distinct_map)
  then have "filter (\<lambda>r. r = version_row a) s = [version_row a]"
    using a by (rule distinct_filter_single)
  moreover have "filter (\<lambda>r. rw_id (approve_row a r) = af_id a \<and> rw_status (approve_row a r) = AS_APPROVED) s
      = filter (\<lambda>r. r = version_row a) s"
    using only by (intro filter_cong) auto
  ultimately show "approved_rows (map (approve_row a) s) (af_id a) = [version_row (approved_copy a)]"
    by (simp add: approved_rows_def filter_map comp_def) (simp add: approve_row_def)
  assume i: "i \<noteq> af_id a"
  have same: "approve_row a r = r" if "r \<in> set s" "rw_id r = i" for r
    using that i by (auto simp: approve_row_def retire_row_def)
  have "filter (\<lambda>r. rw_id (approve_row a r) = i \<and> rw_status (approve_row a r) = AS_APPROVED) s = approved_rows s i"
    unfolding approved_rows_def using same img by (intro filter_cong) auto
  moreover have "map (approve_row a) (approved_rows s i) = approved_rows s i"
    using same by (intro map_idI) (simp add: approved_rows_def)
  ultimately show "approved_rows (map (approve_row a) s) i = approved_rows s i"
    by (simp add: approved_rows_def filter_map comp_def)
qed

text \<open>C15. Approving a stored version, in a table whose rows agree with what they hold. It succeeds
  exactly for a valid draft or reviewed version and otherwise changes nothing. On success the
  approved version is the only one of its artifact, each earlier approved one is superseded and
  names it, every other row is as it was, and no version loses its document.
\<close>

theorem approval_exact:
  assumes "table_ok s" "get_artifact s i v = Inr (Some a)" "approve_stored i v s = (res, s')"
  shows "(is_ok res \<longleftrightarrow> outcome_valid (af_validation a) \<and> af_status a \<in> {AS_DRAFT, AS_REVIEW}) \<and>
    (\<not> is_ok res \<longrightarrow> s' = s) \<and> table_ok s' \<and>
    map (\<lambda>r. (row_key r, af_body (rw_payload r))) s' = map (\<lambda>r. (row_key r, af_body (rw_payload r))) s \<and>
    (is_ok res \<longrightarrow> approved_rows s' i = [version_row (approved_copy a)] \<and>
       (\<forall>r \<in> set s. rw_id r = i \<and> rw_status r = AS_APPROVED \<longrightarrow> version_row (retired a (rw_payload r)) \<in> set s') \<and>
       (\<forall>r \<in> set s. rw_id r = i \<and> rw_status r \<noteq> AS_APPROVED \<and> r \<noteq> version_row a \<or> rw_id r \<noteq> i \<longrightarrow> r \<in> set s'))"
proof -
  have can: "artifact_can_transition (af_status a) AS_APPROVED \<longleftrightarrow> af_status a \<in> {AS_DRAFT, AS_REVIEW}"
    by (cases "af_status a") (simp_all add: artifact_can_transition_def)
  note g = get_artifact_stored [OF assms(1,2)]
  show ?thesis
  proof (cases "outcome_valid (af_validation a) \<and> artifact_can_transition (af_status a) AS_APPROVED")
    case True
    note succ = approve_stored_succeeds [OF assms(1,2)]
    have s': "res = Inr (approved_copy a)" "s' = map (approve_row a) s" "table_ok s'"
      using succ assms(3) True by auto
    have rows: "version_row_ok r" "row_key (approve_row a r) = row_key r" if "r \<in> set s" for r
      using assms(1) that by (auto simp: table_ok_def approve_row_def row_key_retire) (simp add: row_key_def)
    have retire: "version_row (retired a (rw_payload r)) \<in> set s'"
      if r: "r \<in> set s" "rw_id r = i" "rw_status r = AS_APPROVED" for r
    proof -
      have "r \<noteq> version_row a" using r True can by auto
      then have "rw_version r \<noteq> af_version a"
        using row_unique [OF assms(1) r(1) g(1)] r(2) g(2) by auto
      then have "approve_row a r = version_row (retired a (rw_payload r))"
        using r g(2) \<open>r \<noteq> version_row a\<close> by (simp add: approve_row_def retire_row_def retired_def)
      then show ?thesis using r s' by (metis image_eqI list.set_map)
    qed
    have keep: "r \<in> set s'"
      if r: "r \<in> set s" "rw_id r = i \<and> rw_status r \<noteq> AS_APPROVED \<and> r \<noteq> version_row a \<or> rw_id r \<noteq> i" for r
    proof -
      have "approve_row a r = r" using r(2) g(2) by (auto simp: approve_row_def retire_row_def)
      then show ?thesis using r s' by (metis image_eqI list.set_map)
    qed
    show ?thesis
      using True can s' retire keep approved_after(1) [OF assms(1) g(1)] g(2) rows approve_row_body by auto
  next
    case False
    then have "\<not> is_ok res" "s' = s" using approve_stored_refused [OF assms(2)] assms(3) by auto
    then show ?thesis using False can assms(1) by simp
  qed
qed

section \<open>Histories\<close>

text \<open>The steps of a table: a fresh draft or a revision is saved, a stored version is approved, or
  moved to a status other than approval, or a new validation of an unapproved one is recorded, or
  a project is purged.\<close>

inductive table_step :: "artifact_table \<Rightarrow> artifact_table \<Rightarrow> bool" where
  save: "af_status a = AS_DRAFT \<Longrightarrow> \<not> elevated_authority (af_authority a) \<Longrightarrow>
    save_artifact a s = (res, s') \<Longrightarrow> table_step s s'"
| approve: "approve_stored i v s = (res, s') \<Longrightarrow> table_step s s'"
| move: "get_artifact s i v = Inr (Some a) \<Longrightarrow> t \<noteq> AS_APPROVED \<Longrightarrow> set_status a t s = (res, s') \<Longrightarrow> table_step s s'"
| validate: "get_artifact s i v = Inr (Some a) \<Longrightarrow> af_status a \<noteq> AS_APPROVED \<Longrightarrow>
    record_validation (a\<lparr>af_validation := w\<rparr>) s = (b, s') \<Longrightarrow> table_step s s'"
| purge: "purge_artifacts p s = (n, s') \<Longrightarrow> table_step s s'"

definition single_approved :: "artifact_table \<Rightarrow> bool" where
  "single_approved s \<longleftrightarrow> (\<forall>i. length (approved_rows s i) \<le> 1)"

lemma save_artifact_table:
  assumes "table_ok s" "af_status a = AS_DRAFT" "\<not> elevated_authority (af_authority a)"
    "save_artifact a s = (res, s')"
  shows "s' = s \<or> s' = s @ [version_row a] \<and> table_ok s'"
proof (cases "find (\<lambda>r. rw_id r = af_id a \<and> rw_version r = af_version a) s")
  case None
  then have "row_key (version_row a) \<notin> row_key ` set s" by (auto simp: find_None_iff row_key_def)
  then have "table_ok (s @ [version_row a])"
    using assms(1-3) by (simp add: table_ok_def version_row_ok_iff artifact_valid_def)
  then show ?thesis using assms(4) None by (simp add: save_artifact_def get_artifact_def)
next
  case (Some r)
  then show ?thesis
    using assms(4) by (auto simp: save_artifact_def get_artifact_def decode_artifact_def split: if_splits)
qed

text \<open>Rewriting a stored version that stays unapproved.\<close>

lemma rewrite_unapproved:
  assumes "table_ok s" "version_row a \<in> set s" "af_id u = af_id a" "af_version u = af_version a"
    "af_project u = af_project a" "af_kind u = af_kind a" "af_created u = af_created a"
    "af_authority u = af_authority a" "af_status u \<noteq> AS_APPROVED"
  shows "table_ok (write_status u s)" "length (approved_rows (write_status u s) i) \<le> length (approved_rows s i)"
proof -
  let ?g = "\<lambda>r. if r = version_row a then version_row u else r"
  have w: "write_status u s = map ?g s" using assms by (intro write_status_row) auto
  have "\<not> elevated_authority (af_authority a)" using assms(1,2) by (auto simp: table_ok_def version_row_ok_iff)
  then have "version_row_ok (version_row u)" using assms(8,9) by (simp add: version_row_ok_iff artifact_valid_def)
  then show "table_ok (write_status u s)"
    unfolding w using assms(1,3,4) by (intro table_ok_map) (auto simp: row_key_def table_ok_def)
  have "length (filter (\<lambda>r. rw_id (?g r) = i \<and> rw_status (?g r) = AS_APPROVED) s)
      \<le> length (filter (\<lambda>r. rw_id r = i \<and> rw_status r = AS_APPROVED) s)" for s
    by (induction s) (use assms(9) in auto)
  then show "length (approved_rows (write_status u s) i) \<le> length (approved_rows s i)"
    unfolding w by (simp add: approved_rows_def filter_map comp_def)
qed

lemma purge_keeps:
  assumes "table_ok s"
  shows "table_ok (filter P s)" "length (approved_rows (filter P s) i) \<le> length (approved_rows s i)"
proof -
  have "inj_on row_key (set s)" "distinct s" using assms by (simp_all add: table_ok_def distinct_map)
  then show "table_ok (filter P s)"
    using assms by (auto simp: table_ok_def distinct_map intro: inj_on_subset)
  show "length (approved_rows (filter P s) i) \<le> length (approved_rows s i)"
    unfolding approved_rows_def by (induction s) auto
qed

lemma single_approvedI: "single_approved s \<Longrightarrow> (\<And>i. length (approved_rows s' i) \<le> length (approved_rows s i)) \<Longrightarrow> single_approved s'"
  unfolding single_approved_def using le_trans by blast

lemma table_step_keeps:
  assumes "table_step s s'" "table_ok s" "single_approved s"
  shows "table_ok s' \<and> single_approved s'"
  using assms
proof (induction rule: table_step.induct)
  case (save a s res s')
  then show ?case
    using save_artifact_table [of s a res s'] by (auto simp: single_approved_def approved_rows_def)
next
  case (approve i v s res s')
  show ?case
  proof (cases "\<exists>a. get_artifact s i v = Inr (Some a) \<and> outcome_valid (af_validation a) \<and>
      artifact_can_transition (af_status a) AS_APPROVED")
    case True
    then obtain a where a: "get_artifact s i v = Inr (Some a)" "outcome_valid (af_validation a)"
      "artifact_can_transition (af_status a) AS_APPROVED" by blast
    note s' = approve_stored_succeeds [OF approve.prems(1) a]
    note row = approved_after [OF approve.prems(1) get_artifact_stored(1) [OF approve.prems(1) a(1)]]
    have "length (approved_rows (map (approve_row a) s) j) \<le> 1" for j
      using row(1) row(2) [of j] approve.prems(2) by (cases "j = af_id a") (simp_all add: single_approved_def)
    then show ?thesis using s' approve.hyps by (simp add: single_approved_def)
  next
    case False
    then have "s' = s"
      using approve.hyps approve_stored_refused [of s i v]
      by (cases "get_artifact s i v") (auto simp: approve_stored_def approve_def split: option.splits if_splits)
    then show ?thesis using approve.prems by simp
  qed
next
  case (move s i v a t res s')
  note g = get_artifact_stored(1) [OF move.prems(1) move.hyps(1)]
  have "s' = s \<or> s' = write_status (a\<lparr>af_status := t\<rparr>) s"
    using move.hyps(2,3) by (auto simp: set_status_def artifact_transition_to_def Let_def split: if_splits)
  then show ?case
    using move.prems rewrite_unapproved [OF move.prems(1) g, of "a\<lparr>af_status := t\<rparr>"] move.hyps(2)
    by (auto intro: single_approvedI)
next
  case (validate s i v a w b s')
  note g = get_artifact_stored(1) [OF validate.prems(1) validate.hyps(1)]
  have "s' = write_status (a\<lparr>af_validation := w\<rparr>) s" using validate.hyps(3) by (auto simp: record_validation_def)
  then show ?case
    using validate.prems rewrite_unapproved [OF validate.prems(1) g, of "a\<lparr>af_validation := w\<rparr>"] validate.hyps(2)
    by (auto intro: single_approvedI)
next
  case (purge p s n s')
  then have "s' = filter (\<lambda>r. rw_project r \<noteq> p) s" by (simp add: purge_artifacts_def)
  then show ?case using purge.prems purge_keeps by (auto intro: single_approvedI)
qed

lemma table_run_keeps: "table_step\<^sup>*\<^sup>* s s' \<Longrightarrow> table_ok s \<Longrightarrow> single_approved s \<Longrightarrow> table_ok s' \<and> single_approved s'"
  by (induction rule: rtranclp_induct) (use table_step_keeps in blast)+


text \<open>\<open>set_status\<close> asked to approve what did not validate writes the row, then raises over it; the
  artifact cannot be read any more.\<close>

lemma decode_all_error: "r \<in> set rs \<Longrightarrow> \<not> artifact_valid (rw_payload r) \<Longrightarrow> decode_all rs = Inl Undecodable"
  by (induction rs) (auto simp: decode_artifact_def)

lemma unvalidated_approval_corrupts:
  assumes "table_ok s" "get_artifact s i v = Inr (Some a)" "af_status a = AS_DRAFT" "\<not> outcome_valid (af_validation a)"
    "set_status a AS_APPROVED s = (res, s')"
  shows "res = Inl Undecodable" "artifact_versions s' i = Inl Undecodable"
proof -
  note g = get_artifact_stored [OF assms(1,2)]
  let ?u = "approved_copy a"
  have w: "write_status ?u s = map (\<lambda>r. if r = version_row a then version_row ?u else r) s"
    by (rule write_status_row [OF g(1) assms(1)]) (simp_all add: approved_copy_def)
  have "version_row ?u \<in> set (id_rows (write_status ?u s) i)" using g(1,2) unfolding w by (auto simp: image_iff)
  moreover have "\<not> artifact_valid ?u" using assms(4) by (simp add: artifact_valid_def approved_copy_def)
  ultimately have e: "artifact_versions (write_status ?u s) i = Inl Undecodable"
    unfolding artifact_versions_def by (metis decode_all_error version_row_fields(4))
  then have "set_status a AS_APPROVED s = (Inl Undecodable, write_status ?u s)"
    using assms(3) g(2) by (simp add: set_status_def artifact_transition_to_def artifact_can_transition_def
      approved_copy_def [symmetric])
  then show "res = Inl Undecodable" "artifact_versions s' i = Inl Undecodable" using assms(5) e by auto
qed

section \<open>A history\<close>

definition sample_version :: "nat \<Rightarrow> artifact" where
  "sample_version n = \<lparr>af_id = ''art_1'', af_kind = AK_PRD, af_version = n, af_project = ''p'', af_title = ''t'',
     af_author = ''pm'', af_status = AS_DRAFT, af_authority = AGENT_RECOMMENDATION, af_depends_on = [],
     af_sources = [], af_body = None, af_validation = \<lparr>ao_state = VS_VALID, ao_issues = []\<rparr>, af_supersedes = None,
     af_superseded_by = None, af_created = n\<rparr>"

definition first_approved :: artifact_table where
  "first_approved = snd (approve_stored ''art_1'' None [version_row (sample_version 1)])"

definition second_drafted :: artifact_table where
  "second_drafted = first_approved @ [version_row (sample_version 2)]"

definition second_approved :: artifact_table where
  "second_approved = snd (approve_stored ''art_1'' None second_drafted)"

lemma sample_history:
  "table_step [] [version_row (sample_version 1)]" "table_step [version_row (sample_version 1)] first_approved"
  "table_step first_approved second_drafted" "table_step second_drafted second_approved"
proof -
  show "table_step [] [version_row (sample_version 1)]"
    by (rule table_step.save [of "sample_version 1" _ "Inr (sample_version 1)"])
      (simp_all add: sample_version_def elevated_authority_def save_artifact_def get_artifact_def)
  show "table_step [version_row (sample_version 1)] first_approved"
    by (rule table_step.approve [of "''art_1''" None _ "fst (approve_stored ''art_1'' None [version_row (sample_version 1)])"])
      (simp add: first_approved_def)
  have "get_artifact first_approved ''art_1'' (Some 2) = Inr None" by code_simp
  then show "table_step first_approved second_drafted"
    by (intro table_step.save [of "sample_version 2" _ "Inr (sample_version 2)"])
      (simp_all add: sample_version_def elevated_authority_def save_artifact_def second_drafted_def)
  show "table_step second_drafted second_approved"
    by (rule table_step.approve [of "''art_1''" None _ "fst (approve_stored ''art_1'' None second_drafted)"])
      (simp add: second_approved_def)
qed

lemma sample_runs: "table_step\<^sup>*\<^sup>* [] second_drafted" "table_step\<^sup>*\<^sup>* [] second_approved"
  using sample_history by (meson converse_rtranclp_into_rtranclp rtranclp.rtrancl_refl)+


theorem approval_exact_witness:
  "table_ok second_drafted \<and> get_artifact second_drafted ''art_1'' None = Inr (Some (sample_version 2)) \<and>
   approved_rows second_approved ''art_1'' = [version_row (approved_copy (sample_version 2))]"
proof -
  have t: "table_ok second_drafted"
    using table_run_keeps [OF sample_runs(1)] by (simp add: table_ok_def single_approved_def approved_rows_def)
  have g: "get_artifact second_drafted ''art_1'' None = Inr (Some (sample_version 2))" by code_simp
  have "outcome_valid (af_validation (sample_version 2)) \<and> af_status (sample_version 2) \<in> {AS_DRAFT, AS_REVIEW}"
    by (simp add: sample_version_def outcome_valid_def)
  then show ?thesis
    using approval_exact [OF t g, of "fst (approve_stored ''art_1'' None second_drafted)" second_approved] t g
    by (simp add: second_approved_def)
qed

end
