(* ===== verification/Product_Contradictions.thy ===== *)
theory Product_Contradictions
  imports Product_Store
begin

text \<open>
  Contradictions between documents (\<open>edith/product/contradictions.py\<close>): conflicts between the
  properties two documents declare, what their fields say against each other, and the hints in
  prose, which never block. \<open>check_all\<close> puts them in the order of a report.
\<close>

datatype contradiction_severity = CN_BLOCKING | CN_ADVISORY

record contradiction =
  cn_code :: string
  cn_between :: "string \<times> string"
  cn_detail :: string
  cn_severity :: contradiction_severity
  cn_elements :: "string list"

definition cn_blocking :: "contradiction \<Rightarrow> bool" where
  "cn_blocking c \<longleftrightarrow> cn_severity c = CN_BLOCKING"

definition properties_of :: "product_document \<Rightarrow> product_property list" where
  "properties_of d =
     (case d of Prd p \<Rightarrow> declared_properties p | Ux u \<Rightarrow> ux_properties u | Arch a \<Rightarrow> ar_properties a | Plan _ \<Rightarrow> [])"

definition label_of :: "product_document \<Rightarrow> string" where
  "label_of d = str_kind (document_kind d)"

definition compare_properties :: "product_document \<Rightarrow> product_document \<Rightarrow> contradiction list" where
  "compare_properties l r =
     map (\<lambda>(p, q). \<lparr>cn_code = ''PROPERTY_CONFLICT'', cn_between = (label_of l, label_of r),
            cn_detail = label_of l @ '' requires '' @ str_property p @ '' while '' @ label_of r @ '' declares '' @
              str_property q @ ''; these cannot both hold'',
            cn_severity = CN_BLOCKING, cn_elements = []\<rparr>)
       (find_conflicts (properties_of l) (properties_of r))"

definition prose_of :: "product_document \<Rightarrow> string" where
  "prose_of d =
     join '' '' (case d of
        Prd p \<Rightarrow> pd_problem p # pd_goals p @ pd_constraints p @ map pr_statement (pd_requirements p)
      | Ux u \<Rightarrow> ux_overview u # ux_patterns u
      | Arch a \<Rightarrow> ar_overview a # ar_constraints a
      | Plan _ \<Rightarrow> [])"

definition prose_hints :: "product_document \<Rightarrow> contradiction list" where
  "prose_hints d =
     map (\<lambda>p. \<lparr>cn_code = ''UNDECLARED_PROPERTY_HINT'', cn_between = (label_of d, ''declared properties''),
            cn_detail = ''the text discusses '' @ str_property p @
              '' but the document does not declare it, so no contradiction check can be run against it'',
            cn_severity = CN_ADVISORY, cn_elements = []\<rparr>)
       (sort_key str_property (filter (\<lambda>p. p \<notin> set (expand (properties_of d))) (hints_in (prose_of d))))"

text \<open>The four checks of a requirements document against an architecture, beside the declared
  properties.\<close>

definition prd_arch :: "string \<Rightarrow> string \<Rightarrow> string list \<Rightarrow> contradiction" where
  "prd_arch code detail elements =
     \<lparr>cn_code = code, cn_between = (''PRD'', ''SYSTEM_ARCHITECTURE''), cn_detail = detail,
      cn_severity = CN_BLOCKING, cn_elements = elements\<rparr>"

definition authentication_mismatch :: "prd_document \<Rightarrow> arch_document \<Rightarrow> contradiction list" where
  "authentication_mismatch p a =
     (let anonymous = map ep_id (filter (\<lambda>e. \<not> ep_authenticated e) (ar_endpoints a)) in
      if AUTHENTICATION_REQUIRED \<in> set (expand (declared_properties p)) \<and> ar_endpoints a \<noteq> [] \<and>
         length anonymous = length (ar_endpoints a)
      then [prd_arch ''AUTHENTICATION_MISMATCH''
              ''the PRD requires authentication but no endpoint in the architecture requires it'' anonymous]
      else [])"

definition offline_external :: "prd_document \<Rightarrow> arch_document \<Rightarrow> contradiction list" where
  "offline_external p a =
     (let external = map am_id (filter (\<lambda>c. am_kind c = CK_EXTERNAL) (ar_components a)) in
      if OFFLINE_CAPABLE \<in> set (expand (declared_properties p)) \<and> external \<noteq> []
      then [prd_arch ''OFFLINE_VS_EXTERNAL_DEPENDENCY''
              (''the PRD requires offline capability but the architecture depends on external component(s) '' @
               join '', '' external) external]
      else [])"

definition sensitive_unthreatened :: "prd_document \<Rightarrow> arch_document \<Rightarrow> contradiction list" where
  "sensitive_unthreatened p a =
     (if (SENSITIVE_DATA \<in> set (expand (declared_properties p)) \<or> list_ex en_sensitive (ar_entities a)) \<and>
         ar_threats a = []
      then [prd_arch ''SENSITIVE_DATA_WITHOUT_THREAT_MODEL''
              (''the product handles sensitive data but the architecture records no threats; '' @
               ''an empty threat model is a claim that nothing can go wrong'') []]
      else [])"

definition headless_interface :: "prd_document \<Rightarrow> arch_document \<Rightarrow> contradiction list" where
  "headless_interface p a =
     (let required = expand (declared_properties p) in
      if (MOBILE_RESPONSIVE \<in> set required \<or> ACCESSIBLE \<in> set required) \<and> HEADLESS \<in> set (expand (ar_properties a))
      then [prd_arch ''UI_REQUIRED_BUT_ARCHITECTURE_HEADLESS''
              ''the PRD requires a user interface but the architecture declares the product headless'' []]
      else [])"

definition check_prd_against_architecture :: "prd_document \<Rightarrow> arch_document \<Rightarrow> contradiction list" where
  "check_prd_against_architecture p a =
     compare_properties (Prd p) (Arch a) @ authentication_mismatch p a @ offline_external p a @
     sensitive_unthreatened p a @ headless_interface p a"

definition check_prd_against_ux :: "prd_document \<Rightarrow> ux_document \<Rightarrow> contradiction list" where
  "check_prd_against_ux p u = compare_properties (Prd p) (Ux u)"

definition check_ux_against_architecture :: "ux_document \<Rightarrow> arch_document \<Rightarrow> contradiction list" where
  "check_ux_against_architecture u a =
     compare_properties (Ux u) (Arch a) @
     (if ux_screens u \<noteq> [] \<and> HEADLESS \<in> set (expand (ar_properties a))
      then [\<lparr>cn_code = ''UI_REQUIRED_BUT_ARCHITECTURE_HEADLESS'', cn_between = (''UX_SPEC'', ''SYSTEM_ARCHITECTURE''),
             cn_detail = ''the UX specification defines '' @ show_nat (length (ux_screens u)) @
               '' screen(s) but the architecture declares the product headless'',
             cn_severity = CN_BLOCKING, cn_elements = []\<rparr>]
      else [])"

definition opt_list :: "'a option \<Rightarrow> ('a \<Rightarrow> 'b list) \<Rightarrow> 'b list" where
  "opt_list x f = (case x of None \<Rightarrow> [] | Some y \<Rightarrow> f y)"

definition report_key :: "contradiction \<Rightarrow> bool \<times> string \<times> string" where
  "report_key c = (\<not> cn_blocking c, cn_code c, cn_detail c)"

definition check_all ::
    "prd_document option \<Rightarrow> ux_document option \<Rightarrow> arch_document option \<Rightarrow> bool \<Rightarrow> contradiction list" where
  "check_all prd ux arch hints =
     sort_key report_key
       (opt_list prd (\<lambda>p. opt_list arch (\<lambda>a. check_prd_against_architecture p a)) @
        opt_list prd (\<lambda>p. opt_list ux (\<lambda>u. check_prd_against_ux p u)) @
        opt_list ux (\<lambda>u. opt_list arch (\<lambda>a. check_ux_against_architecture u a)) @
        (if hints then opt_list prd (\<lambda>p. prose_hints (Prd p)) @ opt_list ux (\<lambda>u. prose_hints (Ux u)) @
           opt_list arch (\<lambda>a. prose_hints (Arch a)) else []))"

definition blocking_contradictions :: "contradiction list \<Rightarrow> contradiction list" where
  "blocking_contradictions cs = filter cn_blocking cs"

section \<open>What blocks\<close>

lemma prose_hints_advisory: "c \<in> set (prose_hints d) \<Longrightarrow> \<not> cn_blocking c"
  by (auto simp: prose_hints_def cn_blocking_def)

lemma structural_blocking:
  "c \<in> set (compare_properties l r) \<Longrightarrow> cn_blocking c"
  "c \<in> set (check_prd_against_architecture p a) \<Longrightarrow> cn_blocking c"
  "c \<in> set (check_prd_against_ux p u) \<Longrightarrow> cn_blocking c"
  "c \<in> set (check_ux_against_architecture u a) \<Longrightarrow> cn_blocking c"
  by (auto simp: check_prd_against_architecture_def check_prd_against_ux_def check_ux_against_architecture_def
      compare_properties_def authentication_mismatch_def offline_external_def sensitive_unthreatened_def
      headless_interface_def prd_arch_def cn_blocking_def Let_def split: if_splits)

lemma set_opt_list: "set (opt_list x f) = (case x of None \<Rightarrow> {} | Some y \<Rightarrow> set (f y))"
  by (simp add: opt_list_def split: option.split)

lemma filter_all: "(\<And>x. x \<in> set xs \<Longrightarrow> P x) \<Longrightarrow> filter P xs = xs"
  by (induction xs) auto

lemma filter_none: "(\<And>x. x \<in> set xs \<Longrightarrow> \<not> P x) \<Longrightarrow> filter P xs = []"
  by (induction xs) auto

lemma blocking_check_all:
  "blocking_contradictions (check_all prd ux arch hints) = check_all prd ux arch False"
proof -
  let ?s = "opt_list prd (\<lambda>p. opt_list arch (\<lambda>a. check_prd_against_architecture p a)) @
        opt_list prd (\<lambda>p. opt_list ux (\<lambda>u. check_prd_against_ux p u)) @
        opt_list ux (\<lambda>u. opt_list arch (\<lambda>a. check_ux_against_architecture u a))"
  let ?h = "if hints then opt_list prd (\<lambda>p. prose_hints (Prd p)) @ opt_list ux (\<lambda>u. prose_hints (Ux u)) @
           opt_list arch (\<lambda>a. prose_hints (Arch a)) else []"
  have "filter cn_blocking ?s = ?s"
    by (rule filter_all) (auto simp: set_opt_list structural_blocking split: option.splits)
  moreover have "filter cn_blocking ?h = []"
    by (rule filter_none) (auto simp: set_opt_list prose_hints_advisory split: option.splits if_splits)
  ultimately have "filter cn_blocking (?s @ ?h) = ?s" by (simp only: filter_append append_Nil2)
  then have "sort_key report_key (filter cn_blocking (?s @ ?h)) = sort_key report_key ?s" by (rule arg_cong)
  then show ?thesis by (simp add: blocking_contradictions_def check_all_def filter_sort)
qed

lemma sorted_split:
  assumes "sorted (map f xs)" "\<And>c d. f c \<le> f d \<Longrightarrow> P d \<Longrightarrow> P c"
  shows "xs = filter P xs @ filter (\<lambda>c. \<not> P c) xs"
  using assms(1)
proof (induction xs)
  case (Cons x xs)
  show ?case
  proof (cases "P x")
    case False
    then have "filter P xs = []" using Cons.prems assms(2) by (auto simp: filter_empty_conv)
    then show ?thesis using Cons False by simp
  qed (use Cons in simp)
qed simp

lemma report_order: "check_all prd ux arch hints = check_all prd ux arch False @
    filter (\<lambda>c. \<not> cn_blocking c) (check_all prd ux arch hints)"
proof -
  have "sorted (map report_key (check_all prd ux arch hints))" by (simp add: check_all_def)
  then have "check_all prd ux arch hints = blocking_contradictions (check_all prd ux arch hints) @
      filter (\<lambda>c. \<not> cn_blocking c) (check_all prd ux arch hints)"
    unfolding blocking_contradictions_def by (rule sorted_split) (auto simp: report_key_def less_eq_prod_def)
  then show ?thesis unfolding blocking_check_all .
qed

text \<open>What a document declares is closed under the implications between properties.\<close>

definition implied :: "product_property list \<Rightarrow> product_property \<Rightarrow> bool" where
  "implied ps q \<longleftrightarrow> (\<exists>p \<in> set ps. (p, q) \<in> implies_step\<^sup>*)"

definition excludes :: "product_property list \<Rightarrow> product_property list \<Rightarrow> bool" where
  "excludes ps qs \<longleftrightarrow> (\<exists>p q. implied ps p \<and> implied qs q \<and> conflicts_with p q)"

lemma in_expand: "q \<in> set (expand ps) \<longleftrightarrow> implied ps q"
  by (auto simp: set_expand implied_def)

lemma find_conflicts_Nil: "find_conflicts l r = [] \<longleftrightarrow> \<not> excludes l r"
proof -
  have "find_conflicts l r = [] \<longleftrightarrow> set (find_conflicts l r) = {}" by simp
  then show ?thesis by (auto simp: set_find_conflicts in_expand excludes_def)
qed

text \<open>When the three documents of a project agree.\<close>

definition design_agrees :: "prd_document \<Rightarrow> arch_document \<Rightarrow> bool" where
  "design_agrees p a \<longleftrightarrow>
     \<not> excludes (declared_properties p) (ar_properties a) \<and>
     (implied (declared_properties p) AUTHENTICATION_REQUIRED \<longrightarrow>
        ar_endpoints a = [] \<or> (\<exists>e \<in> set (ar_endpoints a). ep_authenticated e)) \<and>
     (implied (declared_properties p) OFFLINE_CAPABLE \<longrightarrow> (\<forall>c \<in> set (ar_components a). am_kind c \<noteq> CK_EXTERNAL)) \<and>
     (implied (declared_properties p) SENSITIVE_DATA \<or> (\<exists>e \<in> set (ar_entities a). en_sensitive e) \<longrightarrow> ar_threats a \<noteq> []) \<and>
     (implied (ar_properties a) HEADLESS \<longrightarrow>
        \<not> implied (declared_properties p) MOBILE_RESPONSIVE \<and> \<not> implied (declared_properties p) ACCESSIBLE)"

definition documents_agree :: "prd_document \<Rightarrow> ux_document \<Rightarrow> arch_document \<Rightarrow> bool" where
  "documents_agree p u a \<longleftrightarrow>
     design_agrees p a \<and> \<not> excludes (declared_properties p) (ux_properties u) \<and>
     \<not> excludes (ux_properties u) (ar_properties a) \<and> (implied (ar_properties a) HEADLESS \<longrightarrow> ux_screens u = [])"

lemma authentication_mismatch_Nil:
  "authentication_mismatch p a = [] \<longleftrightarrow>
     (implied (declared_properties p) AUTHENTICATION_REQUIRED \<longrightarrow>
        ar_endpoints a = [] \<or> (\<exists>e \<in> set (ar_endpoints a). ep_authenticated e))"
proof -
  have "length (filter (\<lambda>e. \<not> ep_authenticated e) es) = length es \<longleftrightarrow> (\<forall>e \<in> set es. \<not> ep_authenticated e)" for es
    by (metis filter_True length_filter_less less_irrefl)
  then show ?thesis by (auto simp: authentication_mismatch_def Let_def in_expand)
qed

lemma offline_external_Nil:
  "offline_external p a = [] \<longleftrightarrow>
     (implied (declared_properties p) OFFLINE_CAPABLE \<longrightarrow> (\<forall>c \<in> set (ar_components a). am_kind c \<noteq> CK_EXTERNAL))"
  by (auto simp: offline_external_def Let_def in_expand filter_empty_conv)

lemma compare_properties_Nil:
  "compare_properties l r = [] \<longleftrightarrow> \<not> excludes (properties_of l) (properties_of r)"
  by (simp add: compare_properties_def find_conflicts_Nil)

lemma sort_key_Nil [simp]: "sort_key f xs = [] \<longleftrightarrow> xs = []"
  by (metis set_empty set_sort)

lemma check_design_Nil: "check_prd_against_architecture p a = [] \<longleftrightarrow> design_agrees p a"
  unfolding check_prd_against_architecture_def append_is_Nil_conv compare_properties_Nil authentication_mismatch_Nil
    offline_external_Nil design_agrees_def
  by (auto simp: properties_of_def sensitive_unthreatened_def headless_interface_def Let_def in_expand list_ex_iff)

lemma check_all_design: "check_all (Some p) None (Some a) False = [] \<longleftrightarrow> design_agrees p a"
  by (simp add: check_all_def opt_list_def check_design_Nil)

lemma check_all_agree: "check_all (Some p) (Some u) (Some a) False = [] \<longleftrightarrow> documents_agree p u a"
proof -
  have "check_all (Some p) (Some u) (Some a) False = [] \<longleftrightarrow>
      check_prd_against_architecture p a = [] \<and> check_prd_against_ux p u = [] \<and> check_ux_against_architecture u a = []"
    by (simp add: check_all_def opt_list_def)
  then show ?thesis
    unfolding check_design_Nil check_prd_against_ux_def check_ux_against_architecture_def
      append_is_Nil_conv compare_properties_Nil documents_agree_def
    by (auto simp: properties_of_def in_expand)
qed


end
