(* ===== verification/Product_Validation.thy ===== *)
theory Product_Validation
  imports Complex_Main Product_Artifacts
begin

text \<open>
  Validation of an artifact (\<open>edith/product/validation.py\<close>): the index of known identifiers, the
  referential check, the checks of each kind of document, the search for a cycle in a plan and
  the requirements a later document leaves out. An issue keeps its code, the element it names
  and whether it blocks; messages are left out.
\<close>

section \<open>The reference index\<close>

type_synonym reference_index = "(string \<times> string) list"

definition add_document_ids :: "string \<Rightarrow> string list \<Rightarrow> reference_index \<Rightarrow> reference_index" where
  "add_document_ids artifact_id ids index = foldl (\<lambda>m i. alist_setdefault i artifact_id m) index ids"

definition add_artifact :: "artifact \<Rightarrow> reference_index \<Rightarrow> reference_index" where
  "add_artifact a index =
     (case artifact_document a of Inl e \<Rightarrow> index | Inr d \<Rightarrow> add_document_ids (af_id a) (element_ids d) index)"

definition index_knows :: "reference_index \<Rightarrow> string \<Rightarrow> bool" where
  "index_knows index i \<longleftrightarrow> i \<in> fst ` set index"

definition index_owner :: "reference_index \<Rightarrow> string \<Rightarrow> string option" where
  "index_owner index i = map_of index i"

definition build_index :: "artifact list \<Rightarrow> reference_index" where
  "build_index as = foldl (\<lambda>index a. add_artifact a index) [] as"

section \<open>The checks of each kind\<close>

definition issue :: "string \<Rightarrow> string \<Rightarrow> bool \<Rightarrow> validation_issue" where
  "issue code element blocking = \<lparr>vi_code = code, vi_element = element, vi_blocking = blocking\<rparr>"

definition check_references :: "product_document \<Rightarrow> reference_index option \<Rightarrow> validation_issue list" where
  "check_references d index =
     map (\<lambda>r. issue ''ARTIFACT_UNKNOWN_REFERENCE'' r True)
       (filter (\<lambda>r. is_element_id r None \<and> r \<notin> set (element_ids d) \<and>
           (case index of None \<Rightarrow> True | Some ix \<Rightarrow> \<not> index_knows ix r))
         (rev (remdups (rev (referenced_ids d)))))"

definition check_prd :: "prd_document \<Rightarrow> validation_issue list" where
  "check_prd d =
     map (\<lambda>i. issue ''REQUIREMENT_WITHOUT_ACCEPTANCE_CRITERION'' i False) (unverified_requirements d) @
     map (\<lambda>q. issue ''OPEN_QUESTION_WITHOUT_OWNER'' (oq_id q) False)
       (filter (\<lambda>q. py_strip (oq_owner q) = []) (pd_questions d))"

definition check_flow :: "flow \<Rightarrow> validation_issue list" where
  "check_flow f =
     map (\<lambda>i. issue ''FLOW_DEAD_END'' (fl_id f) True) (dead_ends f) @
     map (\<lambda>i. issue ''FLOW_UNREACHABLE_STEP'' (fl_id f) False) (unreachable_steps f)"

definition check_ux :: "ux_document \<Rightarrow> validation_issue list" where
  "check_ux d =
     concat (map check_flow (ux_flows d)) @
     map (\<lambda>i. issue ''FLOW_WITHOUT_ERROR_PATH'' i False) (flows_without_error_paths d) @
     map (\<lambda>(i, m). issue ''SCREEN_MISSING_REQUIRED_STATE'' i False) (screens_missing_states d)"

definition check_architecture :: "arch_document \<Rightarrow> validation_issue list" where
  "check_architecture d =
     map (\<lambda>i. issue ''THREAT_WITHOUT_MITIGATION'' i False) (unmitigated_threats d) @
     map (\<lambda>n. issue ''TECHNOLOGY_WITHOUT_ALTERNATIVES'' [] False) (unjustified_technologies d)"

section \<open>Cycles in a plan\<close>

type_synonym pending_tasks = "(string \<times> string list) list"

definition plan_pending :: "plan_document \<Rightarrow> pending_tasks" where
  "plan_pending d =
     foldl (\<lambda>m t. alist_put (pt_task_id t) (filter (\<lambda>i. i \<in> set (plan_task_ids d)) (remdups (pt_depends_on t))) m)
       [] (pl_tasks d)"

definition free_tasks :: "pending_tasks \<Rightarrow> string list" where
  "free_tasks P = map fst (filter (\<lambda>(t, ds). ds = []) P)"

definition drop_tasks :: "string list \<Rightarrow> pending_tasks \<Rightarrow> pending_tasks" where
  "drop_tasks free P = map (\<lambda>(t, ds). (t, filter (\<lambda>d. d \<notin> set free) ds)) (filter (\<lambda>(t, ds). t \<notin> set free) P)"

lemma drop_tasks_shorter: "free_tasks P \<noteq> [] \<Longrightarrow> length (drop_tasks (free_tasks P) P) < length P"
proof -
  assume "free_tasks P \<noteq> []"
  then obtain t where "t \<in> set (free_tasks P)" by (cases "free_tasks P") auto
  then obtain ds where t: "(t, ds) \<in> set P" "t \<in> set (free_tasks P)" by (auto simp: free_tasks_def)
  then have "length (filter (\<lambda>(t, ds). t \<notin> set (free_tasks P)) P) < length P"
    by (intro length_filter_less [where x = "(t, ds)"]) auto
  then show ?thesis by (simp add: drop_tasks_def)
qed

text \<open>Passes that take away every task with nothing pending.\<close>

function peel_tasks :: "pending_tasks \<Rightarrow> pending_tasks" where
  "peel_tasks P = (if free_tasks P = [] then P else peel_tasks (drop_tasks (free_tasks P) P))"
  by pat_completeness auto
termination
  by (relation "measure length") (use drop_tasks_shorter in auto)

declare peel_tasks.simps [simp del]

definition first_pending :: "pending_tasks \<Rightarrow> string \<Rightarrow> string option" where
  "first_pending P t =
     (case map_of P t of
        None \<Rightarrow> None
      | Some ds \<Rightarrow> (case sort ds of [] \<Rightarrow> None | d # _ \<Rightarrow> Some d))"

text \<open>The walk over the residue, from its first task along the first pending one, until one
  repeats. It visits each task of the residue at most once; \<open>left\<close> counts those.\<close>

fun cycle_walk :: "pending_tasks \<Rightarrow> nat \<Rightarrow> string list \<Rightarrow> string list" where
  "cycle_walk P 0 path = path"
| "cycle_walk P (Suc left) path =
     (case first_pending P (last path) of
        None \<Rightarrow> path
      | Some d \<Rightarrow> if d \<in> set path then path @ [d] else cycle_walk P left (path @ [d]))"

definition find_cycle :: "plan_document \<Rightarrow> string list" where
  "find_cycle d =
     (let remaining = peel_tasks (plan_pending d) in
      case sort (map fst remaining) of
        [] \<Rightarrow> []
      | start # _ \<Rightarrow> cycle_walk remaining (length remaining) [start])"

definition check_plan :: "plan_document \<Rightarrow> reference_index option \<Rightarrow> validation_issue list" where
  "check_plan d index =
     concat (map (\<lambda>t.
        map (\<lambda>x. issue ''PLAN_UNKNOWN_DEPENDENCY'' (pt_task_id t) True)
          (filter (\<lambda>x. x \<notin> set (plan_task_ids d)) (pt_depends_on t)) @
        (case index of
           None \<Rightarrow> []
         | Some ix \<Rightarrow>
             map (\<lambda>c. issue ''PLAN_UNKNOWN_COMPONENT'' (pt_task_id t) True)
               (filter (\<lambda>c. is_element_id c (Some ''ARCH'') \<and> \<not> index_knows ix c) (pt_components t))))
       (pl_tasks d)) @
     (if find_cycle d = [] then [] else [issue ''PLAN_CIRCULAR_DEPENDENCY'' [] True])"

section \<open>Validating\<close>

fun check_document :: "product_document \<Rightarrow> reference_index option \<Rightarrow> validation_issue list" where
  "check_document (Prd d) index = check_prd d"
| "check_document (Ux d) index = check_ux d"
| "check_document (Arch d) index = check_architecture d"
| "check_document (Plan d) index = check_plan d index"

definition validate_artifact :: "artifact \<Rightarrow> reference_index option \<Rightarrow> validation_outcome" where
  "validate_artifact a index =
     (case artifact_document a of
        Inl e \<Rightarrow> \<lparr>ao_state = VS_INVALID, ao_issues = [issue ''ARTIFACT_SCHEMA_INVALID'' [] True]\<rparr>
      | Inr d \<Rightarrow>
          (let issues = check_references d index @ check_document d index in
           \<lparr>ao_state = (if list_ex vi_blocking issues then VS_INVALID else VS_VALID), ao_issues = issues\<rparr>))"

definition validate_against_dependencies :: "artifact \<Rightarrow> artifact list \<Rightarrow> validation_outcome" where
  "validate_against_dependencies a deps = validate_artifact a (Some (build_index (deps @ [a])))"

definition uncovered_by :: "string list \<Rightarrow> string list \<Rightarrow> validation_issue list" where
  "uncovered_by wanted covered =
     map (\<lambda>i. issue ''REQUIREMENT_NOT_COVERED'' i False) (sorted_set (filter (\<lambda>i. i \<notin> set covered) wanted))"

definition coverage_issues ::
    "prd_document \<Rightarrow> ux_document option \<Rightarrow> arch_document option \<Rightarrow> plan_document option \<Rightarrow> validation_issue list" where
  "coverage_issues prd ux arch pl =
     (let wanted = map pr_id (filter (\<lambda>r. pr_priority r \<in> {MUST, SHOULD}) (pd_requirements prd)) in
      (case ux of None \<Rightarrow> [] | Some d \<Rightarrow> uncovered_by wanted (ux_covered d)) @
      (case arch of None \<Rightarrow> [] | Some d \<Rightarrow> uncovered_by wanted (arch_covered d)) @
      (case pl of None \<Rightarrow> [] | Some d \<Rightarrow> uncovered_by wanted (plan_covered d)))"

section \<open>The index\<close>

lemma known_setdefault: "fst ` set (alist_setdefault k v m) = insert k (fst ` set m)"
  by (auto simp: alist_setdefault_def keys_alist_put map_of_eq_None_iff split: option.splits)

lemma known_add_ids: "fst ` set (add_document_ids a ids ix) = set ids \<union> fst ` set ix"
  unfolding add_document_ids_def by (induction ids arbitrary: ix) (auto simp: known_setdefault)

lemma known_build_index:
  "fst ` set (build_index as) = {i. \<exists>a \<in> set as. \<exists>d. artifact_document a = Inr d \<and> i \<in> set (element_ids d)}"
proof (induction as rule: rev_induct)
  case (snoc a as)
  then show ?case
    by (cases "artifact_document a") (auto simp: build_index_def add_artifact_def known_add_ids)
qed (simp add: build_index_def)

section \<open>The residue and its walk\<close>

definition task_deps :: "plan_document \<Rightarrow> (string \<times> string) set" where
  "task_deps d = {(t, x). \<exists>task \<in> set (pl_tasks d). pt_task_id task = t \<and> x \<in> set (pt_depends_on task) \<and>
     x \<in> set (plan_task_ids d)}"

definition pending_rel :: "pending_tasks \<Rightarrow> (string \<times> string) set" where
  "pending_rel P = {(t, x). \<exists>ds. (t, ds) \<in> set P \<and> x \<in> set ds}"

definition pending_ok :: "pending_tasks \<Rightarrow> bool" where
  "pending_ok P \<longleftrightarrow> distinct (map fst P) \<and> (\<forall>(t, ds) \<in> set P. set ds \<subseteq> fst ` set P)"

lemma map_fst_drop: "map fst (drop_tasks fr P) = filter (\<lambda>t. t \<notin> set fr) (map fst P)"
  by (induction P) (auto simp: drop_tasks_def)

lemma pending_rel_drop: "pending_rel (drop_tasks fr P) = {(t, x) \<in> pending_rel P. t \<notin> set fr \<and> x \<notin> set fr}"
  by (force simp: pending_rel_def drop_tasks_def)

lemma pending_ok_drop: "pending_ok P \<Longrightarrow> pending_ok (drop_tasks fr P)"
proof -
  assume P: "pending_ok P"
  have "distinct (map fst (drop_tasks fr P))" unfolding map_fst_drop using P by (simp add: pending_ok_def)
  moreover have "fst ` set (drop_tasks fr P) = {t \<in> fst ` set P. t \<notin> set fr}"
    using arg_cong [OF map_fst_drop [of fr P], of set] by auto
  moreover have "\<forall>(t, ds) \<in> set (drop_tasks fr P). set ds \<subseteq> {t \<in> fst ` set P. t \<notin> set fr}"
    using P by (fastforce simp: pending_ok_def drop_tasks_def)
  ultimately show ?thesis by (simp add: pending_ok_def)
qed

lemma free_tasks_sink: "pending_ok P \<Longrightarrow> t \<in> set (free_tasks P) \<Longrightarrow> (t, x) \<notin> pending_rel P"
  by (auto simp: pending_ok_def free_tasks_def pending_rel_def dest: eq_key_imp_eq_value)

text \<open>Taking sinks away keeps the cycles.\<close>

lemma acyclic_without_sinks:
  assumes "\<And>t x. t \<in> S \<Longrightarrow> (t, x) \<notin> r"
  shows "acyclic {(t, x) \<in> r. t \<notin> S \<and> x \<notin> S} \<longleftrightarrow> acyclic r"
proof
  let ?r = "{(t, x) \<in> r. t \<notin> S \<and> x \<notin> S}"
  show "acyclic r \<Longrightarrow> acyclic ?r" by (rule acyclic_subset) auto
  assume a: "acyclic ?r"
  have key: "(x, y) \<in> r\<^sup>+ \<Longrightarrow> y \<notin> S \<Longrightarrow> (x, y) \<in> ?r\<^sup>+" for x y
  proof (induction rule: trancl_induct)
    case (base y)
    then have "(x, y) \<in> ?r" using assms by blast
    then show ?case by (rule r_into_trancl')
  next
    case (step y z)
    have "y \<notin> S" using step.hyps(2) assms by blast
    with step have "(x, y) \<in> ?r\<^sup>+" "(y, z) \<in> ?r" using assms by blast+
    then show ?case by (rule trancl_into_trancl)
  qed
  show "acyclic r"
    unfolding acyclic_def
  proof (intro allI notI)
    fix x assume c: "(x, x) \<in> r\<^sup>+"
    then obtain y where "(x, y) \<in> r" by (meson tranclD)
    then have "x \<notin> S" using assms by blast
    with key [OF c] a show False by (simp add: acyclic_def)
  qed
qed

lemma peel_tasks_facts:
  assumes "pending_ok P"
  shows "pending_ok (peel_tasks P)" "free_tasks (peel_tasks P) = []"
    "acyclic (pending_rel (peel_tasks P)) \<longleftrightarrow> acyclic (pending_rel P)"
    "pending_rel (peel_tasks P) \<subseteq> pending_rel P"
proof -
  have "pending_ok (peel_tasks P) \<and> free_tasks (peel_tasks P) = [] \<and>
      (acyclic (pending_rel (peel_tasks P)) \<longleftrightarrow> acyclic (pending_rel P)) \<and> pending_rel (peel_tasks P) \<subseteq> pending_rel P"
    using assms
  proof (induction P rule: peel_tasks.induct)
    case (1 P)
    show ?case
    proof (cases "free_tasks P = []")
      case True
      then show ?thesis using "1.prems" by (simp add: peel_tasks.simps)
    next
      case False
      let ?Q = "drop_tasks (free_tasks P) P"
      have "acyclic (pending_rel ?Q) \<longleftrightarrow> acyclic (pending_rel P)"
        unfolding pending_rel_drop by (rule acyclic_without_sinks) (rule free_tasks_sink [OF "1.prems"])
      moreover have "pending_rel ?Q \<subseteq> pending_rel P" by (auto simp: pending_rel_drop)
      ultimately show ?thesis
        using "1.IH" [OF False pending_ok_drop [OF "1.prems"]] False by (subst (1 2 3 4) peel_tasks.simps) auto
    qed
  qed
  then show "pending_ok (peel_tasks P)" "free_tasks (peel_tasks P) = []"
    "acyclic (pending_rel (peel_tasks P)) \<longleftrightarrow> acyclic (pending_rel P)"
    "pending_rel (peel_tasks P) \<subseteq> pending_rel P" by blast+
qed

lemma first_pending_residue:
  assumes "pending_ok P" "free_tasks P = []" "t \<in> fst ` set P"
  shows "\<exists>x. first_pending P t = Some x \<and> (t, x) \<in> pending_rel P \<and> x \<in> fst ` set P"
proof -
  obtain ds where ds: "(t, ds) \<in> set P" using assms(3) by auto
  have m: "map_of P t = Some ds" using assms(1) ds by (simp add: pending_ok_def)
  have "ds \<noteq> []" using assms(2) ds by (auto simp: free_tasks_def filter_empty_conv)
  then have "sort ds \<noteq> []" by (metis set_empty set_sort)
  then obtain x xs where x: "sort ds = x # xs" by (cases "sort ds") auto
  then have "x \<in> set ds" by (metis list.set_intros(1) set_sort)
  then show ?thesis using x m ds assms(1) by (auto simp: first_pending_def pending_rel_def pending_ok_def)
qed

text \<open>Consecutive elements of a path are related.\<close>

fun chain_in :: "('a \<times> 'a) set \<Rightarrow> 'a list \<Rightarrow> bool" where
  "chain_in r [] = True"
| "chain_in r [x] = True"
| "chain_in r (x # y # zs) = ((x, y) \<in> r \<and> chain_in r (y # zs))"

lemma chain_in_snoc: "xs \<noteq> [] \<Longrightarrow> chain_in r (xs @ [y]) \<longleftrightarrow> chain_in r xs \<and> (last xs, y) \<in> r"
  by (induction r xs rule: chain_in.induct) auto

lemma chain_in_append: "chain_in r (xs @ y # ys) \<Longrightarrow> chain_in r (y # ys)"
  by (induction xs rule: induct_list012) (auto elim: chain_in.elims)

lemma chain_in_trancl: "chain_in r (x # ys @ [z]) \<Longrightarrow> (x, z) \<in> r\<^sup>+"
proof (induction ys arbitrary: x)
  case (Cons y ys)
  then have "(x, y) \<in> r" "(y, z) \<in> r\<^sup>+" by auto
  then show ?case by (rule trancl_into_trancl2)
qed auto

lemma chain_in_mono: "r \<subseteq> s \<Longrightarrow> chain_in r xs \<Longrightarrow> chain_in s xs"
  by (induction r xs rule: chain_in.induct) auto

lemma cycle_walk_spec:
  assumes "pending_ok P" "free_tasks P = []" "path \<noteq> []" "distinct path" "set path \<subseteq> fst ` set P"
    "chain_in (pending_rel P) path" "length P < length path + left"
  shows "\<exists>us x vs. cycle_walk P left path = us @ x # vs @ [x] \<and> chain_in (pending_rel P) (us @ x # vs @ [x])"
  using assms(3-)
proof (induction left arbitrary: path)
  case 0
  have "length path = card (set path)" using 0 by (simp add: distinct_card)
  also have "\<dots> \<le> card (fst ` set P)" using 0 by (intro card_mono) auto
  also have "\<dots> \<le> length P" by (metis card_length length_map list.set_map)
  finally show ?case using 0 by simp
next
  case (Suc left)
  have l: "last path \<in> fst ` set P" using Suc.prems by auto
  from first_pending_residue [OF assms(1,2) l] obtain d where
    d: "first_pending P (last path) = Some d" "(last path, d) \<in> pending_rel P" "d \<in> fst ` set P" by blast
  have c: "chain_in (pending_rel P) (path @ [d])" using Suc.prems d by (simp add: chain_in_snoc)
  show ?case
  proof (cases "d \<in> set path")
    case True
    then obtain us vs where p: "path = us @ d # vs" by (meson split_list)
    have "cycle_walk P (Suc left) path = us @ d # vs @ [d]" using d(1) True p by simp
    moreover have "chain_in (pending_rel P) (us @ d # vs @ [d])" using c p by simp
    ultimately show ?thesis by blast
  next
    case False
    then show ?thesis using Suc.IH [of "path @ [d]"] Suc.prems c d by auto
  qed
qed

lemma plan_pending_unique:
  "distinct (plan_task_ids d) \<Longrightarrow> plan_pending d =
     map (\<lambda>t. (pt_task_id t, filter (\<lambda>i. i \<in> set (plan_task_ids d)) (remdups (pt_depends_on t)))) (pl_tasks d)"
proof -
  have "foldl (\<lambda>m t. alist_put (pt_task_id t) (f t) m) m ts = m @ map (\<lambda>t. (pt_task_id t, f t)) ts"
    if "distinct (map fst m @ map pt_task_id ts)" for f :: "planned_task \<Rightarrow> string list" and m ts
    using that
  proof (induction ts arbitrary: m)
    case (Cons t ts)
    then have "map_of m (pt_task_id t) = None" by (auto simp: map_of_eq_None_iff)
    then have "alist_put (pt_task_id t) (f t) m = m @ [(pt_task_id t, f t)]" by (induction m) (auto split: if_splits)
    then show ?case using Cons by simp
  qed simp
  from this [of "[]"] show "distinct (plan_task_ids d) \<Longrightarrow> ?thesis" by (simp add: plan_pending_def plan_task_ids_def)
qed

lemma find_cycle_exact':
  assumes "distinct (plan_task_ids d)"
  shows "find_cycle d = [] \<longleftrightarrow> acyclic (task_deps d)"
    "find_cycle d \<noteq> [] \<Longrightarrow> \<exists>us x vs. find_cycle d = us @ x # vs @ [x] \<and> chain_in (task_deps d) (us @ x # vs @ [x])"
proof -
  let ?P = "plan_pending d" and ?Q = "peel_tasks (plan_pending d)"
  note P = plan_pending_unique [OF assms]
  have ids: "fst ` set ?P = set (plan_task_ids d)" by (force simp: P plan_task_ids_def)
  have ok: "pending_ok ?P"
    using assms by (auto simp: pending_ok_def ids) (auto simp: P plan_task_ids_def comp_def)
  have rel: "pending_rel ?P = task_deps d" by (force simp: pending_rel_def task_deps_def P)
  note f = peel_tasks_facts [OF ok, unfolded rel]
  have cyc: "\<exists>us x vs. find_cycle d = us @ x # vs @ [x] \<and> chain_in (task_deps d) (us @ x # vs @ [x])" if "?Q \<noteq> []"
  proof -
    from that have "sort (map fst ?Q) \<noteq> []" by (metis map_is_Nil_conv set_empty set_sort)
    then obtain s ss where s: "sort (map fst ?Q) = s # ss" by (cases "sort (map fst ?Q)") auto
    then have "s \<in> fst ` set ?Q" by (metis list.set_intros(1) list.set_map set_sort)
    then obtain us x vs where w: "cycle_walk ?Q (length ?Q) [s] = us @ x # vs @ [x]"
      "chain_in (pending_rel ?Q) (us @ x # vs @ [x])"
      using cycle_walk_spec [OF f(1,2), of "[s]" "length ?Q"] by auto
    have "find_cycle d = us @ x # vs @ [x]" by (simp add: find_cycle_def Let_def s w(1))
    with chain_in_mono [OF f(4) w(2)] show ?thesis by blast
  qed
  have "acyclic (task_deps d) \<longleftrightarrow> ?Q = []"
  proof
    assume "?Q = []"
    then show "acyclic (task_deps d)" using f(3) by (simp add: pending_rel_def acyclic_def)
  next
    assume a: "acyclic (task_deps d)"
    show "?Q = []"
    proof (rule ccontr)
      assume "?Q \<noteq> []"
      from cyc [OF this] obtain us x vs where "chain_in (task_deps d) (us @ x # vs @ [x])" by blast
      then have "(x, x) \<in> (task_deps d)\<^sup>+" by (rule chain_in_trancl [OF chain_in_append])
      with a show False by (simp add: acyclic_def)
    qed
  qed
  moreover have "?Q = [] \<Longrightarrow> find_cycle d = []" by (simp add: find_cycle_def)
  ultimately show "find_cycle d = [] \<longleftrightarrow> acyclic (task_deps d)"
    "find_cycle d \<noteq> [] \<Longrightarrow> \<exists>us x vs. find_cycle d = us @ x # vs @ [x] \<and> chain_in (task_deps d) (us @ x # vs @ [x])"
    using cyc by fastforce+
qed


text \<open>C17. A plan is reported as circular exactly when its dependencies are. What is reported is then a
  path of dependencies whose end repeats: from the first occurrence of its last task on it is a
  cycle. What comes before need not lie on any cycle.
\<close>

theorem find_cycle_exact:
  assumes "distinct (plan_task_ids d)"
  shows "(find_cycle d = [] \<longleftrightarrow> acyclic (task_deps d)) \<and>
    (find_cycle d \<noteq> [] \<longrightarrow>
       (\<exists>us x vs. find_cycle d = us @ x # vs @ [x] \<and> chain_in (task_deps d) (us @ x # vs @ [x])))"
  using find_cycle_exact' [OF assms] by blast

definition sample_planned :: "string \<Rightarrow> string list \<Rightarrow> planned_task" where
  "sample_planned i ds = \<lparr>pt_task_id = i, pt_title = i, pt_description = i, pt_agent = ''backend_engineer'',
     pt_depends_on = ds, pt_implements = [], pt_components = [], pt_acceptance_criteria = [],
     pt_verification = [''tests''], pt_complexity = CX_MEDIUM, pt_paths = [''app/'' @ i]\<rparr>"

definition sample_lead_in :: plan_document where
  "sample_lead_in = \<lparr>pl_tasks = [sample_planned ''TASK-001'' [''TASK-002''], sample_planned ''TASK-002'' [''TASK-003''],
     sample_planned ''TASK-003'' [''TASK-002'']], pl_milestones = []\<rparr>"

text \<open>A task that only waits for a cycle is the start of the path reported.\<close>

lemma sample_lead_in_path: "find_cycle sample_lead_in = [''TASK-001'', ''TASK-002'', ''TASK-003'', ''TASK-002'']"
  by code_simp

theorem find_cycle_exact_witness:
  "distinct (plan_task_ids sample_lead_in) \<and> find_cycle sample_lead_in \<noteq> [] \<and> \<not> acyclic (task_deps sample_lead_in)"
proof -
  have d: "distinct (plan_task_ids sample_lead_in)" by code_simp
  have "find_cycle sample_lead_in \<noteq> []" by (simp add: sample_lead_in_path)
  with d show ?thesis using find_cycle_exact [OF d] by blast
qed

section \<open>What a valid artifact is\<close>

text \<open>The blocking issues of each kind.\<close>

definition document_sound :: "product_document \<Rightarrow> reference_index option \<Rightarrow> bool" where
  "document_sound d index \<longleftrightarrow>
     (case d of
        Ux u \<Rightarrow> \<forall>f \<in> set (ux_flows u). \<forall>s \<in> set (fl_steps f). \<not> dead_end s
      | Plan p \<Rightarrow>
          acyclic (task_deps p) \<and>
          (\<forall>t \<in> set (pl_tasks p). set (pt_depends_on t) \<subseteq> set (plan_task_ids p) \<and>
             (\<forall>c \<in> set (pt_components t). is_element_id c (Some ''ARCH'') \<longrightarrow>
                (case index of None \<Rightarrow> True | Some ix \<Rightarrow> index_knows ix c)))
      | _ \<Rightarrow> True)"

lemma issue_fields [simp]:
  "vi_code (issue c e b) = c" "vi_element (issue c e b) = e" "vi_blocking (issue c e b) = b"
  by (simp_all add: issue_def)

lemma list_ex_pieces:
  "list_ex Q (map g xs) \<longleftrightarrow> (\<exists>x \<in> set xs. Q (g x))"
  "list_ex Q (concat xss) \<longleftrightarrow> (\<exists>xs \<in> set xss. list_ex Q xs)"
  "list_ex Q (ys @ zs) \<longleftrightarrow> list_ex Q ys \<or> list_ex Q zs"
  by (auto simp: list_ex_iff)

lemma check_ux_blocking:
  "list_ex vi_blocking (check_ux u) \<longleftrightarrow> (\<exists>f \<in> set (ux_flows u). \<exists>s \<in> set (fl_steps f). dead_end s)"
  by (simp add: check_ux_def check_flow_def dead_ends_def list_ex_pieces case_prod_beta) blast

lemma check_plan_blocking:
  "list_ex vi_blocking (check_plan p index) \<longleftrightarrow> find_cycle p \<noteq> [] \<or>
     (\<exists>t \<in> set (pl_tasks p). (\<exists>x \<in> set (pt_depends_on t). x \<notin> set (plan_task_ids p)) \<or>
        (\<exists>c \<in> set (pt_components t). is_element_id c (Some ''ARCH'') \<and>
           (case index of None \<Rightarrow> False | Some ix \<Rightarrow> \<not> index_knows ix c)))"
  by (cases index; simp add: check_plan_def list_ex_pieces; blast)

lemma check_document_blocking:
  assumes "\<And>p. d = Plan p \<Longrightarrow> distinct (plan_task_ids p)"
  shows "list_ex vi_blocking (check_document d index) \<longleftrightarrow> \<not> document_sound d index"
proof (cases d)
  case (Plan p)
  have "find_cycle p \<noteq> [] \<longleftrightarrow> \<not> acyclic (task_deps p)" using find_cycle_exact' [OF assms [OF Plan]] by simp
  then show ?thesis by (cases index) (auto simp: Plan document_sound_def check_plan_blocking)
next
  case (Ux u)
  then show ?thesis by (auto simp: document_sound_def check_ux_blocking)
qed (auto simp: document_sound_def check_prd_def check_architecture_def list_ex_iff)

text \<open>C18. When validation lets an artifact pass. Against the artifacts it was derived from, an artifact
  is VALID exactly when its body is a document of its kind, every element identifier it refers
  to is defined by it or by one of them, no step of a flow leads nowhere, and a plan has only
  known dependencies and components and no cycle. Every other finding is advisory.
\<close>

theorem validation_exact:
  assumes "\<And>p. artifact_document a = Inr (Plan p) \<Longrightarrow> plan_valid p"
  shows "outcome_valid (validate_against_dependencies a deps) \<longleftrightarrow>
    (\<exists>d. artifact_document a = Inr d \<and> document_sound d (Some (build_index (deps @ [a]))) \<and>
       (\<forall>r \<in> set (referenced_ids d). is_element_id r None \<longrightarrow>
          (\<exists>b \<in> set (deps @ [a]). \<exists>e. artifact_document b = Inr e \<and> r \<in> set (element_ids e))))"
proof (cases "artifact_document a")
  case (Inl e)
  then show ?thesis by (simp add: validate_against_dependencies_def validate_artifact_def outcome_valid_def)
next
  case (Inr d)
  let ?ix = "build_index (deps @ [a])"
  have known: "index_knows ?ix r \<longleftrightarrow> (\<exists>b \<in> set (deps @ [a]). \<exists>e. artifact_document b = Inr e \<and> r \<in> set (element_ids e))" for r
    unfolding index_knows_def known_build_index by blast
  have own: "r \<in> set (element_ids d) \<Longrightarrow> index_knows ?ix r" for r unfolding known using Inr by auto
  have refs: "list_ex vi_blocking (check_references d (Some ?ix)) \<longleftrightarrow>
      (\<exists>r \<in> set (referenced_ids d). is_element_id r None \<and> \<not> index_knows ?ix r)"
    using own by (auto simp: check_references_def list_ex_iff)
  have doc: "list_ex vi_blocking (check_document d (Some ?ix)) \<longleftrightarrow> \<not> document_sound d (Some ?ix)"
    using assms Inr by (intro check_document_blocking) (simp add: plan_valid_def)
  have "outcome_valid (validate_against_dependencies a deps) \<longleftrightarrow>
      \<not> list_ex vi_blocking (check_references d (Some ?ix)) \<and> \<not> list_ex vi_blocking (check_document d (Some ?ix))"
    by (simp add: validate_against_dependencies_def validate_artifact_def Inr outcome_valid_def Let_def)
  then show ?thesis unfolding refs doc known using Inr by auto
qed

definition sample_artifact :: "artifact_kind \<Rightarrow> product_document \<Rightarrow> artifact" where
  "sample_artifact k d = \<lparr>af_id = ''art_1'', af_kind = k, af_version = 1, af_project = ''p'', af_title = ''t'',
     af_author = ''planner'', af_status = AS_DRAFT, af_authority = AGENT_RECOMMENDATION, af_depends_on = [],
     af_sources = [], af_body = Some d, af_validation = unvalidated, af_supersedes = None,
     af_superseded_by = None, af_created = 0\<rparr>"

theorem validation_exact_witness:
  "plan_valid sample_lead_in \<and>
   \<not> outcome_valid (validate_against_dependencies (sample_artifact AK_IMPLEMENTATION_PLAN (Plan sample_lead_in)) [])"
proof -
  let ?a = "sample_artifact AK_IMPLEMENTATION_PLAN (Plan sample_lead_in)"
  have v: "plan_valid sample_lead_in" by code_simp
  have doc: "artifact_document ?a = Inr (Plan sample_lead_in)"
    by (simp add: artifact_document_def sample_artifact_def has_schema_def)
  have "distinct (plan_task_ids sample_lead_in)" using v by (simp add: plan_valid_def)
  then have "\<not> acyclic (task_deps sample_lead_in)" using find_cycle_exact' (1) sample_lead_in_path by fastforce
  then have "\<not> document_sound (Plan sample_lead_in) ix" for ix by (simp add: document_sound_def)
  then show ?thesis using v doc validation_exact [of ?a "[]"] by auto
qed

section \<open>The lifecycle of an artifact\<close>

interpretation artifact_life: lifecycle artifact_can_transition status_terminal
proof
  fix s t assume "status_terminal s"
  then show "\<not> artifact_can_transition s t" by (cases s) (auto simp: status_terminal_def artifact_can_transition_def)
next
  fix s assume "\<not> status_terminal s"
  then show "\<exists>t. artifact_can_transition s t"
    by (cases s) (force simp: status_terminal_def artifact_can_transition_def)+
qed

end
