(* ===== verification/Product_Coverage.thy ===== *)
theory Product_Coverage
  imports Product_Contradictions Product_Validation
begin

text \<open>
  Requirement coverage (\<open>edith/product/coverage.py\<close>): which requirement each document addresses,
  from elements that name it, the gaps that leaves, and the threshold. \<open>apply_coverage\<close> of
  \<open>product/service.py\<close> folds the gaps into the validation an approval looks at. The fractions
  the code computes as floats are exact rationals here.
\<close>

datatype coverage_state = CV_COVERED | CV_PARTIALLY_COVERED | CV_MISSING | CV_CONTRADICTED | CV_NOT_APPLICABLE

definition coverage_satisfied :: "coverage_state \<Rightarrow> bool" where
  "coverage_satisfied s \<longleftrightarrow> s \<in> {CV_COVERED, CV_NOT_APPLICABLE}"

definition is_gap :: "coverage_state \<Rightarrow> bool" where
  "is_gap s \<longleftrightarrow> s \<in> {CV_MISSING, CV_PARTIALLY_COVERED, CV_CONTRADICTED}"

datatype criticality = CR_CRITICAL | CR_IMPORTANT | CR_OPTIONAL

fun criticality_of_priority :: "priority \<Rightarrow> criticality" where
  "criticality_of_priority MUST = CR_CRITICAL"
| "criticality_of_priority SHOULD = CR_IMPORTANT"
| "criticality_of_priority COULD = CR_OPTIONAL"
| "criticality_of_priority WONT = CR_OPTIONAL"

definition criticality_of :: "product_requirement \<Rightarrow> criticality" where
  "criticality_of r = criticality_of_priority (pr_priority r)"

definition applies_to :: "product_requirement \<Rightarrow> artifact_kind \<Rightarrow> bool" where
  "applies_to r k \<longleftrightarrow>
     (if pr_priority r = WONT then False else if k = AK_UX_SPEC then pr_kind r = FUNCTIONAL else True)"

record coverage_evidence =
  ev_id :: string
  ev_kind :: string
  ev_detail :: string

record coverage_entry =
  ce_requirement :: string
  ce_title :: string
  ce_criticality :: criticality
  ce_ux :: coverage_state
  ce_arch :: coverage_state
  ce_plan :: coverage_state
  ce_ux_evidence :: "coverage_evidence list"
  ce_arch_evidence :: "coverage_evidence list"
  ce_plan_evidence :: "coverage_evidence list"

definition state_for :: "coverage_entry \<Rightarrow> artifact_kind \<Rightarrow> coverage_state" where
  "state_for e k = (if k = AK_UX_SPEC then ce_ux e else if k = AK_IMPLEMENTATION_PLAN then ce_plan e else ce_arch e)"

definition evidence_for :: "coverage_entry \<Rightarrow> artifact_kind \<Rightarrow> coverage_evidence list" where
  "evidence_for e k =
     (if k = AK_UX_SPEC then ce_ux_evidence e
      else if k = AK_IMPLEMENTATION_PLAN then ce_plan_evidence e else ce_arch_evidence e)"

definition fully_covered :: "coverage_entry \<Rightarrow> bool" where
  "fully_covered e \<longleftrightarrow> coverage_satisfied (ce_ux e) \<and> coverage_satisfied (ce_arch e) \<and> coverage_satisfied (ce_plan e)"

record coverage_gap =
  cg_requirement :: string
  cg_title :: string
  cg_artifact :: artifact_kind
  cg_state :: coverage_state
  cg_criticality :: criticality
  cg_stage :: string
  cg_evidence :: "coverage_evidence list"

definition gap_blocking :: "coverage_gap \<Rightarrow> bool" where
  "gap_blocking g \<longleftrightarrow> cg_criticality g = CR_CRITICAL \<or> cg_state g = CV_CONTRADICTED"

definition gap_code :: "coverage_gap \<Rightarrow> string" where
  "gap_code g = (if gap_blocking g then ''COVERAGE_GAP'' else ''ADVISORY_COVERAGE_GAP'')"

record coverage_threshold =
  ct_all_critical :: bool
  ct_important :: rat
  ct_overall :: rat

definition default_threshold :: coverage_threshold where
  "default_threshold = \<lparr>ct_all_critical = True, ct_important = 1 / 2, ct_overall = 0\<rparr>"

record coverage_matrix =
  cm_entries :: "coverage_entry list"
  cm_gaps :: "coverage_gap list"
  cm_contradictions :: "contradiction list"

definition gaps_for :: "coverage_matrix \<Rightarrow> artifact_kind \<Rightarrow> coverage_gap list" where
  "gaps_for m k = filter (\<lambda>g. cg_artifact g = k) (cm_gaps m)"

definition blocking_gaps :: "coverage_matrix \<Rightarrow> coverage_gap list" where
  "blocking_gaps m = filter gap_blocking (cm_gaps m)"

definition covered_fraction :: "coverage_entry list \<Rightarrow> artifact_kind \<Rightarrow> rat" where
  "covered_fraction es k =
     (let applicable = filter (\<lambda>e. state_for e k \<noteq> CV_NOT_APPLICABLE) es in
      if applicable = [] then 1
      else of_nat (length (filter (\<lambda>e. state_for e k = CV_COVERED) applicable)) / of_nat (length applicable))"

definition coverage :: "coverage_matrix \<Rightarrow> artifact_kind \<Rightarrow> rat" where
  "coverage m k = covered_fraction (cm_entries m) k"

definition coverage_at :: "coverage_matrix \<Rightarrow> artifact_kind \<Rightarrow> criticality \<Rightarrow> rat" where
  "coverage_at m k c = covered_fraction (filter (\<lambda>e. ce_criticality e = c) (cm_entries m)) k"

definition missing_requirements :: "coverage_matrix \<Rightarrow> artifact_kind \<Rightarrow> string list" where
  "missing_requirements m k = map ce_requirement (filter (\<lambda>e. state_for e k = CV_MISSING) (cm_entries m))"

definition partial_requirements :: "coverage_matrix \<Rightarrow> artifact_kind \<Rightarrow> string list" where
  "partial_requirements m k = map ce_requirement (filter (\<lambda>e. state_for e k = CV_PARTIALLY_COVERED) (cm_entries m))"

definition coverage_satisfies :: "coverage_matrix \<Rightarrow> artifact_kind \<Rightarrow> coverage_threshold \<Rightarrow> bool" where
  "coverage_satisfies m k t \<longleftrightarrow>
     \<not> (ct_all_critical t \<and> coverage_at m k CR_CRITICAL < 1) \<and>
     \<not> coverage_at m k CR_IMPORTANT < ct_important t \<and> ct_overall t \<le> coverage m k"

section \<open>The analysis\<close>

definition evidence :: "string \<Rightarrow> string \<Rightarrow> string \<Rightarrow> coverage_evidence" where
  "evidence i k d = \<lparr>ev_id = i, ev_kind = k, ev_detail = d\<rparr>"

definition collect_ux :: "ux_document \<Rightarrow> string \<Rightarrow> coverage_evidence list" where
  "collect_ux u r =
     map (\<lambda>f. evidence (fl_id f) ''flow'' (fl_name f)) (filter (\<lambda>f. r \<in> set (fl_satisfies f)) (ux_flows u)) @
     map (\<lambda>s. evidence (sn_id s) ''screen'' (sn_name s)) (filter (\<lambda>s. r \<in> set (sn_satisfies s)) (ux_screens u))"

definition collect_architecture :: "arch_document \<Rightarrow> string \<Rightarrow> coverage_evidence list" where
  "collect_architecture a r =
     map (\<lambda>c. evidence (am_id c) ''component'' (am_name c)) (filter (\<lambda>c. r \<in> set (am_satisfies c)) (ar_components a)) @
     map (\<lambda>e. evidence (en_id e) ''entity'' (en_name e)) (filter (\<lambda>e. r \<in> set (en_satisfies e)) (ar_entities a)) @
     map (\<lambda>e. evidence (ep_id e) ''endpoint'' (ep_path e)) (filter (\<lambda>e. r \<in> set (ep_satisfies e)) (ar_endpoints a)) @
     map (\<lambda>d. evidence (ad_id d) ''decision'' (ad_title d)) (filter (\<lambda>d. r \<in> set (ad_requirements d)) (ar_decisions a))"

definition ux_strong :: "string list" where
  "ux_strong = [''flow'']"

definition arch_strong :: "string list" where
  "arch_strong = [''component'', ''entity'', ''endpoint'']"

definition state_from :: "coverage_evidence list \<Rightarrow> string list \<Rightarrow> coverage_state" where
  "state_from found strong =
     (if found = [] then CV_MISSING
      else if list_ex (\<lambda>e. ev_kind e \<in> set strong) found then CV_COVERED
      else CV_PARTIALLY_COVERED)"

definition contradicted :: "product_requirement \<Rightarrow> product_property list \<Rightarrow> bool" where
  "contradicted r ps \<longleftrightarrow> find_conflicts (pr_properties r) ps \<noteq> []"

definition assess ::
    "product_requirement \<Rightarrow> coverage_evidence list \<Rightarrow> string list \<Rightarrow> product_property list \<Rightarrow> coverage_state" where
  "assess r found strong ps =
     (if found \<noteq> [] \<and> contradicted r ps then CV_CONTRADICTED else state_from found strong)"

definition assess_ux :: "ux_document option \<Rightarrow> product_requirement \<Rightarrow> coverage_state \<times> coverage_evidence list" where
  "assess_ux ux r =
     (case ux of
        None \<Rightarrow> (CV_MISSING, [])
      | Some u \<Rightarrow>
          if \<not> applies_to r AK_UX_SPEC then (CV_NOT_APPLICABLE, [])
          else (let found = collect_ux u (pr_id r) in (assess r found ux_strong (ux_properties u), found)))"

definition assess_architecture :: "arch_document option \<Rightarrow> product_requirement \<Rightarrow> coverage_state \<times> coverage_evidence list" where
  "assess_architecture arch r =
     (case arch of
        None \<Rightarrow> (CV_MISSING, [])
      | Some a \<Rightarrow>
          if \<not> applies_to r AK_SYSTEM_ARCHITECTURE then (CV_NOT_APPLICABLE, [])
          else (let found = collect_architecture a (pr_id r) in (assess r found arch_strong (ar_properties a), found)))"

definition assess_plan :: "plan_document option \<Rightarrow> product_requirement \<Rightarrow> coverage_state \<times> coverage_evidence list" where
  "assess_plan pl r =
     (case pl of
        None \<Rightarrow> (CV_NOT_APPLICABLE, [])
      | Some p \<Rightarrow>
          if \<not> applies_to r AK_IMPLEMENTATION_PLAN then (CV_NOT_APPLICABLE, [])
          else (let tasks = map (\<lambda>t. evidence (pt_task_id t) ''task'' (pt_title t))
                      (filter (\<lambda>t. pr_id r \<in> set (pt_implements t)) (pl_tasks p)) in
                (if tasks = [] then CV_MISSING else CV_COVERED, tasks)))"

definition entry_for ::
    "ux_document option \<Rightarrow> arch_document option \<Rightarrow> plan_document option \<Rightarrow> product_requirement \<Rightarrow> coverage_entry" where
  "entry_for ux arch pl r =
     \<lparr>ce_requirement = pr_id r, ce_title = pr_title r, ce_criticality = criticality_of r,
      ce_ux = fst (assess_ux ux r), ce_arch = fst (assess_architecture arch r), ce_plan = fst (assess_plan pl r),
      ce_ux_evidence = snd (assess_ux ux r), ce_arch_evidence = snd (assess_architecture arch r),
      ce_plan_evidence = snd (assess_plan pl r)\<rparr>"

fun gap_stage :: "artifact_kind \<Rightarrow> string" where
  "gap_stage AK_UX_SPEC = ''ux.flows''"
| "gap_stage AK_SYSTEM_ARCHITECTURE = ''arch.components''"
| "gap_stage AK_IMPLEMENTATION_PLAN = ''arch.plan''"
| "gap_stage k = []"

definition gap_of :: "coverage_entry \<Rightarrow> artifact_kind \<Rightarrow> coverage_gap" where
  "gap_of e k =
     \<lparr>cg_requirement = ce_requirement e, cg_title = ce_title e, cg_artifact = k, cg_state = state_for e k,
      cg_criticality = ce_criticality e, cg_stage = gap_stage k, cg_evidence = evidence_for e k\<rparr>"

definition build_gaps :: "coverage_entry list \<Rightarrow> bool \<Rightarrow> bool \<Rightarrow> bool \<Rightarrow> coverage_gap list" where
  "build_gaps es has_ux has_arch has_plan =
     concat (map (\<lambda>e.
       map (\<lambda>(k, exists). gap_of e k)
         (filter (\<lambda>(k, exists). exists \<and> is_gap (state_for e k))
           [(AK_UX_SPEC, has_ux), (AK_SYSTEM_ARCHITECTURE, has_arch), (AK_IMPLEMENTATION_PLAN, has_plan)])) es)"

definition analyse_coverage ::
    "prd_document \<Rightarrow> ux_document option \<Rightarrow> arch_document option \<Rightarrow> plan_document option \<Rightarrow> bool \<Rightarrow> coverage_matrix" where
  "analyse_coverage prd ux arch pl with_contradictions =
     (let es = map (entry_for ux arch pl) (pd_requirements prd) in
      \<lparr>cm_entries = es, cm_gaps = build_gaps es (ux \<noteq> None) (arch \<noteq> None) (pl \<noteq> None),
       cm_contradictions = (if with_contradictions then check_all (Some prd) ux arch False else [])\<rparr>)"

text \<open>\<open>_apply_coverage\<close>; its threshold is not used.\<close>

definition apply_coverage ::
    "coverage_threshold \<Rightarrow> coverage_matrix \<Rightarrow> artifact_kind \<Rightarrow> validation_outcome \<Rightarrow> validation_outcome" where
  "apply_coverage t m k v =
     (let issues = map (\<lambda>g. issue (gap_code g) (cg_requirement g) (gap_blocking g)) (gaps_for m k) in
      if issues = [] then v
      else \<lparr>ao_state = (if list_ex vi_blocking (ao_issues v @ issues) then VS_INVALID else ao_state v),
            ao_issues = ao_issues v @ issues\<rparr>)"

section \<open>What the analysis reports\<close>

text \<open>A document delivers a requirement by an element of the kinds that count, and mentions it by
  any element.\<close>

definition delivers :: "product_document \<Rightarrow> product_requirement \<Rightarrow> bool" where
  "delivers d r \<longleftrightarrow>
     (case d of
        Ux u \<Rightarrow> \<exists>f \<in> set (ux_flows u). pr_id r \<in> set (fl_satisfies f)
      | Arch a \<Rightarrow> (\<exists>c \<in> set (ar_components a). pr_id r \<in> set (am_satisfies c)) \<or>
          (\<exists>e \<in> set (ar_entities a). pr_id r \<in> set (en_satisfies e)) \<or>
          (\<exists>e \<in> set (ar_endpoints a). pr_id r \<in> set (ep_satisfies e))
      | Plan p \<Rightarrow> \<exists>t \<in> set (pl_tasks p). pr_id r \<in> set (pt_implements t)
      | Prd _ \<Rightarrow> False)"

definition mentions :: "product_document \<Rightarrow> product_requirement \<Rightarrow> bool" where
  "mentions d r \<longleftrightarrow>
     delivers d r \<or>
     (case d of
        Ux u \<Rightarrow> \<exists>s \<in> set (ux_screens u). pr_id r \<in> set (sn_satisfies s)
      | Arch a \<Rightarrow> \<exists>x \<in> set (ar_decisions a). pr_id r \<in> set (ad_requirements x)
      | _ \<Rightarrow> False)"

definition analysed ::
    "product_document \<Rightarrow> ux_document option \<Rightarrow> arch_document option \<Rightarrow> plan_document option \<Rightarrow> bool" where
  "analysed d ux arch pl \<longleftrightarrow>
     (case d of Ux u \<Rightarrow> ux = Some u | Arch a \<Rightarrow> arch = Some a | Plan p \<Rightarrow> pl = Some p | Prd _ \<Rightarrow> False)"

definition coverage_spec :: "product_document \<Rightarrow> product_requirement \<Rightarrow> coverage_state" where
  "coverage_spec d r =
     (if \<not> applies_to r (document_kind d) then CV_NOT_APPLICABLE
      else if \<not> mentions d r then CV_MISSING
      else if excludes (pr_properties r) (properties_of d) then CV_CONTRADICTED
      else if delivers d r then CV_COVERED else CV_PARTIALLY_COVERED)"

lemma evidence_fields [simp]: "ev_id (evidence i k d) = i" "ev_kind (evidence i k d) = k"
  by (simp_all add: evidence_def)

lemma collect_ux_mentions:
  "collect_ux u (pr_id r) = [] \<longleftrightarrow> \<not> mentions (Ux u) r"
  "list_ex (\<lambda>e. ev_kind e \<in> set ux_strong) (collect_ux u (pr_id r)) \<longleftrightarrow> delivers (Ux u) r"
  by (auto simp: collect_ux_def mentions_def delivers_def filter_empty_conv)
    (auto simp: collect_ux_def delivers_def ux_strong_def list_ex_pieces)

lemma collect_architecture_mentions:
  "collect_architecture a (pr_id r) = [] \<longleftrightarrow> \<not> mentions (Arch a) r"
  "list_ex (\<lambda>e. ev_kind e \<in> set arch_strong) (collect_architecture a (pr_id r)) \<longleftrightarrow> delivers (Arch a) r"
  by (auto simp: collect_architecture_def mentions_def delivers_def filter_empty_conv)
    (auto simp: collect_architecture_def delivers_def arch_strong_def list_ex_pieces)

lemma excludes_nothing [simp]: "\<not> excludes ps []"
  by (simp add: excludes_def implied_def)

lemma entry_state:
  assumes "analysed d ux arch pl"
  shows "state_for (entry_for ux arch pl r) (document_kind d) = coverage_spec d r"
proof (cases d)
  case (Ux u)
  then show ?thesis
    using assms collect_ux_mentions [of u r]
    by (simp add: analysed_def state_for_def entry_for_def assess_ux_def assess_def state_from_def
        coverage_spec_def contradicted_def find_conflicts_Nil properties_of_def Let_def)
next
  case (Arch a)
  then show ?thesis
    using assms collect_architecture_mentions [of a r]
    by (simp add: analysed_def state_for_def entry_for_def assess_architecture_def assess_def state_from_def
        coverage_spec_def contradicted_def find_conflicts_Nil properties_of_def Let_def)
next
  case (Plan p)
  then show ?thesis
    using assms
    by (auto simp: analysed_def state_for_def entry_for_def assess_plan_def coverage_spec_def mentions_def
        delivers_def properties_of_def filter_empty_conv Let_def)
qed (use assms in \<open>simp add: analysed_def\<close>)

lemma gap_of_fields [simp]:
  "cg_requirement (gap_of e k) = ce_requirement e" "cg_artifact (gap_of e k) = k"
  "cg_state (gap_of e k) = state_for e k" "cg_criticality (gap_of e k) = ce_criticality e"
  by (simp_all add: gap_of_def)

lemma entry_fields [simp]:
  "ce_requirement (entry_for ux arch pl r) = pr_id r" "ce_criticality (entry_for ux arch pl r) = criticality_of r"
  by (simp_all add: entry_for_def)

lemma analysed_kind:
  "analysed d ux arch pl \<Longrightarrow>
     (document_kind d, True) \<in> {(AK_UX_SPEC, ux \<noteq> None), (AK_SYSTEM_ARCHITECTURE, arch \<noteq> None), (AK_IMPLEMENTATION_PLAN, pl \<noteq> None)}"
  by (cases d) (auto simp: analysed_def)

lemma gaps_exact:
  assumes "analysed d ux arch pl"
  shows "set (gaps_for (analyse_coverage prd ux arch pl c) (document_kind d)) =
    (\<lambda>r. gap_of (entry_for ux arch pl r) (document_kind d)) ` {r \<in> set (pd_requirements prd). is_gap (coverage_spec d r)}"
proof -
  let ?k = "document_kind d"
  have one: "filter (\<lambda>g. cg_artifact g = ?k) (build_gaps [e] (ux \<noteq> None) (arch \<noteq> None) (pl \<noteq> None)) =
      (if is_gap (state_for e ?k) then [gap_of e ?k] else [])" for e
    using analysed_kind [OF assms] by (cases d) (auto simp: build_gaps_def)
  have "filter (\<lambda>g. cg_artifact g = ?k) (build_gaps es (ux \<noteq> None) (arch \<noteq> None) (pl \<noteq> None)) =
      concat (map (\<lambda>e. if is_gap (state_for e ?k) then [gap_of e ?k] else []) es)" for es
  proof (induction es)
    case (Cons e es)
    have "build_gaps (e # es) x y z = build_gaps [e] x y z @ build_gaps es x y z" for x y z
      by (simp add: build_gaps_def)
    then show ?case using Cons one [of e] by simp
  qed (simp add: build_gaps_def)
  then show ?thesis
    by (auto simp: gaps_for_def analyse_coverage_def Let_def entry_state [OF assms] image_iff split: if_splits)
qed

text \<open>What a project must cover before it is approved.\<close>

definition requirement_met :: "product_document \<Rightarrow> product_requirement \<Rightarrow> bool" where
  "requirement_met d r \<longleftrightarrow>
     \<not> applies_to r (document_kind d) \<or>
     (pr_priority r \<noteq> MUST \<or> delivers d r) \<and> (\<not> mentions d r \<or> \<not> excludes (pr_properties r) (properties_of d))"

lemma met_iff:
  "requirement_met d r \<longleftrightarrow>
     \<not> (is_gap (coverage_spec d r) \<and> (criticality_of r = CR_CRITICAL \<or> coverage_spec d r = CV_CONTRADICTED))"
proof -
  have "criticality_of r = CR_CRITICAL \<longleftrightarrow> pr_priority r = MUST"
    by (cases "pr_priority r") (simp_all add: criticality_of_def)
  moreover have "delivers d r \<Longrightarrow> mentions d r" by (simp add: mentions_def)
  ultimately show ?thesis by (auto simp: requirement_met_def is_gap_def coverage_spec_def)
qed

lemma blocking_gap_iff:
  assumes "analysed d ux arch pl"
  shows "list_ex gap_blocking (gaps_for (analyse_coverage prd ux arch pl c) (document_kind d)) \<longleftrightarrow>
    (\<exists>r \<in> set (pd_requirements prd). \<not> requirement_met d r)"
  unfolding list_ex_iff gaps_exact [OF assms] met_iff
  by (auto simp: gap_blocking_def entry_state [OF assms])

text \<open>The coverage matrix of the documents of a project. A document addresses a requirement as
  its own elements say: a requirement that does not concern the document is not counted, one no
  element names is missing, one whose properties exclude the document's is contradicted, and of
  the rest those a flow, a component, an entity, an endpoint or a task carries are covered. The
  gaps are the missing, partial and contradicted ones, and one of them blocks exactly when a
  MUST requirement is not delivered or a named one is contradicted.
\<close>

theorem coverage_exact:
  assumes "analysed d ux arch pl"
  shows "map (\<lambda>e. state_for e (document_kind d)) (cm_entries (analyse_coverage prd ux arch pl c)) =
      map (coverage_spec d) (pd_requirements prd) \<and>
    (\<lambda>g. (cg_requirement g, cg_state g)) ` set (gaps_for (analyse_coverage prd ux arch pl c) (document_kind d)) =
      {(pr_id r, coverage_spec d r) | r. r \<in> set (pd_requirements prd) \<and> is_gap (coverage_spec d r)} \<and>
    (list_ex gap_blocking (gaps_for (analyse_coverage prd ux arch pl c) (document_kind d)) \<longleftrightarrow>
      (\<exists>r \<in> set (pd_requirements prd). \<not> requirement_met d r))"
proof (intro conjI)
  show "map (\<lambda>e. state_for e (document_kind d)) (cm_entries (analyse_coverage prd ux arch pl c)) =
      map (coverage_spec d) (pd_requirements prd)"
    by (simp add: analyse_coverage_def Let_def entry_state [OF assms])
  show "(\<lambda>g. (cg_requirement g, cg_state g)) ` set (gaps_for (analyse_coverage prd ux arch pl c) (document_kind d)) =
      {(pr_id r, coverage_spec d r) | r. r \<in> set (pd_requirements prd) \<and> is_gap (coverage_spec d r)}"
    unfolding gaps_exact [OF assms] by (auto simp: image_iff entry_state [OF assms])
qed (rule blocking_gap_iff [OF assms])

section \<open>The approval gate\<close>

lemma validated_no_blocking:
  "outcome_valid (validate_against_dependencies a deps) \<Longrightarrow>
     \<not> list_ex vi_blocking (ao_issues (validate_against_dependencies a deps))"
  by (auto simp: validate_against_dependencies_def validate_artifact_def outcome_valid_def Let_def
      split: sum.splits if_splits)

lemma apply_coverage_valid:
  assumes "outcome_valid w \<Longrightarrow> \<not> list_ex vi_blocking (ao_issues w)"
  shows "outcome_valid (apply_coverage t m k w) \<longleftrightarrow> outcome_valid w \<and> \<not> list_ex gap_blocking (gaps_for m k)"
proof -
  have "list_ex vi_blocking (map (\<lambda>g. issue (gap_code g) (cg_requirement g) (gap_blocking g)) (gaps_for m k))
      \<longleftrightarrow> list_ex gap_blocking (gaps_for m k)"
    by (simp add: list_ex_iff)
  then show ?thesis using assms by (auto simp: apply_coverage_def outcome_valid_def Let_def)
qed

text \<open>C14. The gate. A draft whose validation was folded with the coverage of its document is approved
  exactly when it validated against its dependencies, every MUST requirement that concerns it is
  delivered by it, and none it names is contradicted by its properties; the threshold given makes
  no difference.
\<close>

theorem coverage_gate:
  assumes "table_ok s" "get_artifact s i v = Inr (Some a)" "af_status a = AS_DRAFT" "analysed d ux arch pl"
    "af_validation a =
       apply_coverage t (analyse_coverage prd ux arch pl c) (document_kind d) (validate_against_dependencies a0 deps)"
  shows "is_ok (fst (approve_stored i v s)) \<longleftrightarrow>
    outcome_valid (validate_against_dependencies a0 deps) \<and> (\<forall>r \<in> set (pd_requirements prd). requirement_met d r)"
proof -
  have "is_ok (fst (approve_stored i v s)) \<longleftrightarrow> outcome_valid (af_validation a)"
    using approve_stored_succeeds(1) [OF assms(1,2)] approve_stored_refused(1) [OF assms(2)] assms(3)
    by (cases "outcome_valid (af_validation a)") (auto simp: artifact_can_transition_def)
  also have "\<dots> \<longleftrightarrow> outcome_valid (validate_against_dependencies a0 deps) \<and>
      \<not> list_ex gap_blocking (gaps_for (analyse_coverage prd ux arch pl c) (document_kind d))"
    unfolding assms(5) by (rule apply_coverage_valid) (rule validated_no_blocking)
  finally show ?thesis unfolding blocking_gap_iff [OF assms(4)] by blast
qed

section \<open>A small project\<close>

definition sample_requirement :: "string \<Rightarrow> priority \<Rightarrow> product_requirement" where
  "sample_requirement i p = \<lparr>pr_id = i, pr_title = ''t'', pr_statement = ''s'', pr_kind = FUNCTIONAL, pr_priority = p,
     pr_properties = [], pr_authority = USER_APPROVED_REQUIREMENT, pr_related_to = []\<rparr>"

definition sample_prd :: prd_document where
  "sample_prd = \<lparr>pd_problem = ''p'', pd_goals = [], pd_constraints = [], pd_non_goals = [], pd_personas = [], pd_stories = [],
     pd_requirements = [sample_requirement ''REQ-001'' MUST, sample_requirement ''REQ-002'' SHOULD], pd_risks = [],
     pd_metrics = [], pd_criteria = [], pd_questions = []\<rparr>"

definition sample_flow :: flow where
  "sample_flow = \<lparr>fl_id = ''UX-001'', fl_name = ''f'', fl_persona = [], fl_entry = ''UX-001-S1'',
     fl_steps = [\<lparr>st_id = ''UX-001-S1'', st_name = ''done'', st_kind = SK_TERMINAL, st_screen = [], st_next = [],
       st_error = []\<rparr>], fl_satisfies = [''REQ-001'']\<rparr>"

definition sample_ux :: ux_document where
  "sample_ux = \<lparr>ux_overview = ''o'', ux_patterns = [], ux_flows = [sample_flow], ux_screens = [], ux_components = [],
     ux_tokens = [], ux_accessibility = [], ux_properties = []\<rparr>"

definition sample_prd_artifact :: artifact where
  "sample_prd_artifact = (sample_artifact AK_PRD (Prd sample_prd))\<lparr>af_id := ''art_0''\<rparr>"

definition sample_validation :: validation_outcome where
  "sample_validation = validate_against_dependencies (sample_artifact AK_UX_SPEC (Ux sample_ux)) [sample_prd_artifact]"

definition sample_ux_artifact :: artifact where
  "sample_ux_artifact = (sample_artifact AK_UX_SPEC (Ux sample_ux))\<lparr>af_validation :=
     apply_coverage default_threshold (analyse_coverage sample_prd (Some sample_ux) None None True) AK_UX_SPEC sample_validation\<rparr>"

lemma sample_requirements:
  "pd_requirements sample_prd = [sample_requirement ''REQ-001'' MUST, sample_requirement ''REQ-002'' SHOULD]"
  by (simp add: sample_prd_def)

lemma sample_covered: "analysed (Ux sample_ux) (Some sample_ux) None None"
  "coverage_spec (Ux sample_ux) (sample_requirement ''REQ-001'' MUST) = CV_COVERED"
  "coverage_spec (Ux sample_ux) (sample_requirement ''REQ-002'' SHOULD) = CV_MISSING"
  by (simp_all add: analysed_def coverage_spec_def applies_to_def mentions_def delivers_def sample_requirement_def
      sample_ux_def sample_flow_def properties_of_def)

theorem coverage_exact_witness:
  "(\<lambda>g. (cg_requirement g, cg_state g)) `
     set (gaps_for (analyse_coverage sample_prd (Some sample_ux) None None True) AK_UX_SPEC) = {(''REQ-002'', CV_MISSING)}"
proof -
  have "(\<lambda>g. (cg_requirement g, cg_state g)) `
      set (gaps_for (analyse_coverage sample_prd (Some sample_ux) None None True) AK_UX_SPEC) =
    {(pr_id r, coverage_spec (Ux sample_ux) r) | r. r \<in> set (pd_requirements sample_prd) \<and> is_gap (coverage_spec (Ux sample_ux) r)}"
    using coverage_exact [OF sample_covered(1), of sample_prd True] by simp
  also have "\<dots> = set (map (\<lambda>r. (pr_id r, coverage_spec (Ux sample_ux) r))
      (filter (\<lambda>r. is_gap (coverage_spec (Ux sample_ux) r)) (pd_requirements sample_prd)))" by auto
  also have "\<dots> = {(''REQ-002'', CV_MISSING)}"
    using sample_covered(2,3) by (simp add: sample_requirements is_gap_def) (simp add: sample_requirement_def)
  finally show ?thesis .
qed

theorem coverage_gate_witness:
  "af_status sample_ux_artifact = AS_DRAFT \<and> is_ok (fst (approve_stored ''art_1'' None [version_row sample_ux_artifact]))"
proof -
  have st: "af_status sample_ux_artifact = AS_DRAFT" by (simp add: sample_ux_artifact_def sample_artifact_def)
  have auth: "\<not> elevated_authority (af_authority sample_ux_artifact)"
    by (simp add: sample_ux_artifact_def sample_artifact_def elevated_authority_def)
  have ok: "artifact_valid sample_ux_artifact" using st auth by (simp add: artifact_valid_def)
  have t: "table_ok [version_row sample_ux_artifact]" using ok auth by (simp add: table_ok_def version_row_ok_iff)
  have "af_id sample_ux_artifact = ''art_1''" by (simp add: sample_ux_artifact_def sample_artifact_def)
  then have g: "get_artifact [version_row sample_ux_artifact] ''art_1'' None = Inr (Some sample_ux_artifact)"
    using ok by (simp add: get_artifact_def id_rows_def decode_artifact_def)
  have v: "outcome_valid sample_validation" by code_simp
  have "\<not> is_gap CV_COVERED" "criticality_of (sample_requirement ''REQ-002'' SHOULD) = CR_IMPORTANT"
    by (simp_all add: is_gap_def criticality_of_def sample_requirement_def)
  then have m: "\<forall>r \<in> set (pd_requirements sample_prd). requirement_met (Ux sample_ux) r"
    unfolding sample_requirements met_iff using sample_covered(2,3) by simp
  show ?thesis
    using coverage_gate [OF t g st sample_covered(1), of default_threshold sample_prd True
        "sample_artifact AK_UX_SPEC (Ux sample_ux)" "[sample_prd_artifact]"] v m st
    by (simp add: sample_validation_def sample_ux_artifact_def)
qed

end
