(* ===== verification/Product_Review.thy ===== *)
theory Product_Review
  imports Product_Coverage Adjudication
begin

text \<open>
  Deterministic reviews of the documents (\<open>edith/product/review.py\<close>): findings computed from their
  structure and a verdict computed from the findings, and the reviews of a whole project
  (\<open>ProductService.review_project\<close>). Messages and remedies are left out.
\<close>

datatype review_perspective =
  RP_UX_COVERAGE | RP_ARCHITECTURE_FEASIBILITY | RP_CONTRADICTION | RP_REQUIREMENT_QUALITY | RP_PLAN_EXECUTABILITY

datatype finding_severity = FS_BLOCKER | FS_MAJOR | FS_MINOR | FS_INFO

definition severity_blocks :: "finding_severity \<Rightarrow> bool" where
  "severity_blocks s \<longleftrightarrow> s = FS_BLOCKER"

record review_finding =
  rf_finding :: string
  rf_perspective :: review_perspective
  rf_severity :: finding_severity
  rf_code :: string
  rf_element :: string

record review_document =
  rv_subject :: artifact_ref
  rv_reviewer :: string
  rv_perspectives :: "review_perspective list"
  rv_verdict :: verdict
  rv_findings :: "review_finding list"

definition review_element_ids :: "review_document \<Rightarrow> string list" where
  "review_element_ids v = map rf_finding (rv_findings v)"

definition review_blockers :: "review_document \<Rightarrow> review_finding list" where
  "review_blockers v = filter (\<lambda>f. severity_blocks (rf_severity f)) (rv_findings v)"

definition review_finding_of ::
    "nat \<Rightarrow> review_perspective \<Rightarrow> finding_severity \<Rightarrow> string \<Rightarrow> string \<Rightarrow> review_finding" where
  "review_finding_of n p s code element =
     \<lparr>rf_finding = ''FND-'' @ pad_three n, rf_perspective = p, rf_severity = s, rf_code = code, rf_element = element\<rparr>"

text \<open>A review numbers its findings in sequence; \<open>number_from\<close> applies numbered findings in order.\<close>

fun number_from :: "nat \<Rightarrow> (nat \<Rightarrow> review_finding) list \<Rightarrow> review_finding list" where
  "number_from n [] = []"
| "number_from n (f # fs) = f n # number_from (n + 1) fs"

definition from_validation_issues :: "validation_issue list \<Rightarrow> review_perspective \<Rightarrow> nat \<Rightarrow> review_finding list" where
  "from_validation_issues is p start =
     number_from start (map (\<lambda>i n. review_finding_of n p (if vi_blocking i then FS_BLOCKER else FS_MINOR) (vi_code i) (vi_element i)) is)"

definition from_contradictions :: "contradiction list \<Rightarrow> nat \<Rightarrow> review_finding list" where
  "from_contradictions cs start =
     number_from start (map (\<lambda>c n. review_finding_of n RP_CONTRADICTION (if cn_blocking c then FS_BLOCKER else FS_MINOR)
       (cn_code c) (case cn_elements c of [] \<Rightarrow> [] | e # _ \<Rightarrow> e)) cs)"

definition assemble_review ::
    "string \<Rightarrow> product_document \<Rightarrow> string \<Rightarrow> review_perspective list \<Rightarrow> review_finding list \<Rightarrow> review_document" where
  "assemble_review fresh subject reviewer ps fs =
     \<lparr>rv_subject = \<lparr>rf_id = fresh, rf_kind = document_kind subject, rf_version = 1, rf_title = []\<rparr>,
      rv_reviewer = reviewer, rv_perspectives = ps,
      rv_verdict = (if filter (\<lambda>f. severity_blocks (rf_severity f)) fs = [] then V_PASS else V_FAIL),
      rv_findings = fs\<rparr>"

definition review_prd_for_ux_coverage :: "string \<Rightarrow> prd_document \<Rightarrow> ux_document \<Rightarrow> review_document" where
  "review_prd_for_ux_coverage fresh prd u =
     (let fs = from_validation_issues (coverage_issues prd (Some u) None None) RP_UX_COVERAGE 1 in
      assemble_review fresh (Prd prd) ''ux_designer'' [RP_UX_COVERAGE]
        (fs @ number_from (length fs + 1)
           (map (\<lambda>i n. review_finding_of n RP_UX_COVERAGE FS_MAJOR ''FLOW_WITHOUT_ERROR_PATH'' i) (flows_without_error_paths u))))"

definition review_prd_for_feasibility :: "string \<Rightarrow> prd_document \<Rightarrow> arch_document \<Rightarrow> review_document" where
  "review_prd_for_feasibility fresh prd a =
     (let fs = from_validation_issues (coverage_issues prd None (Some a) None) RP_ARCHITECTURE_FEASIBILITY 1;
          gs = fs @ from_contradictions (check_all (Some prd) None (Some a) False) (length fs + 1) in
      assemble_review fresh (Prd prd) ''architect'' [RP_ARCHITECTURE_FEASIBILITY, RP_CONTRADICTION]
        (gs @ number_from (length gs + 1)
           (map (\<lambda>x n. review_finding_of n RP_ARCHITECTURE_FEASIBILITY FS_MINOR ''TECHNOLOGY_WITHOUT_ALTERNATIVES'' [])
              (unjustified_technologies a))))"

definition review_requirement_quality :: "string \<Rightarrow> prd_document \<Rightarrow> review_document" where
  "review_requirement_quality fresh prd =
     assemble_review fresh (Prd prd) ''critic'' [RP_REQUIREMENT_QUALITY]
       (number_from 1
          (map (\<lambda>i n. review_finding_of n RP_REQUIREMENT_QUALITY FS_MAJOR ''REQUIREMENT_WITHOUT_ACCEPTANCE_CRITERION'' i)
             (unverified_requirements prd) @
           (if pd_non_goals prd = [] then [\<lambda>n. review_finding_of n RP_REQUIREMENT_QUALITY FS_MINOR ''NO_NON_GOALS'' []] else []) @
           map (\<lambda>q n. review_finding_of n RP_REQUIREMENT_QUALITY FS_INFO ''OPEN_QUESTION'' (oq_id q)) (pd_questions prd)))"

definition review_plan :: "string \<Rightarrow> plan_document \<Rightarrow> arch_document \<Rightarrow> prd_document option \<Rightarrow> review_document" where
  "review_plan fresh p a prd =
     assemble_review fresh (Plan p) ''critic'' [RP_PLAN_EXECUTABILITY]
       (number_from 1
          ((if find_cycle p = [] then []
            else [\<lambda>n. review_finding_of n RP_PLAN_EXECUTABILITY FS_BLOCKER ''PLAN_CIRCULAR_DEPENDENCY'' []]) @
           concat (map (\<lambda>t. map (\<lambda>c n. review_finding_of n RP_PLAN_EXECUTABILITY FS_BLOCKER ''PLAN_UNKNOWN_COMPONENT'' (pt_task_id t))
             (filter (\<lambda>c. c \<notin> set (map am_id (ar_components a))) (pt_components t))) (pl_tasks p)) @
           (case prd of
              None \<Rightarrow> []
            | Some d \<Rightarrow> map (\<lambda>i n. review_finding_of n RP_PLAN_EXECUTABILITY FS_MAJOR (vi_code i) (vi_element i))
                (coverage_issues d None None (Some p)))))"

definition bind_subject :: "review_document \<Rightarrow> artifact_ref \<Rightarrow> review_document" where
  "bind_subject v r = v\<lparr>rv_subject := r\<rparr>"

definition merge_findings :: "review_document list \<Rightarrow> review_finding list" where
  "merge_findings vs =
     number_from 1 (map (\<lambda>f n. f\<lparr>rf_finding := ''FND-'' @ pad_three n\<rparr>) (concat (map rv_findings vs)))"

definition overall_verdict :: "review_document list \<Rightarrow> verdict" where
  "overall_verdict vs = (if list_ex (\<lambda>v. review_blockers v \<noteq> []) vs then V_FAIL else V_PASS)"

text \<open>The reviews of a project over the documents it has; \<open>fresh\<close> numbers their subjects.\<close>

definition review_project ::
    "(nat \<Rightarrow> string) \<Rightarrow> prd_document option \<Rightarrow> ux_document option \<Rightarrow> arch_document option \<Rightarrow> plan_document option \<Rightarrow>
     review_document list" where
  "review_project fresh prd ux arch pl =
     opt_list prd (\<lambda>d.
       review_requirement_quality (fresh 0) d #
       opt_list ux (\<lambda>u. [review_prd_for_ux_coverage (fresh 1) d u]) @
       opt_list arch (\<lambda>a. review_prd_for_feasibility (fresh 2) d a #
         opt_list pl (\<lambda>p. [review_plan (fresh 3) p a (Some d)])))"

section \<open>The verdict\<close>

definition has_blocker :: "review_finding list \<Rightarrow> bool" where
  "has_blocker fs \<longleftrightarrow> list_ex (\<lambda>f. severity_blocks (rf_severity f)) fs"

lemma has_blocker_pieces [simp]:
  "\<not> has_blocker []" "has_blocker (f # fs) \<longleftrightarrow> severity_blocks (rf_severity f) \<or> has_blocker fs"
  "has_blocker (xs @ ys) \<longleftrightarrow> has_blocker xs \<or> has_blocker ys"
  by (simp_all add: has_blocker_def)

lemma severity_of_finding [simp]: "rf_severity (review_finding_of n p s c e) = s"
  by (simp add: review_finding_of_def)

lemma severity_blocks_simps [simp]:
  "severity_blocks FS_BLOCKER" "\<not> severity_blocks FS_MAJOR" "\<not> severity_blocks FS_MINOR" "\<not> severity_blocks FS_INFO"
  by (simp_all add: severity_blocks_def)

lemma has_blocker_numbered [simp]:
  "has_blocker (number_from n (map (\<lambda>x m. review_finding_of m (p x) (s x) (c x) (e x)) xs)) \<longleftrightarrow>
     (\<exists>x \<in> set xs. severity_blocks (s x))"
  by (induction xs arbitrary: n) auto

lemma number_from_append [simp]: "number_from n (fs @ gs) = number_from n fs @ number_from (n + length fs) gs"
  by (induction fs arbitrary: n) simp_all

lemma has_blocker_concat:
  assumes "\<And>t m. has_blocker (number_from m (F t)) \<longleftrightarrow> B t"
  shows "has_blocker (number_from n (concat (map F ts))) \<longleftrightarrow> (\<exists>t \<in> set ts. B t)"
  by (induction ts arbitrary: n) (simp_all add: assms)

lemma review_blockers_assembled: "review_blockers (assemble_review x d r ps fs) = [] \<longleftrightarrow> \<not> has_blocker fs"
  by (auto simp: review_blockers_def assemble_review_def has_blocker_def list_ex_iff filter_empty_conv)

lemma verdict_assembled: "rv_verdict (assemble_review x d r ps fs) = (if has_blocker fs then V_FAIL else V_PASS)"
  by (auto simp: assemble_review_def has_blocker_def list_ex_iff filter_empty_conv)

lemma coverage_issues_advisory: "i \<in> set (coverage_issues prd ux arch pl) \<Longrightarrow> \<not> vi_blocking i"
  by (auto simp: coverage_issues_def uncovered_by_def issue_def Let_def split: option.splits)

lemma ux_review_passes: "review_blockers (review_prd_for_ux_coverage x d u) = []"
  by (simp add: review_prd_for_ux_coverage_def Let_def review_blockers_assembled from_validation_issues_def
      coverage_issues_advisory)

lemma quality_review_passes: "review_blockers (review_requirement_quality x d) = []"
  by (simp add: review_requirement_quality_def review_blockers_assembled)

lemma feasibility_blockers: "review_blockers (review_prd_for_feasibility x d a) = [] \<longleftrightarrow> design_agrees d a"
proof -
  have "cn_blocking c" if "c \<in> set (check_all (Some d) None (Some a) False)" for c
    using that by (auto simp: check_all_def opt_list_def structural_blocking)
  then have "(\<exists>c \<in> set (check_all (Some d) None (Some a) False). cn_blocking c) \<longleftrightarrow> check_all (Some d) None (Some a) False \<noteq> []"
    by (cases "check_all (Some d) None (Some a) False") auto
  moreover have "severity_blocks (if b then FS_BLOCKER else FS_MINOR) = b" for b by simp
  ultimately show ?thesis
    by (simp add: review_prd_for_feasibility_def Let_def review_blockers_assembled from_validation_issues_def
        from_contradictions_def coverage_issues_advisory check_all_design)
qed

lemma plan_blockers:
  "review_blockers (review_plan x p a prd) = [] \<longleftrightarrow>
     find_cycle p = [] \<and> (\<forall>t \<in> set (pl_tasks p). set (pt_components t) \<subseteq> am_id ` set (ar_components a))"
proof -
  have "has_blocker (number_from n (concat (map (\<lambda>t. map (\<lambda>c m. review_finding_of m RP_PLAN_EXECUTABILITY FS_BLOCKER
        ''PLAN_UNKNOWN_COMPONENT'' (pt_task_id t)) (filter (\<lambda>c. c \<notin> set (map am_id (ar_components a))) (pt_components t))) ts)))
      \<longleftrightarrow> (\<exists>t \<in> set ts. \<not> set (pt_components t) \<subseteq> am_id ` set (ar_components a))" for n and ts :: "planned_task list"
    by (rule has_blocker_concat) auto
  then show ?thesis
    by (cases prd) (simp_all add: review_plan_def review_blockers_assembled del: set_map)
qed


definition sample_architecture :: arch_document where
  "sample_architecture = \<lparr>ar_overview = ''o'', ar_constraints = [], ar_components = [], ar_decisions = [], ar_technologies = [],
     ar_entities = [\<lparr>en_id = ''ENT-001'', en_name = ''patient'', en_sensitive = True, en_satisfies = []\<rparr>], ar_endpoints = [],
     ar_flows = [], ar_threats = [], ar_properties = []\<rparr>"


end
