(* ===== verification/Product_Stages.thy ===== *)
theory Product_Stages
  imports Product_Artifacts Failure_Policy
begin

text \<open>
  Generation stages (\<open>edith/product/stages.py\<close>): the outcome of one stage with its classified
  failure and its measurement, and the ledger of a generation. The stage's generation is an
  argument that gives its output or raises; durations and details are left out.
\<close>

datatype stage_status = SG_VALID | SG_FAILED | SG_SKIPPED | SG_NOT_APPLICABLE

datatype stage_failure =
    SF_MODEL_FAILURE | SF_SCHEMA_VALIDATION_FAILURE | SF_TIMEOUT | SF_RETRY_EXHAUSTED
  | SF_CONTEXT_FAILURE | SF_ENVIRONMENT_FAILURE | SF_ARTIFACT_VALIDATION_FAILURE

fun stage_failure_category :: "stage_failure \<Rightarrow> failure_category" where
  "stage_failure_category SF_MODEL_FAILURE = MODEL_ERROR"
| "stage_failure_category SF_SCHEMA_VALIDATION_FAILURE = VALIDATION_FAILURE"
| "stage_failure_category SF_TIMEOUT = TIMEOUT"
| "stage_failure_category SF_RETRY_EXHAUSTED = VALIDATION_FAILURE"
| "stage_failure_category SF_CONTEXT_FAILURE = REQUIREMENT_FAILURE"
| "stage_failure_category SF_ENVIRONMENT_FAILURE = ENVIRONMENT_FAILURE"
| "stage_failure_category SF_ARTIFACT_VALIDATION_FAILURE = VALIDATION_FAILURE"

record stage_measurement =
  sm_stage :: string
  sm_input_chars :: nat
  sm_output_chars :: nat
  sm_schema_bytes :: nat
  sm_model_calls :: nat
  sm_attempts :: nat
  sm_elements :: nat

record 'a stage_result =
  sr_stage :: string
  sr_status :: stage_status
  sr_output :: "'a option"
  sr_failure :: "stage_failure option"
  sr_measurement :: "stage_measurement option"

definition stage_ok :: "'a stage_result \<Rightarrow> bool" where
  "stage_ok r \<longleftrightarrow> sr_status r = SG_VALID \<and> sr_output r \<noteq> None"

definition stage_attempted :: "'a stage_result \<Rightarrow> bool" where
  "stage_attempted r \<longleftrightarrow> sr_status r \<in> {SG_VALID, SG_FAILED}"

section \<open>The ledger\<close>

type_synonym 'a stage_ledger = "'a stage_result list"

definition ledger_get :: "'a stage_ledger \<Rightarrow> string \<Rightarrow> 'a stage_result option" where
  "ledger_get led n = find (\<lambda>r. sr_stage r = n) led"

definition ledger_output :: "'a stage_ledger \<Rightarrow> string \<Rightarrow> 'a option" where
  "ledger_output led n =
     (case ledger_get led n of None \<Rightarrow> None | Some r \<Rightarrow> if stage_ok r then sr_output r else None)"

definition valid_stages :: "'a stage_ledger \<Rightarrow> string list" where
  "valid_stages led = map sr_stage (filter stage_ok led)"

definition failed_stages :: "'a stage_ledger \<Rightarrow> string list" where
  "failed_stages led = map sr_stage (filter (\<lambda>r. sr_status r = SG_FAILED) led)"

definition ledger_complete :: "'a stage_ledger \<Rightarrow> bool" where
  "ledger_complete led \<longleftrightarrow> led \<noteq> [] \<and> failed_stages led = []"

definition ledger_failures :: "'a stage_ledger \<Rightarrow> stage_failure list" where
  "ledger_failures led = List.map_filter (\<lambda>r. if sr_status r = SG_FAILED then sr_failure r else None) led"

definition measurements :: "'a stage_ledger \<Rightarrow> stage_measurement list" where
  "measurements led = List.map_filter sr_measurement led"

record stage_totals =
  to_stages :: nat
  to_valid :: nat
  to_failed :: nat
  to_model_calls :: nat
  to_attempts :: nat
  to_input_chars :: nat
  to_output_chars :: nat
  to_largest_schema :: nat
  to_largest_input :: nat

definition ledger_totals :: "'a stage_ledger \<Rightarrow> stage_totals" where
  "ledger_totals led =
     (let ms = measurements led in
      \<lparr>to_stages = length led, to_valid = length (valid_stages led), to_failed = length (failed_stages led),
       to_model_calls = sum_list (map sm_model_calls ms), to_attempts = sum_list (map sm_attempts ms),
       to_input_chars = sum_list (map sm_input_chars ms), to_output_chars = sum_list (map sm_output_chars ms),
       to_largest_schema = fold max (map sm_schema_bytes ms) 0, to_largest_input = fold max (map sm_input_chars ms) 0\<rparr>)"

section \<open>Running a stage\<close>

datatype stage_exception =
    ProviderTimedOut
  | ProviderDown
  | StructuredOutputFailed
  | PydanticRefused
  | EdithRaised failure_category
  | OtherRaised

fun classify_exception :: "stage_exception \<Rightarrow> stage_failure" where
  "classify_exception ProviderTimedOut = SF_TIMEOUT"
| "classify_exception ProviderDown = SF_ENVIRONMENT_FAILURE"
| "classify_exception StructuredOutputFailed = SF_RETRY_EXHAUSTED"
| "classify_exception PydanticRefused = SF_SCHEMA_VALIDATION_FAILURE"
| "classify_exception (EdithRaised c) =
     (if c = ENVIRONMENT_FAILURE then SF_ENVIRONMENT_FAILURE
      else if c = VALIDATION_FAILURE then SF_SCHEMA_VALIDATION_FAILURE else SF_MODEL_FAILURE)"
| "classify_exception OtherRaised = SF_MODEL_FAILURE"

definition run_stage ::
    "string \<Rightarrow> nat \<Rightarrow> (stage_exception, 'a) res \<Rightarrow> nat \<Rightarrow> ('a \<Rightarrow> nat) \<Rightarrow> ('a \<Rightarrow> nat) \<Rightarrow> 'a stage_result" where
  "run_stage name schema generated prompt_chars dump_length elements_of =
     (let m = \<lparr>sm_stage = name, sm_input_chars = prompt_chars, sm_output_chars = 0, sm_schema_bytes = schema,
                sm_model_calls = 1, sm_attempts = 1, sm_elements = 0\<rparr> in
      case generated of
        Inl e \<Rightarrow> \<lparr>sr_stage = name, sr_status = SG_FAILED, sr_output = None, sr_failure = Some (classify_exception e),
                   sr_measurement = Some m\<rparr>
      | Inr x \<Rightarrow> \<lparr>sr_stage = name, sr_status = SG_VALID, sr_output = Some x, sr_failure = None,
                   sr_measurement = Some (m\<lparr>sm_output_chars := dump_length x, sm_elements := elements_of x\<rparr>)\<rparr>)"

definition stage_skipped :: "string \<Rightarrow> 'a stage_result" where
  "stage_skipped name = \<lparr>sr_stage = name, sr_status = SG_SKIPPED, sr_output = None, sr_failure = None, sr_measurement = None\<rparr>"

definition stage_not_applicable :: "string \<Rightarrow> 'a stage_result" where
  "stage_not_applicable name =
     \<lparr>sr_stage = name, sr_status = SG_NOT_APPLICABLE, sr_output = None, sr_failure = None, sr_measurement = None\<rparr>"

text \<open>What a stage gives, and what a ledger of run stages counts.\<close>

lemma run_stage_output [simp]:
  "stage_ok (run_stage n sc g pc dl el) \<longleftrightarrow> is_ok g"
  "sr_output (run_stage n sc g pc dl el) = (case g of Inl e \<Rightarrow> None | Inr x \<Rightarrow> Some x)"
  "sr_failure (run_stage n sc g pc dl el) = (case g of Inl e \<Rightarrow> Some (classify_exception e) | Inr x \<Rightarrow> None)"
  by (cases g; simp add: run_stage_def stage_ok_def)+

lemma run_stage_calls: "\<exists>m. sr_measurement (run_stage n sc g pc dl el) = Some m \<and> sm_model_calls m = 1"
  by (cases g) (simp_all add: run_stage_def)

end
