(* ===== verification/Product_Completion.thy ===== *)
theory Product_Completion
  imports Product_Coverage Product_Stages Planner
begin

text \<open>
  Targeted completion (\<open>edith/product/completion.py\<close>): one flow, or one component, for each of the
  most important requirements a document leaves open, merged into the document without touching
  what is there, and the coverage computed again. What the model answers is an argument; the
  texts it is asked with are left out.
\<close>

section \<open>Merging a flow\<close>

record step_sketch =
  sk_name :: string
  sk_kind :: string
  sk_next :: "string list"
  sk_error :: "string list"
  sk_screen :: string

definition alnum_char :: "char \<Rightarrow> bool" where
  "alnum_char c \<longleftrightarrow> word_char c \<and> c \<noteq> CHR ''_''"

definition slug :: "string \<Rightarrow> string" where
  "slug s = filter alnum_char (py_lower s)"

text \<open>A kind is compared in upper case. Only a letter and its lower case have that letter as their
  upper case, so the comparison is made in lower case.\<close>

definition coerce_step_kind :: "string \<Rightarrow> step_kind" where
  "coerce_step_kind s =
     (case map_of [(''view'', SK_VIEW), (''input'', SK_INPUT), (''action'', SK_ACTION), (''decision'', SK_DECISION),
         (''system'', SK_SYSTEM), (''terminal'', SK_TERMINAL), (''abort'', SK_ABORT)] (py_lower (py_strip s)) of
        Some k \<Rightarrow> k | None \<Rightarrow> SK_VIEW)"

definition step_id_at :: "string \<Rightarrow> nat \<Rightarrow> string" where
  "step_id_at flow_id n = flow_id @ ''-S'' @ show_nat n"

definition sketch_ids :: "string \<Rightarrow> step_sketch list \<Rightarrow> (string \<times> string) list" where
  "sketch_ids flow_id ss =
     foldl (\<lambda>m (n, s). alist_put (slug (sk_name s)) (step_id_at flow_id n) m) [] (enumerate 1 ss)"

definition step_id_of :: "(string \<times> string) list \<Rightarrow> string \<Rightarrow> string" where
  "step_id_of sids name = (case map_of sids (slug name) of Some i \<Rightarrow> i | None \<Rightarrow> [])"

text \<open>The targets a sketch names that are steps and not the step itself, each once.\<close>

definition resolve_targets :: "(string \<times> string) list \<Rightarrow> string \<Rightarrow> string list \<Rightarrow> string list" where
  "resolve_targets sids own names =
     rev (remdups (rev (filter (\<lambda>i. i \<noteq> own)
       (map (step_id_of sids) (filter (\<lambda>n. map_of sids (slug n) \<noteq> None) names)))))"

definition build_step ::
    "(string \<times> string) list \<Rightarrow> (string \<times> string) list \<Rightarrow> step_sketch list \<Rightarrow> nat \<Rightarrow> step_sketch \<Rightarrow> flow_step" where
  "build_step sids screens ss n s =
     (let own = step_id_of sids (sk_name s);
          following = resolve_targets sids own (sk_next s);
          failing = resolve_targets sids own (sk_error s);
          kind = coerce_step_kind (sk_kind s);
          stuck = (following = [] \<and> failing = []) in
      \<lparr>st_id = own, st_name = sk_name s, st_kind = (if stuck \<and> n = length ss then SK_TERMINAL else kind),
       st_screen = (case map_of screens (slug (sk_screen s)) of Some i \<Rightarrow> i | None \<Rightarrow> []),
       st_next = (if stuck \<and> n \<noteq> length ss \<and> kind \<notin> {SK_TERMINAL, SK_ABORT}
                  then [step_id_of sids (sk_name (ss ! n))] else following),
       st_error = failing\<rparr>)"

definition screens_by_slug :: "ux_document \<Rightarrow> (string \<times> string) list" where
  "screens_by_slug u = foldl (\<lambda>m s. alist_put (slug (sn_name s)) (sn_id s) m) [] (ux_screens u)"

definition new_flow :: "ux_document \<Rightarrow> step_sketch list \<Rightarrow> string \<Rightarrow> string \<Rightarrow> flow" where
  "new_flow u ss name r =
     (let i = element_id ''UX'' (length (ux_flows u) + 1);
          steps = map (\<lambda>(n, s). build_step (sketch_ids i ss) (screens_by_slug u) ss n s) (enumerate 1 ss) in
      \<lparr>fl_id = i, fl_name = name, fl_persona = [], fl_entry = st_id (hd steps), fl_steps = steps, fl_satisfies = [r]\<rparr>)"

text \<open>The flow is built through its validators, the document is only copied.\<close>

datatype merge_error = MergeRefused

definition merge_flow :: "ux_document \<Rightarrow> step_sketch list \<Rightarrow> string \<Rightarrow> string \<Rightarrow> (merge_error, ux_document) res" where
  "merge_flow u ss name r =
     (let f = new_flow u ss name r in
      if flow_valid f then Inr (u\<lparr>ux_flows := ux_flows u @ [f]\<rparr>) else Inl MergeRefused)"

section \<open>Merging a component\<close>

record component_sketch =
  cs_name :: string
  cs_kind :: string
  cs_depends :: "string list"

definition coerce_component_kind :: "string \<Rightarrow> component_kind" where
  "coerce_component_kind s =
     (case map_of [(''ui'', CK_UI), (''service'', CK_SERVICE), (''library'', CK_LIBRARY), (''datastore'', CK_DATASTORE),
         (''job'', CK_JOB), (''external'', CK_EXTERNAL), (''cli'', CK_CLI)] (py_lower (py_strip s)) of
        Some k \<Rightarrow> k | None \<Rightarrow> CK_SERVICE)"

definition components_by_slug :: "arch_document \<Rightarrow> (string \<times> string) list" where
  "components_by_slug a = foldl (\<lambda>m c. alist_put (slug (am_name c)) (am_id c) m) [] (ar_components a)"

definition new_component :: "arch_document \<Rightarrow> component_sketch \<Rightarrow> string \<Rightarrow> arch_component" where
  "new_component a p r =
     \<lparr>am_id = element_id ''ARCH'' (length (ar_components a) + 1), am_name = cs_name p,
      am_kind = coerce_component_kind (cs_kind p),
      am_depends = rev (remdups (rev (List.map_filter (\<lambda>n. map_of (components_by_slug a) (slug n)) (cs_depends p)))),
      am_satisfies = [r]\<rparr>"

definition merge_component :: "arch_document \<Rightarrow> component_sketch \<Rightarrow> string \<Rightarrow> (merge_error, arch_document) res" where
  "merge_component a p r =
     (let c = new_component a p r in
      if component_valid c then Inr (a\<lparr>ar_components := ar_components a @ [c]\<rparr>) else Inl MergeRefused)"

section \<open>A completion pass\<close>

definition max_completions :: nat where
  "max_completions = 4"

definition selected_gaps :: "coverage_matrix \<Rightarrow> artifact_kind \<Rightarrow> nat \<Rightarrow> coverage_gap list" where
  "selected_gaps m k limit =
     take limit (sort_key (\<lambda>g. (\<not> gap_blocking g, cg_state g \<noteq> CV_MISSING, cg_requirement g))
       (filter (\<lambda>g. cg_state g \<in> {CV_MISSING, CV_PARTIALLY_COVERED}) (gaps_for m k)))"

datatype rejected_reason = NotRejected | GenerationFailed "stage_failure option" | MergeRejected

record completion_attempt =
  cp_requirement :: string
  cp_artifact :: artifact_kind
  cp_merged :: bool
  cp_closed :: bool
  cp_rejected :: rejected_reason

text \<open>What is asked of the model, and how its answers are measured.\<close>

record ('d, 'a) completion_model =
  cq_generate :: "nat \<Rightarrow> 'd \<Rightarrow> product_requirement \<Rightarrow> (stage_exception, 'a) res"
  cq_valid :: "'a \<Rightarrow> bool"
  cq_schema_bytes :: nat
  cq_prompt_chars :: "'d \<Rightarrow> product_requirement \<Rightarrow> nat"
  cq_dump_length :: "'a \<Rightarrow> nat"
  cq_elements :: "'a \<Rightarrow> nat"

text \<open>\<open>structured_generate\<close> only returns what its schema accepts.\<close>

definition generate_checked ::
    "('d, 'a) completion_model \<Rightarrow> nat \<Rightarrow> 'd \<Rightarrow> product_requirement \<Rightarrow> (stage_exception, 'a) res" where
  "generate_checked q n d r =
     (case cq_generate q n d r of
        Inl e \<Rightarrow> Inl e
      | Inr x \<Rightarrow> if cq_valid q x then Inr x else Inl StructuredOutputFailed)"

definition completion_stage ::
    "('d, 'a) completion_model \<Rightarrow> string \<Rightarrow> nat \<Rightarrow> 'd \<Rightarrow> product_requirement \<Rightarrow> 'a stage_result" where
  "completion_stage q pre n d r =
     run_stage (pre @ ''.complete['' @ pr_id r @ '']'') (cq_schema_bytes q) (generate_checked q n d r)
       (cq_prompt_chars q d r) (cq_dump_length q) (cq_elements q)"

definition attempt_of :: "coverage_gap \<Rightarrow> bool \<Rightarrow> rejected_reason \<Rightarrow> completion_attempt" where
  "attempt_of g merged reason =
     \<lparr>cp_requirement = cg_requirement g, cp_artifact = cg_artifact g, cp_merged = merged, cp_closed = False,
      cp_rejected = reason\<rparr>"

text \<open>The loop over the selected gaps; \<open>merge\<close> is \<open>merge_flow\<close> or \<open>merge_component\<close>.\<close>

fun complete_gaps ::
    "('d, 'a) completion_model \<Rightarrow> string \<Rightarrow> ('d \<Rightarrow> 'a \<Rightarrow> product_requirement \<Rightarrow> (merge_error, 'd) res) \<Rightarrow>
     product_requirement list \<Rightarrow> coverage_gap list \<Rightarrow> completion_attempt list \<times> 'a stage_ledger \<times> 'd \<Rightarrow>
     completion_attempt list \<times> 'a stage_ledger \<times> 'd" where
  "complete_gaps q pre merge rs [] s = s"
| "complete_gaps q pre merge rs (g # gs) (ats, led, d) =
     (case find (\<lambda>r. pr_id r = cg_requirement g) (rev rs) of
        None \<Rightarrow> complete_gaps q pre merge rs gs (ats, led, d)
      | Some r \<Rightarrow>
          (let stage = completion_stage q pre (length led) d r; led' = led @ [stage] in
           case (if stage_ok stage then sr_output stage else None) of
             None \<Rightarrow> complete_gaps q pre merge rs gs (ats @ [attempt_of g False (GenerationFailed (sr_failure stage))], led', d)
           | Some x \<Rightarrow>
               (case merge d x r of
                  Inl e \<Rightarrow> complete_gaps q pre merge rs gs (ats @ [attempt_of g False MergeRejected], led', d)
                | Inr d' \<Rightarrow> complete_gaps q pre merge rs gs (ats @ [attempt_of g True NotRejected], led', d'))))"

record ('d, 'a) completion_result =
  cz_before :: coverage_matrix
  cz_after :: coverage_matrix
  cz_attempts :: "completion_attempt list"
  cz_ledger :: "'a stage_ledger"
  cz_document :: 'd

definition close_attempts :: "coverage_matrix \<Rightarrow> artifact_kind \<Rightarrow> completion_attempt list \<Rightarrow> completion_attempt list" where
  "close_attempts m k ats =
     map (\<lambda>a. a\<lparr>cp_closed := cp_merged a \<and>
        (case find (\<lambda>e. ce_requirement e = cp_requirement a) (cm_entries m) of
           None \<Rightarrow> False | Some e \<Rightarrow> state_for e k = CV_COVERED)\<rparr>) ats"

definition closed_gaps :: "('d, 'a) completion_result \<Rightarrow> nat" where
  "closed_gaps c = length (filter cp_closed (cz_attempts c))"

definition completion_calls :: "('d, 'a) completion_result \<Rightarrow> nat" where
  "completion_calls c = to_model_calls (ledger_totals (cz_ledger c))"

definition completion_improvement :: "('d, 'a) completion_result \<Rightarrow> artifact_kind \<Rightarrow> rat" where
  "completion_improvement c k = coverage (cz_after c) k - coverage (cz_before c) k"

definition steps_output_valid :: "step_sketch list \<Rightarrow> bool" where
  "steps_output_valid ss \<longleftrightarrow> ss \<noteq> [] \<and> length ss \<le> 8 \<and>
     list_all (\<lambda>s. sk_name s \<noteq> [] \<and> length (sk_next s) \<le> 4 \<and> length (sk_error s) \<le> 4) ss"

definition complete_ux_coverage ::
    "(ux_document, step_sketch list) completion_model \<Rightarrow> prd_document \<Rightarrow> ux_document \<Rightarrow> arch_document option \<Rightarrow>
     coverage_threshold \<Rightarrow> nat \<Rightarrow> (ux_document, step_sketch list) completion_result" where
  "complete_ux_coverage q prd u arch t limit =
     (let before = analyse_coverage prd (Some u) arch None True in
      if coverage_satisfies before AK_UX_SPEC t
      then \<lparr>cz_before = before, cz_after = before, cz_attempts = [], cz_ledger = [], cz_document = u\<rparr>
      else (let (ats, led, u') = complete_gaps (q\<lparr>cq_valid := steps_output_valid\<rparr>) ''ux''
                  (\<lambda>d ss r. merge_flow d ss (pr_title r) (pr_id r)) (pd_requirements prd)
                  (selected_gaps before AK_UX_SPEC limit) ([], [], u);
                after = analyse_coverage prd (Some u') arch None True in
            \<lparr>cz_before = before, cz_after = after, cz_attempts = close_attempts after AK_UX_SPEC ats, cz_ledger = led,
             cz_document = u'\<rparr>))"

definition component_sketch_valid :: "component_sketch \<Rightarrow> bool" where
  "component_sketch_valid c \<longleftrightarrow> cs_name c \<noteq> [] \<and> length (cs_depends c) \<le> 4"

definition complete_architecture_coverage ::
    "(arch_document, component_sketch) completion_model \<Rightarrow> prd_document \<Rightarrow> arch_document \<Rightarrow> ux_document option \<Rightarrow>
     coverage_threshold \<Rightarrow> nat \<Rightarrow> (arch_document, component_sketch) completion_result" where
  "complete_architecture_coverage q prd a ux t limit =
     (let before = analyse_coverage prd ux (Some a) None True in
      if coverage_satisfies before AK_SYSTEM_ARCHITECTURE t
      then \<lparr>cz_before = before, cz_after = before, cz_attempts = [], cz_ledger = [], cz_document = a\<rparr>
      else (let (ats, led, a') = complete_gaps (q\<lparr>cq_valid := component_sketch_valid\<rparr>) ''arch''
                  (\<lambda>d c r. merge_component d c (pr_id r)) (pd_requirements prd)
                  (selected_gaps before AK_SYSTEM_ARCHITECTURE limit) ([], [], a);
                after = analyse_coverage prd ux (Some a') None True in
            \<lparr>cz_before = before, cz_after = after, cz_attempts = close_attempts after AK_SYSTEM_ARCHITECTURE ats,
             cz_ledger = led, cz_document = a'\<rparr>))"

section \<open>Identifiers of steps and flows\<close>

lemma show_nat_inj: "show_nat m = show_nat n \<longleftrightarrow> m = n"
  by (metis number_of_show)

lemma show_nat_digits: "c \<in> set (show_nat n) \<Longrightarrow> 48 \<le> char_code c \<and> char_code c \<le> 57"
proof (induction n rule: show_nat.induct)
  case (1 n)
  have d: "48 \<le> char_code (digit_char k) \<and> char_code (digit_char k) \<le> 57" if "k < 10" for k
    using that by (simp add: char_code_def digit_value)
  show ?case
  proof (cases "n < 10")
    case True
    then have "c = digit_char n" using "1.prems" by (subst (asm) show_nat.simps) simp
    then show ?thesis using True d by blast
  next
    case False
    then have "c \<in> set (show_nat (n div 10)) \<or> c = digit_char (n mod 10)"
      using "1.prems" by (subst (asm) show_nat.simps) (auto simp del: show_nat.simps)
    then show ?thesis using "1.IH" False d [of "n mod 10"] by auto
  qed
qed

lemma matches_element_id: "matches_id pre (element_id pre n)"
proof -
  have "48 \<le> char_code c \<and> char_code c \<le> 57" if "c \<in> set (pad_three n)" for c
    using that show_nat_digits [of c n] by (auto simp: pad_three_def char_code_def)
  moreover have "3 \<le> length (pad_three n)" by (simp add: pad_three_def)
  ultimately show ?thesis
    by (simp add: matches_id_def element_id_def starts_with_append list_all_iff)
qed

lemma map_of_fold_put:
  "map_of (foldl (\<lambda>m (n, s). alist_put (k s) (v n) m) m xs) = map_of m ++ map_of (rev (map (\<lambda>(n, s). (k s, v n)) xs))"
proof (induction xs arbitrary: m)
  case (Cons x xs)
  obtain n s where "x = (n, s)" by (cases x)
  then show ?case using Cons [of "alist_put (k s) (v n) m"] by (simp add: map_add_assoc [symmetric] fun_eq_iff map_add_def split: option.split)
qed simp

lemma sketch_ids_map:
  "map_of (sketch_ids i ss) = map_of (rev (map (\<lambda>(n, s). (slug (sk_name s), step_id_at i n)) (enumerate 1 ss)))"
  unfolding sketch_ids_def by (subst map_of_fold_put) simp

lemma sketch_ids_dom: "map_of (sketch_ids i ss) k \<noteq> None \<longleftrightarrow> k \<in> slug ` sk_name ` set ss"
proof -
  have "map_of (sketch_ids i ss) k \<noteq> None \<longleftrightarrow> k \<in> fst ` set (map (\<lambda>(n, s). (slug (sk_name s), step_id_at i n)) (enumerate 1 ss))"
    unfolding sketch_ids_map by (simp add: map_of_eq_None_iff)
  also have "fst ` set (map (\<lambda>(n, s). (slug (sk_name s), step_id_at i n)) (enumerate 1 ss)) = slug ` sk_name ` snd ` set (enumerate 1 ss)"
    by (force simp: image_iff)
  also have "snd ` set (enumerate 1 ss) = set ss" by (metis list.set_map map_snd_enumerate)
  finally show ?thesis .
qed

definition own_ids :: "string \<Rightarrow> step_sketch list \<Rightarrow> string list" where
  "own_ids i ss = map (\<lambda>s. step_id_of (sketch_ids i ss) (sk_name s)) ss"

lemma resolve_targets_own: "set (resolve_targets (sketch_ids i ss) own ns) \<subseteq> set (own_ids i ss)"
proof
  fix x assume "x \<in> set (resolve_targets (sketch_ids i ss) own ns)"
  then obtain n where n: "map_of (sketch_ids i ss) (slug n) \<noteq> None" "x = step_id_of (sketch_ids i ss) n"
    by (auto simp: resolve_targets_def)
  then obtain s where "s \<in> set ss" "slug n = slug (sk_name s)" using sketch_ids_dom [of i ss] by auto
  then show "x \<in> set (own_ids i ss)" using n(2) by (auto simp: own_ids_def step_id_of_def)
qed

lemma own_ids_distinct: "distinct (own_ids i ss) \<longleftrightarrow> distinct (map (\<lambda>s. slug (sk_name s)) ss)"
proof
  assume d: "distinct (map (\<lambda>s. slug (sk_name s)) ss)"
  let ?kv = "map (\<lambda>(n, s). (slug (sk_name s), step_id_at i n)) (enumerate 1 ss)"
  have "map fst ?kv = map (\<lambda>s. slug (sk_name s)) (map snd (enumerate 1 ss))" by (simp add: case_prod_beta comp_def del: map_snd_enumerate)
  then have kd: "distinct (map fst ?kv)" using d by simp
  have "map_of (sketch_ids i ss) (slug (sk_name s)) = Some (step_id_at i n)" if "(n, s) \<in> set (enumerate 1 ss)" for n s
  proof -
    have "map_of (sketch_ids i ss) = map_of ?kv"
      unfolding sketch_ids_map using kd by (subst map_of_inject_set) (simp_all add: rev_map [symmetric])
    moreover have "(slug (sk_name s), step_id_at i n) \<in> set ?kv" using that by force
    ultimately show ?thesis using kd by (metis map_of_is_SomeI)
  qed
  then have "map (\<lambda>(n, s). step_id_of (sketch_ids i ss) (sk_name s)) (enumerate 1 ss) = map (\<lambda>(n, s). step_id_at i n) (enumerate 1 ss)"
    by (intro map_cong) (auto simp: step_id_of_def)
  moreover have "map F ss = map (\<lambda>(n, s). F s) (enumerate 1 ss)" for F :: "step_sketch \<Rightarrow> string"
    by (subst (1) map_snd_enumerate [of 1 ss, symmetric]) (simp add: case_prod_beta comp_def del: map_snd_enumerate)
  ultimately have "own_ids i ss = map (step_id_at i) (map fst (enumerate 1 ss))"
    by (simp add: own_ids_def case_prod_beta comp_def del: map_fst_enumerate)
  moreover have "inj (step_id_at i)" by (auto simp: inj_def step_id_at_def show_nat_inj)
  ultimately show "distinct (own_ids i ss)" by (simp add: distinct_map inj_on_subset)
next
  assume "distinct (own_ids i ss)"
  then have "inj_on (\<lambda>s. step_id_of (sketch_ids i ss) (sk_name s)) (set ss)" "distinct ss"
    by (simp_all add: own_ids_def distinct_map)
  then show "distinct (map (\<lambda>s. slug (sk_name s)) ss)"
    by (auto simp: distinct_map inj_on_def step_id_of_def)
qed

lemma build_step_facts:
  "st_id (build_step (sketch_ids i ss) sc ss n s) = step_id_of (sketch_ids i ss) (sk_name s)"
  "1 \<le> n \<Longrightarrow> n \<le> length ss \<Longrightarrow> set (step_targets (build_step (sketch_ids i ss) sc ss n s)) \<subseteq> set (own_ids i ss)"
proof -
  show "st_id (build_step (sketch_ids i ss) sc ss n s) = step_id_of (sketch_ids i ss) (sk_name s)"
    by (simp add: build_step_def Let_def)
  assume n: "1 \<le> n" "n \<le> length ss"
  have "n \<noteq> length ss \<Longrightarrow> step_id_of (sketch_ids i ss) (sk_name (ss ! n)) \<in> set (own_ids i ss)"
    using n by (auto simp: own_ids_def)
  then show "set (step_targets (build_step (sketch_ids i ss) sc ss n s)) \<subseteq> set (own_ids i ss)"
    using resolve_targets_own [of i ss] by (auto simp: build_step_def step_targets_def Let_def)
qed

lemma new_flow_steps:
  "flow_step_ids (new_flow u ss name r) = own_ids (fl_id (new_flow u ss name r)) ss"
  "fl_steps (new_flow u ss name r) = [] \<longleftrightarrow> ss = []"
proof -
  have "map F ss = map (\<lambda>(n, s). F s) (enumerate 1 ss)" for F :: "step_sketch \<Rightarrow> string"
    by (subst (1) map_snd_enumerate [of 1 ss, symmetric]) (simp add: case_prod_beta comp_def del: map_snd_enumerate)
  then show "flow_step_ids (new_flow u ss name r) = own_ids (fl_id (new_flow u ss name r)) ss"
    by (simp add: new_flow_def Let_def flow_step_ids_def own_ids_def build_step_facts case_prod_beta comp_def)
  show "fl_steps (new_flow u ss name r) = [] \<longleftrightarrow> ss = []"
    by (simp add: new_flow_def Let_def) (metis length_0_conv length_enumerate)
qed

lemma new_flow_valid:
  "flow_valid (new_flow u ss name r) \<longleftrightarrow>
     ss \<noteq> [] \<and> distinct (map (\<lambda>s. slug (sk_name s)) ss) \<and> is_element_id r (Some ''REQ'')"
proof (cases "ss = []")
  case False
  let ?f = "new_flow u ss name r" and ?i = "fl_id (new_flow u ss name r)"
  have i: "matches_id ''UX'' ?i" by (simp add: new_flow_def Let_def matches_element_id)
  have "fl_steps ?f \<noteq> []" using False new_flow_steps(2) by blast
  moreover have "fl_entry ?f = st_id (hd (fl_steps ?f))" by (simp add: new_flow_def Let_def)
  ultimately have e: "fl_entry ?f \<in> set (flow_step_ids ?f)" by (simp add: flow_step_ids_def)
  have t: "set (step_targets s) \<subseteq> set (flow_step_ids ?f)" if "s \<in> set (fl_steps ?f)" for s
  proof -
    obtain n k where "(n, k) \<in> set (enumerate 1 ss)" "s = build_step (sketch_ids ?i ss) (screens_by_slug u) ss n k"
      using \<open>s \<in> set (fl_steps ?f)\<close> by (auto simp: new_flow_def Let_def)
    then show ?thesis unfolding new_flow_steps(1) using build_step_facts(2) by (auto simp: in_set_enumerate_eq)
  qed
  then have "list_all (\<lambda>s. list_all (\<lambda>t. t \<in> set (flow_step_ids ?f)) (step_targets s)) (fl_steps ?f)"
    by (auto simp: list_all_iff)
  moreover have "fl_satisfies ?f = [r]" by (simp add: new_flow_def Let_def)
  moreover have "distinct (flow_step_ids ?f) \<longleftrightarrow> distinct (map (\<lambda>s. slug (sk_name s)) ss)"
    unfolding new_flow_steps(1) by (rule own_ids_distinct)
  ultimately show ?thesis
    unfolding flow_valid_def using i e False new_flow_steps(2) by (auto simp: requirement_ids_ok_def)
qed (simp add: flow_valid_def new_flow_steps)

section \<open>What a pass does\<close>

text \<open>A merge adds one element for the requirement it is about; \<open>grown d rs d'\<close> is what any number
  of merges make of a document.\<close>

locale merging =
  fixes merge :: "'d \<Rightarrow> 'a \<Rightarrow> product_requirement \<Rightarrow> (merge_error, 'd) res"
    and grown :: "'d \<Rightarrow> string list \<Rightarrow> 'd \<Rightarrow> bool"
  assumes grown_refl: "grown d [] d"
    and grown_step: "grown d rs d' \<Longrightarrow> merge d' x r = Inr d'' \<Longrightarrow> grown d (rs @ [pr_id r]) d''"
begin

definition progress :: "'d \<Rightarrow> completion_attempt list \<times> 'a stage_ledger \<times> 'd \<Rightarrow> bool" where
  "progress d s \<longleftrightarrow>
     (case s of (ats, led, d') \<Rightarrow>
        grown d (map cp_requirement (filter cp_merged ats)) d' \<and> length led = length ats \<and>
        (\<forall>r \<in> set led. \<exists>m. sr_measurement r = Some m \<and> sm_model_calls m = 1))"

lemma progress_start: "progress d ([], [], d)"
  by (simp add: progress_def grown_refl)

lemma progress_run: "progress d s \<Longrightarrow> progress d (complete_gaps q pre merge rs gs s)"
proof (induction gs arbitrary: s)
  case (Cons g gs)
  obtain ats led d' where s: "s = (ats, led, d')" by (cases s)
  show ?case
  proof (cases "find (\<lambda>r. pr_id r = cg_requirement g) (rev rs)")
    case None
    then show ?thesis using Cons s by simp
  next
    case (Some r)
    then have r: "pr_id r = cg_requirement g" by (auto simp: find_Some_iff)
    let ?st = "completion_stage q pre (length led) d' r"
    have m: "\<exists>m. sr_measurement ?st = Some m \<and> sm_model_calls m = 1"
      unfolding completion_stage_def by (rule run_stage_calls)
    have no: "progress d (ats @ [attempt_of g False why], led @ [?st], d')" for why
      using Cons.prems m s by (auto simp: progress_def attempt_of_def)
    have yes: "progress d (ats @ [attempt_of g True NotRejected], led @ [?st], d'')" if "merge d' x r = Inr d''" for x d''
      using Cons.prems m s grown_step [OF _ that] r by (auto simp: progress_def attempt_of_def)
    show ?thesis
      using Cons.IH no yes Some s by (auto simp: Let_def split: option.splits sum.splits)
  qed
qed simp

lemma attempts_of_run:
  "complete_gaps q pre merge rs gs (ats, led, d) = (ats', led', d') \<Longrightarrow> length ats' \<le> length ats + length gs"
proof (induction gs arbitrary: ats led d)
  case (Cons g gs)
  then show ?case by (fastforce simp: Let_def split: option.splits sum.splits)
qed simp

end

definition flows_grown :: "ux_document \<Rightarrow> string list \<Rightarrow> ux_document \<Rightarrow> bool" where
  "flows_grown u rs u' \<longleftrightarrow>
     (\<exists>fs. u' = u\<lparr>ux_flows := ux_flows u @ fs\<rparr> \<and> list_all flow_valid fs \<and> concat (map fl_satisfies fs) = rs)"

definition components_grown :: "arch_document \<Rightarrow> string list \<Rightarrow> arch_document \<Rightarrow> bool" where
  "components_grown a rs a' \<longleftrightarrow>
     (\<exists>cs. a' = a\<lparr>ar_components := ar_components a @ cs\<rparr> \<and> list_all component_valid cs \<and> concat (map am_satisfies cs) = rs)"

interpretation flow_merges: merging "\<lambda>d ss r. merge_flow d ss (pr_title r) (pr_id r)" flows_grown
proof
  show "flows_grown d [] d" for d unfolding flows_grown_def by (intro exI [of _ "[]"]) simp
next
  fix d rs d' x r d''
  assume "flows_grown d rs d'" and m: "merge_flow d' x (pr_title r) (pr_id r) = Inr d''"
  then obtain fs where fs: "d' = d\<lparr>ux_flows := ux_flows d @ fs\<rparr>" "list_all flow_valid fs" "concat (map fl_satisfies fs) = rs"
    by (auto simp: flows_grown_def)
  let ?f = "new_flow d' x (pr_title r) (pr_id r)"
  have "flow_valid ?f" "d'' = d'\<lparr>ux_flows := ux_flows d' @ [?f]\<rparr>"
    using m by (auto simp: merge_flow_def Let_def split: if_splits)
  moreover have "fl_satisfies ?f = [pr_id r]" by (simp add: new_flow_def Let_def)
  ultimately show "flows_grown d (rs @ [pr_id r]) d''"
    unfolding flows_grown_def using fs by (intro exI [of _ "fs @ [?f]"]) simp
qed

interpretation component_merges: merging "\<lambda>d c r. merge_component d c (pr_id r)" components_grown
proof
  show "components_grown d [] d" for d unfolding components_grown_def by (intro exI [of _ "[]"]) simp
next
  fix d rs d' x r d''
  assume "components_grown d rs d'" and m: "merge_component d' x (pr_id r) = Inr d''"
  then obtain cs where cs: "d' = d\<lparr>ar_components := ar_components d @ cs\<rparr>" "list_all component_valid cs"
    "concat (map am_satisfies cs) = rs" by (auto simp: components_grown_def)
  let ?c = "new_component d' x (pr_id r)"
  have "component_valid ?c" "d'' = d'\<lparr>ar_components := ar_components d' @ [?c]\<rparr>"
    using m by (auto simp: merge_component_def Let_def split: if_splits)
  moreover have "am_satisfies ?c = [pr_id r]" by (simp add: new_component_def)
  ultimately show "components_grown d (rs @ [pr_id r]) d''"
    unfolding components_grown_def using cs by (intro exI [of _ "cs @ [?c]"]) simp
qed

text \<open>Coverage after merges: what they were about is addressed, the rest is as it was.\<close>

definition coverage_after :: "product_document \<Rightarrow> string list \<Rightarrow> product_requirement \<Rightarrow> coverage_state" where
  "coverage_after d rs r =
     (if applies_to r (document_kind d) \<and> pr_id r \<in> set rs
      then (if excludes (pr_properties r) (properties_of d) then CV_CONTRADICTED else CV_COVERED)
      else coverage_spec d r)"

lemma coverage_after_more:
  assumes "document_kind d' = document_kind d" "properties_of d' = properties_of d"
    "delivers d' r \<longleftrightarrow> delivers d r \<or> pr_id r \<in> set rs" "mentions d' r \<longleftrightarrow> mentions d r \<or> pr_id r \<in> set rs"
  shows "coverage_spec d' r = coverage_after d rs r"
  using assms by (simp add: coverage_spec_def coverage_after_def)

lemma flows_grown_coverage:
  assumes "flows_grown u rs u'"
  shows "coverage_spec (Ux u') r = coverage_after (Ux u) rs r"
proof -
  obtain fs where u': "u' = u\<lparr>ux_flows := ux_flows u @ fs\<rparr>" and rs: "concat (map fl_satisfies fs) = rs"
    using assms by (auto simp: flows_grown_def)
  have d: "delivers (Ux u') r \<longleftrightarrow> delivers (Ux u) r \<or> pr_id r \<in> set rs"
    unfolding u' rs [symmetric] by (auto simp: delivers_def)
  show ?thesis
  proof (rule coverage_after_more)
    show "mentions (Ux u') r \<longleftrightarrow> mentions (Ux u) r \<or> pr_id r \<in> set rs" by (simp add: mentions_def d) (auto simp: u')
  qed (use d in \<open>simp_all add: properties_of_def u'\<close>)
qed

lemma components_grown_coverage:
  assumes "components_grown a rs a'"
  shows "coverage_spec (Arch a') r = coverage_after (Arch a) rs r"
proof -
  obtain cs where a': "a' = a\<lparr>ar_components := ar_components a @ cs\<rparr>" and rs: "concat (map am_satisfies cs) = rs"
    using assms by (auto simp: components_grown_def)
  have d: "delivers (Arch a') r \<longleftrightarrow> delivers (Arch a) r \<or> pr_id r \<in> set rs"
    unfolding a' rs [symmetric] by (auto simp: delivers_def)
  show ?thesis
  proof (rule coverage_after_more)
    show "mentions (Arch a') r \<longleftrightarrow> mentions (Arch a) r \<or> pr_id r \<in> set rs" by (simp add: mentions_def d) (auto simp: a')
  qed (use d in \<open>simp_all add: properties_of_def a'\<close>)
qed

lemma calls_of_run:
  "(\<forall>r \<in> set led. \<exists>m. sr_measurement r = Some m \<and> sm_model_calls m = 1) \<Longrightarrow> to_model_calls (ledger_totals led) = length led"
  unfolding ledger_totals_def measurements_def Let_def
  by (induction led) (auto simp: map_filter_simps)

text \<open>Both passes come down to one loop over the selected gaps.\<close>

lemma selected_bound: "length (selected_gaps m k limit) \<le> limit"
  by (simp add: selected_gaps_def)

lemma close_attempts_fields [simp]:
  "length (close_attempts m k ats) = length ats"
  "map cp_requirement (filter cp_merged (close_attempts m k ats)) = map cp_requirement (filter cp_merged ats)"
  by (simp_all add: close_attempts_def filter_map comp_def)

lemma closed_covered:
  assumes "analysed d ux arch pl" "distinct (map pr_id (pd_requirements prd))"
    "a \<in> set (close_attempts (analyse_coverage prd ux arch pl c) (document_kind d) ats)"
  shows "cp_closed a \<longleftrightarrow>
    cp_merged a \<and> (\<exists>r \<in> set (pd_requirements prd). pr_id r = cp_requirement a \<and> coverage_spec d r = CV_COVERED)"
proof -
  let ?es = "cm_entries (analyse_coverage prd ux arch pl c)"
  have es: "?es = map (entry_for ux arch pl) (pd_requirements prd)" by (simp add: analyse_coverage_def Let_def)
  have find: "(case find (\<lambda>e. ce_requirement e = i) (map (entry_for ux arch pl) rs) of
        None \<Rightarrow> False | Some e \<Rightarrow> state_for e (document_kind d) = CV_COVERED) \<longleftrightarrow>
      (\<exists>r \<in> set rs. pr_id r = i \<and> coverage_spec d r = CV_COVERED)" if "distinct (map pr_id rs)" for i rs
    using that
  proof (induction rs)
    case (Cons r rs)
    then have "pr_id r = i \<Longrightarrow> \<not> (\<exists>x \<in> set rs. pr_id x = i)" by (auto simp: image_iff)
    then show ?case using Cons by (cases "pr_id r = i") (auto simp: entry_state [OF assms(1)])
  qed simp
  obtain b where "a = b\<lparr>cp_closed := cp_merged b \<and> (case find (\<lambda>e. ce_requirement e = cp_requirement b) ?es of
      None \<Rightarrow> False | Some e \<Rightarrow> state_for e (document_kind d) = CV_COVERED)\<rparr>"
    using assms(3) by (auto simp: close_attempts_def)
  then show ?thesis unfolding es find [OF assms(2)] by simp
qed

lemma ux_run:
  assumes "complete_ux_coverage q prd u arch t limit = c"
  shows "\<exists>ats. flow_merges.progress u (ats, cz_ledger c, cz_document c) \<and> length ats \<le> limit \<and>
    cz_attempts c = close_attempts (analyse_coverage prd (Some (cz_document c)) arch None True) AK_UX_SPEC ats"
proof (cases "coverage_satisfies (analyse_coverage prd (Some u) arch None True) AK_UX_SPEC t")
  case True
  then show ?thesis
    using assms flow_merges.progress_start [of u]
    by (intro exI [of _ "[]"]) (auto simp: complete_ux_coverage_def Let_def close_attempts_def)
next
  case False
  let ?gs = "selected_gaps (analyse_coverage prd (Some u) arch None True) AK_UX_SPEC limit"
  let ?run = "complete_gaps (q\<lparr>cq_valid := steps_output_valid\<rparr>) ''ux'' (\<lambda>d ss r. merge_flow d ss (pr_title r) (pr_id r))
    (pd_requirements prd) ?gs ([], [], u)"
  obtain ats led u' where run: "?run = (ats, led, u')" by (cases ?run)
  have "flow_merges.progress u ?run" by (rule flow_merges.progress_run [OF flow_merges.progress_start])
  moreover have "length ats \<le> limit"
    using flow_merges.attempts_of_run [OF run] selected_bound [of _ AK_UX_SPEC limit] by (simp add: le_trans)
  ultimately show ?thesis
    using assms run False by (auto simp: complete_ux_coverage_def Let_def)
qed

text \<open>C19. A pass over an interface specification, whatever the model answers. It only adds valid flows,
  each for one requirement it was asked about, with one call of the model for an attempt and no
  more attempts than the limit. Every requirement a flow was added for is then covered, or
  contradicted if its properties exclude the document's; every other one is as it was, so nothing
  covered is lost. An attempt counts as closed exactly when its requirement is covered afterwards.
\<close>

theorem completion_exact:
  assumes "complete_ux_coverage q prd u arch t limit = c" "distinct (map pr_id (pd_requirements prd))"
  defines "done \<equiv> map cp_requirement (filter cp_merged (cz_attempts c))"
  shows "flows_grown u done (cz_document c) \<and> length (cz_attempts c) \<le> limit \<and>
    completion_calls c = length (cz_attempts c) \<and>
    (\<forall>r. coverage_spec (Ux (cz_document c)) r = coverage_after (Ux u) done r) \<and>
    (\<forall>a \<in> set (cz_attempts c). cp_closed a \<longleftrightarrow>
       cp_merged a \<and> (\<exists>r \<in> set (pd_requirements prd). pr_id r = cp_requirement a \<and>
         coverage_spec (Ux (cz_document c)) r = CV_COVERED))"
proof -
  obtain ats where p: "flow_merges.progress u (ats, cz_ledger c, cz_document c)" and l: "length ats \<le> limit"
    and a: "cz_attempts c = close_attempts (analyse_coverage prd (Some (cz_document c)) arch None True) AK_UX_SPEC ats"
    using ux_run [OF assms(1)] by blast
  have g: "flows_grown u done (cz_document c)" using p by (simp add: flow_merges.progress_def done_def a)
  have "completion_calls c = length (cz_attempts c)"
    using p calls_of_run [of "cz_ledger c"] by (simp add: flow_merges.progress_def completion_calls_def a)
  moreover have "analysed (Ux (cz_document c)) (Some (cz_document c)) arch None" by (simp add: analysed_def)
  then have "cp_closed x \<longleftrightarrow> cp_merged x \<and> (\<exists>r \<in> set (pd_requirements prd). pr_id r = cp_requirement x \<and>
         coverage_spec (Ux (cz_document c)) r = CV_COVERED)" if "x \<in> set (cz_attempts c)" for x
    using closed_covered [OF _ assms(2)] that a by simp
  ultimately show ?thesis using g l a flows_grown_coverage [OF g] by simp
qed

section \<open>A pass over the small project\<close>

definition sample_completion :: "(ux_document, step_sketch list) completion_model" where
  "sample_completion = \<lparr>cq_generate = \<lambda>_ _ _. Inr [\<lparr>sk_name = ''Ask'', sk_kind = ''input'', sk_next = [''done''], sk_error = [],
       sk_screen = []\<rparr>, \<lparr>sk_name = ''Done'', sk_kind = ''view'', sk_next = [], sk_error = [], sk_screen = []\<rparr>],
     cq_valid = \<lambda>_. True, cq_schema_bytes = 100, cq_prompt_chars = \<lambda>_ _. 50, cq_dump_length = \<lambda>_. 80,
     cq_elements = length\<rparr>"

definition sample_pass :: "(ux_document, step_sketch list) completion_result" where
  "sample_pass = complete_ux_coverage sample_completion sample_prd sample_ux None default_threshold max_completions"

lemma sample_pass_attempts: "map (\<lambda>a. (cp_requirement a, cp_merged a, cp_closed a)) (cz_attempts sample_pass) = [(''REQ-002'', True, True)]"
  by code_simp

theorem completion_exact_witness:
  "map (\<lambda>a. (cp_requirement a, cp_merged a, cp_closed a)) (cz_attempts sample_pass) = [(''REQ-002'', True, True)] \<and>
   completion_calls sample_pass = 1 \<and>
   coverage_spec (Ux (cz_document sample_pass)) (sample_requirement ''REQ-002'' SHOULD) = CV_COVERED"
proof -
  have d: "distinct (map pr_id (pd_requirements sample_prd))" by code_simp
  note e = completion_exact [OF sample_pass_def [symmetric] d]
  obtain a where a: "cz_attempts sample_pass = [a]" "cp_requirement a = ''REQ-002''" "cp_merged a" "cp_closed a"
    using sample_pass_attempts by (cases "cz_attempts sample_pass") auto
  have "coverage_spec (Ux (cz_document sample_pass)) r = CV_COVERED" if "r = sample_requirement ''REQ-002'' SHOULD" for r
  proof -
    have "\<not> excludes (pr_properties r) (properties_of (Ux sample_ux))"
      by (simp add: properties_of_def sample_ux_def)
    moreover have "applies_to r AK_UX_SPEC" "pr_id r = ''REQ-002''"
      using that by (simp_all add: applies_to_def sample_requirement_def)
    ultimately show ?thesis using e a by (simp add: coverage_after_def)
  qed
  then show ?thesis using e a by simp
qed

text \<open>A document whose flows are not numbered without a gap gets a second flow of the same number,
  and is no valid document any more.\<close>

definition gapped_ux :: ux_document where
  "gapped_ux = sample_ux\<lparr>ux_flows := [sample_flow\<lparr>fl_id := ''UX-002''\<rparr>]\<rparr>"

lemma merged_flow_may_repeat:
  "ux_valid gapped_ux"
  "\<exists>u. merge_flow gapped_ux [\<lparr>sk_name = ''Ask'', sk_kind = [], sk_next = [], sk_error = [], sk_screen = []\<rparr>] ''t'' ''REQ-002'' = Inr u \<and>
     \<not> ux_valid u"
proof -
  show "ux_valid gapped_ux" by code_simp
  have "(case merge_flow gapped_ux [\<lparr>sk_name = ''Ask'', sk_kind = [], sk_next = [], sk_error = [], sk_screen = []\<rparr>] ''t'' ''REQ-002'' of
      Inl _ \<Rightarrow> False | Inr u \<Rightarrow> \<not> ux_valid u)" by code_simp
  then show "\<exists>u. merge_flow gapped_ux [\<lparr>sk_name = ''Ask'', sk_kind = [], sk_next = [], sk_error = [], sk_screen = []\<rparr>] ''t'' ''REQ-002'' = Inr u \<and>
     \<not> ux_valid u" by (auto split: sum.splits)
qed

end
