(* ===== verification/Spec2Isabelle.thy ===== *)
theory Spec2Isabelle
  imports Authority Project_State Task_Schedule Memory_Governor Memory_Consolidation Conflicts Enforcement Isolation Autonomous_Run Executor_Properties Product_Review Product_Completion
begin

text \<open>
  A model of \<open>edith\<close> (\<open>src/src/edith\<close>), a system of agents that plans, writes, verifies and
  merges changes to a software project. Language models propose; the code under \<open>edith\<close> decides.
  The development models what decides: every model answer, every shell command, the parser of
  the target language and the clock are arguments of the definitions, so a theorem holds
  whatever they return.

  \<^bold>\<open>The program.\<close> A request reaches one of two drivers. \<open>orchestrator.py\<close> runs a small plan
  alone: the planner's answer becomes a task graph, each task goes through implement, verify,
  adjudicate and repair, and a final gate decides the release. \<open>engineering/executor.py\<close> runs an
  approved implementation plan: tasks are assigned to roles, ordered, run in worktrees of their
  own, verified, reviewed and merged. Both write through the same gateway of tools, both draw on
  the memory governor and the failure policy. In front of them the product stages produce
  requirements, an interface specification, an architecture and a plan, validate and review
  them, and keep versions of them in a store that approval works on.

  \<^bold>\<open>Foundations.\<close>
  \<^item> \<open>Edith_Prelude\<close>: the result type of fallible operations, the Python string operations in
    use, association lists for dictionaries in insertion order, traces, directories.
  \<^item> \<open>Lifecycle\<close>: the locales \<open>lifecycle\<close> and \<open>abortable\<close> for a table of moves with terminal
    states. Task status, project state, workspace state and artifact status interpret them.
  \<^item> \<open>Allowance\<close>: the locale of a bounded counter; the governor's three budgets and the repairs of
    a run interpret it.
  \<^item> \<open>Kahn\<close>: the peeling of a dependency relation, the locale \<open>relaxation\<close> for the loop that both
    orders of \<open>TaskGraph\<close> interpret.
  \<^item> \<open>Failure_Policy\<close> (\<open>errors.py\<close>, \<open>policy.py\<close>), \<open>Authority\<close> (\<open>authority.py\<close>),
    \<open>Project_State\<close> (\<open>state/schema.py\<close>), \<open>Agent_Model\<close> (\<open>schemas/agent.py\<close>).

  \<^bold>\<open>Planning.\<close>
  \<^item> \<open>Task_Model\<close>, \<open>Task_Graph\<close>, \<open>Task_Graph_Correct\<close>, \<open>Task_Schedule\<close> (\<open>planning/task.py\<close>,
    \<open>planning/dag.py\<close>): the graph is the list of its tasks in insertion order. The constructor
    accepts exactly the acyclic graphs with known, distinct identifiers; the order of the tasks
    puts dependencies first; \<open>refresh\<close> ends at its fixed point, and no pending task is stranded.
  \<^item> \<open>Planner\<close>, \<open>Fan_Out\<close> (\<open>agents/planner.py\<close>, \<open>agents/fanout.py\<close>): what a proposed plan must
    satisfy and that it always becomes a graph of new tasks.
  \<^item> \<open>Ownership\<close>, \<open>Conflicts\<close>, \<open>Enforcement\<close> (\<open>engineering/ownership.py\<close>,
    \<open>engineering/conflicts.py\<close>): roles, what a task may write, which tasks may collide, and that
    the gateway confines an assigned task to the ceiling of its role.

  \<^bold>\<open>Tools.\<close>
  \<^item> \<open>Path_Policy\<close>, \<open>Permissions\<close>, \<open>Tool_Gateway\<close> (\<open>tools/\<close>): a file system is a list of nodes by
    absolute path, with directories, text, binary files and symbolic links; a link is followed at
    most as often as the system does (\<open>pp_max_links\<close>), more is an error. The locale
    \<open>path_authority\<close> is what the tools need of the resolution of a path.
  \<^item> \<open>Isolation\<close> (\<open>engineering/isolation.py\<close>): the worktree of a task, its states, the merge of
    its changes and the removal of stale ones; git is an argument.

  \<^bold>\<open>Memory.\<close> \<open>Memory_Model\<close>, \<open>Memory_Store\<close>, \<open>Memory_Retrieval\<close>, \<open>Memory_Governor\<close>
  (\<open>memory/\<close>): records, the table of memories as its rows, lexical retrieval with its ceilings for
  any ranker, and the budget of an execution. Isolation of projects and the totals hold over any
  sequence of requests. \<open>Memory_Writers\<close> is what may become a memory: each pattern for a
  credential is a matcher written out, a proposal is stored exactly when it has the standing for
  it. \<open>Memory_Consolidation\<close> groups similar memories and folds each group into its strongest
  record; the locale \<open>keyed_writes\<close> is what it needs of the table.

  \<^bold>\<open>Verification.\<close>
  \<^item> \<open>Verification\<close> (\<open>environment/classify.py\<close>, \<open>verification/runner.py\<close>): the diagnosis of a
    failed command and the report over the configured checks.
  \<^item> \<open>Integrity\<close> (\<open>integrity.py\<close>): syntax trees as a datatype, the fingerprint of a test, and when
    a change to tests counts as tampering. \<open>Adjudication\<close> (\<open>agents/critic.py\<close>): the verdict.
  \<^item> \<open>Scanners\<close>, \<open>Quality\<close>, \<open>Quality_Pipeline\<close> (\<open>quality/\<close>): the deterministic scans over syntax
    trees, the findings, the gates, and that reviewing models can only lower a verdict.

  \<^bold>\<open>The drivers.\<close>
  \<^item> \<open>Generation\<close> (\<open>models/base.py\<close>, \<open>models/retry.py\<close>, \<open>agents/base.py\<close>): the JSON object in a
    reply, the bounded repair of a reply, retries. \<open>Coder\<close> (\<open>agents/coder.py\<close>): from a model's
    edits to the writes of one run.
  \<^item> \<open>Orchestrator\<close>, \<open>Orchestrator_Correct\<close>, \<open>Autonomous_Run\<close> (\<open>orchestrator.py\<close>): an operation
    passes an explicit state and may raise; \<open>wp\<close> is its weakest precondition. A run always ends in a
    terminal state by legal moves, within its budgets, and releases only verified work.
  \<^item> \<open>Executor\<close>, \<open>Executor_Correct\<close>, \<open>Executor_Properties\<close> (\<open>engineering/executor.py\<close>): the
    execution of a plan. A task is completed only with its dependencies completed, its checks
    passed, its review merging and its work merged; the run order does not depend on the order
    given; a plan reports every task.

  \<^bold>\<open>Product stages\<close> (\<open>product/\<close>).
  \<^item> \<open>Product_Properties\<close> (\<open>properties.py\<close>): the claims about a product, their closure and what
    excludes what; \<open>find_conflicts\<close> agrees with the closure as a relation.
  \<^item> \<open>Product_Artifacts\<close> (\<open>artifacts.py\<close>, \<open>prd.py\<close>, \<open>ux.py\<close>, \<open>architecture.py\<close>): the documents
    and the artifact around them. \<open>Product_Validation\<close> (\<open>validation.py\<close>): when an artifact is
    valid, and that a plan is reported circular exactly when it is.
  \<^item> \<open>Product_Store\<close> (\<open>store.py\<close>): versions as rows. Approval is characterised exactly, and along
    every history there is at most one approved version of an artifact.
  \<^item> \<open>Product_Contradictions\<close>, \<open>Product_Coverage\<close>, \<open>Product_Review\<close> (\<open>contradictions.py\<close>,
    \<open>coverage.py\<close>, \<open>review.py\<close>, parts of \<open>service.py\<close>): when documents agree, which requirement
    each addresses, what the approval gate lets pass and when the reviews of a project fail.
  \<^item> \<open>Product_Stages\<close>, \<open>Product_Completion\<close> (\<open>stages.py\<close>, \<open>completion.py\<close>): a generation stage and
    its ledger, and the pass that asks for what a document leaves open. Its loop is proved once in
    the locale \<open>merging\<close>, which the merges of flows and of components interpret: a pass adds, never
    changes, and no covered requirement is lost.

  \<^bold>\<open>Bounds and fuel.\<close> Loops that end are total functions with a measure: the fixed points of the
  graph and of the closure of properties, the walks over trees, flows and plans, the retries and
  repairs within their configured attempts. A count stands for the bound the code has anyway in
  the resolution of links, the attempts of a task, the rounds of the autonomous loop, and
  \<open>cycle_walk\<close>, whose count is the length of the residue: the path repeats before it runs out
  (\<open>cycle_walk_spec\<close>).  Integers of
  Python are \<open>nat\<close> where the code keeps them non-negative and \<open>int\<close> otherwise; strings hold the
  code points 0 to 255. Every property with a hypothesis
  has an instance beside it, \<open>_witness\<close>.

  \<^bold>\<open>Not modelled.\<close>
  \<^item> Input and output without decisions: the command line, the web interface, logging,
    configuration files, the driver of the model runtime, process and git tools (arguments of the
    model), diagnostics, the tables of \<open>state/store.py\<close> beyond the transition check.
  \<^item> Text for models: prompts, the agents and stages that assemble them and turn sketches into
    documents (\<open>agents/architect*\<close>, \<open>agents/ux*\<close>, \<open>agents/product_manager.py\<close>, the pipelines
    of \<open>product/\<close>), the context engine, the fetching of research.
  \<^item> Measurements: benchmarks, experiments, resource sampling.
  \<^item> The environment provisioning, the generation of tests and the requirement boundaries: they
    rest on the grammars of other tools or on regular expressions over prose whose engine would
    have to be modelled first.
  \<^item> Wording: messages, durations, renderings and the limits on the lengths of prose.
\<close>

end
